(* ===== verification/Prelude.thy ===== *)
theory Prelude
  imports Main "HOL-Library.Word" "HOL-Library.AList"
begin

text \<open>
  Shared vocabulary of the development: machine words and instants, results with errors as
  values, Go maps as association lists, the interfaces (locales) that several components
  implement, and the generic lemmas their proofs share.

  The interfaces are: \<open>codec\<close>, a pair of an encoder and a fallible decoder
  (\<open>canonical_codec\<close> is its extension to formats with one encoding per value); \<open>kv_store\<close>, the
  contract of a Go map; and \<open>machine\<close>, a component that consumes a sequence of inputs,
  keeps a state and produces an output per input.
\<close>

section \<open>Words, instants and durations\<close>

type_synonym byte = "8 word"
type_synonym u16 = "16 word"
type_synonym u32 = "32 word"
type_synonym u64 = "64 word"
type_synonym uuid = "128 word"

text \<open>
  A \<open>time.Time\<close> is the number of nanoseconds since Go's zero time (January 1, year 1, UTC),
  so the zero value of the type is 0. A \<open>time.Duration\<close> is a signed 64-bit number of
  nanoseconds: additions to an instant use its signed value, negation wraps, and
  \<open>Time.Sub\<close> saturates at the ends of the range, as the standard library does.
\<close>

type_synonym time = int
type_synonym duration = "64 word"

definition zero_time :: time where
  "zero_time = 0"

definition time_add :: "time \<Rightarrow> duration \<Rightarrow> time" where
  "time_add t d = t + sint d"

definition max_duration :: int where
  "max_duration = 2 ^ 63 - 1"

definition min_duration :: int where
  "min_duration = - (2 ^ 63)"

definition time_sub :: "time \<Rightarrow> time \<Rightarrow> duration" where
  "time_sub t u = word_of_int (max min_duration (min max_duration (t - u)))"

text \<open>Go's integer division truncates towards zero.\<close>

definition trunc_div :: "int \<Rightarrow> int \<Rightarrow> int" where
  "trunc_div a b = sgn a * sgn b * (\<bar>a\<bar> div \<bar>b\<bar>)"

definition milliseconds :: "duration \<Rightarrow> int" where
  "milliseconds d = trunc_div (sint d) 1000000"

lemma sint_word_of_int_64:
  "min_duration \<le> x \<Longrightarrow> x \<le> max_duration \<Longrightarrow> sint (word_of_int x :: duration) = x"
  by (simp add: sint_sbintrunc' signed_take_bit_int_eq_self min_duration_def max_duration_def)

lemma sint_time_sub [simp]:
  "sint (time_sub t u) = max min_duration (min max_duration (t - u))"
  unfolding time_sub_def
  by (rule sint_word_of_int_64) (auto simp: min_duration_def max_duration_def)

lemma sint_bounds_64: "min_duration \<le> sint (d::duration)" "sint (d::duration) \<le> max_duration"
  using sint_ge [of d] sint_lt [of d] by (simp_all add: min_duration_def max_duration_def)

text \<open>Negating a duration wraps only at the least one, which is its own negation.\<close>

lemma sint_uminus_64:
  "sint (- (d::duration)) = (if sint d = min_duration then min_duration else - sint d)"
proof (cases "sint d = min_duration")
  case True
  have "sint (- d) = signed_take_bit 63 (- sint d)"
    by (simp add: sint_word_minus)
  also have "\<dots> = min_duration"
    using True by (simp add: min_duration_def signed_take_bit_eq_take_bit_shift take_bit_eq_mod)
  finally show ?thesis using True by simp
next
  case False
  have "sint (- d) = signed_take_bit 63 (- sint d)"
    by (simp add: sint_word_minus)
  also have "\<dots> = - sint d"
    using False sint_bounds_64 [of d]
    by (simp add: signed_take_bit_int_eq_self min_duration_def max_duration_def)
  finally show ?thesis using False by simp
qed

section \<open>Results\<close>

text \<open>
  A fallible operation returns \<open>Inl\<close> of its error or \<open>Inr\<close> of its value. A Go run-time
  panic (index out of range, failed type assertion) is an error value of its own, so that a
  theorem can say that it does not happen.
\<close>

definition is_ok :: "'e + 'a \<Rightarrow> bool" where
  "is_ok r = (case r of Inl _ \<Rightarrow> False | Inr _ \<Rightarrow> True)"

lemma is_ok_simps [simp]: "is_ok (Inr x)" "\<not> is_ok (Inl e)"
  by (simp_all add: is_ok_def)

lemma is_ok_iff: "is_ok r \<longleftrightarrow> (\<exists>x. r = Inr x)"
  by (cases r) simp_all

text \<open>Prepending a value to a list that is computed later and may fail.\<close>

definition cons_result :: "'a \<Rightarrow> 'e + 'a list \<Rightarrow> 'e + 'a list" where
  "cons_result x r = (case r of Inl e \<Rightarrow> Inl e | Inr xs \<Rightarrow> Inr (x # xs))"

lemma cons_result_simps [simp]:
  "cons_result x (Inl e) = Inl e" "cons_result x (Inr xs) = Inr (x # xs)"
  by (simp_all add: cons_result_def)

lemma cons_result_eq_Inr [simp]:
  "cons_result x r = Inr ys \<longleftrightarrow> (\<exists>xs. r = Inr xs \<and> ys = x # xs)"
  by (cases r) auto

section \<open>Interface: encoders and decoders\<close>

text \<open>
  The contract of a wire format: on the values \<open>ok\<close> allows, decoding an encoding gives the
  value back.
\<close>

locale codec =
  fixes ok :: "'a \<Rightarrow> bool" and enc :: "'a \<Rightarrow> 'b" and dec :: "'b \<Rightarrow> 'e + 'a"
  assumes dec_enc: "ok x \<Longrightarrow> dec (enc x) = Inr x"
begin

lemma enc_inject: "ok x \<Longrightarrow> ok y \<Longrightarrow> enc x = enc y \<longleftrightarrow> x = y"
  using dec_enc by (metis sum.inject(2))

lemma enc_inj_on: "inj_on enc {x. ok x}"
  by (rule inj_onI) (simp add: enc_inject)

lemma enc_never_rejected: "ok x \<Longrightarrow> is_ok (dec (enc x))"
  by (simp add: dec_enc)

end

text \<open>
  A canonical format has one encoding per value: whatever decodes is the encoding of the result.
\<close>

locale canonical_codec = codec +
  assumes enc_dec: "dec b = Inr x \<Longrightarrow> enc x = b \<and> ok x"
begin

lemma dec_inject: "dec b = Inr x \<Longrightarrow> dec c = Inr x \<Longrightarrow> b = c"
  using enc_dec by blast

lemma dec_iff: "dec b = Inr x \<longleftrightarrow> ok x \<and> enc x = b"
  using enc_dec dec_enc by blast

end

section \<open>Interface: Go maps\<close>

text \<open>
  A Go map is an association list with the operations of \<open>HOL-Library.AList\<close>. Iteration
  order of a Go map is unspecified; a model function that iterates takes the list's order, and
  the theorems about it do not depend on the order.
\<close>

type_synonym ('k, 'v) gomap = "('k \<times> 'v) list"

locale kv_store =
  fixes look :: "'m \<Rightarrow> 'k \<Rightarrow> 'v option"
    and put :: "'k \<Rightarrow> 'v \<Rightarrow> 'm \<Rightarrow> 'm"
    and del :: "'k \<Rightarrow> 'm \<Rightarrow> 'm"
  assumes look_put: "look (put k v m) k' = (if k' = k then Some v else look m k')"
    and look_del: "look (del k m) k' = (if k' = k then None else look m k')"
begin

text \<open>Storing a list of entries one after another: the last entry of a key wins.\<close>

lemma look_fold_put:
  "look (fold (\<lambda>(k, v). put k v) kvs m) k =
     (case map_of (rev kvs) k of None \<Rightarrow> look m k | Some v \<Rightarrow> Some v)"
proof (induction kvs arbitrary: m)
  case Nil
  then show ?case by simp
next
  case (Cons kv kvs)
  obtain k' v' where kv: "kv = (k', v')" by (cases kv)
  show ?case
    by (simp add: Cons.IH kv look_put map_add_def split: option.splits)
qed

lemma look_fold_put_other:
  "k \<notin> fst ` set kvs \<Longrightarrow> look (fold (\<lambda>(k, v). put k v) kvs m) k = look m k"
  by (simp add: look_fold_put map_of_eq_None_iff [THEN iffD2])

lemma look_put_put: "look (put k v (put k w m)) = look (put k v m)"
  by (rule ext) (simp add: look_put)

lemma look_del_put: "look (del k (put k v m)) = look (del k m)"
  by (rule ext) (simp add: look_put look_del)

end

interpretation alist: kv_store map_of AList.update AList.delete
  by unfold_locales (simp_all add: update_conv' delete_conv')

section \<open>Interface: state machines\<close>

text \<open>
  A component that is fed one input after another. \<open>run_machine\<close> feeds a list of inputs and
  collects the outputs.
\<close>

fun run_machine :: "('s \<Rightarrow> 'i \<Rightarrow> 's \<times> 'o) \<Rightarrow> 's \<Rightarrow> 'i list \<Rightarrow> 's \<times> 'o list" where
  "run_machine f s [] = (s, [])"
| "run_machine f s (x # xs) =
     (let (s', y) = f s x; (s'', ys) = run_machine f s' xs in (s'', y # ys))"

definition machine_state :: "('s \<Rightarrow> 'i \<Rightarrow> 's \<times> 'o) \<Rightarrow> 's \<Rightarrow> 'i list \<Rightarrow> 's" where
  "machine_state f s xs = fst (run_machine f s xs)"

definition machine_outputs :: "('s \<Rightarrow> 'i \<Rightarrow> 's \<times> 'o) \<Rightarrow> 's \<Rightarrow> 'i list \<Rightarrow> 'o list" where
  "machine_outputs f s xs = snd (run_machine f s xs)"

lemma machine_state_simps [simp]:
  "machine_state f s [] = s"
  "machine_state f s (x # xs) = machine_state f (fst (f s x)) xs"
  by (simp_all add: machine_state_def Let_def split_beta)

lemma machine_outputs_simps [simp]:
  "machine_outputs f s [] = []"
  "machine_outputs f s (x # xs) = snd (f s x) # machine_outputs f (fst (f s x)) xs"
  by (simp_all add: machine_outputs_def Let_def split_beta)

lemma length_machine_outputs [simp]: "length (machine_outputs f s xs) = length xs"
  by (induction xs arbitrary: s) simp_all

lemma machine_state_append [simp]:
  "machine_state f s (xs @ ys) = machine_state f (machine_state f s xs) ys"
  by (induction xs arbitrary: s) simp_all

lemma machine_outputs_append:
  "machine_outputs f s (xs @ ys) = machine_outputs f s xs @ machine_outputs f (machine_state f s xs) ys"
  by (induction xs arbitrary: s) simp_all

lemma machine_outputs_nth:
  "i < length xs \<Longrightarrow>
     machine_outputs f s xs ! i = snd (f (machine_state f s (take i xs)) (xs ! i))"
  by (induction xs arbitrary: s i) (auto simp: less_Suc_eq_0_disj)

text \<open>
  The contract: an invariant that the initial state has and every step keeps, and a guarantee
  about the output of a step from a state with the invariant.
\<close>

locale machine =
  fixes step :: "'s \<Rightarrow> 'i \<Rightarrow> 's \<times> 'o"
    and init :: 's
    and inv :: "'s \<Rightarrow> bool"
    and guarantee :: "'i \<Rightarrow> 'o \<Rightarrow> bool"
  assumes inv_init: "inv init"
    and inv_step: "inv s \<Longrightarrow> inv (fst (step s x))"
    and step_guarantee: "inv s \<Longrightarrow> guarantee x (snd (step s x))"
begin

lemma inv_run: "inv s \<Longrightarrow> inv (machine_state step s xs)"
  by (induction xs arbitrary: s) (simp_all add: inv_step)

lemma inv_reachable: "inv (machine_state step init xs)"
  by (rule inv_run [OF inv_init])

lemma outputs_guarantee: "list_all2 guarantee xs (machine_outputs step init xs)"
proof -
  have "inv s \<Longrightarrow> list_all2 guarantee xs (machine_outputs step s xs)" for s
    by (induction xs arbitrary: s) (simp_all add: inv_step step_guarantee)
  then show ?thesis using inv_init by blast
qed

lemma reachable_guarantee: "guarantee x (snd (step (machine_state step init xs) x))"
  by (rule step_guarantee [OF inv_reachable])

end

section \<open>Generic lemmas\<close>

lemma foldl_snoc_map: "foldl (\<lambda>acc x. acc @ [f x]) acc xs = acc @ map f xs"
  by (induction xs arbitrary: acc) simp_all

lemma foldl_append_concat: "foldl (\<lambda>acc x. acc @ f x) acc xs = acc @ concat (map f xs)"
  by (induction xs arbitrary: acc) simp_all

lemma length_concat_const: "(\<And>x. length (f x) = n) \<Longrightarrow> length (concat (map f xs)) = n * length xs"
  by (induction xs) simp_all

end
