(* ===== verification/ModbusProtocol.thy ===== *)
theory ModbusProtocol
  imports Prelude
begin

unbundle bit_operations_syntax

text \<open>
  \<open>protocol/modbus.go\<close>: the frame format that connectors and mappers share (a 7-byte header
  followed by 16-bit words in network order), the coil and register conversions, and the client
  that reads from and writes to a Modbus device. The device library is a parameter: a record of
  its read operations; the calls that write are recorded in a trace.
\<close>

section \<open>Big-endian words\<close>

text \<open>
  \<open>binary.BigEndian.PutUint16\<close> and \<open>Uint16\<close>. Every call reads a slice of two bytes that
  is in range; the last equation of \<open>Uint16\<close> is not reached.
\<close>

definition PutUint16 :: "u16 \<Rightarrow> byte list" where
  "PutUint16 v = [ucast (drop_bit 8 v), ucast v]"

fun Uint16 :: "byte list \<Rightarrow> u16" where
  "Uint16 (a # b # _) = push_bit 8 (ucast a) OR ucast b"
| "Uint16 _ = 0"

definition slice :: "nat \<Rightarrow> nat \<Rightarrow> 'a list \<Rightarrow> 'a list" where
  "slice i j xs = take (j - i) (drop i xs)"

lemma length_PutUint16 [simp]: "length (PutUint16 v) = 2"
  by (simp add: PutUint16_def)

lemma Uint16_PutUint16 [simp]: "Uint16 (PutUint16 v @ bs) = v"
proof -
  have "push_bit 8 (ucast (ucast (drop_bit 8 v) :: byte)) OR ucast (ucast v :: byte) = v"
    by (rule bit_word_eqI) (auto simp: bit_simps)
  then show ?thesis by (simp add: PutUint16_def)
qed

lemma PutUint16_Uint16 [simp]: "PutUint16 (Uint16 [a, b]) = [a, b]"
proof -
  have "ucast (drop_bit 8 (push_bit 8 (ucast a) OR ucast b :: u16)) = a"
    by (rule bit_word_eqI) (auto simp: bit_simps dest: bit_imp_le_length)
  moreover have "ucast (push_bit 8 (ucast a) OR ucast b :: u16) = b"
    by (rule bit_word_eqI) (auto simp: bit_simps dest: bit_imp_le_length)
  ultimately show ?thesis by (simp add: PutUint16_def)
qed

section \<open>Headers\<close>

record modbus_header =
  mh_Slave :: byte
  mh_FunctionCode :: u16
  mh_Address :: u16
  mh_NumberOfCoilsOrRegisters :: u16

definition MODBUS_HEADER_LENGTH :: nat where
  "MODBUS_HEADER_LENGTH = 7"

definition MODBUS_MAXIMUM_NUMBER_OF_REGISTERS :: u16 where
  "MODBUS_MAXIMUM_NUMBER_OF_REGISTERS = 125"

definition MODBUS_MAXIMUM_NUMBER_OF_COILS :: u16 where
  "MODBUS_MAXIMUM_NUMBER_OF_COILS = 2000"

definition READ_COILS :: u16 where "READ_COILS = 0x01"
definition READ_DISCRETE_INPUTS :: u16 where "READ_DISCRETE_INPUTS = 0x02"
definition READ_HOLDING_REGISTERS :: u16 where "READ_HOLDING_REGISTERS = 0x03"
definition READ_INPUT_REGISTERS :: u16 where "READ_INPUT_REGISTERS = 0x04"
definition WRITE_SINGLE_COIL :: u16 where "WRITE_SINGLE_COIL = 0x05"
definition WRITE_SINGLE_REGISTER :: u16 where "WRITE_SINGLE_REGISTER = 0x06"
definition WRITE_MULTIPLE_COILS :: u16 where "WRITE_MULTIPLE_COILS = 0x0F"
definition WRITE_MULTIPLE_REGISTERS :: u16 where "WRITE_MULTIPLE_REGISTERS = 0x10"

lemmas modbus_code_defs =
  READ_COILS_def READ_DISCRETE_INPUTS_def READ_HOLDING_REGISTERS_def READ_INPUT_REGISTERS_def
  WRITE_SINGLE_COIL_def WRITE_SINGLE_REGISTER_def WRITE_MULTIPLE_COILS_def
  WRITE_MULTIPLE_REGISTERS_def

datatype modbus_error =
    OddNumberOfBytes nat
  | ShortFrame nat
  | ReadFailed u16 u16 u16 string
  | UnsupportedFunctionCode u16
  | ExpectedOneRegister u16
  | WrongNumberOfRegisters u16 nat
  | IndexOutOfRange
  | SliceOutOfRange
  | NonPositiveInterval

definition InjectModbusHeader :: "modbus_header \<Rightarrow> byte list \<Rightarrow> byte list" where
  "InjectModbusHeader header bytes =
     [mh_Slave header] @ PutUint16 (mh_FunctionCode header) @ PutUint16 (mh_Address header) @
     PutUint16 (mh_NumberOfCoilsOrRegisters header) @ bytes"

definition ExtractModbusHeader :: "byte list \<Rightarrow> modbus_error + (modbus_header \<times> byte list)" where
  "ExtractModbusHeader bytes =
     (if length bytes < MODBUS_HEADER_LENGTH then Inl (ShortFrame (length bytes))
      else Inr (\<lparr>mh_Slave = bytes ! 0,
                 mh_FunctionCode = Uint16 (slice 1 3 bytes),
                 mh_Address = Uint16 (slice 3 5 bytes),
                 mh_NumberOfCoilsOrRegisters = Uint16 (slice 5 7 bytes)\<rparr>,
                drop MODBUS_HEADER_LENGTH bytes))"

section \<open>Coils and registers\<close>

definition CoilsToBytes :: "bool list \<Rightarrow> byte list" where
  "CoilsToBytes values =
     foldl (\<lambda>bytes (i, v). if v then bytes[i * 2 := 0xff, i * 2 + 1 := 0x00] else bytes)
       (replicate (length values * 2) 0) (enumerate 0 values)"

definition RegistersToBytes :: "u16 list \<Rightarrow> byte list" where
  "RegistersToBytes values = foldl (\<lambda>bytes v. bytes @ PutUint16 v) [] values"

definition BytesToRegisters :: "byte list \<Rightarrow> modbus_error + u16 list" where
  "BytesToRegisters bytes =
     (if length bytes mod 2 \<noteq> 0 then Inl (OddNumberOfBytes (length bytes))
      else Inr (map (\<lambda>i. Uint16 (slice (i * 2) (i * 2 + 2) bytes)) [0..<length bytes div 2]))"

definition RegistersToCoils :: "u16 list \<Rightarrow> bool list" where
  "RegistersToCoils registers = map (\<lambda>r. r = 0xff00) registers"

definition CoilsToRegisters :: "bool list \<Rightarrow> u16 list" where
  "CoilsToRegisters coils = map (\<lambda>c. if c then 0xff00 else 0) coils"

definition BytesToCoils :: "byte list \<Rightarrow> modbus_error + bool list" where
  "BytesToCoils bytes =
     (case BytesToRegisters bytes of Inl e \<Rightarrow> Inl e | Inr registers \<Rightarrow> Inr (RegistersToCoils registers))"

section \<open>Lemmas on the conversions\<close>

lemma CoilsToBytes_fold:
  "length pre = n * 2 \<Longrightarrow>
   foldl (\<lambda>bytes (i, v). if v then bytes[i * 2 := 0xff, i * 2 + 1 := 0x00] else bytes)
     (pre @ replicate (length vs * 2) (0::byte)) (enumerate n vs) =
   pre @ concat (map (\<lambda>v. if v then [0xff, 0x00] else [0x00, 0x00]) vs)"
proof (induction vs arbitrary: n pre)
  case Nil
  then show ?case by simp
next
  case (Cons v vs)
  let ?w = "if v then [0xff, 0x00] else [0x00, 0x00] :: byte list"
  have "length (pre @ ?w) = Suc n * 2" using Cons.prems by simp
  note IH = Cons.IH [OF this]
  have "(pre @ 0 # 0 # replicate (length vs * 2) (0::byte))[n * 2 := 0xff, n * 2 + 1 := 0x00] =
        pre @ 0xff # 0 # replicate (length vs * 2) 0"
    using Cons.prems by (simp add: list_update_append)
  with IH show ?case by (cases v) simp_all
qed

lemma CoilsToBytes_eq:
  "CoilsToBytes cs = concat (map (\<lambda>v. if v then [0xff, 0x00] else [0x00, 0x00]) cs)"
  using CoilsToBytes_fold [of "[]" 0 cs] by (simp add: CoilsToBytes_def)

lemma RegistersToBytes_eq: "RegistersToBytes rs = concat (map PutUint16 rs)"
  using foldl_append_concat [of PutUint16 "[]" rs] by (simp add: RegistersToBytes_def)

lemma length_RegistersToBytes [simp]: "length (RegistersToBytes rs) = 2 * length rs"
  by (simp add: RegistersToBytes_eq length_concat_const)

lemma length_CoilsToBytes [simp]: "length (CoilsToBytes cs) = 2 * length cs"
  by (induction cs) (simp_all add: CoilsToBytes_eq)

lemma length_CoilsToRegisters [simp]: "length (CoilsToRegisters cs) = length cs"
  by (simp add: CoilsToRegisters_def)

lemma length_RegistersToCoils [simp]: "length (RegistersToCoils rs) = length rs"
  by (simp add: RegistersToCoils_def)

lemma CoilsToBytes_via_registers: "CoilsToBytes cs = RegistersToBytes (CoilsToRegisters cs)"
  by (induction cs) (simp_all add: CoilsToBytes_eq RegistersToBytes_eq CoilsToRegisters_def PutUint16_def)

lemma RegistersToCoils_CoilsToRegisters [simp]: "RegistersToCoils (CoilsToRegisters cs) = cs"
  by (induction cs) (simp_all add: RegistersToCoils_def CoilsToRegisters_def)

text \<open>The indexed read loop, one word at a time.\<close>

lemma read_words_Cons:
  "map (\<lambda>i. Uint16 (slice (i * 2) (i * 2 + 2) (a # b # bs))) [0..<Suc n] =
     Uint16 [a, b] # map (\<lambda>i. Uint16 (slice (i * 2) (i * 2 + 2) bs)) [0..<n]"
  by (simp add: slice_def map_upt_Suc numeral_2_eq_2 del: upt_Suc)

lemma BytesToRegisters_Cons [simp]:
  "BytesToRegisters (a # b # bs) = cons_result (Uint16 [a, b])
     (map_sum (\<lambda>e. case e of OddNumberOfBytes n \<Rightarrow> OddNumberOfBytes (n + 2) | _ \<Rightarrow> e) id (BytesToRegisters bs))"
proof (cases "length bs mod 2 = 0")
  case True
  have "length (a # b # bs) div 2 = Suc (length bs div 2)" "length (a # b # bs) mod 2 = length bs mod 2"
    by simp_all
  with True show ?thesis
    unfolding BytesToRegisters_def by (simp only: read_words_Cons) simp
qed (simp add: BytesToRegisters_def)

lemma BytesToRegisters_Nil [simp]: "BytesToRegisters [] = Inr []"
  by (simp add: BytesToRegisters_def)

lemma BytesToRegisters_RegistersToBytes [simp]: "BytesToRegisters (RegistersToBytes rs) = Inr rs"
proof (induction rs)
  case Nil
  show ?case by (simp add: RegistersToBytes_eq)
next
  case (Cons r rs)
  obtain a b where ab: "PutUint16 r = [a, b]" by (simp add: PutUint16_def)
  then have "Uint16 [a, b] = r" using Uint16_PutUint16 [of r "[]"] by simp
  with Cons ab show ?case by (simp add: RegistersToBytes_eq)
qed

lemma RegistersToBytes_BytesToRegisters:
  "BytesToRegisters bs = Inr rs \<Longrightarrow> RegistersToBytes rs = bs"
proof (induction bs arbitrary: rs rule: induct_list012)
  case 1
  then show ?case by (simp add: RegistersToBytes_eq)
next
  case (2 x)
  then show ?case by (simp add: BytesToRegisters_def)
next
  case (3 a b bs)
  then obtain ss where ss: "BytesToRegisters bs = Inr ss" "rs = Uint16 [a, b] # ss"
    by (cases "BytesToRegisters bs") auto
  with "3.IH" show ?case by (simp add: RegistersToBytes_eq del: Uint16.simps)
qed

lemma ExtractModbusHeader_InjectModbusHeader [simp]:
  "ExtractModbusHeader (InjectModbusHeader h bs) = Inr (h, bs)"
proof -
  let ?f = "PutUint16 (mh_FunctionCode h)" and ?a = "PutUint16 (mh_Address h)"
    and ?n = "PutUint16 (mh_NumberOfCoilsOrRegisters h)"
  have len: "length (InjectModbusHeader h bs) = 7 + length bs"
    by (simp add: InjectModbusHeader_def)
  have "Uint16 (slice 1 3 (InjectModbusHeader h bs)) = mh_FunctionCode h"
       "Uint16 (slice 3 5 (InjectModbusHeader h bs)) = mh_Address h"
       "Uint16 (slice 5 7 (InjectModbusHeader h bs)) = mh_NumberOfCoilsOrRegisters h"
       "drop 7 (InjectModbusHeader h bs) = bs" "InjectModbusHeader h bs ! 0 = mh_Slave h"
    using Uint16_PutUint16 [of _ "[]"]
    by (simp_all add: InjectModbusHeader_def slice_def del: Uint16.simps)
  then show ?thesis
    by (simp add: ExtractModbusHeader_def len MODBUS_HEADER_LENGTH_def)
qed

lemma InjectModbusHeader_ExtractModbusHeader:
  assumes "ExtractModbusHeader frame = Inr (h, bs)"
  shows "InjectModbusHeader h bs = frame"
proof -
  have len: "7 \<le> length frame"
    using assms by (simp add: ExtractModbusHeader_def MODBUS_HEADER_LENGTH_def split: if_splits)
  obtain a b c d e f g rest where fr: "frame = a # b # c # d # e # f # g # rest"
    using len by (auto simp: Suc_le_length_iff numeral_eq_Suc)
  show ?thesis using assms
    by (auto simp: fr ExtractModbusHeader_def MODBUS_HEADER_LENGTH_def slice_def
        InjectModbusHeader_def simp del: Uint16.simps)
qed

end
