(* ===== verification/ModbusClient.thy ===== *)
theory ModbusClient
  imports ModbusProtocol
begin

text \<open>
  The Modbus client of \<open>protocol/modbus.go\<close> and the register-group check of
  \<open>connector/modbus.go\<close>. The device library is a parameter. What the client does to the
  device is a trace of calls; the slice that \<open>Read\<close> fills is modelled with its backing array.
\<close>

section \<open>The device\<close>

text \<open>
  The read operations of the library's client, each with the unit id that \<open>SetUnitId\<close> set
  just before the call.
\<close>

datatype register_kind = HOLDING_REGISTER | INPUT_REGISTER

record modbus_device =
  dev_ReadCoils :: "byte \<Rightarrow> u16 \<Rightarrow> u16 \<Rightarrow> string + bool list"
  dev_ReadDiscreteInputs :: "byte \<Rightarrow> u16 \<Rightarrow> u16 \<Rightarrow> string + bool list"
  dev_ReadRegisters :: "byte \<Rightarrow> u16 \<Rightarrow> u16 \<Rightarrow> register_kind \<Rightarrow> string + u16 list"

text \<open>
  The documented behaviour of the library: a successful read returns as many values as were
  asked for.
\<close>

definition exact_device :: "modbus_device \<Rightarrow> bool" where
  "exact_device dev \<longleftrightarrow>
     (\<forall>u a n cs. dev_ReadCoils dev u a n = Inr cs \<longrightarrow> length cs = unat n) \<and>
     (\<forall>u a n cs. dev_ReadDiscreteInputs dev u a n = Inr cs \<longrightarrow> length cs = unat n) \<and>
     (\<forall>u a n k rs. dev_ReadRegisters dev u a n k = Inr rs \<longrightarrow> length rs = unat n)"

datatype device_call =
    SetUnitId byte
  | WriteCoil u16 bool
  | WriteRegister u16 u16
  | WriteCoils u16 "bool list"
  | WriteRegisters u16 "u16 list"

section \<open>Read\<close>

text \<open>
  \<open>read_frame\<close> is the frame \<open>Read\<close> builds. \<open>Client_Read\<close> appends it to \<open>bytes[:0]\<close>: when it
  fits the capacity of the caller's slice it lands in the caller's backing array, otherwise
  \<open>append\<close> allocates and the caller's array keeps its content. The number of bytes is
  returned either way.
\<close>

definition read_frame :: "modbus_device \<Rightarrow> modbus_header \<Rightarrow> modbus_error + byte list" where
  "read_frame dev h =
     (let unit = mh_Slave h; a = mh_Address h; n = mh_NumberOfCoilsOrRegisters h;
          fc = mh_FunctionCode h in
      if fc = READ_COILS then
        (case dev_ReadCoils dev unit a n of
           Inl err \<Rightarrow> Inl (ReadFailed a n fc err)
         | Inr result \<Rightarrow> Inr (InjectModbusHeader h (CoilsToBytes result)))
      else if fc = READ_DISCRETE_INPUTS then
        (case dev_ReadDiscreteInputs dev unit a n of
           Inl err \<Rightarrow> Inl (ReadFailed a n fc err)
         | Inr result \<Rightarrow> Inr (InjectModbusHeader h (CoilsToBytes result)))
      else if fc = READ_HOLDING_REGISTERS then
        (case dev_ReadRegisters dev unit a n HOLDING_REGISTER of
           Inl err \<Rightarrow> Inl (ReadFailed a n fc err)
         | Inr result \<Rightarrow> Inr (InjectModbusHeader h (RegistersToBytes result)))
      else if fc = READ_INPUT_REGISTERS then
        (case dev_ReadRegisters dev unit a n INPUT_REGISTER of
           Inl err \<Rightarrow> Inl (ReadFailed a n fc err)
         | Inr result \<Rightarrow> Inr (InjectModbusHeader h (RegistersToBytes result)))
      else Inl (UnsupportedFunctionCode fc))"

definition append_to_backing :: "byte list \<Rightarrow> byte list \<Rightarrow> byte list" where
  "append_to_backing backing content =
     (if length content \<le> length backing then content @ drop (length content) backing else backing)"

definition Client_Read ::
    "modbus_device \<Rightarrow> modbus_header \<Rightarrow> byte list \<Rightarrow> byte list \<times> (modbus_error + nat)" where
  "Client_Read dev h backing =
     (case read_frame dev h of
        Inl e \<Rightarrow> (backing, Inl e)
      | Inr frame \<Rightarrow> (append_to_backing backing frame, Inr (length frame)))"

section \<open>Poll\<close>

text \<open>
  \<open>time.NewTicker\<close> panics unless the interval is positive. The capacity is computed in
  \<open>uint16\<close>. Each tick reads and sends \<open>bytes[:n]\<close>, which panics
  when \<open>n\<close> exceeds the capacity. \<open>poll_ticks\<close> runs the loop for a list of device states, one
  per tick, and returns the frames sent and how the loop left (\<open>None\<close>: it is still running).
\<close>

definition poll_capacity :: "modbus_header \<Rightarrow> nat" where
  "poll_capacity h = unat (mh_NumberOfCoilsOrRegisters h * 2 + of_nat MODBUS_HEADER_LENGTH)"

definition poll_tick ::
    "modbus_device \<Rightarrow> modbus_header \<Rightarrow> byte list \<Rightarrow> byte list \<times> (modbus_error + byte list)" where
  "poll_tick dev h backing =
     (case Client_Read dev h backing of
        (backing', Inl e) \<Rightarrow> (backing', Inl e)
      | (backing', Inr n) \<Rightarrow>
          (backing', if n \<le> length backing' then Inr (take n backing') else Inl SliceOutOfRange))"

fun poll_ticks ::
    "modbus_device list \<Rightarrow> modbus_header \<Rightarrow> byte list \<Rightarrow> byte list list \<times> modbus_error option" where
  "poll_ticks [] h backing = ([], None)"
| "poll_ticks (dev # devs) h backing =
     (case poll_tick dev h backing of
        (_, Inl e) \<Rightarrow> ([], Some e)
      | (backing', Inr frame) \<Rightarrow>
          (let (frames, r) = poll_ticks devs h backing' in (frame # frames, r)))"

definition Poll ::
    "duration \<Rightarrow> modbus_device list \<Rightarrow> modbus_header \<Rightarrow> byte list list \<times> modbus_error option" where
  "Poll pollingInterval devs h =
     (if sint pollingInterval \<le> 0 then ([], Some NonPositiveInterval)
      else poll_ticks devs h (replicate (poll_capacity h) 0))"

section \<open>Write\<close>

text \<open>
  The result of a write call on the device is not looked at. \<open>coils[0]\<close> is the one index
  that is not checked.
\<close>

definition write_payload ::
    "modbus_header \<Rightarrow> byte list \<Rightarrow> device_call list \<times> (modbus_error + nat)" where
  "write_payload header bytes =
     (let unit = SetUnitId (mh_Slave header); fc = mh_FunctionCode header;
          a = mh_Address header; n = mh_NumberOfCoilsOrRegisters header in
      if fc = WRITE_SINGLE_COIL then
        (if n \<noteq> 1 then ([unit], Inl (ExpectedOneRegister n))
         else case BytesToCoils bytes of
                Inl e \<Rightarrow> ([unit], Inl e)
              | Inr [] \<Rightarrow> ([unit], Inl IndexOutOfRange)
              | Inr (c # _) \<Rightarrow> ([unit, WriteCoil a c], Inr (length bytes)))
      else if fc = WRITE_SINGLE_REGISTER then
        (if n \<noteq> 1 then ([unit], Inl (ExpectedOneRegister n))
         else case BytesToRegisters bytes of
                Inl e \<Rightarrow> ([unit], Inl e)
              | Inr registers \<Rightarrow>
                  if length registers \<noteq> unat n
                  then ([unit], Inl (WrongNumberOfRegisters n (length registers)))
                  else ([unit, WriteRegister a (registers ! 0)], Inr (length bytes)))
      else if fc = WRITE_MULTIPLE_COILS then
        (case BytesToCoils bytes of
           Inl e \<Rightarrow> ([unit], Inl e)
         | Inr coils \<Rightarrow> ([unit, WriteCoils a coils], Inr (length bytes)))
      else if fc = WRITE_MULTIPLE_REGISTERS then
        (case BytesToRegisters bytes of
           Inl e \<Rightarrow> ([unit], Inl e)
         | Inr registers \<Rightarrow>
             if length registers \<noteq> unat n
             then ([unit], Inl (WrongNumberOfRegisters n (length registers)))
             else ([unit, WriteRegisters a registers], Inr (length bytes)))
      else ([unit], Inl (UnsupportedFunctionCode fc)))"

definition Client_Write :: "byte list \<Rightarrow> device_call list \<times> (modbus_error + nat)" where
  "Client_Write frame =
     (case ExtractModbusHeader frame of
        Inl e \<Rightarrow> ([], Inl e)
      | Inr (header, bytes) \<Rightarrow> write_payload header bytes)"

section \<open>Register groups\<close>

text \<open>
  The check \<open>NewModbusConnector\<close> makes before it opens the device, one register group after
  another; the error names the first group over its limit.
\<close>

datatype group_error = TooManyCoils modbus_header | TooManyRegisters modbus_header

fun check_register_groups :: "modbus_header list \<Rightarrow> group_error + unit" where
  "check_register_groups [] = Inr ()"
| "check_register_groups (rgc # rgcs) =
     (if mh_FunctionCode rgc = READ_COILS \<or> mh_FunctionCode rgc = READ_DISCRETE_INPUTS then
        (if mh_NumberOfCoilsOrRegisters rgc > MODBUS_MAXIMUM_NUMBER_OF_COILS
         then Inl (TooManyCoils rgc) else check_register_groups rgcs)
      else
        (if mh_NumberOfCoilsOrRegisters rgc > MODBUS_MAXIMUM_NUMBER_OF_REGISTERS
         then Inl (TooManyRegisters rgc) else check_register_groups rgcs))"

section \<open>Interpretations of the codec interface\<close>

text \<open>
  The frame format is a canonical codec of headers and payloads, the register format a canonical
  codec of register lists; the coil format is a codec that is not canonical (every word other
  than \<open>0xff00\<close> reads as an inactive coil).
\<close>

interpretation frame: canonical_codec "\<lambda>_. True" "\<lambda>(h, bs). InjectModbusHeader h bs" ExtractModbusHeader
  by unfold_locales (auto simp: InjectModbusHeader_ExtractModbusHeader)

interpretation registers: canonical_codec "\<lambda>_. True" RegistersToBytes BytesToRegisters
  by unfold_locales (simp_all add: RegistersToBytes_BytesToRegisters)

interpretation coils: codec "\<lambda>_. True" CoilsToBytes BytesToCoils
  by unfold_locales (simp add: BytesToCoils_def CoilsToBytes_via_registers)

lemma BytesToCoils_CoilsToBytes [simp]: "BytesToCoils (CoilsToBytes cs) = Inr cs"
  by (rule coils.dec_enc) simp

lemma length_InjectModbusHeader [simp]: "length (InjectModbusHeader h bs) = 7 + length bs"
  by (simp add: InjectModbusHeader_def)

lemma BytesToRegisters_length: "BytesToRegisters bs = Inr rs \<Longrightarrow> length bs = 2 * length rs"
  using RegistersToBytes_BytesToRegisters length_RegistersToBytes by metis

lemma BytesToCoils_length: "BytesToCoils bs = Inr cs \<Longrightarrow> length bs = 2 * length cs"
  by (auto simp: BytesToCoils_def BytesToRegisters_length split: sum.splits)

section \<open>Lemmas on the client\<close>

lemma read_frame_length:
  assumes "exact_device dev" "read_frame dev h = Inr frame"
  shows "length frame = 2 * unat (mh_NumberOfCoilsOrRegisters h) + 7"
  using assms by (auto simp: read_frame_def exact_device_def Let_def split: if_splits sum.splits)

lemma poll_capacity_eq:
  assumes "unat (mh_NumberOfCoilsOrRegisters h) \<le> 32764"
  shows "poll_capacity h = 2 * unat (mh_NumberOfCoilsOrRegisters h) + 7"
proof -
  have "unat (mh_NumberOfCoilsOrRegisters h * 2 + 7) = 2 * unat (mh_NumberOfCoilsOrRegisters h) + 7"
    using assms by (simp add: unat_word_ariths)
  then show ?thesis by (simp add: poll_capacity_def MODBUS_HEADER_LENGTH_def)
qed

lemma poll_tick_fits:
  assumes "read_frame dev h = Inr frame" "length frame \<le> length backing"
  shows "poll_tick dev h backing = (frame @ drop (length frame) backing, Inr frame)"
  using assms by (simp add: poll_tick_def Client_Read_def append_to_backing_def)

lemma poll_ticks_fits:
  assumes "\<forall>dev\<in>set devs. \<exists>frame. read_frame dev h = Inr frame \<and> length frame = n"
    and "n \<le> length backing"
  shows "poll_ticks devs h backing = (map (\<lambda>dev. projr (read_frame dev h)) devs, None)"
  using assms
proof (induction devs arbitrary: backing)
  case Nil
  then show ?case by simp
next
  case (Cons dev devs)
  then obtain frame where fr: "read_frame dev h = Inr frame" "length frame = n" by auto
  with Cons.prems(2) have "poll_tick dev h backing = (frame @ drop (length frame) backing, Inr frame)"
    by (intro poll_tick_fits) auto
  moreover have "poll_ticks devs h (frame @ drop (length frame) backing) =
      (map (\<lambda>dev. projr (read_frame dev h)) devs, None)"
    using Cons.prems fr by (intro Cons.IH) auto
  ultimately show ?case by (simp add: fr)
qed

lemma accepted_group_limit:
  "check_register_groups rgcs = Inr () \<Longrightarrow> h \<in> set rgcs \<Longrightarrow> unat (mh_NumberOfCoilsOrRegisters h) \<le> 2000"
proof (induction rgcs rule: check_register_groups.induct)
  case (2 rgc rgcs)
  then show ?case
    by (auto simp: MODBUS_MAXIMUM_NUMBER_OF_COILS_def MODBUS_MAXIMUM_NUMBER_OF_REGISTERS_def
        word_less_nat_alt not_less split: if_splits)
qed simp

lemma Client_Write_frame: "Client_Write (InjectModbusHeader h bs) = write_payload h bs"
  by (simp add: Client_Write_def)

lemma modbus_write_codes_distinct:
  "WRITE_SINGLE_REGISTER \<noteq> WRITE_SINGLE_COIL"
  "WRITE_MULTIPLE_COILS \<noteq> WRITE_SINGLE_COIL" "WRITE_MULTIPLE_COILS \<noteq> WRITE_SINGLE_REGISTER"
  "WRITE_MULTIPLE_REGISTERS \<noteq> WRITE_SINGLE_COIL" "WRITE_MULTIPLE_REGISTERS \<noteq> WRITE_SINGLE_REGISTER"
  "WRITE_MULTIPLE_REGISTERS \<noteq> WRITE_MULTIPLE_COILS"
  by (simp_all add: modbus_code_defs)

text \<open>The branches of \<open>write_payload\<close>, one per function code.\<close>

lemma write_payload_cases:
  obtains (single_coil) "mh_FunctionCode h = WRITE_SINGLE_COIL"
        "write_payload h bs =
           (if mh_NumberOfCoilsOrRegisters h \<noteq> 1
            then ([SetUnitId (mh_Slave h)], Inl (ExpectedOneRegister (mh_NumberOfCoilsOrRegisters h)))
            else case BytesToCoils bs of
                   Inl e \<Rightarrow> ([SetUnitId (mh_Slave h)], Inl e)
                 | Inr [] \<Rightarrow> ([SetUnitId (mh_Slave h)], Inl IndexOutOfRange)
                 | Inr (c # _) \<Rightarrow> ([SetUnitId (mh_Slave h), WriteCoil (mh_Address h) c], Inr (length bs)))"
    | (single_register) "mh_FunctionCode h = WRITE_SINGLE_REGISTER"
        "write_payload h bs =
           (if mh_NumberOfCoilsOrRegisters h \<noteq> 1
            then ([SetUnitId (mh_Slave h)], Inl (ExpectedOneRegister (mh_NumberOfCoilsOrRegisters h)))
            else case BytesToRegisters bs of
                   Inl e \<Rightarrow> ([SetUnitId (mh_Slave h)], Inl e)
                 | Inr rs \<Rightarrow> if length rs \<noteq> 1
                     then ([SetUnitId (mh_Slave h)], Inl (WrongNumberOfRegisters 1 (length rs)))
                     else ([SetUnitId (mh_Slave h), WriteRegister (mh_Address h) (rs ! 0)], Inr (length bs)))"
    | (multiple_coils) "mh_FunctionCode h = WRITE_MULTIPLE_COILS"
        "write_payload h bs =
           (case BytesToCoils bs of
              Inl e \<Rightarrow> ([SetUnitId (mh_Slave h)], Inl e)
            | Inr cs \<Rightarrow> ([SetUnitId (mh_Slave h), WriteCoils (mh_Address h) cs], Inr (length bs)))"
    | (multiple_registers) "mh_FunctionCode h = WRITE_MULTIPLE_REGISTERS"
        "write_payload h bs =
           (case BytesToRegisters bs of
              Inl e \<Rightarrow> ([SetUnitId (mh_Slave h)], Inl e)
            | Inr rs \<Rightarrow> if length rs \<noteq> unat (mh_NumberOfCoilsOrRegisters h)
                then ([SetUnitId (mh_Slave h)],
                      Inl (WrongNumberOfRegisters (mh_NumberOfCoilsOrRegisters h) (length rs)))
                else ([SetUnitId (mh_Slave h), WriteRegisters (mh_Address h) rs], Inr (length bs)))"
    | (unsupported) "mh_FunctionCode h \<noteq> WRITE_SINGLE_COIL"
        "write_payload h bs =
           ([SetUnitId (mh_Slave h)], Inl (UnsupportedFunctionCode (mh_FunctionCode h)))"
proof -
  note W = write_payload_def [of h bs, unfolded Let_def]
  consider "mh_FunctionCode h = WRITE_SINGLE_COIL" | "mh_FunctionCode h = WRITE_SINGLE_REGISTER"
    | "mh_FunctionCode h = WRITE_MULTIPLE_COILS" | "mh_FunctionCode h = WRITE_MULTIPLE_REGISTERS"
    | "mh_FunctionCode h \<notin> {WRITE_SINGLE_COIL, WRITE_SINGLE_REGISTER, WRITE_MULTIPLE_COILS,
        WRITE_MULTIPLE_REGISTERS}"
    by blast
  then show ?thesis
  proof cases
    case 1
    show ?thesis by (rule single_coil [OF 1]) (simp add: W 1)
  next
    case 2
    show ?thesis
      by (rule single_register [OF 2])
         (simp add: W 2 modbus_write_codes_distinct cong: sum.case_cong if_cong)
  next
    case 3
    show ?thesis by (rule multiple_coils [OF 3]) (simp add: W 3 modbus_write_codes_distinct)
  next
    case 4
    show ?thesis by (rule multiple_registers [OF 4]) (simp add: W 4 modbus_write_codes_distinct)
  next
    case 5
    then show ?thesis by (intro unsupported) (simp_all add: W)
  qed
qed

section \<open>Properties\<close>

text \<open>C33: The frame format is a bijection. A byte sequence splits into a header and a payload
  exactly when it is the frame \<open>InjectModbusHeader\<close> builds from them, and the only sequences
  \<open>ExtractModbusHeader\<close> rejects are those shorter than the seven header bytes.\<close>

theorem modbus_frame_bijection:
  "(ExtractModbusHeader f = Inr (h, bs) \<longleftrightarrow> f = InjectModbusHeader h bs) \<and>
   (is_ok (ExtractModbusHeader f) \<longleftrightarrow> MODBUS_HEADER_LENGTH \<le> length f)"
proof
  show "ExtractModbusHeader f = Inr (h, bs) \<longleftrightarrow> f = InjectModbusHeader h bs"
    using frame.dec_iff [of f "(h, bs)"] by auto
  show "is_ok (ExtractModbusHeader f) \<longleftrightarrow> MODBUS_HEADER_LENGTH \<le> length f"
    by (simp add: ExtractModbusHeader_def not_less)
qed

text \<open>The register format is a bijection onto the even-length byte sequences, and the coil
  format is the register format of the words \<open>0xff00\<close> and \<open>0x0000\<close>: coils survive the
  trip through bytes.\<close>

theorem modbus_word_formats:
  "(BytesToRegisters bs = Inr rs \<longleftrightarrow> bs = RegistersToBytes rs) \<and>
   (is_ok (BytesToRegisters bs) \<longleftrightarrow> even (length bs)) \<and>
   CoilsToBytes cs = RegistersToBytes (CoilsToRegisters cs) \<and>
   BytesToCoils (CoilsToBytes cs) = Inr cs"
proof (intro conjI)
  show "BytesToRegisters bs = Inr rs \<longleftrightarrow> bs = RegistersToBytes rs"
    using registers.dec_iff [of bs rs] by auto
  show "is_ok (BytesToRegisters bs) \<longleftrightarrow> even (length bs)"
    by (auto simp: BytesToRegisters_def)
qed (simp_all add: CoilsToBytes_via_registers [symmetric])

text \<open>Polling stays inside its buffer. For every register group the connector accepts, and
  whatever sequence of reads succeed or fail on a device that returns as many values as it is
  asked for, \<open>Poll\<close> never slices past the capacity it allocated, and every frame it sends is the
  group's header followed by two bytes per coil or register.\<close>

theorem poll_within_buffer:
  assumes "check_register_groups rgcs = Inr ()" "h \<in> set rgcs" "\<forall>dev\<in>set devs. exact_device dev"
  shows "snd (Poll interval devs h) \<noteq> Some SliceOutOfRange \<and>
    (\<forall>f\<in>set (fst (Poll interval devs h)). \<exists>bs. f = InjectModbusHeader h bs \<and>
       length bs = 2 * unat (mh_NumberOfCoilsOrRegisters h))"
proof -
  let ?n = "unat (mh_NumberOfCoilsOrRegisters h)"
  have lim: "?n \<le> 2000" by (rule accepted_group_limit [OF assms(1,2)])
  have frame_shape: "\<exists>bs. f = InjectModbusHeader h bs" if "read_frame dev h = Inr f" for dev f
    using that by (auto simp: read_frame_def Let_def split: if_splits sum.splits)
  have "2 * ?n + 7 \<le> length b \<Longrightarrow> snd (poll_ticks devs h b) \<noteq> Some SliceOutOfRange \<and>
      (\<forall>f\<in>set (fst (poll_ticks devs h b)). \<exists>bs. f = InjectModbusHeader h bs \<and> length bs = 2 * ?n)" for b
    using assms(3)
  proof (induction devs arbitrary: b)
    case (Cons dev devs)
    show ?case
    proof (cases "read_frame dev h")
      case (Inl e)
      then have "e \<noteq> SliceOutOfRange" by (auto simp: read_frame_def Let_def split: if_splits sum.splits)
      with Inl show ?thesis by (simp add: poll_tick_def Client_Read_def)
    next
      case (Inr f)
      have len: "length f = 2 * ?n + 7" using read_frame_length [of dev h f] Inr Cons.prems by simp
      then have "poll_tick dev h b = (f @ drop (length f) b, Inr f)"
        using Inr Cons.prems by (intro poll_tick_fits) auto
      moreover obtain bs where "f = InjectModbusHeader h bs" using frame_shape Inr by blast
      moreover have "2 * ?n + 7 \<le> length (f @ drop (length f) b)" using Cons.prems len by simp
      ultimately show ?thesis
        using Cons.IH [of "f @ drop (length f) b"] Cons.prems len by (auto simp: split_beta Let_def)
    qed
  qed simp
  moreover have "poll_capacity h = 2 * ?n + 7" using lim by (intro poll_capacity_eq) simp
  ultimately have "snd (poll_ticks devs h (replicate (poll_capacity h) 0)) \<noteq> Some SliceOutOfRange \<and>
      (\<forall>f\<in>set (fst (poll_ticks devs h (replicate (poll_capacity h) 0))).
         \<exists>bs. f = InjectModbusHeader h bs \<and> length bs = 2 * ?n)"
    by (metis length_replicate order_refl)
  then show ?thesis by (simp add: Poll_def)
qed

definition sample_header :: modbus_header where
  "sample_header = \<lparr>mh_Slave = 1, mh_FunctionCode = READ_INPUT_REGISTERS, mh_Address = 51440,
                    mh_NumberOfCoilsOrRegisters = 2\<rparr>"

definition sample_device :: modbus_device where
  "sample_device =
     \<lparr>dev_ReadCoils = (\<lambda>u a n. Inr (replicate (unat n) True)),
      dev_ReadDiscreteInputs = (\<lambda>u a n. Inl ''timeout''),
      dev_ReadRegisters = (\<lambda>u a n k. Inr (replicate (unat n) a))\<rparr>"

lemma sample_device_exact: "exact_device sample_device"
  by (simp add: exact_device_def sample_device_def)

theorem poll_within_buffer_witness:
  "snd (Poll 1 [sample_device, sample_device] sample_header) \<noteq> Some SliceOutOfRange \<and>
   length (fst (Poll 1 [sample_device, sample_device] sample_header)) = 2"
proof
  have "check_register_groups [sample_header] = Inr ()"
    by (simp add: sample_header_def modbus_code_defs MODBUS_MAXIMUM_NUMBER_OF_REGISTERS_def)
  then show "snd (Poll 1 [sample_device, sample_device] sample_header) \<noteq> Some SliceOutOfRange"
    using poll_within_buffer [of "[sample_header]" sample_header "[sample_device, sample_device]" 1]
      sample_device_exact by simp
  have "read_frame sample_device sample_header =
      Inr (InjectModbusHeader sample_header (RegistersToBytes [51440, 51440]))"
    by code_simp
  then have "length (fst (poll_ticks [sample_device, sample_device] sample_header
      (replicate (poll_capacity sample_header) 0))) = 2"
    by (subst poll_ticks_fits [where n = 11]) (simp_all add: poll_capacity_eq sample_header_def)
  then show "length (fst (Poll 1 [sample_device, sample_device] sample_header)) = 2"
    by (simp add: Poll_def)
qed

text \<open>What a write call must have in common with the frame that caused it.\<close>

definition write_matches :: "modbus_header \<Rightarrow> byte list \<Rightarrow> device_call \<Rightarrow> bool" where
  "write_matches h bs w =
     (case w of
        SetUnitId _ \<Rightarrow> False
      | WriteCoil a c \<Rightarrow> mh_FunctionCode h = WRITE_SINGLE_COIL \<and> a = mh_Address h \<and>
          mh_NumberOfCoilsOrRegisters h = 1 \<and> (\<exists>cs. BytesToCoils bs = Inr (c # cs))
      | WriteRegister a r \<Rightarrow> mh_FunctionCode h = WRITE_SINGLE_REGISTER \<and> a = mh_Address h \<and>
          mh_NumberOfCoilsOrRegisters h = 1 \<and> bs = RegistersToBytes [r]
      | WriteCoils a cs \<Rightarrow> mh_FunctionCode h = WRITE_MULTIPLE_COILS \<and> a = mh_Address h \<and>
          BytesToCoils bs = Inr cs
      | WriteRegisters a rs \<Rightarrow> mh_FunctionCode h = WRITE_MULTIPLE_REGISTERS \<and> a = mh_Address h \<and>
          bs = RegistersToBytes rs \<and> length rs = unat (mh_NumberOfCoilsOrRegisters h))"

text \<open>A frame written to the client causes at most one write on the device. When
  \<open>Write\<close> reports an error (or panics) nothing was written; when it succeeds the device was
  addressed with the frame's unit and exactly one write was made, which agrees with the frame's
  function code, address, count and payload, and the result is the payload's length.\<close>

theorem modbus_write_exact:
  "case Client_Write f of
     (calls, Inl e) \<Rightarrow> calls = [] \<or> (\<exists>u. calls = [SetUnitId u])
   | (calls, Inr n) \<Rightarrow> \<exists>h bs w. f = InjectModbusHeader h bs \<and> n = length bs \<and>
       calls = [SetUnitId (mh_Slave h), w] \<and> write_matches h bs w"
proof (cases "ExtractModbusHeader f")
  case (Inl e)
  then show ?thesis by (simp add: Client_Write_def)
next
  case (Inr p)
  obtain h bs where p: "p = (h, bs)" by (cases p)
  with Inr have f: "f = InjectModbusHeader h bs"
    by (simp add: InjectModbusHeader_ExtractModbusHeader)
  have single: "bs = RegistersToBytes [rs ! 0]" if "BytesToRegisters bs = Inr rs" "length rs = 1" for rs
    using that RegistersToBytes_BytesToRegisters [OF that(1)] by (cases rs) auto
  show ?thesis
    unfolding f Client_Write_frame
    by (rule write_payload_cases [of h bs])
       (auto simp: write_matches_def single RegistersToBytes_BytesToRegisters modbus_write_codes_distinct
         split: sum.split list.split)
qed

text \<open>The one frame that makes the client panic: a single-coil write whose header asks for
  one coil and that carries no payload indexes an empty slice. All other frames return a result
  or an error.\<close>

theorem modbus_write_panics_iff:
  "snd (Client_Write f) = Inl IndexOutOfRange \<longleftrightarrow>
     (\<exists>h. f = InjectModbusHeader h [] \<and> mh_FunctionCode h = WRITE_SINGLE_COIL \<and>
          mh_NumberOfCoilsOrRegisters h = 1)"
proof (cases "ExtractModbusHeader f")
  case (Inl e)
  then have "f \<noteq> InjectModbusHeader h []" for h by auto
  with Inl show ?thesis
    by (auto simp: Client_Write_def ExtractModbusHeader_def split: if_splits)
next
  case (Inr p)
  obtain h bs where p: "p = (h, bs)" by (cases p)
  with Inr have f: "f = InjectModbusHeader h bs"
    by (simp add: InjectModbusHeader_ExtractModbusHeader)
  have inj: "InjectModbusHeader h bs = InjectModbusHeader h' bs' \<longleftrightarrow> h = h' \<and> bs = bs'" for h' bs'
    using frame.enc_inject [of "(h, bs)" "(h', bs')"] by simp
  have empty: "BytesToCoils bs = Inr [] \<longleftrightarrow> bs = []"
    using BytesToCoils_length [of bs "[]"] by (auto simp: BytesToCoils_def RegistersToCoils_def)
  have noerr: "BytesToRegisters bs \<noteq> Inl IndexOutOfRange" "BytesToCoils bs \<noteq> Inl IndexOutOfRange"
    by (auto simp: BytesToRegisters_def BytesToCoils_def)
  have "snd (write_payload h bs) = Inl IndexOutOfRange \<longleftrightarrow>
      mh_FunctionCode h = WRITE_SINGLE_COIL \<and> mh_NumberOfCoilsOrRegisters h = 1 \<and> bs = []"
    by (rule write_payload_cases [of h bs])
       (use empty noerr in \<open>auto simp: modbus_write_codes_distinct split: sum.split list.split\<close>)
  then show ?thesis
    unfolding f Client_Write_frame inj by auto
qed

end
