(* ===== verification/Float64.thy ===== *)
theory Float64
  imports Prelude Complex_Main "HOL-Library.Log_Nat"
begin

text \<open>
  Go's \<open>float64\<close>: IEEE 754 binary64 values with round-to-nearest-even arithmetic, as the
  expression functions and the CAN mapper use it. A finite non-zero value is the rational number
  it stands for; \<open>fround\<close> rounds an exact rational result to the nearest representable
  value. Not modelled: NaN payloads, which no operation of the program can observe.
\<close>

section \<open>Values\<close>

text \<open>The boolean of an infinity or a zero is its sign bit.\<close>

datatype float64 = NaN | Inf bool | Zero bool | Fin rat

section \<open>Rounding\<close>

definition ilog2 :: "rat \<Rightarrow> int" where
  "ilog2 q =
     (let (a, b) = quotient_of q; d = bitlen a - bitlen b
      in if 2 powi d \<le> q then d else d - 1)"

definition fexp :: "rat \<Rightarrow> int" where
  "fexp q = max (ilog2 q - 52) (- 1074)"

definition rne :: "rat \<Rightarrow> int" where
  "rne x =
     (let f = \<lfloor>x\<rfloor>; r = x - of_int f
      in if r < 1 / 2 then f else if 1 / 2 < r then f + 1 else if even f then f else f + 1)"

definition round_pos :: "rat \<Rightarrow> rat" where
  "round_pos q = of_int (rne (q / 2 powi fexp q)) * 2 powi fexp q"

definition float_limit :: rat where
  "float_limit = 2 powi 1024"

definition fround :: "rat \<Rightarrow> float64" where
  "fround q =
     (if q = 0 then Zero False
      else let r = round_pos \<bar>q\<bar>
           in if float_limit \<le> r then Inf (q < 0)
              else if r = 0 then Zero (q < 0)
              else Fin (if q < 0 then - r else r))"

section \<open>Arithmetic and comparison\<close>

text \<open>
  The sign of an exact zero: a sum of two zeros is negative only if both are, any other exact
  zero sum is positive, and products and quotients xor the signs.
\<close>

definition fsign :: "float64 \<Rightarrow> bool" where
  "fsign x = (case x of NaN \<Rightarrow> False | Inf s \<Rightarrow> s | Zero s \<Rightarrow> s | Fin q \<Rightarrow> q < 0)"

definition fval :: "float64 \<Rightarrow> rat" where
  "fval x = (case x of Fin q \<Rightarrow> q | _ \<Rightarrow> 0)"

definition is_finite :: "float64 \<Rightarrow> bool" where
  "is_finite x = (case x of NaN \<Rightarrow> False | Inf _ \<Rightarrow> False | _ \<Rightarrow> True)"

definition fneg :: "float64 \<Rightarrow> float64" where
  "fneg x = (case x of NaN \<Rightarrow> NaN | Inf s \<Rightarrow> Inf (\<not> s) | Zero s \<Rightarrow> Zero (\<not> s) | Fin q \<Rightarrow> Fin (- q))"

fun fadd :: "float64 \<Rightarrow> float64 \<Rightarrow> float64" where
  "fadd NaN _ = NaN"
| "fadd _ NaN = NaN"
| "fadd (Inf s) (Inf t) = (if s = t then Inf s else NaN)"
| "fadd (Inf s) _ = Inf s"
| "fadd _ (Inf t) = Inf t"
| "fadd (Zero s) (Zero t) = Zero (s \<and> t)"
| "fadd (Zero _) y = y"
| "fadd x (Zero _) = x"
| "fadd (Fin p) (Fin q) = fround (p + q)"

definition fsub :: "float64 \<Rightarrow> float64 \<Rightarrow> float64" where
  "fsub x y = fadd x (fneg y)"

definition xor_sign :: "float64 \<Rightarrow> float64 \<Rightarrow> bool" where
  "xor_sign x y = (fsign x \<noteq> fsign y)"

fun fmul :: "float64 \<Rightarrow> float64 \<Rightarrow> float64" where
  "fmul NaN _ = NaN"
| "fmul _ NaN = NaN"
| "fmul (Inf s) (Zero t) = NaN"
| "fmul (Zero s) (Inf t) = NaN"
| "fmul (Inf s) y = Inf (xor_sign (Inf s) y)"
| "fmul x (Inf t) = Inf (xor_sign x (Inf t))"
| "fmul (Zero s) y = Zero (xor_sign (Zero s) y)"
| "fmul x (Zero t) = Zero (xor_sign x (Zero t))"
| "fmul (Fin p) (Fin q) = fround (p * q)"

fun fdiv :: "float64 \<Rightarrow> float64 \<Rightarrow> float64" where
  "fdiv NaN _ = NaN"
| "fdiv _ NaN = NaN"
| "fdiv (Inf s) (Inf t) = NaN"
| "fdiv (Zero s) (Zero t) = NaN"
| "fdiv (Inf s) y = Inf (xor_sign (Inf s) y)"
| "fdiv x (Inf t) = Zero (xor_sign x (Inf t))"
| "fdiv (Zero s) y = Zero (xor_sign (Zero s) y)"
| "fdiv x (Zero t) = Inf (xor_sign x (Zero t))"
| "fdiv (Fin p) (Fin q) = fround (p / q)"

definition fof_int :: "int \<Rightarrow> float64" where
  "fof_int n = fround (of_int n)"

text \<open>Ordered comparisons are false when an operand is NaN; the two zeros are equal.\<close>

fun flt :: "float64 \<Rightarrow> float64 \<Rightarrow> bool" where
  "flt NaN _ = False"
| "flt _ NaN = False"
| "flt (Inf s) (Inf t) = (s \<and> \<not> t)"
| "flt (Inf s) _ = s"
| "flt _ (Inf t) = (\<not> t)"
| "flt x y = (fval x < fval y)"

fun fle :: "float64 \<Rightarrow> float64 \<Rightarrow> bool" where
  "fle NaN _ = False"
| "fle _ NaN = False"
| "fle (Inf s) (Inf t) = (s \<or> \<not> t)"
| "fle (Inf s) _ = s"
| "fle _ (Inf t) = (\<not> t)"
| "fle x y = (fval x \<le> fval y)"

definition feq :: "float64 \<Rightarrow> float64 \<Rightarrow> bool" where
  "feq x y = (fle x y \<and> fle y x)"

section \<open>Correctness of rounding\<close>

lemma powi2_pos [simp]: "0 < (2 powi e :: rat)"
  by simp

lemma powi2_less_iff: "(2 powi a :: rat) < 2 powi b \<longleftrightarrow> a < b"
  using power_int_strict_increasing [of a b "2::rat"] power_int_increasing [of b a "2::rat"]
  by (meson leD linorder_not_less one_less_numeral_iff one_le_numeral semiring_norm(76))

lemma powi2_le_iff: "(2 powi a :: rat) \<le> 2 powi b \<longleftrightarrow> a \<le> b"
  by (simp add: powi2_less_iff not_less [symmetric])

lemma bitlen_bounds_rat:
  assumes "0 < (a::int)"
  shows "2 powi (bitlen a - 1) \<le> (of_int a :: rat)" "(of_int a :: rat) < 2 powi bitlen a"
proof -
  have pos: "0 < bitlen a" using assms by (simp add: bitlen_nonneg bitlen_eq_zero_iff order_less_le)
  have lo: "2 ^ nat (bitlen a - 1) \<le> a" and hi: "a < 2 ^ nat (bitlen a)"
    using bitlen_bounds [OF assms] by auto
  have "(of_int (2 ^ nat (bitlen a - 1)) :: rat) \<le> of_int a" using lo by (simp only: of_int_le_iff)
  then show "2 powi (bitlen a - 1) \<le> (of_int a :: rat)"
    using pos by (simp add: power_int_def)
  have "(of_int a :: rat) < of_int (2 ^ nat (bitlen a))" using hi by (simp only: of_int_less_iff)
  then show "(of_int a :: rat) < 2 powi bitlen a"
    using pos by (simp add: power_int_def)
qed

lemma ilog2_bounds:
  assumes "0 < q"
  shows "2 powi ilog2 q \<le> q" "q < 2 powi (ilog2 q + 1)"
proof -
  obtain a b where ab: "quotient_of q = (a, b)" by (cases "quotient_of q")
  have b: "0 < b" using quotient_of_denom_pos [OF ab] .
  have q: "q = of_int a / of_int b" using quotient_of_div [OF ab] .
  with assms b have a: "0 < a" by (simp add: zero_less_divide_iff)
  define d where "d = bitlen a - bitlen b"
  have il: "ilog2 q = (if 2 powi d \<le> q then d else d - 1)"
    by (simp add: ilog2_def ab d_def)
  note A = bitlen_bounds_rat [OF a] and B = bitlen_bounds_rat [OF b]
  have "2 powi (d - 1) = 2 powi (bitlen a - 1) / (2 powi bitlen b :: rat)"
    by (simp add: d_def power_int_diff)
  also have "\<dots> \<le> of_int a / of_int b"
    using A B a b by (intro frac_le) auto
  finally have lo: "2 powi (d - 1) \<le> q" by (simp add: q)
  have "q < 2 powi bitlen a / 2 powi (bitlen b - 1)"
    unfolding q using A B a b by (intro frac_less) auto
  also have "\<dots> = 2 powi (d + 1)"
    by (simp add: d_def power_int_diff power_int_add)
  finally have hi: "q < 2 powi (d + 1)" .
  show "2 powi ilog2 q \<le> q" using il lo by simp
  show "q < 2 powi (ilog2 q + 1)" using il hi by simp
qed

lemma ilog2_unique:
  assumes "2 powi e \<le> q" "q < 2 powi (e + 1)"
  shows "ilog2 q = e"
proof -
  have q: "0 < q" using assms(1) by (rule order_less_le_trans [rotated]) simp
  note L = ilog2_bounds [OF q]
  have "2 powi e < (2 powi (ilog2 q + 1) :: rat)" using assms(1) L(2) by linarith
  then have "e < ilog2 q + 1" by (simp add: powi2_less_iff)
  moreover have "2 powi ilog2 q < (2 powi (e + 1) :: rat)" using assms(2) L(1) by linarith
  then have "ilog2 q < e + 1" by (simp add: powi2_less_iff)
  ultimately show ?thesis by simp
qed

lemma ilog2_mono: "0 < p \<Longrightarrow> p \<le> q \<Longrightarrow> ilog2 p \<le> ilog2 q"
proof -
  assume "0 < p" "p \<le> q"
  then have "2 powi ilog2 p < (2 powi (ilog2 q + 1) :: rat)"
    using ilog2_bounds [of p] ilog2_bounds [of q] by linarith
  then show ?thesis by (simp add: powi2_less_iff)
qed

lemma rne_of_int [simp]: "rne (of_int n) = n"
  by (simp add: rne_def)

lemma rne_floor: "rne x = \<lfloor>x\<rfloor> \<or> rne x = \<lfloor>x\<rfloor> + 1"
  by (simp add: rne_def Let_def)

lemma rne_mono:
  assumes "x \<le> y"
  shows "rne x \<le> rne y"
proof (cases "\<lfloor>x\<rfloor> = \<lfloor>y\<rfloor>")
  case True
  then show ?thesis using assms by (simp add: rne_def Let_def)
next
  case False
  with floor_mono [OF assms] have "\<lfloor>x\<rfloor> + 1 \<le> \<lfloor>y\<rfloor>" by simp
  with rne_floor [of x] rne_floor [of y] show ?thesis by linarith
qed

lemma fexp_ge: "- 1074 \<le> fexp q" "ilog2 q - 52 \<le> fexp q"
  by (simp_all add: fexp_def)

lemma fexp_mono: "0 < p \<Longrightarrow> p \<le> q \<Longrightarrow> fexp p \<le> fexp q"
  using ilog2_mono [of p q] by (simp add: fexp_def)

lemma round_pos_upper:
  assumes "0 < q"
  shows "round_pos q \<le> 2 powi (fexp q + 53)"
proof -
  have "q \<le> 2 powi (ilog2 q + 1)" using ilog2_bounds [OF assms] by simp
  also have "\<dots> \<le> 2 powi (fexp q + 53)" using fexp_ge(2) [of q] by (simp add: powi2_le_iff)
  also have "\<dots> = of_int (2 ^ 53) * 2 powi fexp q"
    by (simp add: power_int_add)
  finally have "q / 2 powi fexp q \<le> of_int (2 ^ 53)"
    by (simp add: pos_divide_le_eq)
  then have "rne (q / 2 powi fexp q) \<le> 2 ^ 53"
    using rne_mono rne_of_int by metis
  then have "(of_int (rne (q / 2 powi fexp q)) :: rat) \<le> of_int (2 ^ 53)"
    by (simp only: of_int_le_iff)
  then have "round_pos q \<le> of_int (2 ^ 53) * 2 powi fexp q"
    unfolding round_pos_def by (rule mult_right_mono) simp
  then show ?thesis by (simp add: power_int_add)
qed

lemma round_pos_lower:
  assumes "0 < q" and e: "fexp q \<noteq> - 1074"
  shows "2 powi (fexp q + 52) \<le> round_pos q"
proof -
  from e have il: "ilog2 q = fexp q + 52" by (auto simp: fexp_def max_def split: if_splits)
  have "of_int (2 ^ 52) * 2 powi fexp q = (2 powi ilog2 q :: rat)"
    by (simp add: il power_int_add)
  also have "\<dots> \<le> q" using ilog2_bounds [OF assms(1)] by simp
  finally have "of_int (2 ^ 52) \<le> q / 2 powi fexp q"
    by (simp add: pos_le_divide_eq)
  then have "2 ^ 52 \<le> rne (q / 2 powi fexp q)"
    using rne_mono rne_of_int by metis
  then have "(of_int (2 ^ 52) :: rat) \<le> of_int (rne (q / 2 powi fexp q))"
    by (simp only: of_int_le_iff)
  then have "of_int (2 ^ 52) * 2 powi fexp q \<le> round_pos q"
    unfolding round_pos_def by (rule mult_right_mono) simp
  then show ?thesis by (simp add: power_int_add)
qed

lemma rne_nonneg: "0 \<le> x \<Longrightarrow> 0 \<le> rne x"
  using rne_mono [of "of_int 0" x] by (simp del: of_int_0)

lemma round_pos_nonneg: "0 < q \<Longrightarrow> 0 \<le> round_pos q"
  by (simp add: round_pos_def rne_nonneg)

lemma round_pos_mono:
  assumes "0 < p" "p \<le> q"
  shows "round_pos p \<le> round_pos q"
proof (cases "fexp p = fexp q")
  case True
  have "p / 2 powi fexp q \<le> q / 2 powi fexp q" using assms by (simp add: divide_right_mono)
  then show ?thesis
    unfolding round_pos_def True by (intro mult_right_mono) (simp_all add: rne_mono)
next
  case False
  with fexp_mono [OF assms] have lt: "fexp p + 1 \<le> fexp q" by simp
  with fexp_ge(1) [of p] have "fexp q \<noteq> - 1074" by linarith
  then have "2 powi (fexp q + 52) \<le> round_pos q"
    using assms by (intro round_pos_lower) auto
  moreover have "round_pos p \<le> 2 powi (fexp p + 53)" by (rule round_pos_upper [OF assms(1)])
  moreover have "(2 powi (fexp p + 53) :: rat) \<le> 2 powi (fexp q + 52)"
    using lt by (simp add: powi2_le_iff)
  ultimately show ?thesis by linarith
qed

text \<open>
  The finite values of the format, and the fact that rounding leaves them alone. \<open>valid\<close>
  holds of the values Go can have; every operation keeps it (by \<open>fround_valid\<close>).
\<close>

definition representable :: "rat \<Rightarrow> bool" where
  "representable q \<longleftrightarrow> (\<exists>m e. q = of_int m * 2 powi e \<and> \<bar>m\<bar> < 2 ^ 53 \<and> - 1074 \<le> e)"

definition valid :: "float64 \<Rightarrow> bool" where
  "valid x = (case x of Fin q \<Rightarrow> q \<noteq> 0 \<and> representable q \<and> \<bar>q\<bar> < float_limit | _ \<Rightarrow> True)"

lemma representable_uminusI: "representable q \<Longrightarrow> representable (- q)"
  unfolding representable_def
proof (elim exE conjE)
  fix m e assume "q = of_int m * 2 powi e" "\<bar>m\<bar> < 2 ^ 53" "- 1074 \<le> e"
  then show "\<exists>m e. - q = of_int m * 2 powi e \<and> \<bar>m\<bar> < 2 ^ 53 \<and> - 1074 \<le> e"
    by (intro exI [of _ "- m"] exI [of _ e]) simp
qed

lemma representable_uminus [simp]: "representable (- q) \<longleftrightarrow> representable q"
  using representable_uminusI [of q] representable_uminusI [of "- q"] by auto

lemma representable_abs [simp]: "representable \<bar>q\<bar> \<longleftrightarrow> representable q"
  by (simp add: abs_if)

lemma round_pos_exact:
  assumes "representable q" "0 < q"
  shows "round_pos q = q"
proof -
  obtain m e where q: "q = of_int m * 2 powi e" and m: "\<bar>m\<bar> < 2 ^ 53" and e: "- 1074 \<le> e"
    using assms(1) by (auto simp: representable_def)
  have "of_int \<bar>m\<bar> < (of_int (2 ^ 53) :: rat)" using m by (simp only: of_int_less_iff)
  then have "of_int m < (2 powi 53 :: rat)" by simp
  then have "q < 2 powi 53 * 2 powi e" unfolding q by (rule mult_strict_right_mono) simp
  then have "2 powi ilog2 q < (2 powi (53 + e) :: rat)"
    using ilog2_bounds [OF assms(2)] by (simp add: power_int_add)
  then have "fexp q \<le> e" using e by (simp add: powi2_less_iff fexp_def)
  then have "e = fexp q + int (nat (e - fexp q))" by simp
  then have pe: "(2 powi e :: rat) = 2 powi fexp q * 2 ^ nat (e - fexp q)"
    by (metis power_int_add_numeral power_int_add power_int_of_nat zero_neq_numeral)
  have q': "q = of_int (m * 2 ^ nat (e - fexp q)) * 2 powi fexp q"
    by (subst q, subst pe) simp
  then have "q / 2 powi fexp q = of_int (m * 2 ^ nat (e - fexp q))"
    by (metis nonzero_mult_div_cancel_right powi2_pos order_less_irrefl)
  then have "rne (q / 2 powi fexp q) = m * 2 ^ nat (e - fexp q)"
    by (simp only: rne_of_int)
  then show ?thesis unfolding round_pos_def using q' by simp
qed

lemma round_pos_representable:
  assumes "0 < q"
  shows "representable (round_pos q)"
proof -
  define n where "n = rne (q / 2 powi fexp q)"
  have r: "round_pos q = of_int n * 2 powi fexp q" by (simp add: round_pos_def n_def)
  have "of_int n * 2 powi fexp q \<le> (of_int (2 ^ 53) * 2 powi fexp q :: rat)"
    using round_pos_upper [OF assms] by (simp add: r power_int_add)
  then have "(of_int n :: rat) \<le> of_int (2 ^ 53)" by (rule mult_right_le_imp_le) simp
  then have n53: "n \<le> 2 ^ 53" by (simp only: of_int_le_iff)
  have n0: "0 \<le> n" using assms by (simp add: n_def rne_nonneg)
  show ?thesis
  proof (cases "n = 2 ^ 53")
    case True
    then have "round_pos q = of_int 1 * 2 powi (fexp q + 53)" by (simp add: r power_int_add)
    then show ?thesis unfolding representable_def using fexp_ge(1) [of q]
      by (intro exI [of _ 1] exI [of _ "fexp q + 53"]) auto
  next
    case False
    with n53 n0 show ?thesis unfolding representable_def using fexp_ge(1) [of q] r
      by (intro exI [of _ n] exI [of _ "fexp q"]) auto
  qed
qed

lemma fround_valid [simp]: "valid (fround q)"
proof (cases "q = 0")
  case False
  define r where "r = round_pos \<bar>q\<bar>"
  have "representable r" "0 \<le> r"
    using False by (simp_all add: r_def round_pos_representable round_pos_nonneg)
  then show ?thesis
    by (simp add: fround_def valid_def Let_def False not_le flip: r_def)
qed (simp add: fround_def valid_def)

lemma fround_exact: "q \<noteq> 0 \<Longrightarrow> representable q \<Longrightarrow> \<bar>q\<bar> < float_limit \<Longrightarrow> fround q = Fin q"
  by (auto simp: fround_def round_pos_exact Let_def abs_if split: if_splits)

lemma fround_valid_Fin: "valid (Fin q) \<Longrightarrow> fround q = Fin q"
  by (simp add: valid_def fround_exact)

lemma fround_cases:
  "fround q = NaN \<Longrightarrow> P"
  by (auto simp: fround_def Let_def split: if_splits)

theorem fround_mono:
  assumes "p \<le> q"
  shows "fle (fround p) (fround q)"
proof -
  consider "0 < p" "0 < q" | "p \<le> 0" "0 \<le> q" | "p < 0" "q < 0"
    using assms by linarith
  then show ?thesis
  proof cases
    case 1
    with round_pos_mono [OF _ assms] round_pos_nonneg [of p] round_pos_nonneg [of q] show ?thesis
      by (auto simp: fround_def Let_def fval_def)
  next
    case 2
    with round_pos_nonneg [of "- p"] round_pos_nonneg [of q] show ?thesis
      by (auto simp: fround_def Let_def fval_def abs_if not_le)
  next
    case 3
    with round_pos_mono [of "- q" "- p"] assms round_pos_nonneg [of "- p"] round_pos_nonneg [of "- q"]
    show ?thesis
      by (auto simp: fround_def Let_def fval_def)
  qed
qed

section \<open>Go's operators\<close>

text \<open>
  The arithmetic and order operators on \<open>float64\<close> are the functions above, so that the
  models of the float code use the source's notation. The order is not a partial order (NaN),
  so only the syntactic classes are instantiated.
\<close>

instantiation float64 :: "{plus, minus, uminus, times, inverse, ord}"
begin

definition plus_float64_def: "x + y = fadd x y"
definition minus_float64_def: "x - y = fsub x y"
definition uminus_float64_def: "- x = fneg x"
definition times_float64_def: "x * y = fmul x y"
definition inverse_float64_def: "inverse x = fdiv (Fin 1) x"
definition divide_float64_def: "x div y = fdiv x (y::float64)"
definition less_float64_def: "x < y = flt x y"
definition less_eq_float64_def: "x \<le> y = fle x y"

instance ..

end

lemmas float64_ops =
  plus_float64_def minus_float64_def uminus_float64_def times_float64_def divide_float64_def
  less_float64_def less_eq_float64_def

lemma float_le_refl: "x \<noteq> NaN \<Longrightarrow> x \<le> (x::float64)"
  by (cases x) (auto simp: float64_ops fval_def)

lemma float_le_trans: "x \<le> y \<Longrightarrow> y \<le> z \<Longrightarrow> x \<le> (z::float64)"
  by (cases x; cases y; cases z) (auto simp: float64_ops fval_def)

lemma float_less_imp_le: "x < y \<Longrightarrow> x \<le> (y::float64)"
  by (cases x; cases y) (auto simp: float64_ops fval_def)

lemma float_less_trans: "x < y \<Longrightarrow> y < z \<Longrightarrow> x < (z::float64)"
  by (cases x; cases y; cases z) (auto simp: float64_ops fval_def)

lemma float_not_less_le: "x \<noteq> NaN \<Longrightarrow> y \<noteq> NaN \<Longrightarrow> \<not> x < y \<longleftrightarrow> y \<le> (x::float64)"
  by (cases x; cases y) (auto simp: float64_ops fval_def)

end
