(* ===== verification/Values.thy ===== *)
theory Values
  imports Prelude Float64
begin

text \<open>
  The dynamic values of the program (\<open>interface{}\<close>): what a mapped message carries, what
  the expression environment holds, and the structured SignalK values of
  \<open>message/mapped_update_value_types.go\<close> with their \<open>Merge\<close> operations and
  \<open>Decode\<close>. Also the two equalities Go has on interface values: \<open>==\<close> and
  \<open>reflect.DeepEqual\<close>.

  A pointer field (\<open>*string\<close>, \<open>*float64\<close>) is an option of its pointee: no code
  writes through such a pointer. Only \<open>==\<close> sees the identity of a pointer, so it takes that
  as an argument. A slice field is an option too, \<open>None\<close> for the nil slice.
\<close>

section \<open>Structured values\<close>

record vessel_info =
  vi_MMSI :: "string option"
  vi_Name :: "string option"

record vessel_type =
  vt_Id :: "int option"
  vt_Name :: "string option"

record position =
  pos_Altitude :: "float64 option"
  pos_Latitude :: "float64 option"
  pos_Longitude :: "float64 option"

record vessel_length =
  len_Overall :: "float64 option"
  len_Hull :: "float64 option"
  len_Waterline :: "float64 option"

record alarm =
  al_State :: "bool option"
  al_Message :: "string option"

record draft =
  dr_Current :: "float64 option"
  dr_CurrentPort :: "float64 list option"
  dr_CurrentStarboard :: "float64 list option"

text \<open>The dynamic types that implement the interface \<open>Merger\<close>.\<close>

datatype merger =
    VesselInfo vessel_info
  | Position position
  | Length vessel_length
  | Alarm alarm
  | Draft draft

record source =
  src_Label :: string
  src_Type :: string
  src_Uuid :: uuid
  src_TransferUuid :: uuid

text \<open>
  Interface values. \<open>GInt\<close> carries its integer type; \<open>GMap\<close> is a
  \<open>map[string]interface{}\<close>, \<open>GSvm\<close> a \<open>SingleValueMapped\<close> stored in an
  expression environment, and the \<open>map[int]T\<close> values are the ones the Modbus mapper
  stores there.
\<close>

datatype int_kind =
  KInt | KUint | KInt8 | KUint8 | KInt16 | KUint16 | KInt32 | KUint32 | KInt64 | KUint64

datatype gval =
    GNil
  | GBool bool
  | GInt int_kind int
  | GFloat32 float64
  | GFloat float64
  | GString string
  | GMerger merger
  | GVesselType vessel_type
  | GTime time
  | GMap "(string \<times> gval) list"
  | GList "gval list"
  | GStrings "string list"
  | GFloats "float64 list"
  | GInts "int list"
  | GCoils "(int, bool) gomap"
  | GRegisters "(int, u16) gomap"
  | GDeltas "(int, int) gomap"
  | GTimestamps "(int, time) gomap"
  | GTimeDeltas "(int, int) gomap"
  | GSvm string string source time string gval
  | GFunc string

section \<open>Merge\<close>

text \<open>
  Each \<open>Merge\<close> returns its (possibly updated) receiver and an error when the right operand
  has another dynamic type. The error message prints the types of \<open>right\<close> and
  \<open>left\<close>, but the type switch has shadowed \<open>right\<close> by a zero value of the
  receiver's type, so both names are the receiver's.
\<close>

datatype merge_error = WrongType string string

definition override :: "'a option \<Rightarrow> 'a option \<Rightarrow> 'a option" where
  "override left right = (if right \<noteq> None then right else left)"

definition merge_VesselInfo :: "vessel_info \<Rightarrow> merger \<Rightarrow> merger \<times> merge_error option" where
  "merge_VesselInfo left right =
     (case right of
        VesselInfo r \<Rightarrow>
          (VesselInfo (left\<lparr>vi_MMSI := override (vi_MMSI left) (vi_MMSI r),
                            vi_Name := override (vi_Name left) (vi_Name r)\<rparr>), None)
      | _ \<Rightarrow> (VesselInfo left, Some (WrongType ''message.VesselInfo'' ''message.VesselInfo'')))"

definition merge_Position :: "position \<Rightarrow> merger \<Rightarrow> merger \<times> merge_error option" where
  "merge_Position left right =
     (case right of
        Position r \<Rightarrow>
          (Position (left\<lparr>pos_Altitude := override (pos_Altitude left) (pos_Altitude r),
                          pos_Latitude := override (pos_Latitude left) (pos_Latitude r),
                          pos_Longitude := override (pos_Longitude left) (pos_Longitude r)\<rparr>), None)
      | _ \<Rightarrow> (Position left, Some (WrongType ''message.Position'' ''message.Position'')))"

definition merge_Length :: "vessel_length \<Rightarrow> merger \<Rightarrow> merger \<times> merge_error option" where
  "merge_Length left right =
     (case right of
        Length r \<Rightarrow>
          (Length (left\<lparr>len_Overall := override (len_Overall left) (len_Overall r),
                        len_Hull := override (len_Hull left) (len_Hull r),
                        len_Waterline := override (len_Waterline left) (len_Waterline r)\<rparr>), None)
      | _ \<Rightarrow> (Length left, Some (WrongType ''message.Length'' ''message.Length'')))"

definition merge_Alarm :: "alarm \<Rightarrow> merger \<Rightarrow> merger \<times> merge_error option" where
  "merge_Alarm left right =
     (case right of
        Alarm r \<Rightarrow>
          (Alarm (left\<lparr>al_State := override (al_State left) (al_State r),
                       al_Message := override (al_Message left) (al_Message r)\<rparr>), None)
      | _ \<Rightarrow> (Alarm left, Some (WrongType ''message.Alarm'' ''message.Alarm'')))"

text \<open>Slices are taken over when they are not empty.\<close>

definition slice_len :: "'a list option \<Rightarrow> nat" where
  "slice_len xs = (case xs of None \<Rightarrow> 0 | Some ys \<Rightarrow> length ys)"

definition override_slice :: "'a list option \<Rightarrow> 'a list option \<Rightarrow> 'a list option" where
  "override_slice left right = (if slice_len right \<noteq> 0 then right else left)"

definition merge_Draft :: "draft \<Rightarrow> merger \<Rightarrow> merger \<times> merge_error option" where
  "merge_Draft left right =
     (case right of
        Draft r \<Rightarrow>
          (Draft (left\<lparr>dr_Current := override (dr_Current left) (dr_Current r),
                       dr_CurrentPort := override_slice (dr_CurrentPort left) (dr_CurrentPort r),
                       dr_CurrentStarboard :=
                         override_slice (dr_CurrentStarboard left) (dr_CurrentStarboard r)\<rparr>), None)
      | _ \<Rightarrow> (Draft left, Some (WrongType ''message.Draft'' ''message.Draft'')))"

text \<open>The method call \<open>left.Merge(right)\<close> through the interface.\<close>

fun Merge :: "merger \<Rightarrow> merger \<Rightarrow> merger \<times> merge_error option" where
  "Merge (VesselInfo l) right = merge_VesselInfo l right"
| "Merge (Position l) right = merge_Position l right"
| "Merge (Length l) right = merge_Length l right"
| "Merge (Alarm l) right = merge_Alarm l right"
| "Merge (Draft l) right = merge_Draft l right"

lemmas merge_defs =
  merge_VesselInfo_def merge_Position_def merge_Length_def merge_Alarm_def merge_Draft_def

section \<open>Equality of interface values\<close>

text \<open>
  \<open>reflect.DeepEqual\<close>: the dynamic types agree and the contents are deeply equal; floats
  compare with \<open>==\<close>, pointers by their pointees, maps as finite functions.
\<close>

definition opt_eq :: "('a \<Rightarrow> 'a \<Rightarrow> bool) \<Rightarrow> 'a option \<Rightarrow> 'a option \<Rightarrow> bool" where
  "opt_eq eq x y =
     (case (x, y) of (None, None) \<Rightarrow> True | (Some a, Some b) \<Rightarrow> eq a b | _ \<Rightarrow> False)"

definition map_eq :: "('v \<Rightarrow> 'v \<Rightarrow> bool) \<Rightarrow> ('k, 'v) gomap \<Rightarrow> ('k, 'v) gomap \<Rightarrow> bool" where
  "map_eq eq m n \<longleftrightarrow>
     length m = length n \<and>
     list_all (\<lambda>(k, v). case map_of n k of None \<Rightarrow> False | Some w \<Rightarrow> eq v w) m"

fun deep_equal_merger :: "merger \<Rightarrow> merger \<Rightarrow> bool" where
  "deep_equal_merger (VesselInfo a) (VesselInfo b) \<longleftrightarrow> a = b"
| "deep_equal_merger (Position a) (Position b) \<longleftrightarrow>
     opt_eq feq (pos_Altitude a) (pos_Altitude b) \<and> opt_eq feq (pos_Latitude a) (pos_Latitude b) \<and>
     opt_eq feq (pos_Longitude a) (pos_Longitude b)"
| "deep_equal_merger (Length a) (Length b) \<longleftrightarrow>
     opt_eq feq (len_Overall a) (len_Overall b) \<and> opt_eq feq (len_Hull a) (len_Hull b) \<and>
     opt_eq feq (len_Waterline a) (len_Waterline b)"
| "deep_equal_merger (Alarm a) (Alarm b) \<longleftrightarrow> a = b"
| "deep_equal_merger (Draft a) (Draft b) \<longleftrightarrow>
     opt_eq feq (dr_Current a) (dr_Current b) \<and>
     opt_eq (list_all2 feq) (dr_CurrentPort a) (dr_CurrentPort b) \<and>
     opt_eq (list_all2 feq) (dr_CurrentStarboard a) (dr_CurrentStarboard b)"
| "deep_equal_merger _ _ \<longleftrightarrow> False"

lemma size_snd_member [termination_simp]:
  "x \<in> set m \<Longrightarrow> size (snd x) < Suc (size_list (size_prod f size) m)"
proof -
  assume "x \<in> set m"
  then have "size_prod f size x \<le> size_list (size_prod f size) m"
    by (rule size_list_estimation') simp
  then show ?thesis by (cases x) simp
qed

lemma size_zip_left_member [termination_simp]:
  "(x, y) \<in> set (zip xs ys) \<Longrightarrow> size x < Suc (size_list size xs)"
  using size_list_estimation' [of x xs "size x" size] by (auto dest: set_zip_leftD simp: less_Suc_eq_le)

fun deep_equal :: "gval \<Rightarrow> gval \<Rightarrow> bool" where
  "deep_equal GNil w = (case w of GNil \<Rightarrow> True | _ \<Rightarrow> False)"
| "deep_equal (GBool a) w = (case w of GBool b \<Rightarrow> a = b | _ \<Rightarrow> False)"
| "deep_equal (GInt k a) w = (case w of GInt l b \<Rightarrow> k = l \<and> a = b | _ \<Rightarrow> False)"
| "deep_equal (GFloat32 a) w = (case w of GFloat32 b \<Rightarrow> feq a b | _ \<Rightarrow> False)"
| "deep_equal (GFloat a) w = (case w of GFloat b \<Rightarrow> feq a b | _ \<Rightarrow> False)"
| "deep_equal (GString a) w = (case w of GString b \<Rightarrow> a = b | _ \<Rightarrow> False)"
| "deep_equal (GMerger a) w = (case w of GMerger b \<Rightarrow> deep_equal_merger a b | _ \<Rightarrow> False)"
| "deep_equal (GVesselType a) w = (case w of GVesselType b \<Rightarrow> a = b | _ \<Rightarrow> False)"
| "deep_equal (GTime a) w = (case w of GTime b \<Rightarrow> a = b | _ \<Rightarrow> False)"
| "deep_equal (GMap m) w =
     (case w of
        GMap n \<Rightarrow> length m = length n \<and>
          list_all (\<lambda>kv. case map_of n (fst kv) of
                            None \<Rightarrow> False | Some x \<Rightarrow> deep_equal (snd kv) x) m
      | _ \<Rightarrow> False)"
| "deep_equal (GList xs) w =
     (case w of
        GList ys \<Rightarrow> length xs = length ys \<and> list_all (\<lambda>(x, y). deep_equal x y) (zip xs ys)
      | _ \<Rightarrow> False)"
| "deep_equal (GStrings a) w = (case w of GStrings b \<Rightarrow> a = b | _ \<Rightarrow> False)"
| "deep_equal (GFloats a) w = (case w of GFloats b \<Rightarrow> list_all2 feq a b | _ \<Rightarrow> False)"
| "deep_equal (GInts a) w = (case w of GInts b \<Rightarrow> a = b | _ \<Rightarrow> False)"
| "deep_equal (GCoils a) w = (case w of GCoils b \<Rightarrow> map_eq (=) a b | _ \<Rightarrow> False)"
| "deep_equal (GRegisters a) w = (case w of GRegisters b \<Rightarrow> map_eq (=) a b | _ \<Rightarrow> False)"
| "deep_equal (GDeltas a) w = (case w of GDeltas b \<Rightarrow> map_eq (=) a b | _ \<Rightarrow> False)"
| "deep_equal (GTimestamps a) w = (case w of GTimestamps b \<Rightarrow> map_eq (=) a b | _ \<Rightarrow> False)"
| "deep_equal (GTimeDeltas a) w = (case w of GTimeDeltas b \<Rightarrow> map_eq (=) a b | _ \<Rightarrow> False)"
| "deep_equal (GSvm c l s t p v) w =
     (case w of
        GSvm c' l' s' t' p' v' \<Rightarrow>
          c = c' \<and> l = l' \<and> s = s' \<and> t = t' \<and> p = p' \<and> deep_equal v v'
      | _ \<Rightarrow> False)"
| "deep_equal (GFunc f) w = False"

text \<open>
  Go's \<open>==\<close> on interface values: operands of different dynamic types are unequal, and
  comparing two values of the same uncomparable type (a map, a slice, a function, a struct with
  slice fields) panics. Pointers compare by identity, which the values do not show: \<open>same\<close>
  says whether the pointer fields of the two operands are the same variables (the operands are
  copies of one value) or were allocated separately.
\<close>

datatype panic = Panic string

definition ptr_eq :: "bool \<Rightarrow> 'a option \<Rightarrow> 'a option \<Rightarrow> bool" where
  "ptr_eq same x y =
     (case (x, y) of (None, None) \<Rightarrow> True | (Some a, Some b) \<Rightarrow> same | _ \<Rightarrow> False)"

fun merger_eq :: "bool \<Rightarrow> merger \<Rightarrow> merger \<Rightarrow> panic + bool" where
  "merger_eq same (VesselInfo a) (VesselInfo b) =
     Inr (ptr_eq same (vi_MMSI a) (vi_MMSI b) \<and> ptr_eq same (vi_Name a) (vi_Name b))"
| "merger_eq same (Position a) (Position b) =
     Inr (ptr_eq same (pos_Altitude a) (pos_Altitude b) \<and>
          ptr_eq same (pos_Latitude a) (pos_Latitude b) \<and>
          ptr_eq same (pos_Longitude a) (pos_Longitude b))"
| "merger_eq same (Length a) (Length b) =
     Inr (ptr_eq same (len_Overall a) (len_Overall b) \<and>
          ptr_eq same (len_Hull a) (len_Hull b) \<and>
          ptr_eq same (len_Waterline a) (len_Waterline b))"
| "merger_eq same (Alarm a) (Alarm b) =
     Inr (ptr_eq same (al_State a) (al_State b) \<and> ptr_eq same (al_Message a) (al_Message b))"
| "merger_eq same (Draft a) (Draft b) = Inl (Panic ''comparing uncomparable type'')"
| "merger_eq same _ _ = Inr False"

definition uncomparable :: "panic + bool" where
  "uncomparable = Inl (Panic ''comparing uncomparable type'')"

fun iface_eq :: "bool \<Rightarrow> gval \<Rightarrow> gval \<Rightarrow> panic + bool" where
  "iface_eq same GNil w = Inr (case w of GNil \<Rightarrow> True | _ \<Rightarrow> False)"
| "iface_eq same (GBool a) w = Inr (case w of GBool b \<Rightarrow> a = b | _ \<Rightarrow> False)"
| "iface_eq same (GInt k a) w = Inr (case w of GInt l b \<Rightarrow> k = l \<and> a = b | _ \<Rightarrow> False)"
| "iface_eq same (GFloat32 a) w = Inr (case w of GFloat32 b \<Rightarrow> feq a b | _ \<Rightarrow> False)"
| "iface_eq same (GFloat a) w = Inr (case w of GFloat b \<Rightarrow> feq a b | _ \<Rightarrow> False)"
| "iface_eq same (GString a) w = Inr (case w of GString b \<Rightarrow> a = b | _ \<Rightarrow> False)"
| "iface_eq same (GMerger a) w = (case w of GMerger b \<Rightarrow> merger_eq same a b | _ \<Rightarrow> Inr False)"
| "iface_eq same (GVesselType a) w =
     Inr (case w of GVesselType b \<Rightarrow> ptr_eq same (vt_Id a) (vt_Id b) \<and> ptr_eq same (vt_Name a) (vt_Name b)
          | _ \<Rightarrow> False)"
| "iface_eq same (GTime a) w = Inr (case w of GTime b \<Rightarrow> a = b | _ \<Rightarrow> False)"
| "iface_eq same (GMap m) w = (case w of GMap _ \<Rightarrow> uncomparable | _ \<Rightarrow> Inr False)"
| "iface_eq same (GList m) w = (case w of GList _ \<Rightarrow> uncomparable | _ \<Rightarrow> Inr False)"
| "iface_eq same (GStrings m) w = (case w of GStrings _ \<Rightarrow> uncomparable | _ \<Rightarrow> Inr False)"
| "iface_eq same (GFloats m) w = (case w of GFloats _ \<Rightarrow> uncomparable | _ \<Rightarrow> Inr False)"
| "iface_eq same (GInts m) w = (case w of GInts _ \<Rightarrow> uncomparable | _ \<Rightarrow> Inr False)"
| "iface_eq same (GCoils m) w = (case w of GCoils _ \<Rightarrow> uncomparable | _ \<Rightarrow> Inr False)"
| "iface_eq same (GRegisters m) w = (case w of GRegisters _ \<Rightarrow> uncomparable | _ \<Rightarrow> Inr False)"
| "iface_eq same (GDeltas m) w = (case w of GDeltas _ \<Rightarrow> uncomparable | _ \<Rightarrow> Inr False)"
| "iface_eq same (GTimestamps m) w = (case w of GTimestamps _ \<Rightarrow> uncomparable | _ \<Rightarrow> Inr False)"
| "iface_eq same (GTimeDeltas m) w = (case w of GTimeDeltas _ \<Rightarrow> uncomparable | _ \<Rightarrow> Inr False)"
| "iface_eq same (GSvm c l s t p v) w =
     (case w of
        GSvm c' l' s' t' p' v' \<Rightarrow>
          if c = c' \<and> l = l' \<and> s = s' \<and> t = t' \<and> p = p' then iface_eq same v v' else Inr False
      | _ \<Rightarrow> Inr False)"
| "iface_eq same (GFunc f) w = (case w of GFunc _ \<Rightarrow> uncomparable | _ \<Rightarrow> Inr False)"

section \<open>Decode\<close>

text \<open>
  \<open>mapstructure.DecodeMetadata\<close> is a third-party package: for each structured type it is a
  parameter that maps an input to the decoded struct and the list of unused keys
  (\<open>metadata.Unused\<close>), or to \<open>None\<close> when it reports an error. \<open>Decode\<close> passes
  scalars through and otherwise takes the first type that decodes with no key left over, in the
  order Position, VesselInfo, Length, Alarm, Draft.
\<close>

record mapstructure =
  ms_Position :: "gval \<Rightarrow> (position \<times> string list) option"
  ms_VesselInfo :: "gval \<Rightarrow> (vessel_info \<times> string list) option"
  ms_Length :: "gval \<Rightarrow> (vessel_length \<times> string list) option"
  ms_Alarm :: "gval \<Rightarrow> (alarm \<times> string list) option"
  ms_Draft :: "gval \<Rightarrow> (draft \<times> string list) option"

datatype decode_error = CannotDecode gval

definition fully_decoded :: "('a \<times> string list) option \<Rightarrow> 'a option" where
  "fully_decoded r = (case r of Some (x, []) \<Rightarrow> Some x | _ \<Rightarrow> None)"

definition decode_struct :: "mapstructure \<Rightarrow> gval \<Rightarrow> gval \<times> decode_error option" where
  "decode_struct ms input =
     (case fully_decoded (ms_Position ms input) of Some p \<Rightarrow> (GMerger (Position p), None) | None \<Rightarrow>
     (case fully_decoded (ms_VesselInfo ms input) of Some v \<Rightarrow> (GMerger (VesselInfo v), None) | None \<Rightarrow>
     (case fully_decoded (ms_Length ms input) of Some l \<Rightarrow> (GMerger (Length l), None) | None \<Rightarrow>
     (case fully_decoded (ms_Alarm ms input) of Some a \<Rightarrow> (GMerger (Alarm a), None) | None \<Rightarrow>
     (case fully_decoded (ms_Draft ms input) of Some d \<Rightarrow> (GMerger (Draft d), None) | None \<Rightarrow>
     (input, Some (CannotDecode input)))))))"

definition Decode :: "mapstructure \<Rightarrow> gval \<Rightarrow> gval \<times> decode_error option" where
  "Decode ms input =
     (case input of
        GInt KInt64 i \<Rightarrow> (GInt KInt64 i, None)
      | GFloat f \<Rightarrow> (GFloat f, None)
      | GString s \<Rightarrow> (GString s, None)
      | _ \<Rightarrow> decode_struct ms input)"

section \<open>Laws of Merge and Decode\<close>

fun same_type :: "merger \<Rightarrow> merger \<Rightarrow> bool" where
  "same_type (VesselInfo _) (VesselInfo _) = True"
| "same_type (Position _) (Position _) = True"
| "same_type (Length _) (Length _) = True"
| "same_type (Alarm _) (Alarm _) = True"
| "same_type (Draft _) (Draft _) = True"
| "same_type _ _ = False"

fun_cases same_type_elims: "same_type (VesselInfo a) b" "same_type (Position c) b"
  "same_type (Length d) b" "same_type (Alarm e) b" "same_type (Draft f) b"

lemma same_type_refl [simp]: "same_type a a"
  by (cases a) simp_all

lemma same_type_sym: "same_type a b \<Longrightarrow> same_type b a"
  by (cases a; cases b) simp_all

lemma same_type_trans: "same_type a b \<Longrightarrow> same_type b c \<Longrightarrow> same_type a c"
  by (cases a; cases b; cases c) simp_all

lemma override_simps [simp]:
  "override x None = x" "override x (Some y) = Some y" "override x x = x"
  "override None x = x"
  by (auto simp: override_def)

lemma override_assoc [simp]: "override (override a b) c = override a (override b c)"
  by (cases c) simp_all

lemma override_slice_assoc [simp]:
  "override_slice (override_slice a b) c = override_slice a (override_slice b c)"
  by (simp add: override_slice_def)

lemma override_slice_same [simp]: "override_slice x x = x"
  by (simp add: override_slice_def)

lemma Merge_error_iff: "snd (Merge a b) = None \<longleftrightarrow> same_type a b"
  by (cases a; cases b) (simp_all add: merge_defs)

lemma Merge_error_left: "\<not> same_type a b \<Longrightarrow> fst (Merge a b) = a"
  by (cases a; cases b) (simp_all add: merge_defs)

lemma Merge_same_type [simp]: "same_type (fst (Merge a b)) a"
  by (cases a; cases b) (simp_all add: merge_defs)

lemma Merge_idem: "fst (Merge a a) = a"
  by (cases a) (simp_all add: merge_defs)

lemma Merge_assoc:
  "same_type a b \<Longrightarrow> same_type b c \<Longrightarrow>
     fst (Merge (fst (Merge a b)) c) = fst (Merge a (fst (Merge b c)))"
  by (cases a; cases b; cases c) (simp_all add: merge_defs)

lemma decode_struct_cases:
  assumes "decode_struct ms v = (w, e)"
  obtains m where "w = GMerger m" "e = None" | "w = v" "e = Some (CannotDecode v)"
  using assms by (auto simp: decode_struct_def split: option.splits)

lemma Decode_scalar [simp]:
  "Decode ms (GInt KInt64 i) = (GInt KInt64 i, None)"
  "Decode ms (GFloat f) = (GFloat f, None)"
  "Decode ms (GString s) = (GString s, None)"
  by (simp_all add: Decode_def)

lemma Decode_bool [simp]: "Decode ms (GBool b) = decode_struct ms (GBool b)"
  by (simp add: Decode_def)

lemma Decode_map [simp]: "Decode ms (GMap m) = decode_struct ms (GMap m)"
  by (simp add: Decode_def)

end
