(* ===== verification/Message.thy ===== *)
theory Message
  imports Values
begin

text \<open>
  The messages of \<open>message/\<close>: raw data, sources, values, updates, mapped deltas and single
  value deltas, with their builders, equalities, flattening and merging. Builders return the
  receiver after changing it in place; the model returns the changed record.
\<close>

section \<open>Records\<close>

record raw =
  raw_Connector :: string
  raw_Timestamp :: time
  raw_Type :: string
  raw_Uuid :: uuid
  raw_Value :: "byte list"

record val =
  val_Path :: string
  val_Value :: gval

record upd =
  upd_Source :: source
  upd_Timestamp :: time
  upd_Values :: "val list"

record mapped =
  m_Context :: string
  m_Origin :: string
  m_Updates :: "upd list"

record svm =
  svm_Context :: string
  svm_Origin :: string
  svm_Source :: source
  svm_Timestamp :: time
  svm_Path :: string
  svm_Value :: gval

section \<open>Builders\<close>

text \<open>\<open>message.Raw{}\<close>.\<close>

definition zero_raw :: raw where
  "zero_raw = \<lparr>raw_Connector = [], raw_Timestamp = zero_time, raw_Type = [], raw_Uuid = 0, raw_Value = []\<rparr>"

text \<open>The clock and the fresh uuid that \<open>NewRaw\<close> and \<open>NewUpdate\<close> read are arguments.\<close>

definition NewRaw :: "uuid \<Rightarrow> time \<Rightarrow> raw" where
  "NewRaw u now = \<lparr>raw_Connector = [], raw_Timestamp = now, raw_Type = [], raw_Uuid = u, raw_Value = []\<rparr>"

definition WithConnector :: "string \<Rightarrow> raw \<Rightarrow> raw" where
  "WithConnector c r = r\<lparr>raw_Connector := c\<rparr>"

definition WithRawType :: "string \<Rightarrow> raw \<Rightarrow> raw" where
  "WithRawType t r = r\<lparr>raw_Type := t\<rparr>"

definition WithRawValue :: "byte list \<Rightarrow> raw \<Rightarrow> raw" where
  "WithRawValue v r = r\<lparr>raw_Value := v\<rparr>"

definition Raw_Equals :: "raw \<Rightarrow> raw \<Rightarrow> bool" where
  "Raw_Equals r other \<longleftrightarrow>
     raw_Connector r = raw_Connector other \<and> raw_Type r = raw_Type other \<and>
     raw_Value r = raw_Value other"

definition NewSource :: source where
  "NewSource = \<lparr>src_Label = [], src_Type = [], src_Uuid = 0, src_TransferUuid = 0\<rparr>"

definition WithLabel :: "string \<Rightarrow> source \<Rightarrow> source" where
  "WithLabel l s = s\<lparr>src_Label := l\<rparr>"

definition WithType :: "string \<Rightarrow> source \<Rightarrow> source" where
  "WithType t s = s\<lparr>src_Type := t\<rparr>"

definition WithUuid :: "uuid \<Rightarrow> source \<Rightarrow> source" where
  "WithUuid u s = s\<lparr>src_Uuid := u\<rparr>"

definition WithTransferUuid :: "uuid \<Rightarrow> source \<Rightarrow> source" where
  "WithTransferUuid u s = s\<lparr>src_TransferUuid := u\<rparr>"

definition NewValue :: val where
  "NewValue = \<lparr>val_Path = [], val_Value = GNil\<rparr>"

definition WithPath :: "string \<Rightarrow> val \<Rightarrow> val" where
  "WithPath p v = v\<lparr>val_Path := p\<rparr>"

definition WithValue :: "gval \<Rightarrow> val \<Rightarrow> val" where
  "WithValue x v = v\<lparr>val_Value := x\<rparr>"

definition NewUpdate :: "time \<Rightarrow> upd" where
  "NewUpdate now = \<lparr>upd_Source = NewSource, upd_Timestamp = now, upd_Values = []\<rparr>"

definition WithSource :: "source \<Rightarrow> upd \<Rightarrow> upd" where
  "WithSource s u = u\<lparr>upd_Source := s\<rparr>"

definition WithTimestamp :: "time \<Rightarrow> upd \<Rightarrow> upd" where
  "WithTimestamp t u = u\<lparr>upd_Timestamp := t\<rparr>"

definition AddValue :: "val \<Rightarrow> upd \<Rightarrow> upd" where
  "AddValue v u = u\<lparr>upd_Values := upd_Values u @ [v]\<rparr>"

text \<open>
  \<open>GetValueByPath\<close> returns the address of its loop variable: a fresh copy of the value found,
  not the element of the update.
\<close>

definition GetValueByPath :: "string \<Rightarrow> upd \<Rightarrow> val option" where
  "GetValueByPath p u = find (\<lambda>v. val_Path v = p) (upd_Values u)"

definition NewMapped :: mapped where
  "NewMapped = \<lparr>m_Context = [], m_Origin = [], m_Updates = []\<rparr>"

definition WithContext :: "string \<Rightarrow> mapped \<Rightarrow> mapped" where
  "WithContext c m = m\<lparr>m_Context := c\<rparr>"

definition WithOrigin :: "string \<Rightarrow> mapped \<Rightarrow> mapped" where
  "WithOrigin p m = m\<lparr>m_Origin := p\<rparr>"

definition AddUpdate :: "upd \<Rightarrow> mapped \<Rightarrow> mapped" where
  "AddUpdate u m = m\<lparr>m_Updates := m_Updates m @ [u]\<rparr>"

lemmas builder_defs =
  NewRaw_def WithConnector_def WithRawType_def WithRawValue_def
  NewSource_def WithLabel_def WithType_def WithUuid_def WithTransferUuid_def
  NewValue_def WithPath_def WithValue_def
  NewUpdate_def WithSource_def WithTimestamp_def AddValue_def
  NewMapped_def WithContext_def WithOrigin_def AddUpdate_def

section \<open>The mappers' insertion idiom\<close>

text \<open>
  Every mapper ends a mapping with
  \<^verbatim>\<open>
  if v := u.GetValueByPath(path); v != nil { v.WithValue(output) }
  else { u.AddValue(message.NewValue().WithPath(path).WithValue(output)) }
  \<close>
  \<open>WithValue\<close> changes the copy \<open>GetValueByPath\<close> returned; the update keeps its value.
\<close>

definition insert_output :: "string \<Rightarrow> gval \<Rightarrow> upd \<Rightarrow> upd" where
  "insert_output path output u =
     (case GetValueByPath path u of
        Some v \<Rightarrow> (let _ = WithValue output v in u)
      | None \<Rightarrow> AddValue (WithValue output (WithPath path NewValue)) u)"

section \<open>Flattening\<close>

definition ToSingleValueMapped :: "mapped \<Rightarrow> svm list" where
  "ToSingleValueMapped m =
     foldl (\<lambda>result u.
       foldl (\<lambda>result v. result @
         [\<lparr>svm_Context = m_Context m, svm_Origin = m_Origin m, svm_Source = upd_Source u,
           svm_Timestamp = upd_Timestamp u, svm_Path = val_Path v, svm_Value = val_Value v\<rparr>])
         result (upd_Values u))
       [] (m_Updates m)"

definition ToMapped :: "time \<Rightarrow> svm \<Rightarrow> mapped" where
  "ToMapped now s =
     (let v = WithValue (svm_Value s) (WithPath (svm_Path s) NewValue);
          u = AddValue v (WithTimestamp (svm_Timestamp s) (WithSource (svm_Source s) (NewUpdate now)))
      in AddUpdate u (WithOrigin (svm_Origin s) (WithContext (svm_Context s) NewMapped)))"

section \<open>Equalities\<close>

text \<open>
  \<open>Value.Equals\<close> uses \<open>==\<close> on the interface values, so it needs to know which pointers are
  the same variable: \<open>same v w\<close> says that the pointer fields of \<open>v\<close> and \<open>w\<close> are.
\<close>

definition Value_Equals :: "(gval \<Rightarrow> gval \<Rightarrow> bool) \<Rightarrow> val \<Rightarrow> val \<Rightarrow> panic + bool" where
  "Value_Equals same v other =
     (if val_Path v = val_Path other
      then iface_eq (same (val_Value v) (val_Value other)) (val_Value v) (val_Value other)
      else Inr False)"

text \<open>
  The nested loops of \<open>Update.Equals\<close> and \<open>Mapped.Equals\<close>: the inner loop does not stop at the
  first match (\<open>continue\<close>, not \<open>break\<close>), so a later panic still happens.
\<close>

fun found_in :: "('a \<Rightarrow> panic + bool) \<Rightarrow> 'a list \<Rightarrow> panic + bool" where
  "found_in eq [] = Inr False"
| "found_in eq (x # xs) =
     (case eq x of
        Inl p \<Rightarrow> Inl p
      | Inr b \<Rightarrow> (case found_in eq xs of Inl p \<Rightarrow> Inl p | Inr c \<Rightarrow> Inr (b \<or> c)))"

fun all_found :: "('a \<Rightarrow> 'a \<Rightarrow> panic + bool) \<Rightarrow> 'a list \<Rightarrow> 'a list \<Rightarrow> panic + bool" where
  "all_found eq [] ys = Inr True"
| "all_found eq (x # xs) ys =
     (case found_in (eq x) ys of
        Inl p \<Rightarrow> Inl p
      | Inr False \<Rightarrow> Inr False
      | Inr True \<Rightarrow> all_found eq xs ys)"

definition Update_Equals :: "(gval \<Rightarrow> gval \<Rightarrow> bool) \<Rightarrow> upd \<Rightarrow> upd \<Rightarrow> panic + bool" where
  "Update_Equals same u other =
     (if length (upd_Values u) \<noteq> length (upd_Values other) then Inr False
      else all_found (Value_Equals same) (upd_Values u) (upd_Values other))"

definition Mapped_Equals :: "(gval \<Rightarrow> gval \<Rightarrow> bool) \<Rightarrow> mapped \<Rightarrow> mapped \<Rightarrow> panic + bool" where
  "Mapped_Equals same m other =
     (if m_Context m \<noteq> m_Context other then Inr False
      else if m_Origin m \<noteq> m_Origin other then Inr False
      else if length (m_Updates m) \<noteq> length (m_Updates other) then Inr False
      else all_found (Update_Equals same) (m_Updates m) (m_Updates other))"

definition Svm_Equals :: "svm \<Rightarrow> svm \<Rightarrow> bool" where
  "Svm_Equals s other \<longleftrightarrow>
     svm_Context s = svm_Context other \<and> svm_Path s = svm_Path other \<and>
     deep_equal (svm_Value s) (svm_Value other)"

section \<open>Merging single value deltas\<close>

definition as_merger :: "gval \<Rightarrow> merger option" where
  "as_merger v = (case v of GMerger m \<Rightarrow> Some m | _ \<Rightarrow> None)"

definition Svm_Merge :: "svm \<Rightarrow> svm \<Rightarrow> svm" where
  "Svm_Merge left right =
     (case as_merger (svm_Value left) of None \<Rightarrow> right | Some leftMerger \<Rightarrow>
     (case as_merger (svm_Value right) of None \<Rightarrow> right | Some rightMerger \<Rightarrow>
     (case Merge leftMerger rightMerger of
        (result, Some err) \<Rightarrow> right
      | (result, None) \<Rightarrow> right\<lparr>svm_Value := GMerger result\<rparr>)))"

section \<open>Lemmas\<close>

lemma ToSingleValueMapped_eq:
  "ToSingleValueMapped m =
     concat (map (\<lambda>u. map (\<lambda>v.
       \<lparr>svm_Context = m_Context m, svm_Origin = m_Origin m, svm_Source = upd_Source u,
        svm_Timestamp = upd_Timestamp u, svm_Path = val_Path v, svm_Value = val_Value v\<rparr>)
       (upd_Values u)) (m_Updates m))"
  by (simp add: ToSingleValueMapped_def foldl_snoc_map foldl_append_concat)

lemma ToMapped_simps [simp]:
  "m_Context (ToMapped now s) = svm_Context s"
  "m_Origin (ToMapped now s) = svm_Origin s"
  "m_Updates (ToMapped now s) =
     [\<lparr>upd_Source = svm_Source s, upd_Timestamp = svm_Timestamp s,
       upd_Values = [\<lparr>val_Path = svm_Path s, val_Value = svm_Value s\<rparr>]\<rparr>]"
  by (simp_all add: ToMapped_def Let_def builder_defs)

lemma ToSingleValueMapped_ToMapped [simp]: "ToSingleValueMapped (ToMapped now s) = [s]"
  by (simp add: ToSingleValueMapped_eq)

lemma ToSingleValueMapped_member:
  "s \<in> set (ToSingleValueMapped m) \<longleftrightarrow>
     svm_Context s = m_Context m \<and> svm_Origin s = m_Origin m \<and>
     (\<exists>u\<in>set (m_Updates m). svm_Source s = upd_Source u \<and> svm_Timestamp s = upd_Timestamp u \<and>
        (\<exists>v\<in>set (upd_Values u). svm_Path s = val_Path v \<and> svm_Value s = val_Value v))"
proof
  assume "s \<in> set (ToSingleValueMapped m)"
  then show "svm_Context s = m_Context m \<and> svm_Origin s = m_Origin m \<and>
     (\<exists>u\<in>set (m_Updates m). svm_Source s = upd_Source u \<and> svm_Timestamp s = upd_Timestamp u \<and>
        (\<exists>v\<in>set (upd_Values u). svm_Path s = val_Path v \<and> svm_Value s = val_Value v))"
    by (force simp: ToSingleValueMapped_eq)
next
  assume "svm_Context s = m_Context m \<and> svm_Origin s = m_Origin m \<and>
     (\<exists>u\<in>set (m_Updates m). svm_Source s = upd_Source u \<and> svm_Timestamp s = upd_Timestamp u \<and>
        (\<exists>v\<in>set (upd_Values u). svm_Path s = val_Path v \<and> svm_Value s = val_Value v))"
  then show "s \<in> set (ToSingleValueMapped m)"
    by (auto simp: ToSingleValueMapped_eq image_iff intro!: bexI [rotated] svm.equality)
qed

lemma GetValueByPath_None_iff:
  "GetValueByPath p u = None \<longleftrightarrow> p \<notin> val_Path ` set (upd_Values u)"
  by (auto simp: GetValueByPath_def find_None_iff)

lemma insert_output_eq:
  "insert_output p x u =
     (if p \<in> val_Path ` set (upd_Values u) then u
      else u\<lparr>upd_Values := upd_Values u @ [\<lparr>val_Path = p, val_Value = x\<rparr>]\<rparr>)"
proof (cases "GetValueByPath p u")
  case None
  then have "p \<notin> val_Path ` set (upd_Values u)"
    using GetValueByPath_None_iff [of p u] by simp
  with None show ?thesis by (simp add: insert_output_def builder_defs)
next
  case (Some v)
  then have "p \<in> val_Path ` set (upd_Values u)"
    using GetValueByPath_None_iff [of p u] by simp
  with Some show ?thesis by (simp add: insert_output_def Let_def)
qed

lemma insert_output_frame [simp]:
  "upd_Source (insert_output p x u) = upd_Source u"
  "upd_Timestamp (insert_output p x u) = upd_Timestamp u"
  by (simp_all add: insert_output_eq)

lemma insert_output_distinct:
  "distinct (map val_Path (upd_Values u)) \<Longrightarrow>
   distinct (map val_Path (upd_Values (insert_output p x u)))"
  by (auto simp: insert_output_eq)

lemma Svm_Merge_frame [simp]:
  "svm_Context (Svm_Merge l r) = svm_Context r"
  "svm_Origin (Svm_Merge l r) = svm_Origin r"
  "svm_Source (Svm_Merge l r) = svm_Source r"
  "svm_Timestamp (Svm_Merge l r) = svm_Timestamp r"
  "svm_Path (Svm_Merge l r) = svm_Path r"
  by (auto simp: Svm_Merge_def split: option.splits prod.splits)

lemma Svm_Merge_value:
  "svm_Value (Svm_Merge l r) =
     (case (svm_Value l, svm_Value r) of
        (GMerger a, GMerger b) \<Rightarrow> if same_type a b then GMerger (fst (Merge a b)) else GMerger b
      | _ \<Rightarrow> svm_Value r)"
proof (cases "\<exists>a b. svm_Value l = GMerger a \<and> svm_Value r = GMerger b")
  case True
  then obtain a b where ab: "svm_Value l = GMerger a" "svm_Value r = GMerger b" by blast
  then show ?thesis
    using Merge_error_iff [of a b]
    by (cases "Merge a b") (auto simp: Svm_Merge_def as_merger_def split: option.splits)
next
  case False
  then show ?thesis
    by (auto simp: Svm_Merge_def as_merger_def split: gval.splits)
qed

end
