(* ===== verification/FloatFinite.thy ===== *)
theory FloatFinite
  imports Float64
begin

text \<open>
  Finite floating-point arithmetic: on finite operands whose exact result is far from overflow,
  an operation is the rounding \<open>rnd\<close> of the exact operation on rational values. Rounding is
  monotone and leaves representable values alone, which is all the later proofs use.
\<close>

definition rnd :: "rat \<Rightarrow> rat" where
  "rnd q = fval (fround q)"

definition small_limit :: rat where
  "small_limit = 2 powi 1002"

definition small :: "rat \<Rightarrow> bool" where
  "small q \<longleftrightarrow> \<bar>q\<bar> \<le> small_limit"

lemma representable_powi: "- 1074 \<le> e \<Longrightarrow> representable (2 powi e)"
  unfolding representable_def by (intro exI [of _ 1] exI [of _ e]) simp

lemma powi_below_limit: "e < 1024 \<Longrightarrow> 2 powi e < float_limit"
  unfolding float_limit_def by (rule powi2_less_iff [THEN iffD2])

lemma fround_powi:
  assumes "- 1074 \<le> e" "e < 1024"
  shows "fround (2 powi e) = Fin (2 powi e)" "fround (- (2 powi e)) = Fin (- (2 powi e))"
  using assms by (auto intro!: fround_exact powi_below_limit simp: representable_powi)

lemma fround_small_limit [simp]:
  "fround small_limit = Fin small_limit" "fround (- small_limit) = Fin (- small_limit)"
  unfolding small_limit_def by (rule fround_powi; simp)+

lemma one_le_small_limit: "1 \<le> small_limit"
  unfolding small_limit_def using powi2_le_iff [of 0 1002] by (simp del: powi2_le_iff)

lemma is_finite_simps [simp]:
  "is_finite (Zero s)" "is_finite (Fin q)" "\<not> is_finite NaN" "\<not> is_finite (Inf s)"
  by (simp_all add: is_finite_def)

lemma fval_simps [simp]: "fval (Zero s) = 0" "fval (Fin q) = q"
  by (simp_all add: fval_def)

lemma fround_0 [simp]: "fround 0 = Zero False"
  by (simp add: fround_def)

lemma rnd_0 [simp]: "rnd 0 = 0"
  by (simp add: rnd_def)

lemma fround_finite [simp]:
  assumes "small q"
  shows "is_finite (fround q)"
proof (cases "fround q")
  case (Inf s)
  have "fle (fround q) (Fin small_limit)" "fle (Fin (- small_limit)) (fround q)"
    using fround_mono [of q small_limit] fround_mono [of "- small_limit" q] assms
    by (simp_all add: small_def abs_le_iff minus_le_iff)
  with Inf show ?thesis by simp
qed (auto dest: fround_cases)

lemma rnd_mono: "p \<le> q \<Longrightarrow> small p \<Longrightarrow> small q \<Longrightarrow> rnd p \<le> rnd q"
  using fround_mono [of p q] fround_finite [of p] fround_finite [of q]
  by (cases "fround p"; cases "fround q") (simp_all add: rnd_def fval_def)

lemma rnd_fval [simp]: "valid x \<Longrightarrow> is_finite x \<Longrightarrow> rnd (fval x) = fval x"
  by (cases x) (simp_all add: rnd_def fround_valid_Fin)

lemma rnd_powi: "- 1074 \<le> e \<Longrightarrow> e < 1024 \<Longrightarrow> rnd (2 powi e) = 2 powi e"
  by (simp add: rnd_def fround_powi)

lemma rnd_1 [simp]: "rnd 1 = 1"
  using rnd_powi [of 0] by simp

lemma rnd_rnd [simp]: "small q \<Longrightarrow> rnd (rnd q) = rnd q"
  using rnd_fval [of "fround q"] by (simp add: rnd_def)

lemma small_le: "0 \<le> p \<Longrightarrow> p \<le> q \<Longrightarrow> small q \<Longrightarrow> small p"
  by (simp add: small_def)

lemma small_1 [simp]: "small 1" "small 0"
  using one_le_small_limit by (simp_all add: small_def)

lemma rnd_nonneg: "0 \<le> q \<Longrightarrow> small q \<Longrightarrow> 0 \<le> rnd q"
  using rnd_mono [of 0 q] by simp

text \<open>Integers of up to 53 bits convert exactly.\<close>

lemma fof_int_exact:
  assumes "\<bar>n\<bar> < 2 ^ 53"
  shows "fof_int n = (if n = 0 then Zero False else Fin (of_int n))"
proof (cases "n = 0")
  case False
  have "of_int \<bar>n\<bar> < (of_int (2 ^ 53) :: rat)" using assms by (simp only: of_int_less_iff)
  then have "\<bar>of_int n\<bar> < (2 powi 53 :: rat)" by simp
  moreover have "(2 powi 53 :: rat) < float_limit" by (rule powi_below_limit) simp
  ultimately have "\<bar>of_int n\<bar> < float_limit" by linarith
  moreover have "representable (of_int n)"
    unfolding representable_def using assms by (intro exI [of _ n] exI [of _ 0]) simp
  ultimately show ?thesis using False by (simp add: fof_int_def fround_exact)
qed (simp add: fof_int_def)

section \<open>Operations on finite values\<close>

lemma fadd_finite:
  assumes "valid x" "is_finite x" "valid y" "is_finite y" "small (fval x + fval y)"
  shows "is_finite (x + y) \<and> fval (x + y) = rnd (fval x + fval y)"
  using assms by (cases x; cases y) (simp_all add: float64_ops rnd_def fround_valid_Fin)

lemma fneg_finite [simp]: "is_finite (fneg x) \<longleftrightarrow> is_finite x" "fval (fneg x) = - fval x"
  "valid (fneg x) \<longleftrightarrow> valid x"
  by (cases x; simp add: fneg_def fval_def valid_def)+

lemma fsub_finite:
  assumes "valid x" "is_finite x" "valid y" "is_finite y" "small (fval x - fval y)"
  shows "is_finite (x - y) \<and> fval (x - y) = rnd (fval x - fval y)"
  using fadd_finite [of x "fneg y"] assms by (simp add: float64_ops fsub_def)

lemma fmul_finite:
  assumes "is_finite x" "is_finite y" "small (fval x * fval y)"
  shows "is_finite (x * y) \<and> fval (x * y) = rnd (fval x * fval y)"
  using assms by (cases x; cases y) (simp_all add: float64_ops rnd_def)

lemma fdiv_finite:
  assumes "is_finite x" "is_finite y" "fval y \<noteq> 0" "small (fval x / fval y)"
  shows "is_finite (x / y) \<and> fval (x / y) = rnd (fval x / fval y)"
  using assms by (cases x; cases y) (simp_all add: float64_ops rnd_def)

lemma less_finite: "is_finite x \<Longrightarrow> is_finite y \<Longrightarrow> x < y \<longleftrightarrow> fval x < fval y"
  by (cases x; cases y) (simp_all add: float64_ops)

lemma le_finite: "is_finite x \<Longrightarrow> is_finite y \<Longrightarrow> x \<le> y \<longleftrightarrow> fval x \<le> fval y"
  by (cases x; cases y) (simp_all add: float64_ops)

lemma fle_finite: "is_finite x \<Longrightarrow> is_finite y \<Longrightarrow> fle x y \<longleftrightarrow> fval x \<le> fval y"
  using le_finite by (simp add: float64_ops)

lemma feq_finite: "is_finite x \<Longrightarrow> is_finite y \<Longrightarrow> feq x y \<longleftrightarrow> fval x = fval y"
  by (auto simp: feq_def fle_finite)

section \<open>Operations keep the values of the format\<close>

lemma valid_simps [simp]: "valid NaN" "valid (Inf s)" "valid (Zero s)"
  by (simp_all add: valid_def)

lemma fadd_valid [simp]: "valid x \<Longrightarrow> valid y \<Longrightarrow> valid (x + y)"
  by (cases x; cases y) (simp_all add: float64_ops)

lemma fsub_valid [simp]: "valid x \<Longrightarrow> valid y \<Longrightarrow> valid (x - y)"
  using fadd_valid [of x "fneg y"] by (simp add: float64_ops fsub_def)

lemma fmul_valid [simp]: "valid x \<Longrightarrow> valid y \<Longrightarrow> valid (x * y)"
  by (cases x; cases y) (simp_all add: float64_ops)

lemma fdiv_valid [simp]: "valid x \<Longrightarrow> valid y \<Longrightarrow> valid (x / y)"
  by (cases x; cases y) (simp_all add: float64_ops)

lemma fof_int_valid [simp]: "valid (fof_int n)"
  by (simp add: fof_int_def)

section \<open>Differences\<close>

text \<open>Subtracting distinct finite values never underflows to zero.\<close>

lemma representable_grid:
  assumes "representable q"
  shows "\<exists>n::int. q = of_int n * 2 powi (- 1074)"
proof -
  obtain m e where q: "q = of_int m * 2 powi e" and e: "- 1074 \<le> e"
    using assms by (auto simp: representable_def)
  have "(2 powi e :: rat) = 2 ^ nat (e + 1074) * 2 powi (- 1074)"
    using e power_int_add [of "2::rat" "e + 1074" "- 1074"]
    by (simp add: power_int_def split: if_splits)
  then have "q = of_int (m * 2 ^ nat (e + 1074)) * 2 powi (- 1074)" by (simp add: q)
  then show ?thesis by blast
qed

lemma finite_grid:
  assumes "valid x" "is_finite x"
  shows "\<exists>n::int. fval x = of_int n * 2 powi (- 1074)"
  using assms representable_grid
  by (cases x) (auto simp: valid_def intro: exI [of _ 0])

lemma rnd_diff_pos:
  assumes "valid x" "is_finite x" "valid y" "is_finite y" "fval y < fval x" "small (fval x - fval y)"
  shows "0 < rnd (fval x - fval y)"
proof -
  obtain m n :: int where mn: "fval x = of_int m * 2 powi (- 1074)" "fval y = of_int n * 2 powi (- 1074)"
    using finite_grid assms by meson
  then have d: "fval x - fval y = of_int (m - n) * 2 powi (- 1074)" by (simp add: left_diff_distrib)
  with assms(5) have "(0::rat) < of_int (m - n) * 2 powi (- 1074)" by simp
  then have "0 < m - n" by (simp add: zero_less_mult_iff)
  then have "(1::rat) * 2 powi (- 1074) \<le> of_int (m - n) * 2 powi (- 1074)"
    by (intro mult_right_mono) simp_all
  then have le: "2 powi (- 1074) \<le> fval x - fval y" by (simp add: d)
  then have "small (2 powi (- 1074))" by (intro small_le [OF _ _ assms(6)]) simp_all
  with le assms(6) have "rnd (2 powi (- 1074)) \<le> rnd (fval x - fval y)" by (intro rnd_mono)
  moreover have "(0::rat) < 2 powi (- 1074)" by (rule powi2_pos)
  ultimately show ?thesis using rnd_powi [of "- 1074"] by simp
qed

end
