(* ===== verification/Expressions.thy ===== *)
theory Expressions
  imports Message FloatFinite
begin

text \<open>
  \<open>mapper/expressions.go\<close>: the functions an expression can call, the merging of the
  environments and the evaluation of one mapping. The expression language itself
  (\<open>antonmedv/expr\<close>) is a parameter: a compiler and a virtual machine.
\<close>

section \<open>Functions of the environment\<close>

definition CurrentToRatio :: "float64 \<Rightarrow> float64" where
  "CurrentToRatio current = (current - fof_int 4000) / fof_int 16000"

text \<open>The constant \<open>9.8\<close> is the \<open>float64\<close> nearest to it.\<close>

definition G :: float64 where
  "G = fround (98 / 10)"

definition PressureToHeight :: "float64 \<Rightarrow> float64 \<Rightarrow> float64" where
  "PressureToHeight pressure density = pressure / (density * G)"

text \<open>Errors of the expression functions and of the evaluation.\<close>

datatype expr_error =
    DifferentLengths nat nat
  | NotConvertible nat
  | HeightsNotIncreasing nat
  | VolumesNotIncreasing nat
  | KeyInBothEnvironments string
  | CompileError string
  | RunError string

definition float_of_gval :: "gval \<Rightarrow> float64 option" where
  "float_of_gval h =
     (case h of GInt k t \<Rightarrow> Some (fof_int t) | GFloat32 t \<Rightarrow> Some t | GFloat t \<Rightarrow> Some t | _ \<Rightarrow> None)"

fun list_to_floats :: "nat \<Rightarrow> gval list \<Rightarrow> expr_error + float64 list" where
  "list_to_floats i [] = Inr []"
| "list_to_floats i (h # hs) =
     (case float_of_gval h of
        None \<Rightarrow> Inl (NotConvertible i)
      | Some f \<Rightarrow> cons_result f (list_to_floats (Suc i) hs))"

definition ListToFloats :: "gval list \<Rightarrow> expr_error + float64 list" where
  "ListToFloats input = list_to_floats 0 input"

text \<open>The two loops of \<open>HeightToVolume\<close>, over the indices of the tables.\<close>

fun check_increasing :: "float64 list \<Rightarrow> float64 list \<Rightarrow> nat list \<Rightarrow> expr_error option" where
  "check_increasing hs vs [] = None"
| "check_increasing hs vs (i # is) =
     (if i > 0 \<and> hs ! i \<le> hs ! (i - 1) then Some (HeightsNotIncreasing i)
      else if i > 0 \<and> vs ! i \<le> vs ! (i - 1) then Some (VolumesNotIncreasing i)
      else check_increasing hs vs is)"

fun interpolate ::
    "float64 \<Rightarrow> float64 \<Rightarrow> float64 list \<Rightarrow> float64 list \<Rightarrow> float64 \<Rightarrow> nat list \<Rightarrow> float64" where
  "interpolate height sensorOffset hs vs result [] = result"
| "interpolate height sensorOffset hs vs result (i # is) =
     (if height + sensorOffset < hs ! i then
        (if i = 0 then result
         else
           (let ratioInCurrentHeight =
                  (height + sensorOffset - hs ! (i - 1)) / (hs ! i - hs ! (i - 1))
            in ratioInCurrentHeight * (vs ! i - vs ! (i - 1)) + vs ! (i - 1)))
      else interpolate height sensorOffset hs vs (vs ! i) is)"

definition HeightToVolume ::
    "float64 \<Rightarrow> float64 \<Rightarrow> gval list \<Rightarrow> gval list \<Rightarrow> expr_error + float64" where
  "HeightToVolume height sensorOffset heights volumes =
     (if length heights \<noteq> length volumes
      then Inl (DifferentLengths (length heights) (length volumes))
      else case ListToFloats heights of Inl err \<Rightarrow> Inl err | Inr heightFloats \<Rightarrow>
        (case ListToFloats volumes of Inl err \<Rightarrow> Inl err | Inr volumeFloats \<Rightarrow>
          (case check_increasing heightFloats volumeFloats [0..<length heights] of
             Some err \<Rightarrow> Inl err
           | None \<Rightarrow> Inr (interpolate height sensorOffset heightFloats volumeFloats (Zero False)
                         [0..<length heights]))))"

section \<open>Environments\<close>

type_synonym environment = "(string, gval) gomap"

definition NewExpressionEnvironment :: environment where
  "NewExpressionEnvironment =
     [(''currentToRatio'', GFunc ''CurrentToRatio''),
      (''pressureToHeight'', GFunc ''PressureToHeight''),
      (''heightToVolume'', GFunc ''HeightToVolume'')]"

text \<open>
  The result starts as a copy of \<open>left\<close>. Which of several common keys the error names
  depends on the iteration order of \<open>right\<close>.
\<close>

fun merge_right :: "environment \<Rightarrow> environment \<Rightarrow> environment \<Rightarrow> expr_error + environment" where
  "merge_right left [] result = Inr result"
| "merge_right left ((k, v) # right) result =
     (if map_of left k \<noteq> None then Inl (KeyInBothEnvironments k)
      else merge_right left right (AList.update k v result))"

definition mergeEnvironments :: "environment \<Rightarrow> environment \<Rightarrow> expr_error + environment" where
  "mergeEnvironments left right =
     merge_right left right (fold (\<lambda>(k, v) result. AList.update k v result) left [])"

section \<open>Mappings\<close>

text \<open>
  \<open>config.MappingConfig\<close> and the mappings that embed it. \<open>'p\<close> is the type of a
  compiled program, \<open>None\<close> the nil pointer.
\<close>

record 'p mapping_config =
  mc_Expression :: string
  mc_ExpressionEnvironment :: environment
  mc_CompiledExpression :: "'p option"
  mc_Path :: string

text \<open>
  The expression library: \<open>expr.Compile(expression, expr.Env(env))\<close> and the \<open>Run\<close> of
  a fresh virtual machine. Errors are their messages.
\<close>

record 'p expr_lib =
  ex_Compile :: "string \<Rightarrow> environment \<Rightarrow> string + 'p"
  ex_Run :: "'p \<Rightarrow> environment \<Rightarrow> string + gval"

text \<open>
  \<open>mappingConfig\<close> is passed by value, so the program compiled here is not seen by the next
  call. A map is replaced by the structured value it decodes to, if any.
\<close>

definition decode_output :: "mapstructure \<Rightarrow> gval \<Rightarrow> gval" where
  "decode_output ms output =
     (case output of
        GMap m \<Rightarrow> (case Decode ms (GMap m) of (decoded, None) \<Rightarrow> decoded | (_, Some err) \<Rightarrow> output)
      | _ \<Rightarrow> output)"

definition runExpr ::
    "'p expr_lib \<Rightarrow> mapstructure \<Rightarrow> environment \<Rightarrow> ('p, 'z) mapping_config_scheme \<Rightarrow> expr_error + gval"
where
  "runExpr lib ms env mappingConfig =
     (case mergeEnvironments env (mc_ExpressionEnvironment mappingConfig) of
        Inl err \<Rightarrow> Inl err
      | Inr env \<Rightarrow>
         (case (case mc_CompiledExpression mappingConfig of
                  None \<Rightarrow> (case ex_Compile lib (mc_Expression mappingConfig) env of
                            Inl err \<Rightarrow> Inl (CompileError err) | Inr program \<Rightarrow> Inr program)
                | Some program \<Rightarrow> Inr program) of
            Inl err \<Rightarrow> Inl err
          | Inr program \<Rightarrow>
             (case ex_Run lib program env of
                Inl err \<Rightarrow> Inl (RunError err)
              | Inr output \<Rightarrow> Inr (decode_output ms output))))"

section \<open>Numbers in text\<close>

definition swapPointAndComma :: "string \<Rightarrow> string" where
  "swapPointAndComma input =
     map (\<lambda>c. if c = CHR ''.'' then CHR '','' else if c = CHR '','' then CHR ''.'' else c) input"

lemma swapPointAndComma_involution: "swapPointAndComma (swapPointAndComma s) = s"
  by (induction s) (simp_all add: swapPointAndComma_def)

section \<open>Lemmas\<close>

lemma list_to_floats_ok:
  "list_to_floats i hs = Inr fs \<longleftrightarrow> map float_of_gval hs = map Some fs"
proof (induction hs arbitrary: i fs)
  case Nil
  then show ?case by auto
next
  case (Cons h hs)
  then show ?case by (cases "float_of_gval h"; cases fs) auto
qed

lemma ListToFloats_ok: "ListToFloats hs = Inr fs \<longleftrightarrow> map float_of_gval hs = map Some fs"
  by (simp add: ListToFloats_def list_to_floats_ok)

lemma ListToFloats_length: "ListToFloats hs = Inr fs \<Longrightarrow> length fs = length hs"
  unfolding ListToFloats_ok by (metis length_map)

lemma check_increasing_None:
  "check_increasing hs vs is = None \<longleftrightarrow>
     (\<forall>i\<in>set is. i > 0 \<longrightarrow> \<not> hs ! i \<le> hs ! (i - 1) \<and> \<not> vs ! i \<le> vs ! (i - 1))"
  by (induction "is") auto

lemma interpolate_skip:
  "(\<forall>i\<in>set is. \<not> height + off < hs ! i) \<Longrightarrow>
     interpolate height off hs vs r (is @ js) =
       interpolate height off hs vs (if is = [] then r else vs ! last is) js"
  by (induction "is" arbitrary: r) auto

lemma merge_right_ok:
  "(\<forall>k\<in>fst ` set right. map_of left k = None) \<Longrightarrow>
     merge_right left right result = Inr (fold (\<lambda>(k, v). AList.update k v) right result)"
  by (induction left right result rule: merge_right.induct) auto

lemma merge_right_error:
  "k \<in> fst ` set right \<Longrightarrow> map_of left k \<noteq> None \<Longrightarrow>
     \<exists>k'. merge_right left right result = Inl (KeyInBothEnvironments k') \<and>
          k' \<in> fst ` set right \<and> map_of left k' \<noteq> None"
proof (induction left right result rule: merge_right.induct)
  case (1 left result)
  then show ?case by simp
next
  case (2 left k' v right result)
  show ?case
  proof (cases "map_of left k' = None")
    case True
    with "2.prems" have "k \<in> fst ` set right" by auto
    then show ?thesis using "2.IH" "2.prems"(2) True by auto
  next
    case False
    then show ?thesis by auto
  qed
qed

lemma map_of_copy:
  "distinct (map fst left) \<Longrightarrow>
     map_of (fold (\<lambda>(k, v). AList.update k v) left m) = map_of m ++ map_of left"
proof (rule ext)
  fix k
  assume d: "distinct (map fst left)"
  have "map_of (rev left) k = map_of left k"
    using d map_of_inject_set [of "rev left" left] by (simp add: rev_map [symmetric])
  then show "map_of (fold (\<lambda>(k, v). AList.update k v) left m) k = (map_of m ++ map_of left) k"
    by (simp add: alist.look_fold_put map_add_def)
qed

text \<open>What a run of \<open>runExpr\<close> that succeeds has done.\<close>

lemma runExpr_ok:
  "runExpr lib ms env c = Inr out \<longleftrightarrow>
     (\<exists>env' program output. mergeEnvironments env (mc_ExpressionEnvironment c) = Inr env' \<and>
        (case mc_CompiledExpression c of
           None \<Rightarrow> ex_Compile lib (mc_Expression c) env' = Inr program
         | Some p \<Rightarrow> program = p) \<and>
        ex_Run lib program env' = Inr output \<and> out = decode_output ms output)"
  by (auto simp: runExpr_def split: sum.splits option.splits)

lemma decode_output_cases:
  "decode_output ms v = v \<or> (\<exists>m. decode_output ms v = GMerger m)"
proof (cases v)
  case (GMap m)
  then show ?thesis
    by (cases "decode_struct ms v") (auto simp: decode_output_def elim!: decode_struct_cases split: option.splits)
qed (simp_all add: decode_output_def)

section \<open>Properties\<close>

text \<open>Environments are merged without loss. On Go maps (keys are distinct) the merge fails
  exactly when the two environments share a key, and then names a shared key; otherwise every
  lookup in the result is the lookup in the environment that has the key. A mapping's own
  environment therefore never replaces a function or a measured value.\<close>

theorem merge_environments_union:
  assumes "distinct (map fst left)" "distinct (map fst right)"
  shows "case mergeEnvironments left right of
      Inr env \<Rightarrow> dom (map_of left) \<inter> dom (map_of right) = {} \<and>
        map_of env = map_of left ++ map_of right
    | Inl e \<Rightarrow> \<exists>k\<in>dom (map_of left) \<inter> dom (map_of right). e = KeyInBothEnvironments k"
proof (cases "\<forall>k\<in>fst ` set right. map_of left k = None")
  case True
  have "mergeEnvironments left right =
      Inr (fold (\<lambda>(k, v). AList.update k v) right (fold (\<lambda>(k, v). AList.update k v) left []))"
    unfolding mergeEnvironments_def using True by (rule merge_right_ok)
  moreover have "dom (map_of left) \<inter> dom (map_of right) = {}"
    using True by (force simp: dom_map_of_conv_image_fst map_of_eq_None_iff)
  ultimately show ?thesis using assms by (simp add: map_of_copy)
next
  case False
  then obtain k k' where "mergeEnvironments left right = Inl (KeyInBothEnvironments k')"
      "k' \<in> fst ` set right" "map_of left k' \<noteq> None"
    using merge_right_error unfolding mergeEnvironments_def by blast
  then show ?thesis by (auto simp: dom_map_of_conv_image_fst map_of_eq_None_iff)
qed

theorem merge_environments_union_witness:
  "\<exists>env. mergeEnvironments NewExpressionEnvironment [(''density'', GInt KInt 840)] = Inr env \<and>
     map_of env ''density'' = Some (GInt KInt 840) \<and>
     map_of env ''currentToRatio'' = Some (GFunc ''CurrentToRatio'')"
  using merge_environments_union [of NewExpressionEnvironment "[(''density'', GInt KInt 840)]"]
  by (simp add: NewExpressionEnvironment_def mergeEnvironments_def)

definition table_limit :: rat where
  "table_limit = 2 powi 1000"

definition tabular :: "float64 \<Rightarrow> bool" where
  "tabular f \<longleftrightarrow> valid f \<and> is_finite f \<and> \<bar>fval f\<bar> \<le> table_limit"

lemma small_sums:
  "\<bar>p\<bar> \<le> 4 * table_limit \<Longrightarrow> small p"
proof -
  have "4 * table_limit = small_limit"
    unfolding table_limit_def small_limit_def
    using power_int_add [of "2::rat" 2 1000] by simp
  then show "\<bar>p\<bar> \<le> 4 * table_limit \<Longrightarrow> small p" by (simp add: small_def)
qed

lemma tabular_small: "tabular f \<Longrightarrow> tabular g \<Longrightarrow> small (fval f - fval g)"
  by (rule small_sums) (auto simp: tabular_def)

text \<open>One step of the interpolation, between two entries of the tables.\<close>

lemma interpolation_step:
  assumes t: "tabular x" "tabular h0" "tabular h1" "tabular v0" "tabular v1"
    and h: "fval h0 \<le> fval x" "fval x < fval h1" and v: "fval v0 < fval v1"
  defines "r \<equiv> (x - h0) / (h1 - h0) * (v1 - v0) + v0"
  shows "fle v0 r \<and> (fval x = fval h0 \<longrightarrow> feq r v0)"
proof -
  note fin = tabular_def
  define a where "a = rnd (fval x - fval h0)"
  define b where "b = rnd (fval h1 - fval h0)"
  define d where "d = rnd (fval v1 - fval v0)"
  have A: "is_finite (x - h0)" "fval (x - h0) = a"
    using fsub_finite [of x h0] t tabular_small by (auto simp: fin a_def)
  have B: "is_finite (h1 - h0)" "fval (h1 - h0) = b"
    using fsub_finite [of h1 h0] t tabular_small by (auto simp: fin b_def)
  have D: "is_finite (v1 - v0)" "fval (v1 - v0) = d"
    using fsub_finite [of v1 v0] t tabular_small by (auto simp: fin d_def)
  have ab: "0 \<le> a" "a \<le> b" "0 < b"
    using h t tabular_small rnd_diff_pos [of h1 h0]
    by (auto simp: a_def b_def fin intro!: rnd_nonneg rnd_mono)
  define q where "q = rnd (a / b)"
  have "0 \<le> a / b" "a / b \<le> 1" using ab by simp_all
  then have sq: "small (a / b)" by (rule small_le [OF _ _ small_1(1)])
  have q: "0 \<le> q" "q \<le> 1"
    using rnd_nonneg [OF \<open>0 \<le> a / b\<close> sq] rnd_mono [OF \<open>a / b \<le> 1\<close> sq small_1(1)]
    by (simp_all add: q_def)
  have Q: "is_finite ((x - h0) / (h1 - h0))" "fval ((x - h0) / (h1 - h0)) = q"
    using fdiv_finite [of "x - h0" "h1 - h0"] A B ab sq by (auto simp: q_def)
  have lim: "0 < table_limit" by (simp add: table_limit_def)
  have dd: "fval v1 - fval v0 \<le> 2 * table_limit" "0 \<le> fval v1 - fval v0"
    using t v by (auto simp: fin)
  have s2: "small (2 * table_limit)" using lim by (intro small_sums) simp
  have "2 * table_limit = 2 powi 1001"
    unfolding table_limit_def using power_int_add [of "2::rat" 1 1000] by simp
  then have r2: "rnd (2 * table_limit) = 2 * table_limit"
    by (simp only:) (rule rnd_powi; simp)
  have d: "0 \<le> d" "d \<le> 2 * table_limit"
    using rnd_nonneg [OF dd(2)] rnd_mono [OF dd(1)] s2 r2 tabular_small [OF t(5,4)]
    by (auto simp: d_def)
  have qd: "0 \<le> q * d" "q * d \<le> 2 * table_limit"
    using q d mult_mono [of q 1 d "2 * table_limit"] by auto
  have sqd: "small (q * d)" using qd by (intro small_le [OF _ _ s2])
  define p where "p = rnd (q * d)"
  have p: "0 \<le> p" "p \<le> 2 * table_limit"
    using rnd_nonneg [OF qd(1) sqd] rnd_mono [OF qd(2) sqd s2] r2 by (auto simp: p_def)
  let ?m = "(x - h0) / (h1 - h0) * (v1 - v0)"
  have P: "is_finite ?m" "fval ?m = p"
    using fmul_finite [of "(x - h0) / (h1 - h0)" "v1 - v0"] Q D sqd by (auto simp: p_def)
  have sp: "small (p + fval v0)" "small (fval v0)"
    using p t lim by (auto simp: fin intro!: small_sums)
  have "valid ?m" using t by (simp add: fin)
  then have R: "is_finite r" "fval r = rnd (p + fval v0)"
    using fadd_finite [of ?m v0] P sp t by (auto simp: r_def fin)
  have rv: "rnd (fval v0) = fval v0" using t by (simp add: fin)
  have "fval v0 \<le> fval r" using rnd_mono [of "fval v0" "p + fval v0"] p sp rv R by simp
  moreover have "fval r = fval v0" if "fval x = fval h0"
    using that R rv by (simp add: p_def q_def a_def)
  ultimately show ?thesis using R t by (auto simp: fle_finite feq_finite fin)
qed

text \<open>Tables of numbers, the heights and the volumes strictly increasing.\<close>

definition table_ok :: "float64 list \<Rightarrow> float64 list \<Rightarrow> bool" where
  "table_ok hs vs \<longleftrightarrow> length hs = length vs \<and> (\<forall>f\<in>set hs \<union> set vs. tabular f) \<and>
     (\<forall>i. Suc i < length hs \<longrightarrow> hs ! i < hs ! Suc i \<and> vs ! i < vs ! Suc i)"

lemma table_entries:
  "table_ok hs vs \<Longrightarrow> i < length hs \<Longrightarrow> tabular (hs ! i) \<and> tabular (vs ! i) \<and> is_finite (hs ! i) \<and> is_finite (vs ! i)"
  by (auto simp: table_ok_def tabular_def)

lemma table_mono:
  assumes "table_ok hs vs" "i \<le> j" "j < length hs"
  shows "fval (hs ! i) \<le> fval (hs ! j)"
  using assms(2,3)
proof (induction j rule: dec_induct)
  case (step k)
  then show ?case
    using assms(1) table_entries [of hs vs k] table_entries [of hs vs "Suc k"] less_finite
    by (fastforce simp: table_ok_def)
qed simp

lemma table_increasing:
  assumes "table_ok hs vs"
  shows "check_increasing hs vs [0..<length hs] = None"
  unfolding check_increasing_None
proof clarsimp
  fix i assume i: "i < length hs" "0 < i"
  then obtain j where j: "i = Suc j" by (cases i) auto
  then have "hs ! j < hs ! i" "vs ! j < vs ! i" using assms i by (auto simp: table_ok_def)
  then show "\<not> hs ! i \<le> hs ! (i - Suc 0) \<and> \<not> vs ! i \<le> vs ! (i - Suc 0)"
    using i j table_entries [OF assms, of i] table_entries [OF assms, of j] by (simp add: less_finite le_finite)
qed

text \<open>The entries that are not above the height are passed over.\<close>

lemma interpolate_from:
  assumes "table_ok hs vs" "is_finite (height + off)" "k \<le> length hs" "k = 0 \<or> hs ! (k - 1) \<le> height + off"
  shows "interpolate height off hs vs (Zero False) [0..<length hs] =
    interpolate height off hs vs (if k = 0 then Zero False else vs ! (k - 1)) [k..<length hs]"
proof -
  have "\<forall>i\<in>set [0..<k]. \<not> height + off < hs ! i"
  proof
    fix i assume "i \<in> set [0..<k]"
    with assms(3,4) have "fval (hs ! i) \<le> fval (hs ! (k - 1))" "fval (hs ! (k - 1)) \<le> fval (height + off)" "i < length hs"
      using table_mono [OF assms(1), of i "k - 1"] table_entries [OF assms(1), of "k - 1"] assms(2)
      by (auto simp: le_finite)
    then show "\<not> height + off < hs ! i" using table_entries [OF assms(1)] assms(2) by (simp add: less_finite)
  qed
  then have "interpolate height off hs vs (Zero False) ([0..<k] @ [k..<length hs]) =
      interpolate height off hs vs (if k = 0 then Zero False else vs ! (k - 1)) [k..<length hs]"
    using interpolate_skip [of "[0..<k]" height off hs vs "Zero False" "[k..<length hs]"]
    by (simp add: last_conv_nth)
  moreover have split: "[0..<k] @ [k..<length hs] = [0..<length hs]"
    using assms(3) upt_add_eq_append [of 0 k "length hs - k"] by simp
  ultimately show ?thesis unfolding split by simp
qed

text \<open>\<open>HeightToVolume\<close> reads its tables correctly, in floating point. For strictly
  increasing tables of finite numbers (below 2 to the 1000, so that no difference overflows) it
  succeeds; below the first height the volume is zero; from the last height on it is the last
  volume; between two heights the result is never below the volume of the lower one, and at a
  height of the table it is that height's volume.\<close>

theorem height_to_volume_table:
  assumes "ListToFloats heights = Inr hs" "ListToFloats volumes = Inr vs"
    and "length hs = length vs" "\<forall>f\<in>set hs \<union> set vs. tabular f" "tabular (height + off)"
    and "\<forall>i. Suc i < length hs \<longrightarrow> hs ! i < hs ! Suc i \<and> vs ! i < vs ! Suc i"
  shows "\<exists>r. HeightToVolume height off heights volumes = Inr r \<and>
    (hs = [] \<or> height + off < hs ! 0 \<longrightarrow> r = Zero False) \<and>
    (hs \<noteq> [] \<and> last hs \<le> height + off \<longrightarrow> r = last vs) \<and>
    (\<forall>i. Suc i < length hs \<and> hs ! i \<le> height + off \<and> height + off < hs ! Suc i \<longrightarrow>
       vs ! i \<le> r \<and> (feq (height + off) (hs ! i) \<longrightarrow> feq r (vs ! i)))"
proof -
  let ?x = "height + off" and ?n = "length hs"
  have ok: "table_ok hs vs" using assms(3,4,6) by (simp add: table_ok_def)
  have xf: "is_finite ?x" using assms(5) by (simp add: tabular_def)
  have "length heights = ?n" "length volumes = ?n" using assms(1-3) ListToFloats_length by metis+
  then have eq: "HeightToVolume height off heights volumes =
      Inr (interpolate height off hs vs (Zero False) [0..<?n])"
    using assms(1,2) table_increasing [OF ok] by (simp add: HeightToVolume_def)
  note skip = interpolate_from [OF ok xf]
  show ?thesis
  proof (intro exI conjI impI allI, rule eq)
    assume "hs = [] \<or> ?x < hs ! 0"
    then show "interpolate height off hs vs (Zero False) [0..<?n] = Zero False"
      by (cases hs) (auto simp: upt_rec)
  next
    assume "hs \<noteq> [] \<and> last hs \<le> ?x"
    then show "interpolate height off hs vs (Zero False) [0..<?n] = last vs"
      using skip [of ?n] assms(3) by (auto simp: last_conv_nth)
  next
    fix i
    assume i: "Suc i < ?n \<and> hs ! i \<le> ?x \<and> ?x < hs ! Suc i"
    let ?r = "(?x - hs ! i) / (hs ! Suc i - hs ! i) * (vs ! Suc i - vs ! i) + vs ! i"
    have r: "interpolate height off hs vs (Zero False) [0..<?n] = ?r"
      using skip [of "Suc i"] i by (simp add: upt_rec)
    note entries = table_entries [OF ok, of i] table_entries [OF ok, of "Suc i"]
    have "fle (vs ! i) ?r \<and> (fval ?x = fval (hs ! i) \<longrightarrow> feq ?r (vs ! i))"
      using i assms(5,6) entries xf by (intro interpolation_step) (auto simp: le_finite less_finite)
    then show "vs ! i \<le> interpolate height off hs vs (Zero False) [0..<?n]"
      "feq ?x (hs ! i) \<Longrightarrow> feq (interpolate height off hs vs (Zero False) [0..<?n]) (vs ! i)"
      using i entries xf by (auto simp: r less_eq_float64_def feq_finite)
  qed
qed

lemma sample_floats:
  "fof_int 0 = Zero False" "fof_int 3 = Fin 3" "fof_int 1 = Fin 1" "fof_int 4 = Fin 4"
  "fof_int 6 = Fin 6" "fof_int 10 = Fin 10" "fof_int 30 = Fin 30"
  "Fin 3 + Fin 1 = Fin 4"
  by (simp_all add: fof_int_exact float64_ops)
    (use fof_int_exact [of 4] in \<open>simp add: fof_int_def\<close>)

lemma tabular_sample:
  assumes "fof_int i = Fin q \<or> fof_int i = Zero False" "\<bar>q\<bar> \<le> 30"
  shows "tabular (fof_int i)"
proof -
  have "(30::rat) \<le> table_limit" "0 \<le> table_limit" unfolding table_limit_def by simp_all
  then show ?thesis using assms fof_int_valid [of i] by (auto simp: tabular_def)
qed

theorem height_to_volume_table_witness:
  "\<exists>r. HeightToVolume (Fin 3) (Fin 1) [GInt KInt 0, GInt KInt 4, GInt KInt 6]
         [GInt KInt 0, GInt KInt 10, GInt KInt 30] = Inr r \<and> feq r (Fin 10)"
proof -
  let ?hs = "[Zero False, Fin 4, Fin 6]" and ?vs = "[Zero False, Fin 10, Fin 30]"
  have tab: "tabular (Zero False)" "tabular (Fin 4)" "tabular (Fin 6)" "tabular (Fin 10)" "tabular (Fin 30)"
    using tabular_sample [of 0 0] tabular_sample [of 4 4] tabular_sample [of 6 6]
      tabular_sample [of 10 10] tabular_sample [of 30 30] by (simp_all add: sample_floats)
  have inc: "\<forall>i. Suc i < length ?hs \<longrightarrow> ?hs ! i < ?hs ! Suc i \<and> ?vs ! i < ?vs ! Suc i"
    by (simp add: less_Suc_eq_0_disj all_conj_distrib float64_ops)
  have floats: "ListToFloats [GInt KInt 0, GInt KInt 4, GInt KInt 6] = Inr ?hs"
      "ListToFloats [GInt KInt 0, GInt KInt 10, GInt KInt 30] = Inr ?vs"
    by (simp_all add: ListToFloats_ok float_of_gval_def sample_floats)
  have "tabular (Fin 3 + Fin 1)" "\<forall>f\<in>set ?hs \<union> set ?vs. tabular f" "length ?hs = length ?vs"
    using tab by (simp_all add: sample_floats)
  note height_to_volume_table [OF floats this(3,2,1) inc]
  then obtain r where r: "HeightToVolume (Fin 3) (Fin 1) [GInt KInt 0, GInt KInt 4, GInt KInt 6]
         [GInt KInt 0, GInt KInt 10, GInt KInt 30] = Inr r"
      and seg: "\<forall>i. Suc i < length ?hs \<and> ?hs ! i \<le> Fin 3 + Fin 1 \<and> Fin 3 + Fin 1 < ?hs ! Suc i \<longrightarrow>
       ?vs ! i \<le> r \<and> (feq (Fin 3 + Fin 1) (?hs ! i) \<longrightarrow> feq r (?vs ! i))"
    by (elim exE conjE)
  have "feq r (Fin 10)"
    using spec [OF seg, of 1] by (simp add: sample_floats(8)) (simp add: float64_ops feq_def)
  with r show ?thesis by blast
qed

end
