(* ===== verification/Wire.thy ===== *)
theory Wire
  imports Message FloatFinite
begin

text \<open>
  The JSON form of messages: \<open>Raw.MarshalJSON\<close> and \<open>UnmarshalJSON\<close> with the
  base64 coding of the value, \<open>Value.UnmarshalJSON\<close>,
  \<open>SingleValueMapped.UnmarshalJSON\<close> and what \<open>encoding/json\<close> does with the
  structs that have no method of their own. JSON documents are trees; their text, the textual
  form of instants (RFC 3339) and of uuids are parameters.
\<close>

section \<open>JSON documents\<close>

datatype json =
    JNull
  | JBool bool
  | JNum float64
  | JStr string
  | JArr "json list"
  | JObj "(string \<times> json) list"

text \<open>Decoding into \<open>interface{}\<close>; of several members with one name the last counts.\<close>

fun gval_of_json :: "json \<Rightarrow> gval" where
  "gval_of_json JNull = GNil"
| "gval_of_json (JBool b) = GBool b"
| "gval_of_json (JNum f) = GFloat f"
| "gval_of_json (JStr s) = GString s"
| "gval_of_json (JArr js) = GList (map gval_of_json js)"
| "gval_of_json (JObj ms) = GMap (fold (\<lambda>(k, j) m. AList.update k j m) (map (\<lambda>(k, j). (k, gval_of_json j)) ms) [])"

record text_codecs =
  tc_FormatTime :: "time \<Rightarrow> string"
  tc_ParseTime :: "string \<Rightarrow> string + time"
  tc_UuidString :: "uuid \<Rightarrow> string"
  tc_ParseUuid :: "string \<Rightarrow> string + uuid"

text \<open>
  The documented behaviour: RFC 3339 with nanoseconds is exact for the years 0 to 9999, and a uuid
  is parsed from its string.
\<close>

definition rfc3339_time :: "time \<Rightarrow> bool" where
  "rfc3339_time t \<longleftrightarrow> - 366 * 86400 * 10 ^ 9 \<le> t \<and> t < 3652059 * 86400 * 10 ^ 9"

definition faithful_codecs :: "text_codecs \<Rightarrow> bool" where
  "faithful_codecs tc \<longleftrightarrow>
     (\<forall>t. rfc3339_time t \<longrightarrow> tc_ParseTime tc (tc_FormatTime tc t) = Inr t) \<and>
     (\<forall>u. tc_ParseUuid tc (tc_UuidString tc u) = Inr u)"

datatype json_error =
    MissingKey string
  | WrongJsonType string
  | BadTime string
  | BadUuid string
  | BadBase64
  | DontKnowHow
  | UnsupportedValue

section \<open>Base64\<close>

text \<open>\<open>base64.StdEncoding\<close>: with padding, not strict about the unused bits.\<close>

definition b64_alphabet :: string where
  "b64_alphabet = ''ABCDEFGHIJKLMNOPQRSTUVWXYZabcdefghijklmnopqrstuvwxyz0123456789+/''"

definition b64_char :: "nat \<Rightarrow> char" where
  "b64_char n = b64_alphabet ! n"

fun index_of :: "'a \<Rightarrow> 'a list \<Rightarrow> nat option" where
  "index_of x [] = None"
| "index_of x (y # ys) = (if x = y then Some 0 else map_option Suc (index_of x ys))"

definition b64_value :: "char \<Rightarrow> nat option" where
  "b64_value c = index_of c b64_alphabet"

fun b64_encode :: "byte list \<Rightarrow> string" where
  "b64_encode [] = []"
| "b64_encode [a] =
     (let n = unat a in [b64_char (n div 4), b64_char (n mod 4 * 16), CHR ''='', CHR ''=''])"
| "b64_encode [a, b] =
     (let n = unat a; m = unat b
      in [b64_char (n div 4), b64_char (n mod 4 * 16 + m div 16), b64_char (m mod 16 * 4), CHR ''=''])"
| "b64_encode (a # b # c # rest) =
     (let n = unat a; m = unat b; k = unat c
      in [b64_char (n div 4), b64_char (n mod 4 * 16 + m div 16), b64_char (m mod 16 * 4 + k div 64),
          b64_char (k mod 64)] @ b64_encode rest)"

fun b64_quanta :: "string \<Rightarrow> byte list option" where
  "b64_quanta [] = Some []"
| "b64_quanta (w # x # y # z # rest) =
     (case (b64_value w, b64_value x) of
        (Some a, Some b) \<Rightarrow>
          (if y = CHR ''='' then
             (if z = CHR ''='' \<and> rest = [] then Some [of_nat (a * 4 + b div 16)] else None)
           else case b64_value y of
             None \<Rightarrow> None
           | Some c \<Rightarrow>
               (if z = CHR ''='' then
                  (if rest = [] then Some [of_nat (a * 4 + b div 16), of_nat (b mod 16 * 16 + c div 4)]
                   else None)
                else case b64_value z of
                  None \<Rightarrow> None
                | Some d \<Rightarrow>
                    map_option (\<lambda>bs. of_nat (a * 4 + b div 16) # of_nat (b mod 16 * 16 + c div 4) #
                                     of_nat (c mod 4 * 64 + d) # bs) (b64_quanta rest)))
      | _ \<Rightarrow> None)"
| "b64_quanta _ = None"

definition b64_decode :: "string \<Rightarrow> byte list option" where
  "b64_decode s = b64_quanta (filter (\<lambda>c. c \<noteq> CHR 0x0D \<and> c \<noteq> CHR 0x0A) s)"

section \<open>Raw messages\<close>

definition Raw_MarshalJSON :: "text_codecs \<Rightarrow> raw \<Rightarrow> json" where
  "Raw_MarshalJSON tc r =
     JObj [(''connector'', JStr (raw_Connector r)),
           (''timestamp'', JStr (tc_FormatTime tc (raw_Timestamp r))),
           (''type'', JStr (raw_Type r)),
           (''uuid'', JStr (tc_UuidString tc (raw_Uuid r))),
           (''value'', JStr (b64_encode (raw_Value r)))]"

text \<open>
  \<open>json.Unmarshal\<close> into a \<open>map[string]string\<close>: a null document is the nil map, a null
  member the empty string.
\<close>

fun string_members :: "(string \<times> json) list \<Rightarrow> (string, string) gomap \<Rightarrow> (string, string) gomap option" where
  "string_members [] m = Some m"
| "string_members ((k, JStr s) # ms) m = string_members ms (AList.update k s m)"
| "string_members ((k, JNull) # ms) m = string_members ms (AList.update k [] m)"
| "string_members ((k, _) # ms) m = None"

definition string_map :: "json \<Rightarrow> json_error + (string, string) gomap" where
  "string_map j =
     (case j of
        JNull \<Rightarrow> Inr []
      | JObj ms \<Rightarrow> (case string_members ms [] of
                      None \<Rightarrow> Inl (WrongJsonType ''string'') | Some m \<Rightarrow> Inr m)
      | _ \<Rightarrow> Inl (WrongJsonType ''map''))"

definition missing_key :: "string list \<Rightarrow> (string, 'v) gomap \<Rightarrow> string option" where
  "missing_key keys j = find (\<lambda>k. map_of j k = None) keys"

text \<open>The receiver is changed field by field; an error leaves the fields set so far.\<close>

definition Raw_UnmarshalJSON :: "text_codecs \<Rightarrow> json \<Rightarrow> raw \<Rightarrow> raw \<times> json_error option" where
  "Raw_UnmarshalJSON tc data r =
     (case string_map data of
        Inl err \<Rightarrow> (r, Some err)
      | Inr j \<Rightarrow>
         (case missing_key [''connector'', ''timestamp'', ''type'', ''uuid'', ''value''] j of
            Some key \<Rightarrow> (r, Some (MissingKey key))
          | None \<Rightarrow>
             (let get = (\<lambda>k. the (map_of j k)); r = r\<lparr>raw_Connector := get ''connector''\<rparr> in
              case tc_ParseTime tc (get ''timestamp'') of
                Inl err \<Rightarrow> (r\<lparr>raw_Timestamp := zero_time\<rparr>, Some (BadTime err))
              | Inr t \<Rightarrow>
                 (let r = r\<lparr>raw_Timestamp := t, raw_Type := get ''type''\<rparr> in
                  case tc_ParseUuid tc (get ''uuid'') of
                    Inl err \<Rightarrow> (r\<lparr>raw_Uuid := 0\<rparr>, Some (BadUuid err))
                  | Inr u \<Rightarrow>
                     (let r = r\<lparr>raw_Uuid := u\<rparr> in
                      case b64_decode (get ''value'') of
                        None \<Rightarrow> (r, Some BadBase64)
                      | Some v \<Rightarrow> (r\<lparr>raw_Value := v\<rparr>, None))))))"

section \<open>Values and deltas\<close>

text \<open>\<open>Value.UnmarshalJSON\<close>; what does not decode is left to the error.\<close>

definition interface_map :: "json \<Rightarrow> json_error + (string, json) gomap" where
  "interface_map j =
     (case j of
        JNull \<Rightarrow> Inr []
      | JObj ms \<Rightarrow> Inr (fold (\<lambda>(k, v) m. AList.update k v m) ms [])
      | _ \<Rightarrow> Inl (WrongJsonType ''map''))"

definition Value_UnmarshalJSON :: "mapstructure \<Rightarrow> json \<Rightarrow> val \<Rightarrow> val \<times> json_error option" where
  "Value_UnmarshalJSON ms data v =
     (case interface_map data of
        Inl err \<Rightarrow> (v, Some err)
      | Inr j \<Rightarrow>
         (case missing_key [''path'', ''value''] j of
            Some key \<Rightarrow> (v, Some (MissingKey key))
          | None \<Rightarrow>
             (case the (map_of j ''path'') of
                JStr s \<Rightarrow>
                  (let v = v\<lparr>val_Path := s\<rparr> in
                   case Decode ms (gval_of_json (the (map_of j ''value''))) of
                     (decoded, None) \<Rightarrow> (v\<lparr>val_Value := decoded\<rparr>, None)
                   | (_, Some err) \<Rightarrow> (v, Some DontKnowHow))
              | _ \<Rightarrow> (v, Some (WrongJsonType ''string'')))))"

text \<open>
  \<open>encoding/json\<close> on a \<open>Source\<close>: members are matched to fields without regard to
  case, other members are ignored, a null leaves a string alone, and a uuid is read from a string.
\<close>

definition to_lower :: "string \<Rightarrow> string" where
  "to_lower s = map (\<lambda>c. let n = (of_char c :: nat) in if 65 \<le> n \<and> n \<le> 90 then char_of (n + 32) else c) s"

definition set_string :: "(string \<Rightarrow> source \<Rightarrow> source) \<Rightarrow> json \<Rightarrow> source \<Rightarrow> json_error + source" where
  "set_string f j s =
     (case j of JStr x \<Rightarrow> Inr (f x s) | JNull \<Rightarrow> Inr s | _ \<Rightarrow> Inl (WrongJsonType ''string''))"

definition set_uuid :: "text_codecs \<Rightarrow> (uuid \<Rightarrow> source \<Rightarrow> source) \<Rightarrow> json \<Rightarrow> source \<Rightarrow> json_error + source" where
  "set_uuid tc f j s =
     (case j of
        JStr x \<Rightarrow> (case tc_ParseUuid tc x of Inl err \<Rightarrow> Inl (BadUuid err) | Inr u \<Rightarrow> Inr (f u s))
      | _ \<Rightarrow> Inl (WrongJsonType ''uuid''))"

fun source_members :: "text_codecs \<Rightarrow> (string \<times> json) list \<Rightarrow> source \<Rightarrow> json_error + source" where
  "source_members tc [] s = Inr s"
| "source_members tc ((k, j) # ms) s =
     (case (if to_lower k = ''label'' then set_string WithLabel j s
            else if to_lower k = ''type'' then set_string WithType j s
            else if to_lower k = ''uuid'' then set_uuid tc WithUuid j s
            else if to_lower k = ''transferuuid'' then set_uuid tc WithTransferUuid j s
            else Inr s) of
        Inl err \<Rightarrow> Inl err
      | Inr s \<Rightarrow> source_members tc ms s)"

definition Source_Unmarshal :: "text_codecs \<Rightarrow> json \<Rightarrow> source \<Rightarrow> json_error + source" where
  "Source_Unmarshal tc data s =
     (case data of
        JNull \<Rightarrow> Inr s | JObj ms \<Rightarrow> source_members tc ms s | _ \<Rightarrow> Inl (WrongJsonType ''Source''))"

text \<open>\<open>SingleValueMapped.UnmarshalJSON\<close>; the receiver is always a zero value here.\<close>

definition NewSingleValueMapped :: svm where
  "NewSingleValueMapped =
     \<lparr>svm_Context = [], svm_Origin = [], svm_Source = NewSource, svm_Timestamp = zero_time,
      svm_Path = [], svm_Value = GNil\<rparr>"

definition string_member :: "(string, json) gomap \<Rightarrow> string \<Rightarrow> json_error + string" where
  "string_member j k =
     (case map_of j k of Some (JStr s) \<Rightarrow> Inr s | _ \<Rightarrow> Inl (WrongJsonType ''string''))"

definition Svm_UnmarshalJSON :: "text_codecs \<Rightarrow> mapstructure \<Rightarrow> json \<Rightarrow> json_error + svm" where
  "Svm_UnmarshalJSON tc ms data =
     (case interface_map data of Inl err \<Rightarrow> Inl err | Inr j \<Rightarrow>
     (case missing_key [''context'', ''origin'', ''source'', ''timestamp'', ''path'', ''value''] j of
        Some key \<Rightarrow> Inl (MissingKey key) | None \<Rightarrow>
     (case string_member j ''context'' of Inl err \<Rightarrow> Inl err | Inr context \<Rightarrow>
     (case string_member j ''origin'' of Inl err \<Rightarrow> Inl err | Inr origin \<Rightarrow>
     (case Source_Unmarshal tc (the (map_of j ''source'')) NewSource of Inl err \<Rightarrow> Inl err | Inr source \<Rightarrow>
     (case string_member j ''timestamp'' of Inl err \<Rightarrow> Inl err | Inr str \<Rightarrow>
     (case tc_ParseTime tc str of Inl err \<Rightarrow> Inl (BadTime err) | Inr t \<Rightarrow>
     (case string_member j ''path'' of Inl err \<Rightarrow> Inl err | Inr path \<Rightarrow>
     (case Decode ms (gval_of_json (the (map_of j ''value''))) of
        (_, Some err) \<Rightarrow> Inl DontKnowHow
      | (decoded, None) \<Rightarrow>
          Inr \<lparr>svm_Context = context, svm_Origin = origin, svm_Source = source, svm_Timestamp = t,
               svm_Path = path, svm_Value = decoded\<rparr>)))))))))"

text \<open>
  \<open>json.Marshal\<close> of these structs. \<open>marshal_value\<close> covers the values that travel
  between the processes: scalars, strings and the structured values, whose nil members are left out
  (\<open>omitempty\<close>); a NaN or an infinity is an error. Other dynamic types are not modelled here.
\<close>

definition marshal_number :: "float64 \<Rightarrow> json_error + json" where
  "marshal_number f = (if is_finite f then Inr (JNum f) else Inl UnsupportedValue)"

fun members :: "(string \<times> (json_error + json) option) list \<Rightarrow> json_error + (string \<times> json) list" where
  "members [] = Inr []"
| "members ((k, None) # ms) = members ms"
| "members ((k, Some r) # ms) =
     (case r of Inl err \<Rightarrow> Inl err | Inr j \<Rightarrow> cons_result (k, j) (members ms))"

definition marshal_numbers :: "float64 list option \<Rightarrow> (json_error + json) option" where
  "marshal_numbers fs =
     (case fs of None \<Rightarrow> None | Some [] \<Rightarrow> None
      | Some xs \<Rightarrow> Some (if list_all is_finite xs then Inr (JArr (map JNum xs)) else Inl UnsupportedValue))"

definition merger_members :: "merger \<Rightarrow> (string \<times> (json_error + json) option) list" where
  "merger_members m =
     (case m of
        VesselInfo v \<Rightarrow> [(''mmsi'', map_option (\<lambda>s. Inr (JStr s)) (vi_MMSI v)),
                         (''name'', map_option (\<lambda>s. Inr (JStr s)) (vi_Name v))]
      | Position p \<Rightarrow> [(''altitude'', map_option marshal_number (pos_Altitude p)),
                       (''latitude'', map_option marshal_number (pos_Latitude p)),
                       (''longitude'', map_option marshal_number (pos_Longitude p))]
      | Length l \<Rightarrow> [(''overall'', map_option marshal_number (len_Overall l)),
                     (''hull'', map_option marshal_number (len_Hull l)),
                     (''waterline'', map_option marshal_number (len_Waterline l))]
      | Alarm a \<Rightarrow> [(''state'', map_option (\<lambda>b. Inr (JBool b)) (al_State a)),
                    (''message'', map_option (\<lambda>s. Inr (JStr s)) (al_Message a))]
      | Draft d \<Rightarrow> [(''current'', map_option marshal_number (dr_Current d)),
                    (''currentPort'', marshal_numbers (dr_CurrentPort d)),
                    (''currentStarboard'', marshal_numbers (dr_CurrentStarboard d))])"

definition marshal_value :: "gval \<Rightarrow> json_error + json" where
  "marshal_value v =
     (case v of
        GNil \<Rightarrow> Inr JNull
      | GBool b \<Rightarrow> Inr (JBool b)
      | GInt k i \<Rightarrow> marshal_number (fof_int i)
      | GFloat f \<Rightarrow> marshal_number f
      | GFloat32 f \<Rightarrow> marshal_number f
      | GString s \<Rightarrow> Inr (JStr s)
      | GMerger m \<Rightarrow> (case members (merger_members m) of Inl err \<Rightarrow> Inl err | Inr ms \<Rightarrow> Inr (JObj ms))
      | GVesselType t \<Rightarrow>
          (case members [(''id'', map_option (\<lambda>i. marshal_number (fof_int i)) (vt_Id t)),
                         (''name'', map_option (\<lambda>s. Inr (JStr s)) (vt_Name t))] of
             Inl err \<Rightarrow> Inl err | Inr ms \<Rightarrow> Inr (JObj ms))
      | _ \<Rightarrow> Inl UnsupportedValue)"

definition Source_Marshal :: "text_codecs \<Rightarrow> source \<Rightarrow> json" where
  "Source_Marshal tc s =
     JObj [(''label'', JStr (src_Label s)), (''type'', JStr (src_Type s)),
           (''uuid'', JStr (tc_UuidString tc (src_Uuid s))),
           (''transferUuid'', JStr (tc_UuidString tc (src_TransferUuid s)))]"

definition Svm_Marshal :: "text_codecs \<Rightarrow> svm \<Rightarrow> json_error + json" where
  "Svm_Marshal tc s =
     (case marshal_value (svm_Value s) of
        Inl err \<Rightarrow> Inl err
      | Inr v \<Rightarrow> Inr (JObj [(''context'', JStr (svm_Context s)), (''origin'', JStr (svm_Origin s)),
                            (''source'', Source_Marshal tc (svm_Source s)),
                            (''timestamp'', JStr (tc_FormatTime tc (svm_Timestamp s))),
                            (''path'', JStr (svm_Path s)), (''value'', v)]))"

section \<open>Lemmas on base64\<close>

lemma b64_table: "list_all (\<lambda>n. b64_value (b64_char n) = Some n \<and> b64_char n \<noteq> CHR ''='' \<and>
    b64_char n \<noteq> CHR 0x0D \<and> b64_char n \<noteq> CHR 0x0A) [0..<64]"
  by code_simp

lemma b64_char_simps [simp]:
  assumes "n < 64"
  shows "b64_value (b64_char n) = Some n" "b64_char n \<noteq> CHR ''=''" "b64_char n \<noteq> CHR 0x0D"
    "b64_char n \<noteq> CHR 0x0A"
  using b64_table assms by (simp_all add: list_all_iff)

lemma unat_byte [simp]: "unat (b :: byte) div 4 < 64" "unat b div 16 < 16" "unat b div 64 < 4"
proof -
  have "unat b < 2 ^ LENGTH(8)" by (rule unsigned_less)
  then have "unat b < 256" by simp
  then show "unat b div 4 < 64" "unat b div 16 < 16" "unat b div 64 < 4" by auto
qed

lemma b64_sextets [simp]:
  "m < 16 \<Longrightarrow> n mod 4 * 16 + m < (64::nat)" "n mod 4 * 16 < (64::nat)"
  "k < 4 \<Longrightarrow> m mod 16 * 4 + k < (64::nat)" "m mod 16 * 4 < (64::nat)"
proof -
  have "n mod 4 \<le> 3" "m mod 16 \<le> 15" using pos_mod_bound by (simp_all add: less_Suc_eq_le [symmetric])
  then show "m < 16 \<Longrightarrow> n mod 4 * 16 + m < 64" "n mod 4 * 16 < 64" "k < 4 \<Longrightarrow> m mod 16 * 4 + k < 64"
    "m mod 16 * 4 < 64" by linarith+
qed

lemma b64_bytes:
  "n div 4 * 4 + (n mod 4 * 16 + m) div 16 = n" if "m < 16" for n m :: nat
  using that by simp

lemma b64_bytes2:
  "(n mod 4 * 16 + m div 16) mod 16 * 16 + (m mod 16 * 4 + k) div 4 = m" if "m < 256" "k < 4" for n m k :: nat
proof -
  have "m div 16 < 16" using that by auto
  then have "(n mod 4 * 16 + m div 16) mod 16 = m div 16" by simp
  moreover have "(m mod 16 * 4 + k) div 4 = m mod 16" using that by simp
  ultimately show ?thesis by simp
qed

lemma b64_bytes3: "(m mod 16 * 4 + k div 64) mod 4 * 64 + k mod 64 = k" if "k < 256" for m k :: nat
proof -
  have "k div 64 < 4" using that by auto
  then have "(m mod 16 * 4 + k div 64) mod 4 = k div 64" by simp
  then show ?thesis by simp
qed

lemma unat_byte_256 [simp]: "unat (b :: byte) < 256"
proof -
  have "unat b < 2 ^ LENGTH(8)" by (rule unsigned_less)
  then show ?thesis by simp
qed

lemma b64_quanta_encode: "b64_quanta (b64_encode bs) = Some bs"
proof (induction bs rule: b64_encode.induct)
  case (2 a)
  show ?case using b64_bytes [of 0 "unat a"] by (simp add: Let_def)
next
  case (3 a b)
  show ?case
    using b64_bytes [of "unat b div 16" "unat a"] b64_bytes2 [of "unat b" 0 "unat a"]
    by (simp add: Let_def)
next
  case (4 a b c rest)
  then show ?case
    using b64_bytes [of "unat b div 16" "unat a"] b64_bytes2 [of "unat b" "unat c div 64" "unat a"]
      b64_bytes3 [of "unat c" "unat b"]
    by (simp add: Let_def)
qed simp

lemma b64_encode_lines: "filter (\<lambda>c. c \<noteq> CHR 0x0D \<and> c \<noteq> CHR 0x0A) (b64_encode bs) = b64_encode bs"
  by (induction bs rule: b64_encode.induct) (simp_all add: Let_def)

lemma b64_decode_encode [simp]: "b64_decode (b64_encode bs) = Some bs"
  by (simp add: b64_decode_def b64_encode_lines b64_quanta_encode)

lemma Raw_Unmarshal_Marshal:
  assumes "faithful_codecs tc" "rfc3339_time (raw_Timestamp r)"
  shows "Raw_UnmarshalJSON tc (Raw_MarshalJSON tc r) r0 = (r, None)"
  using assms
  by (simp add: Raw_UnmarshalJSON_def Raw_MarshalJSON_def string_map_def missing_key_def Let_def
      faithful_codecs_def)

definition b64_dec :: "string \<Rightarrow> unit + byte list" where
  "b64_dec s = (case b64_decode s of None \<Rightarrow> Inl () | Some bs \<Rightarrow> Inr bs)"

interpretation base64: codec "\<lambda>_. True" b64_encode b64_dec
  by unfold_locales (simp add: b64_dec_def)

lemma Source_Unmarshal_Marshal [simp]:
  assumes "faithful_codecs tc"
  shows "Source_Unmarshal tc (Source_Marshal tc s) s0 = Inr s"
proof -
  have "to_lower ''label'' = ''label''" "to_lower ''type'' = ''type''" "to_lower ''uuid'' = ''uuid''"
      "to_lower ''transferUuid'' = ''transferuuid''"
    by code_simp+
  then show ?thesis
    using assms by (cases s)
      (simp add: Source_Unmarshal_def Source_Marshal_def set_string_def set_uuid_def faithful_codecs_def
        builder_defs)
qed

lemma Svm_Unmarshal_Marshal:
  assumes "faithful_codecs tc" "rfc3339_time (svm_Timestamp s)" "Svm_Marshal tc s = Inr j"
  shows "Svm_UnmarshalJSON tc ms j =
    (case Decode ms (gval_of_json (projr (marshal_value (svm_Value s)))) of
       (_, Some err) \<Rightarrow> Inl DontKnowHow
     | (decoded, None) \<Rightarrow> Inr (s\<lparr>svm_Value := decoded\<rparr>))"
proof (cases "marshal_value (svm_Value s)")
  case (Inl e)
  then show ?thesis using assms(3) by (simp add: Svm_Marshal_def)
next
  case (Inr v)
  then have j: "j = JObj [(''context'', JStr (svm_Context s)), (''origin'', JStr (svm_Origin s)),
      (''source'', Source_Marshal tc (svm_Source s)),
      (''timestamp'', JStr (tc_FormatTime tc (svm_Timestamp s))), (''path'', JStr (svm_Path s)), (''value'', v)]"
    using assms(3) by (simp add: Svm_Marshal_def)
  have t: "tc_ParseTime tc (tc_FormatTime tc (svm_Timestamp s)) = Inr (svm_Timestamp s)"
    using assms(1,2) by (simp add: faithful_codecs_def)
  obtain d e where d: "Decode ms (gval_of_json v) = (d, e)" by fastforce
  show ?thesis
    using assms(1) t d
    by (cases e)
       (simp_all add: Svm_UnmarshalJSON_def j interface_map_def missing_key_def string_member_def Inr)
qed

section \<open>Properties\<close>

text \<open>Codecs at which the properties are applied: a time or uuid as a run of ticks.\<close>

definition tally_codecs :: text_codecs where
  "tally_codecs =
     \<lparr>tc_FormatTime = (\<lambda>t. (if t < 0 then ''-'' else ''+'') @ replicate (nat \<bar>t\<bar>) CHR ''1''),
      tc_ParseTime = (\<lambda>s. case s of
          [] \<Rightarrow> Inl ''empty''
        | c # cs \<Rightarrow> Inr (if c = CHR ''-'' then - int (length cs) else int (length cs))),
      tc_UuidString = (\<lambda>u. replicate (unat u) CHR ''1''),
      tc_ParseUuid = (\<lambda>s. Inr (of_nat (length s)))\<rparr>"

lemma tally_faithful: "faithful_codecs tally_codecs"
  by (simp add: faithful_codecs_def tally_codecs_def)

text \<open>A raw message survives its JSON form. With faithful codecs for instants and uuids,
  unmarshalling what \<open>MarshalJSON\<close> produced gives the message back, every byte of its value
  included (base64 of every length), whatever the receiver held before.\<close>

theorem raw_json_roundtrip:
  assumes "faithful_codecs tc" "rfc3339_time (raw_Timestamp r)"
  shows "Raw_UnmarshalJSON tc (Raw_MarshalJSON tc r) r0 = (r, None)"
  by (rule Raw_Unmarshal_Marshal [OF assms])

definition sample_message :: raw where
  "sample_message = \<lparr>raw_Connector = ''GPS'', raw_Timestamp = 3, raw_Type = ''nmea0183'', raw_Uuid = 5,
                     raw_Value = [36, 71, 80, 255]\<rparr>"

theorem raw_json_roundtrip_witness:
  "Raw_UnmarshalJSON tally_codecs (Raw_MarshalJSON tally_codecs sample_message) (NewRaw 0 0) =
     (sample_message, None)"
  using raw_json_roundtrip [OF tally_faithful, of sample_message "NewRaw 0 0"]
  by (simp add: sample_message_def rfc3339_time_def)

text \<open>C37: single values of numbers and strings survive their JSON form. With faithful codecs, a
  single value delta whose value is a finite \<open>float64\<close> or a string is marshalled without
  error and unmarshalled to itself; a NaN or an infinity is an error when it is marshalled.\<close>

theorem svm_json_roundtrip:
  assumes "faithful_codecs tc" "rfc3339_time (svm_Timestamp s)"
    and "svm_Value s = GFloat f \<or> svm_Value s = GString str"
  shows "case Svm_Marshal tc s of
      Inr j \<Rightarrow> Svm_UnmarshalJSON tc ms j = Inr s
    | Inl e \<Rightarrow> e = UnsupportedValue \<and> svm_Value s = GFloat f \<and> \<not> is_finite f"
proof (cases "Svm_Marshal tc s")
  case (Inl e)
  then show ?thesis
    using assms(3) by (auto simp: Svm_Marshal_def marshal_value_def marshal_number_def split: if_splits)
next
  case (Inr j)
  have "gval_of_json (projr (marshal_value (svm_Value s))) = svm_Value s"
    using Inr assms(3) by (auto simp: Svm_Marshal_def marshal_value_def marshal_number_def split: if_splits)
  then have "Svm_UnmarshalJSON tc ms j = Inr (s\<lparr>svm_Value := svm_Value s\<rparr>)"
    using Svm_Unmarshal_Marshal [OF assms(1,2) Inr] assms(3) by auto
  then show ?thesis by (simp add: Inr)
qed

definition sample_svm :: "gval \<Rightarrow> svm" where
  "sample_svm v = \<lparr>svm_Context = ''c'', svm_Origin = ''o'', svm_Source = NewSource, svm_Timestamp = 9,
                   svm_Path = ''p'', svm_Value = v\<rparr>"

definition no_structs :: mapstructure where
  "no_structs =
     \<lparr>ms_Position = (\<lambda>_. None), ms_VesselInfo = (\<lambda>_. None), ms_Length = (\<lambda>_. None),
      ms_Alarm = (\<lambda>_. None), ms_Draft = (\<lambda>_. None)\<rparr>"

theorem svm_json_roundtrip_witness:
  "\<exists>j. Svm_Marshal tally_codecs (sample_svm (GFloat (Fin 3))) = Inr j \<and>
       Svm_UnmarshalJSON tally_codecs no_structs j = Inr (sample_svm (GFloat (Fin 3)))"
  using svm_json_roundtrip [OF tally_faithful, of "sample_svm (GFloat (Fin 3))" "Fin 3" "[]" no_structs]
  by (simp add: sample_svm_def rfc3339_time_def Svm_Marshal_def marshal_value_def marshal_number_def)

text \<open>Booleans do not survive. The expression mappers can produce booleans and they are
  marshalled without error, but no receiver accepts them: \<open>Decode\<close> has no case for them and
  the struct decoder rejects an input that is not a map, so unmarshalling always fails.\<close>

theorem svm_json_bool_rejected:
  assumes "faithful_codecs tc" "rfc3339_time (svm_Timestamp s)" "svm_Value s = GBool b"
    and "\<And>v. (\<forall>m. v \<noteq> GMap m) \<Longrightarrow> ms_Position ms v = None \<and> ms_VesselInfo ms v = None \<and>
           ms_Length ms v = None \<and> ms_Alarm ms v = None \<and> ms_Draft ms v = None"
  shows "\<exists>j. Svm_Marshal tc s = Inr j \<and> Svm_UnmarshalJSON tc ms j = Inl DontKnowHow"
proof -
  obtain j where j: "Svm_Marshal tc s = Inr j" using assms(3) by (simp add: Svm_Marshal_def marshal_value_def)
  have "Decode ms (GBool b) = (GBool b, Some (CannotDecode (GBool b)))"
    using assms(4) [of "GBool b"] by (simp add: decode_struct_def fully_decoded_def)
  then show ?thesis
    using Svm_Unmarshal_Marshal [OF assms(1,2) j] assms(3) j by (simp add: marshal_value_def)
qed

theorem svm_json_bool_rejected_witness:
  "\<exists>j. Svm_Marshal tally_codecs (sample_svm (GBool True)) = Inr j \<and>
       Svm_UnmarshalJSON tally_codecs no_structs j = Inl DontKnowHow"
  using svm_json_bool_rejected [OF tally_faithful, of "sample_svm (GBool True)" True no_structs]
  by (simp add: sample_svm_def rfc3339_time_def no_structs_def)

end
