(* ===== verification/Mapper.thy ===== *)
theory Mapper
  imports Expressions Wire "HOL-Library.Sublist"
begin

text \<open>
  \<open>mapper/main.go\<close>: the two loops that drive a mapper, \<open>process\<close> for mappers of raw
  messages and \<open>processMapped\<close> for mappers of deltas, and the contracts they give a
  mapper. A mapper is a step function on its state. The sockets are a list of inputs and the
  messages handed to \<open>Send\<close>; the JSON codec is a parameter of the loops.
\<close>

section \<open>Errors of a mapper\<close>

datatype map_error =
    NoUsefulData "byte list"
  | CannotBeMapped "byte list"
  | SentenceCannotBeMapped string
  | ParseFailed string
  | ExprFailed expr_error
  | NotABool gval
  | MapPanic panic

section \<open>The loops\<close>

datatype received = RecvError string | Received "byte list"

text \<open>
  One iteration of \<open>process\<close>: every failure is logged and the loop continues with the next
  message. The message \<open>raw\<close> that is unmarshalled into is reused: \<open>unmarshal\<close> gets what it held and
  returns what it holds afterwards and whether there was no error. The state is \<open>None\<close> after a
  panic of the mapper, which ends the process. The result is what is handed to the publisher.
\<close>

fun process_step ::
    "(byte list \<Rightarrow> raw \<Rightarrow> raw \<times> bool) \<Rightarrow> (mapped \<Rightarrow> string + byte list) \<Rightarrow>
     ('s \<Rightarrow> raw \<Rightarrow> 's \<times> (map_error + mapped)) \<Rightarrow> (raw \<times> 's) option \<Rightarrow> received \<Rightarrow>
     (raw \<times> 's) option \<times> byte list option"
where
  "process_step unmarshal marshal DoMap None input = (None, None)"
| "process_step unmarshal marshal DoMap (Some (raw, s)) (RecvError e) = (Some (raw, s), None)"
| "process_step unmarshal marshal DoMap (Some (raw, s)) (Received received) =
     (case unmarshal received raw of
        (raw, False) \<Rightarrow> (Some (raw, s), None)
      | (raw, True) \<Rightarrow>
         (case DoMap s raw of
            (s', Inl (MapPanic p)) \<Rightarrow> (None, None)
          | (s', Inl err) \<Rightarrow> (Some (raw, s'), None)
          | (s', Inr mapped) \<Rightarrow>
             (case marshal mapped of
                Inl err \<Rightarrow> (Some (raw, s'), None)
              | Inr bytes \<Rightarrow> (Some (raw, s'), Some bytes))))"

text \<open>\<open>processMapped\<close> also skips a delta without updates.\<close>

fun processMapped_step ::
    "(byte list \<Rightarrow> mapped \<Rightarrow> mapped \<times> bool) \<Rightarrow> (mapped \<Rightarrow> string + byte list) \<Rightarrow>
     ('s \<Rightarrow> mapped \<Rightarrow> 's \<times> (map_error + mapped)) \<Rightarrow> (mapped \<times> 's) option \<Rightarrow> received \<Rightarrow>
     (mapped \<times> 's) option \<times> byte list option"
where
  "processMapped_step unmarshal marshal DoMap None input = (None, None)"
| "processMapped_step unmarshal marshal DoMap (Some (in_delta, s)) (RecvError e) = (Some (in_delta, s), None)"
| "processMapped_step unmarshal marshal DoMap (Some (in_delta, s)) (Received received) =
     (case unmarshal received in_delta of
        (in_delta, False) \<Rightarrow> (Some (in_delta, s), None)
      | (in_delta, True) \<Rightarrow>
         (case DoMap s in_delta of
            (s', Inl (MapPanic p)) \<Rightarrow> (None, None)
          | (s', Inl err) \<Rightarrow> (Some (in_delta, s'), None)
          | (s', Inr out) \<Rightarrow>
             (if length (m_Updates out) = 0 then (Some (in_delta, s'), None)
              else case marshal out of
                     Inl err \<Rightarrow> (Some (in_delta, s'), None)
                   | Inr bytes \<Rightarrow> (Some (in_delta, s'), Some bytes))))"

section \<open>Contract of a mapper of raw messages\<close>

text \<open>
  Whatever a mapper makes of a raw message, each update says where it comes from: the label is
  the raw message's connector, the uuid and the timestamp are the raw message's own.
\<close>

definition raw_source :: "string \<Rightarrow> raw \<Rightarrow> source" where
  "raw_source protocol r =
     \<lparr>src_Label = raw_Connector r, src_Type = protocol, src_Uuid = raw_Uuid r, src_TransferUuid = 0\<rparr>"

definition carries :: "string \<Rightarrow> raw \<Rightarrow> map_error + mapped \<Rightarrow> bool" where
  "carries protocol r out \<longleftrightarrow>
     (\<forall>m. out = Inr m \<longrightarrow>
        (\<forall>u\<in>set (m_Updates m). upd_Source u = raw_source protocol r \<and> upd_Timestamp u = raw_Timestamp r))"

lemma carries_simps [simp]:
  "carries protocol r (Inl e)"
  "carries protocol r (Inr m) \<longleftrightarrow>
     (\<forall>u\<in>set (m_Updates m). upd_Source u = raw_source protocol r \<and> upd_Timestamp u = raw_Timestamp r)"
  by (simp_all add: carries_def)

text \<open>What may be published for an input: nothing, or the encoding of a delta of that input.\<close>

definition published ::
    "string \<Rightarrow> (byte list \<Rightarrow> raw \<Rightarrow> raw \<times> bool) \<Rightarrow> (mapped \<Rightarrow> string + byte list) \<Rightarrow>
     received \<Rightarrow> byte list option \<Rightarrow> bool"
where
  "published protocol unmarshal marshal input output \<longleftrightarrow>
     (\<forall>bytes. output = Some bytes \<longrightarrow>
        (\<exists>rb held raw m. input = Received rb \<and> unmarshal rb held = (raw, True) \<and> marshal m = Inr bytes \<and>
           carries protocol raw (Inr m)))"

locale real_mapper = machine step init inv "carries protocol"
  for step :: "'s \<Rightarrow> raw \<Rightarrow> 's \<times> (map_error + mapped)"
    and init :: 's and inv :: "'s \<Rightarrow> bool" and protocol :: string
begin

lemma process_machine:
  "machine (process_step unmarshal marshal step) (Some (raw, init)) (pred_option (\<lambda>(raw, s). inv s))
     (published protocol unmarshal marshal)"
proof
  show "pred_option (\<lambda>(raw, s). inv s) (Some (raw, init))" by (simp add: inv_init)
next
  fix st x
  assume st: "pred_option (\<lambda>(raw, s). inv s) (st :: (raw \<times> 's) option)"
  have ok: "pred_option (\<lambda>(raw, s). inv s) (fst (process_step unmarshal marshal step st x)) \<and>
      published protocol unmarshal marshal x (snd (process_step unmarshal marshal step st x))"
  proof (cases "\<exists>raw s b raw'. st = Some (raw, s) \<and> x = Received b \<and> unmarshal b raw = (raw', True)")
    case True
    then obtain raw s b raw' where s: "st = Some (raw, s)" "x = Received b" "unmarshal b raw = (raw', True)" by blast
    obtain s' out where d: "step s raw' = (s', out)" by (cases "step s raw'")
    have "inv s'" "carries protocol raw' out"
      using st s inv_step [of s raw'] step_guarantee [of s raw'] d by simp_all
    then show ?thesis
      using s d by (cases out) (auto simp: published_def split: map_error.split sum.split)
  next
    case False
    then show ?thesis
      using st by (cases st; cases x) (auto simp: published_def split: prod.splits bool.splits)
  qed
  then show "pred_option (\<lambda>(raw, s). inv s) (fst (process_step unmarshal marshal step st x))"
    and "published protocol unmarshal marshal x (snd (process_step unmarshal marshal step st x))"
    by blast+
qed

text \<open>The loop publishes at most one message per input, of that input.\<close>

lemma process_publishes:
  "list_all2 (published protocol unmarshal marshal) inputs
     (machine_outputs (process_step unmarshal marshal step) (Some (raw, init)) inputs)"
  by (rule machine.outputs_guarantee [OF process_machine])

lemma process_invariant:
  "pred_option (\<lambda>(raw, s). inv s) (machine_state (process_step unmarshal marshal step) (Some (raw, init)) inputs)"
  by (rule machine.inv_reachable [OF process_machine])

end

section \<open>Contract of a mapper of deltas\<close>

text \<open>
  A mapper of deltas guarantees a relation between its input and its result; the loop then
  publishes only non-empty results in that relation.
\<close>

definition published_delta ::
    "(mapped \<Rightarrow> map_error + mapped \<Rightarrow> bool) \<Rightarrow> (byte list \<Rightarrow> mapped \<Rightarrow> mapped \<times> bool) \<Rightarrow>
     (mapped \<Rightarrow> string + byte list) \<Rightarrow> received \<Rightarrow> byte list option \<Rightarrow> bool"
where
  "published_delta guarantee unmarshal marshal input output \<longleftrightarrow>
     (\<forall>bytes. output = Some bytes \<longrightarrow>
        (\<exists>b held delta m. input = Received b \<and> unmarshal b held = (delta, True) \<and> marshal m = Inr bytes \<and>
           m_Updates m \<noteq> [] \<and> guarantee delta (Inr m)))"

locale delta_mapper = machine step init inv guarantee
  for step :: "'s \<Rightarrow> mapped \<Rightarrow> 's \<times> (map_error + mapped)" and init :: 's and inv :: "'s \<Rightarrow> bool"
    and guarantee :: "mapped \<Rightarrow> map_error + mapped \<Rightarrow> bool"
begin

lemma processMapped_machine:
  "machine (processMapped_step unmarshal marshal step) (Some (held, init)) (pred_option (\<lambda>(held, s). inv s))
     (published_delta guarantee unmarshal marshal)"
proof
  show "pred_option (\<lambda>(held, s). inv s) (Some (held, init))" by (simp add: inv_init)
next
  fix st x
  assume st: "pred_option (\<lambda>(held, s). inv s) (st :: (mapped \<times> 's) option)"
  have ok: "pred_option (\<lambda>(held, s). inv s) (fst (processMapped_step unmarshal marshal step st x)) \<and>
      published_delta guarantee unmarshal marshal x (snd (processMapped_step unmarshal marshal step st x))"
  proof (cases "\<exists>d s b d'. st = Some (d, s) \<and> x = Received b \<and> unmarshal b d = (d', True)")
    case True
    then obtain d s b d' where s: "st = Some (d, s)" "x = Received b" "unmarshal b d = (d', True)" by blast
    obtain s' out where m: "step s d' = (s', out)" by (cases "step s d'")
    have "inv s'" "guarantee d' out"
      using st s inv_step [of s d'] step_guarantee [of s d'] m by simp_all
    then show ?thesis
      using s m by (cases out) (auto simp: published_delta_def split: map_error.split sum.split)
  next
    case False
    then show ?thesis
      using st by (cases st; cases x) (auto simp: published_delta_def split: prod.splits bool.splits)
  qed
  then show "pred_option (\<lambda>(held, s). inv s) (fst (processMapped_step unmarshal marshal step st x))"
    and "published_delta guarantee unmarshal marshal x (snd (processMapped_step unmarshal marshal step st x))"
    by blast+
qed

lemma processMapped_publishes:
  "list_all2 (published_delta guarantee unmarshal marshal) inputs
     (machine_outputs (processMapped_step unmarshal marshal step) (Some (held, init)) inputs)"
  by (rule machine.outputs_guarantee [OF processMapped_machine])

end

text \<open>
  A filter keeps the context and the origin, and what it lets through is a subsequence of the
  single values of its input, unchanged.
\<close>

definition filters :: "mapped \<Rightarrow> map_error + mapped \<Rightarrow> bool" where
  "filters delta out \<longleftrightarrow>
     (\<forall>m. out = Inr m \<longrightarrow>
        m_Context m = m_Context delta \<and> m_Origin m = m_Origin delta \<and>
        subseq (ToSingleValueMapped m) (ToSingleValueMapped delta))"

lemma filters_simps [simp]:
  "filters delta (Inl e)"
  "filters delta (Inr m) \<longleftrightarrow>
     m_Context m = m_Context delta \<and> m_Origin m = m_Origin delta \<and>
     subseq (ToSingleValueMapped m) (ToSingleValueMapped delta)"
  by (simp_all add: filters_def)

locale delta_filter = delta_mapper step init inv filters
  for step :: "'s \<Rightarrow> mapped \<Rightarrow> 's \<times> (map_error + mapped)" and init :: 's and inv :: "'s \<Rightarrow> bool"
begin

text \<open>A filter never lets a value through twice in a run: the values of its results, in order,
  are a subsequence of the values of its inputs.\<close>

lemma run_subseq:
  "subseq (concat (map (\<lambda>out. case out of Inl _ \<Rightarrow> [] | Inr m \<Rightarrow> ToSingleValueMapped m)
       (machine_outputs step init deltas)))
     (concat (map ToSingleValueMapped deltas))"
proof -
  have "inv s \<Longrightarrow> subseq (concat (map (\<lambda>out. case out of Inl _ \<Rightarrow> [] | Inr m \<Rightarrow> ToSingleValueMapped m)
       (machine_outputs step s deltas))) (concat (map ToSingleValueMapped deltas))" for s
  proof (induction deltas arbitrary: s)
    case (Cons d ds)
    have "filters d (snd (step s d))" by (rule step_guarantee [OF Cons.prems])
    then have "subseq (case snd (step s d) of Inl _ \<Rightarrow> [] | Inr m \<Rightarrow> ToSingleValueMapped m)
        (ToSingleValueMapped d)"
      by (cases "snd (step s d)") simp_all
    then show ?case using Cons.IH [OF inv_step [OF Cons.prems]] by (simp add: list_emb_append_mono)
  qed simp
  then show ?thesis using inv_init by blast
qed

end

section \<open>Collecting outputs\<close>

text \<open>
  What the loops over mappings have in common: outputs of successful expressions are inserted
  one after another, failed expressions are skipped.
\<close>

definition collect :: "(string \<times> (expr_error + gval)) list \<Rightarrow> upd \<Rightarrow> upd" where
  "collect rs u =
     foldl (\<lambda>u (p, r). case r of Inl err \<Rightarrow> u | Inr output \<Rightarrow> insert_output p output u) u rs"

definition value_pairs :: "upd \<Rightarrow> (string \<times> gval) list" where
  "value_pairs u = map (\<lambda>v. (val_Path v, val_Value v)) (upd_Values u)"

fun successes :: "('a \<times> ('e + 'b)) list \<Rightarrow> ('a \<times> 'b) list" where
  "successes [] = []"
| "successes ((p, Inl e) # rs) = successes rs"
| "successes ((p, Inr x) # rs) = (p, x) # successes rs"

lemma value_pairs_empty [simp]: "value_pairs u = [] \<longleftrightarrow> upd_Values u = []"
  by (simp add: value_pairs_def)

lemma fst_value_pairs: "map fst (value_pairs u) = map val_Path (upd_Values u)"
  by (simp add: value_pairs_def)

lemma map_of_insert_output:
  "map_of (value_pairs (insert_output p x u)) = map_of (value_pairs u @ [(p, x)])"
proof (cases "p \<in> val_Path ` set (upd_Values u)")
  case True
  then have "map_of (value_pairs u) p \<noteq> None"
    by (auto simp: map_of_eq_None_iff value_pairs_def image_image)
  then show ?thesis
    using True by (auto simp: insert_output_eq map_add_def fun_eq_iff split: option.splits)
next
  case False
  then show ?thesis by (simp add: insert_output_eq value_pairs_def)
qed

lemma collect_frame [simp]:
  "upd_Source (collect rs u) = upd_Source u" "upd_Timestamp (collect rs u) = upd_Timestamp u"
  unfolding collect_def by (induction rs arbitrary: u) (auto split: sum.splits)

lemma collect_Cons:
  "collect ((p, r) # rs) u = collect rs (case r of Inl _ \<Rightarrow> u | Inr x \<Rightarrow> insert_output p x u)"
  by (cases r) (simp_all add: collect_def)

lemma collect_Nil [simp]: "collect [] u = u"
  by (simp add: collect_def)

text \<open>The first successful output of a path is the one that stays.\<close>

lemma map_of_collect: "map_of (value_pairs (collect rs u)) = map_of (value_pairs u @ successes rs)"
proof (induction rs arbitrary: u)
  case (Cons pr rs)
  obtain p r where pr: "pr = (p, r)" by (cases pr)
  show ?case
    by (cases r) (simp_all add: pr collect_Cons Cons.IH map_of_insert_output)
qed simp

lemma collect_distinct:
  "distinct (map fst (value_pairs u)) \<Longrightarrow> distinct (map fst (value_pairs (collect rs u)))"
proof (induction rs arbitrary: u)
  case (Cons pr rs)
  obtain p r where pr: "pr = (p, r)" by (cases pr)
  have "distinct (map fst (value_pairs (case r of Inl _ \<Rightarrow> u | Inr x \<Rightarrow> insert_output p x u)))"
    using Cons.prems insert_output_distinct by (simp add: fst_value_pairs split: sum.split)
  then show ?case by (simp add: pr collect_Cons Cons.IH)
qed simp

lemma collect_empty_iff: "upd_Values u = [] \<Longrightarrow> upd_Values (collect rs u) = [] \<longleftrightarrow> successes rs = []"
  using map_of_collect [of rs u]
  by (metis append_Nil map_of_eq_empty_iff value_pairs_empty)

section \<open>New results\<close>

text \<open>The result, source and update every mapper of raw messages starts from.\<close>

definition new_update :: "string \<Rightarrow> raw \<Rightarrow> upd" where
  "new_update protocol r =
     WithTimestamp (raw_Timestamp r)
       (WithSource (WithUuid (raw_Uuid r) (WithType protocol (WithLabel (raw_Connector r) NewSource)))
         (NewUpdate zero_time))"

definition new_result :: "string \<Rightarrow> mapped" where
  "new_result ctx = WithOrigin ctx (WithContext ctx NewMapped)"

lemma new_update_simps [simp]:
  "upd_Source (new_update protocol r) = raw_source protocol r"
  "upd_Timestamp (new_update protocol r) = raw_Timestamp r"
  "upd_Values (new_update protocol r) = []" "value_pairs (new_update protocol r) = []"
  by (simp_all add: new_update_def raw_source_def builder_defs value_pairs_def)

lemma new_result_simps [simp]:
  "m_Context (new_result c) = c" "m_Origin (new_result c) = c" "m_Updates (new_result c) = []"
  by (simp_all add: new_result_def builder_defs)

lemma AddUpdate_simps [simp]:
  "m_Context (AddUpdate u m) = m_Context m" "m_Origin (AddUpdate u m) = m_Origin m"
  "m_Updates (AddUpdate u m) = m_Updates m @ [u]"
  by (simp_all add: builder_defs)

lemma AddValue_simps [simp]:
  "upd_Source (AddValue v u) = upd_Source u" "upd_Timestamp (AddValue v u) = upd_Timestamp u"
  "upd_Values (AddValue v u) = upd_Values u @ [v]"
  by (simp_all add: builder_defs)

section \<open>Sample parameters\<close>

text \<open>
  An expression language of variables only, and the mappings and messages at which the theorems
  are applied.
\<close>

definition variables :: "string expr_lib" where
  "variables =
     \<lparr>ex_Compile = (\<lambda>expression env. if expression = [] then Inl ''unexpected end'' else Inr expression),
      ex_Run = (\<lambda>program env. case map_of env program of
                 None \<Rightarrow> Inl (''unknown name '' @ program) | Some v \<Rightarrow> Inr v)\<rparr>"

definition variable :: "string \<Rightarrow> string \<Rightarrow> string mapping_config" where
  "variable name path =
     \<lparr>mc_Expression = name, mc_ExpressionEnvironment = [], mc_CompiledExpression = None, mc_Path = path\<rparr>"

definition sample_raw :: "byte list \<Rightarrow> time \<Rightarrow> raw" where
  "sample_raw v t =
     \<lparr>raw_Connector = ''c'', raw_Timestamp = t, raw_Type = ''t'', raw_Uuid = 7, raw_Value = v\<rparr>"

end
