(* ===== verification/ModbusMapper.thy ===== *)
theory ModbusMapper
  imports Mapper ModbusClient
begin

text \<open>
  \<open>mapper/modbus.go\<close>: the Modbus mapper, with the expression environment it keeps between
  messages: the coils and registers read last, the difference of every register to the reading
  before, and the timestamps and time differences that go with them.
\<close>

section \<open>State and configuration\<close>

record 'p modbus_mapping = "'p mapping_config" +
  mm_Header :: modbus_header

record 'p modbus_mapper =
  mb_Context :: string
  mb_protocol :: string
  mb_mappings :: "'p modbus_mapping list"
  mb_env :: environment

definition ModbusType :: string where
  "ModbusType = ''modbus''"

definition NewModbusMapper :: "string \<Rightarrow> 'p modbus_mapping list \<Rightarrow> 'p modbus_mapper" where
  "NewModbusMapper ctx mmc =
     \<lparr>mb_Context = ctx, mb_protocol = ModbusType, mb_mappings = mmc, mb_env = NewExpressionEnvironment\<rparr>"

section \<open>The environment\<close>

text \<open>A lookup of a missing key in a Go map yields the zero value.\<close>

definition lookup_or :: "'v \<Rightarrow> ('k, 'v) gomap \<Rightarrow> 'k \<Rightarrow> 'v" where
  "lookup_or z m k = (case map_of m k of None \<Rightarrow> z | Some v \<Rightarrow> v)"

text \<open>Storing \<open>f i x\<close> under \<open>address + i\<close> for every element \<open>x\<close> of the data.\<close>

fun store_from :: "int \<Rightarrow> (int \<Rightarrow> 'a \<Rightarrow> 'v) \<Rightarrow> 'a list \<Rightarrow> (int, 'v) gomap \<Rightarrow> (int, 'v) gomap" where
  "store_from a f [] m = m"
| "store_from a f (x # xs) m = store_from (a + 1) f xs (AList.update a (f a x) m)"

text \<open>
  The difference to the previous reading. \<open>int32\<close> does not overflow here: registers are 16
  bits wide. The correction adds \<open>math.MaxUint16\<close>, which is 65535.
\<close>

definition register_delta :: "u16 \<Rightarrow> u16 \<Rightarrow> int" where
  "register_delta register previous =
     (let delta = int (unat register) - int (unat previous)
      in if delta < - 50000 then delta + 65535
         else if delta > 50000 then delta - 65535
         else delta)"

text \<open>\<open>None\<close> is the panic of the type assertion on the timestamps.\<close>

definition update_registers ::
    "time \<Rightarrow> int \<Rightarrow> u16 list \<Rightarrow> environment \<Rightarrow> environment option"
where
  "update_registers now address registerData env =
     (let registersMap = store_from address (\<lambda>_ register. register) registerData [];
          timestampMap = store_from address (\<lambda>_ _. now) registerData [];
          store = (\<lambda>deltaMap timeDeltaMap.
            AList.update ''timedeltas'' (GTimeDeltas timeDeltaMap)
             (AList.update ''timestamps'' (GTimestamps timestampMap)
               (AList.update ''registers'' (GRegisters registersMap)
                 (AList.update ''deltas'' (GDeltas deltaMap) env))))
      in case map_of env ''registers'' of
           Some (GRegisters previousMap) \<Rightarrow>
             (case map_of env ''timestamps'' of
                Some (GTimestamps oldTimestampMap) \<Rightarrow>
                  Some (store
                    (store_from address
                       (\<lambda>k register. register_delta register (lookup_or 0 previousMap k)) registerData [])
                    (store_from address
                       (\<lambda>k _. milliseconds (time_sub now (lookup_or zero_time oldTimestampMap k)))
                       registerData []))
              | _ \<Rightarrow> None)
         | _ \<Rightarrow>
             Some (store (store_from address (\<lambda>_ register. int (unat register)) registerData []) []))"

definition update_coils :: "int \<Rightarrow> u16 list \<Rightarrow> environment \<Rightarrow> environment" where
  "update_coils address registerData env =
     AList.update ''coils''
       (GCoils (store_from address (\<lambda>_ coil. coil) (RegistersToCoils registerData) [])) env"

definition update_env :: "time \<Rightarrow> u16 \<Rightarrow> int \<Rightarrow> u16 list \<Rightarrow> environment \<Rightarrow> environment option" where
  "update_env now functionCode address registerData env =
     (if functionCode = READ_COILS \<or> functionCode = READ_DISCRETE_INPUTS
      then Some (update_coils address registerData env)
      else if functionCode = READ_HOLDING_REGISTERS \<or> functionCode = READ_INPUT_REGISTERS
      then update_registers now address registerData env
      else Some env)"

section \<open>DoMap\<close>

text \<open>The range test, with its \<open>uint16\<close> sums.\<close>

definition selected :: "u16 \<Rightarrow> byte \<Rightarrow> u16 \<Rightarrow> u16 \<Rightarrow> ('p, 'z) modbus_mapping_scheme \<Rightarrow> bool" where
  "selected functionCode slave address numberOfCoilsOrRegisters mmc \<longleftrightarrow>
     (let h = mm_Header mmc in
      \<not> (mh_Slave h \<noteq> slave \<or> mh_FunctionCode h \<noteq> functionCode) \<and>
      \<not> (mh_Address h < address \<or>
         mh_Address h + mh_NumberOfCoilsOrRegisters h > address + numberOfCoilsOrRegisters))"

fun modbus_mappings ::
    "'p expr_lib \<Rightarrow> mapstructure \<Rightarrow> environment \<Rightarrow> ('p modbus_mapping \<Rightarrow> bool) \<Rightarrow>
     'p modbus_mapping list \<Rightarrow> upd \<Rightarrow> upd"
where
  "modbus_mappings lib ms env sel [] u = u"
| "modbus_mappings lib ms env sel (mmc # mmcs) u =
     (if \<not> sel mmc then modbus_mappings lib ms env sel mmcs u
      else case runExpr lib ms env mmc of
             Inr output \<Rightarrow> modbus_mappings lib ms env sel mmcs (insert_output (mc_Path mmc) output u)
           | Inl err \<Rightarrow> modbus_mappings lib ms env sel mmcs u)"

definition register_data :: "byte list \<Rightarrow> u16 list" where
  "register_data value =
     map (\<lambda>i. Uint16 (slice (7 + i * 2) (9 + i * 2) value)) [0..<(length value - 7) div 2]"

definition Modbus_DoMap ::
    "'p expr_lib \<Rightarrow> mapstructure \<Rightarrow> 'p modbus_mapper \<Rightarrow> raw \<Rightarrow> 'p modbus_mapper \<times> (map_error + mapped)"
where
  "Modbus_DoMap lib ms m r =
     (let result = new_result (mb_Context m);
          u = new_update (mb_protocol m) r;
          value = raw_Value r
      in if length value \<le> MODBUS_HEADER_LENGTH then (m, Inl (NoUsefulData value))
         else
           (let slave = value ! 0;
                functionCode = Uint16 (slice 1 3 value);
                address = Uint16 (slice 3 5 value);
                numberOfCoilsOrRegisters = Uint16 (slice 5 7 value);
                registerData = register_data value
            in case update_env (raw_Timestamp r) functionCode (int (unat address)) registerData (mb_env m) of
                 None \<Rightarrow> (m, Inl (MapPanic (Panic ''interface conversion'')))
               | Some env \<Rightarrow>
                   (let m' = m\<lparr>mb_env := env\<rparr>;
                        u' = modbus_mappings lib ms env
                               (selected functionCode slave address numberOfCoilsOrRegisters)
                               (mb_mappings m) u
                    in if length (upd_Values u') = 0 then (m', Inl (CannotBeMapped value))
                       else (m', Inr (AddUpdate u' result)))))"

section \<open>Lemmas\<close>

lemma modbus_mappings_collect:
  "modbus_mappings lib ms env sel mmcs u =
     collect (map (\<lambda>c. (mc_Path c, runExpr lib ms env c)) (filter sel mmcs)) u"
  by (induction lib ms env sel mmcs u rule: modbus_mappings.induct)
     (auto simp: collect_Cons split: sum.splits)

lemma map_of_store_from:
  "map_of (store_from a f xs m) k =
     (if a \<le> k \<and> k < a + int (length xs) then Some (f k (xs ! nat (k - a))) else map_of m k)"
proof (induction a f xs m rule: store_from.induct)
  case (2 a f x xs m)
  have "nat (k - a) = Suc (nat (k - (a + 1)))" if "a < k" using that by simp
  then show ?case using "2.IH" by (auto simp: update_conv')
qed auto

lemma map_of_store_from_nth [simp]:
  "i < length xs \<Longrightarrow> map_of (store_from a f xs m) (a + int i) = Some (f (a + int i) (xs ! i))"
  by (simp add: map_of_store_from)

lemma frame_fields:
  "InjectModbusHeader h bs ! 0 = mh_Slave h"
  "Uint16 (slice 1 3 (InjectModbusHeader h bs)) = mh_FunctionCode h"
  "Uint16 (slice 3 5 (InjectModbusHeader h bs)) = mh_Address h"
  "Uint16 (slice 5 7 (InjectModbusHeader h bs)) = mh_NumberOfCoilsOrRegisters h"
  "drop 7 (InjectModbusHeader h bs) = bs"
proof -
  have E: "\<lparr>mh_Slave = InjectModbusHeader h bs ! 0,
        mh_FunctionCode = Uint16 (slice 1 3 (InjectModbusHeader h bs)),
        mh_Address = Uint16 (slice 3 5 (InjectModbusHeader h bs)),
        mh_NumberOfCoilsOrRegisters = Uint16 (slice 5 7 (InjectModbusHeader h bs))\<rparr> = h"
      "drop 7 (InjectModbusHeader h bs) = bs"
    using ExtractModbusHeader_InjectModbusHeader [of h bs]
    unfolding ExtractModbusHeader_def by (simp_all add: MODBUS_HEADER_LENGTH_def)
  show "InjectModbusHeader h bs ! 0 = mh_Slave h"
    "Uint16 (slice 1 3 (InjectModbusHeader h bs)) = mh_FunctionCode h"
    "Uint16 (slice 3 5 (InjectModbusHeader h bs)) = mh_Address h"
    "Uint16 (slice 5 7 (InjectModbusHeader h bs)) = mh_NumberOfCoilsOrRegisters h"
    "drop 7 (InjectModbusHeader h bs) = bs"
    using arg_cong [OF E(1), of mh_Slave] arg_cong [OF E(1), of mh_FunctionCode]
      arg_cong [OF E(1), of mh_Address] arg_cong [OF E(1), of mh_NumberOfCoilsOrRegisters] E(2)
    by simp_all
qed

text \<open>The mapper reads the registers a connector put into the frame.\<close>

lemma register_data_frame [simp]: "register_data (InjectModbusHeader h (RegistersToBytes rs)) = rs"
proof -
  have "drop (7 + k) (InjectModbusHeader h bs) = drop k bs" for k bs
    using frame_fields(5) by (metis add.commute drop_drop)
  then have "register_data (InjectModbusHeader h (RegistersToBytes rs)) =
      map (\<lambda>i. Uint16 (slice (i * 2) (i * 2 + 2) (RegistersToBytes rs))) [0..<length rs]"
    by (simp add: register_data_def slice_def)
  also have "\<dots> = rs"
    using BytesToRegisters_RegistersToBytes [of rs]
    by (simp add: BytesToRegisters_def del: BytesToRegisters_RegistersToBytes)
  finally show ?thesis .
qed

text \<open>
  The state invariant: the protocol is fixed, and whenever the environment holds registers it
  holds the timestamps of the same registers.
\<close>

definition env_ok :: "environment \<Rightarrow> bool" where
  "env_ok env \<longleftrightarrow>
     (\<forall>prev. map_of env ''registers'' = Some (GRegisters prev) \<longrightarrow>
        (\<exists>ts. map_of env ''timestamps'' = Some (GTimestamps ts) \<and> dom (map_of ts) = dom (map_of prev)))"

definition modbus_inv :: "string \<Rightarrow> 'p modbus_mapping list \<Rightarrow> 'p modbus_mapper \<Rightarrow> bool" where
  "modbus_inv ctx mmc m \<longleftrightarrow>
     mb_protocol m = ModbusType \<and> mb_Context m = ctx \<and> mb_mappings m = mmc \<and> env_ok (mb_env m)"

lemma env_ok_new: "env_ok NewExpressionEnvironment"
  by (simp add: env_ok_def NewExpressionEnvironment_def)

lemma env_ok_coils: "env_ok env \<Longrightarrow> env_ok (update_coils a rs env)"
  by (simp add: env_ok_def update_coils_def update_conv')

lemma dom_store_from: "dom (map_of (store_from a f xs [])) = {a..<a + int (length xs)}"
  by (auto simp: map_of_store_from split: if_splits)

lemma update_registers_total:
  assumes "env_ok env"
  obtains env' where "update_registers now a rs env = Some env'" "env_ok env'"
    "map_of env' ''registers'' = Some (GRegisters (store_from a (\<lambda>_ r. r) rs []))"
    "map_of env' ''timestamps'' = Some (GTimestamps (store_from a (\<lambda>_ _. now) rs []))"
proof (cases "\<exists>prev. map_of env ''registers'' = Some (GRegisters prev)")
  case True
  then obtain prev ts where "map_of env ''registers'' = Some (GRegisters prev)"
      "map_of env ''timestamps'' = Some (GTimestamps ts)"
    using assms by (auto simp: env_ok_def)
  moreover from this obtain env' where E: "update_registers now a rs env = Some env'"
    by (simp add: update_registers_def Let_def)
  ultimately have R: "map_of env' ''registers'' = Some (GRegisters (store_from a (\<lambda>_ r. r) rs []))"
    and T: "map_of env' ''timestamps'' = Some (GTimestamps (store_from a (\<lambda>_ _. now) rs []))"
    by (auto simp: update_registers_def Let_def update_conv')
  then have "env_ok env'" by (simp add: env_ok_def dom_store_from)
  with E R T show thesis by (intro that)
next
  case False
  let ?env = "AList.update ''timedeltas'' (GTimeDeltas [])
     (AList.update ''timestamps'' (GTimestamps (store_from a (\<lambda>_ _. now) rs []))
       (AList.update ''registers'' (GRegisters (store_from a (\<lambda>_ r. r) rs []))
         (AList.update ''deltas'' (GDeltas (store_from a (\<lambda>_ r. int (unat r)) rs [])) env)))"
  from False have "update_registers now a rs env = Some ?env"
    by (auto simp: update_registers_def Let_def split: option.splits gval.splits)
  then show thesis
    by (rule that) (simp_all add: env_ok_def update_conv' dom_store_from)
qed

lemma update_registers_deltas:
  assumes "update_registers now a rs env = Some env'"
    and "map_of env ''registers'' = Some (GRegisters prev)" "map_of env ''timestamps'' = Some (GTimestamps old)"
  shows "map_of env' ''deltas'' =
      Some (GDeltas (store_from a (\<lambda>k r. register_delta r (lookup_or 0 prev k)) rs []))"
    "map_of env' ''timedeltas'' =
      Some (GTimeDeltas (store_from a (\<lambda>k _. milliseconds (time_sub now (lookup_or zero_time old k))) rs []))"
  using assms by (auto simp: update_registers_def Let_def update_conv')

text \<open>The result of a message is the collection of the selected mappings' outputs.\<close>

definition modbus_outputs ::
    "'p expr_lib \<Rightarrow> mapstructure \<Rightarrow> environment \<Rightarrow> modbus_header \<Rightarrow> 'p modbus_mapping list \<Rightarrow>
     (string \<times> gval) list"
where
  "modbus_outputs lib ms env h mmcs =
     successes (map (\<lambda>c. (mc_Path c, runExpr lib ms env c))
       (filter (selected (mh_FunctionCode h) (mh_Slave h) (mh_Address h)
         (mh_NumberOfCoilsOrRegisters h)) mmcs))"

text \<open>One message, in terms of the frame it holds.\<close>

definition is_register_read :: "u16 \<Rightarrow> bool" where
  "is_register_read fc \<longleftrightarrow> fc = READ_HOLDING_REGISTERS \<or> fc = READ_INPUT_REGISTERS"

lemma DoMap_short: "length (raw_Value r) \<le> 7 \<Longrightarrow>
    Modbus_DoMap lib ms m r = (m, Inl (NoUsefulData (raw_Value r)))"
  by (simp add: Modbus_DoMap_def Let_def MODBUS_HEADER_LENGTH_def)

lemma read_codes_distinct:
  "READ_HOLDING_REGISTERS \<noteq> READ_COILS" "READ_HOLDING_REGISTERS \<noteq> READ_DISCRETE_INPUTS"
  "READ_INPUT_REGISTERS \<noteq> READ_COILS" "READ_INPUT_REGISTERS \<noteq> READ_DISCRETE_INPUTS"
  by (simp_all add: modbus_code_defs)

lemma update_env_registers:
  "is_register_read fc \<Longrightarrow> update_env now fc a rs env = update_registers now a rs env"
  using read_codes_distinct by (auto simp: is_register_read_def update_env_def)

text \<open>
  A step from a state with the invariant, in one of two shapes: the frame is too short, or the
  environment is updated and the selected mappings are evaluated in it.
\<close>

lemma DoMap_cases:
  assumes "modbus_inv ctx mmc m"
  obtains (short) "length (raw_Value r) \<le> 7"
      "Modbus_DoMap lib ms m r = (m, Inl (NoUsefulData (raw_Value r)))"
  | (mapped) h bs env u where
      "raw_Value r = InjectModbusHeader h bs" "bs \<noteq> []" "env_ok env"
      "is_register_read (mh_FunctionCode h) \<Longrightarrow>
         update_registers (raw_Timestamp r) (int (unat (mh_Address h))) (register_data (raw_Value r))
           (mb_env m) = Some env"
      "u = modbus_mappings lib ms env (selected (mh_FunctionCode h) (mh_Slave h) (mh_Address h)
             (mh_NumberOfCoilsOrRegisters h)) mmc (new_update ModbusType r)"
      "Modbus_DoMap lib ms m r =
         (m\<lparr>mb_env := env\<rparr>,
          if upd_Values u = [] then Inl (CannotBeMapped (raw_Value r))
          else Inr (AddUpdate u (new_result ctx)))"
proof (cases "length (raw_Value r) \<le> 7")
  case True
  then show thesis by (rule short) (rule DoMap_short [OF True])
next
  case False
  then obtain h bs where hb: "ExtractModbusHeader (raw_Value r) = Inr (h, bs)"
    by (simp add: ExtractModbusHeader_def MODBUS_HEADER_LENGTH_def)
  then have v: "raw_Value r = InjectModbusHeader h bs"
    by (simp add: InjectModbusHeader_ExtractModbusHeader)
  have bs: "bs \<noteq> []" using False by (auto simp: v)
  have inv: "mb_protocol m = ModbusType" "mb_Context m = ctx" "mb_mappings m = mmc" "env_ok (mb_env m)"
    using assms by (simp_all add: modbus_inv_def)
  obtain env where env: "update_env (raw_Timestamp r) (mh_FunctionCode h) (int (unat (mh_Address h)))
        (register_data (raw_Value r)) (mb_env m) = Some env" "env_ok env"
    using update_registers_total [OF inv(4)] env_ok_coils inv(4)
    unfolding update_env_def by (metis (no_types))
  have "Modbus_DoMap lib ms m r =
      (let u' = modbus_mappings lib ms env (selected (mh_FunctionCode h) (mh_Slave h) (mh_Address h)
             (mh_NumberOfCoilsOrRegisters h)) mmc (new_update ModbusType r)
       in if length (upd_Values u') = 0 then (m\<lparr>mb_env := env\<rparr>, Inl (CannotBeMapped (raw_Value r)))
          else (m\<lparr>mb_env := env\<rparr>, Inr (AddUpdate u' (new_result ctx))))"
    using False env(1) inv
    unfolding Modbus_DoMap_def v Let_def frame_fields MODBUS_HEADER_LENGTH_def by simp
  then show thesis
    using env bs v
    by (intro mapped [of h bs env]) (auto simp: Let_def update_env_registers)
qed

lemma modbus_step_inv:
  assumes "modbus_inv ctx mmc m"
  shows "modbus_inv ctx mmc (fst (Modbus_DoMap lib ms m r))"
  by (rule DoMap_cases [OF assms, of r lib ms]) (use assms in \<open>auto simp: modbus_inv_def\<close>)

lemma modbus_step_carries:
  assumes "modbus_inv ctx mmc m"
  shows "carries ModbusType r (snd (Modbus_DoMap lib ms m r))"
  by (rule DoMap_cases [OF assms, of r lib ms])
     (auto simp: modbus_mappings_collect)

lemma modbus_inv_new: "modbus_inv ctx mmc (NewModbusMapper ctx mmc)"
  by (simp add: modbus_inv_def NewModbusMapper_def env_ok_new)

interpretation modbus: real_mapper "Modbus_DoMap lib ms" "NewModbusMapper ctx mmc"
    "modbus_inv ctx mmc" ModbusType for lib ms ctx mmc
  by unfold_locales (rule modbus_inv_new modbus_step_inv modbus_step_carries; assumption?)+

text \<open>What a message with registers does to the environment.\<close>

lemma register_message_step:
  assumes "modbus_inv ctx mmc n" "is_register_read (mh_FunctionCode h)"
    and "raw_Value r = InjectModbusHeader h (RegistersToBytes rs)" "rs \<noteq> []"
  shows "env_ok (mb_env n) \<and> update_registers (raw_Timestamp r) (int (unat (mh_Address h))) rs (mb_env n) =
      Some (mb_env (fst (Modbus_DoMap lib ms n r)))"
  using assms(1)
proof (cases rule: DoMap_cases [where r = r and lib = lib and ms = ms])
  case short
  then show ?thesis using assms(3,4) by simp
next
  case (mapped h' bs env u)
  have "h' = h"
    using mapped(1) assms(3) frame.enc_inject [of "(h', bs)" "(h, RegistersToBytes rs)"] by simp
  then show ?thesis using mapped(4,6) assms by (simp add: modbus_inv_def)
qed

section \<open>Properties\<close>

text \<open>C23: The mapper's type assertions never fail. A mapper that starts from its
  configuration keeps the timestamps of exactly the registers it remembers, so whatever sequence
  of messages it is given, no message makes it panic.\<close>

theorem modbus_mapper_never_panics:
  "Inl (MapPanic p) \<notin> set (machine_outputs (Modbus_DoMap lib ms) (NewModbusMapper ctx mmc) raws)"
proof
  assume "Inl (MapPanic p) \<in> set (machine_outputs (Modbus_DoMap lib ms) (NewModbusMapper ctx mmc) raws)"
  then obtain i where i: "i < length raws"
      "machine_outputs (Modbus_DoMap lib ms) (NewModbusMapper ctx mmc) raws ! i = Inl (MapPanic p)"
    by (auto simp: in_set_conv_nth)
  let ?m = "machine_state (Modbus_DoMap lib ms) (NewModbusMapper ctx mmc) (take i raws)"
  have "modbus_inv ctx mmc ?m" by (rule modbus.inv_reachable)
  then have "snd (Modbus_DoMap lib ms ?m (raws ! i)) \<noteq> Inl (MapPanic p)"
    by (rule DoMap_cases [where r = "raws ! i" and lib = lib and ms = ms]) auto
  with i show False by (simp add: machine_outputs_nth)
qed

text \<open>C25: What a Modbus message is mapped to by the code, where \<open>mapper/modbus_test.go\<close> expects otherwise. From any reachable state, a message with a header and data is
  mapped to one update that names its raw message, in which every path occurs at most once and whose value for a path is
  the first successful output among the mappings selected for the frame with that path; it is
  reported as unmappable exactly when no selected mapping has an output. The test \<open>With real data\<close> expects two values
  for each of two paths, which the guard against inserting a path twice excludes: \<open>modbus_test_one_value\<close>.\<close>

theorem modbus_mapping_result:
  assumes "m = machine_state (Modbus_DoMap lib ms) (NewModbusMapper ctx mmc) raws"
    and "raw_Value r = InjectModbusHeader h bs" "bs \<noteq> []"
  shows "\<exists>env. mb_env (fst (Modbus_DoMap lib ms m r)) = env \<and>
    (case snd (Modbus_DoMap lib ms m r) of
       Inl e \<Rightarrow> e = CannotBeMapped (raw_Value r) \<and> modbus_outputs lib ms env h mmc = []
     | Inr out \<Rightarrow> m_Context out = ctx \<and> m_Origin out = ctx \<and>
         (\<exists>u. m_Updates out = [u] \<and> upd_Source u = raw_source ModbusType r \<and>
            upd_Timestamp u = raw_Timestamp r \<and> distinct (map fst (value_pairs u)) \<and>
            map_of (value_pairs u) = map_of (modbus_outputs lib ms env h mmc) \<and>
            modbus_outputs lib ms env h mmc \<noteq> []))"
proof -
  have "modbus_inv ctx mmc m" unfolding assms(1) by (rule modbus.inv_reachable)
  then show ?thesis
  proof (cases rule: DoMap_cases [where r = r and lib = lib and ms = ms])
    case short
    then show ?thesis using assms(2,3) by simp
  next
    case (mapped h' bs' env u)
    have "h' = h" using mapped(1) assms(2) frame.enc_inject [of "(h', bs')" "(h, bs)"] by simp
    then have u: "u = collect (map (\<lambda>c. (mc_Path c, runExpr lib ms env c))
        (filter (selected (mh_FunctionCode h) (mh_Slave h) (mh_Address h)
          (mh_NumberOfCoilsOrRegisters h)) mmc)) (new_update ModbusType r)"
      by (simp add: mapped(5) modbus_mappings_collect)
    have "distinct (map fst (value_pairs u))" unfolding u by (rule collect_distinct) simp
    moreover have "map_of (value_pairs u) = map_of (modbus_outputs lib ms env h mmc)"
      by (simp add: u map_of_collect modbus_outputs_def)
    moreover have "upd_Values u = [] \<longleftrightarrow> modbus_outputs lib ms env h mmc = []"
      unfolding u modbus_outputs_def by (rule collect_empty_iff) simp
    moreover have "upd_Source u = raw_source ModbusType r" "upd_Timestamp u = raw_Timestamp r"
      by (simp_all add: u)
    ultimately show ?thesis by (simp add: mapped(6))
  qed
qed

definition counter_header :: modbus_header where
  "counter_header = \<lparr>mh_Slave = 1, mh_FunctionCode = READ_HOLDING_REGISTERS, mh_Address = 100,
                     mh_NumberOfCoilsOrRegisters = 1\<rparr>"

definition counter_mapping :: "string modbus_mapping" where
  "counter_mapping = mapping_config.extend (variable ''registers'' ''p'') \<lparr>mm_Header = counter_header\<rparr>"

theorem modbus_mapping_result_witness:
  "\<exists>out. snd (Modbus_DoMap variables no_structs (NewModbusMapper ''ctx'' [counter_mapping])
       (sample_raw (InjectModbusHeader counter_header [0, 7]) 5)) = Inr out \<and>
     m_Context out = ''ctx'' \<and> length (m_Updates out) = 1"
proof -
  let ?m = "NewModbusMapper ''ctx'' [counter_mapping]"
  let ?r = "sample_raw (InjectModbusHeader counter_header [0, 7]) 5"
  have ok: "is_ok (snd (Modbus_DoMap variables no_structs ?m ?r))" by code_simp
  have "?m = machine_state (Modbus_DoMap variables no_structs) ?m []" by simp
  from modbus_mapping_result [OF this, of ?r counter_header "[0, 7]"] ok show ?thesis
    by (auto simp: sample_raw_def is_ok_def split: sum.splits)
qed

text \<open>
  The input of the test \<open>With real data\<close> of \<open>mapper/modbus_test.go\<close>, with the first two mappings of
  \<open>modbus_test.yaml\<close> that concern it: both are for \<open>notifications.tanks.fuel.portAft\<close>, and the test expects a value
  of each. Whatever the expressions evaluate to, \<open>DoMap\<close> gives at most one.
\<close>

definition fuel_header :: "u16 \<Rightarrow> modbus_header" where
  "fuel_header a = \<lparr>mh_Slave = 2, mh_FunctionCode = READ_DISCRETE_INPUTS, mh_Address = a, mh_NumberOfCoilsOrRegisters = 1\<rparr>"

definition fuel_frame :: "byte list" where
  "fuel_frame = [0x02, 0x00, 0x02, 0x03, 0x20, 0x00, 0x09, 0xff, 0x80]"

definition port_aft :: string where
  "port_aft = ''notifications.tanks.fuel.portAft''"

lemma fuel_frame_header:
  "fuel_frame = InjectModbusHeader ((fuel_header 800)\<lparr>mh_NumberOfCoilsOrRegisters := 9\<rparr>) [0xff, 0x80]"
  by code_simp

lemma fuel_selected:
  "mm_Header c = fuel_header 800 \<Longrightarrow> selected READ_DISCRETE_INPUTS 2 800 9 c"
  "mm_Header c = fuel_header 801 \<Longrightarrow> selected READ_DISCRETE_INPUTS 2 800 9 c"
  by (simp_all add: selected_def fuel_header_def Let_def)

theorem modbus_test_one_value:
  fixes lib :: "'p expr_lib" and c1 c2 :: "'p modbus_mapping"
  assumes run_def: "run = Modbus_DoMap lib ms (NewModbusMapper ctx [c1, c2]) (sample_raw fuel_frame t)"
    and "mm_Header c1 = fuel_header 800" "mm_Header c2 = fuel_header 801" "mc_Path c1 = port_aft" "mc_Path c2 = port_aft"
    and "runExpr lib ms (mb_env (fst run)) c1 = Inr x"
  shows "\<exists>out u. snd run = Inr out \<and> m_Updates out = [u] \<and> value_pairs u = [(port_aft, x)]"
proof -
  have inv: "modbus_inv ctx [c1, c2] (NewModbusMapper ctx [c1, c2])" by (rule modbus_inv_new)
  have bytes: "raw_Value (sample_raw fuel_frame t) = InjectModbusHeader ((fuel_header 800)\<lparr>mh_NumberOfCoilsOrRegisters := 9\<rparr>) [0xff, 0x80]"
    by (simp add: sample_raw_def fuel_frame_header)
  show ?thesis
  proof (rule DoMap_cases [OF inv, of "sample_raw fuel_frame t" lib ms])
    assume "length (raw_Value (sample_raw fuel_frame t)) \<le> 7"
    then show ?thesis by (simp add: sample_raw_def fuel_frame_def)
  next
    fix h bs env u
    assume frame: "raw_Value (sample_raw fuel_frame t) = InjectModbusHeader h bs"
      and u: "u = modbus_mappings lib ms env (selected (mh_FunctionCode h) (mh_Slave h) (mh_Address h)
             (mh_NumberOfCoilsOrRegisters h)) [c1, c2] (new_update ModbusType (sample_raw fuel_frame t))"
      and out: "Modbus_DoMap lib ms (NewModbusMapper ctx [c1, c2]) (sample_raw fuel_frame t) =
         ((NewModbusMapper ctx [c1, c2])\<lparr>mb_env := env\<rparr>,
          if upd_Values u = [] then Inl (CannotBeMapped (raw_Value (sample_raw fuel_frame t)))
          else Inr (AddUpdate u (new_result ctx)))"
    have h: "h = (fuel_header 800)\<lparr>mh_NumberOfCoilsOrRegisters := 9\<rparr>"
      using frame bytes frame.enc_inject [of "(h, bs)" "((fuel_header 800)\<lparr>mh_NumberOfCoilsOrRegisters := 9\<rparr>, [0xff, 0x80])"]
      by simp
    have x: "runExpr lib ms env c1 = Inr x" using assms(6) by (simp add: run_def out)
    have "value_pairs u = [(port_aft, x)]"
      unfolding u h using fuel_selected(1) [OF assms(2)] fuel_selected(2) [OF assms(3)] x assms(4,5)
      by (cases "runExpr lib ms env c2") (simp_all add: fuel_header_def insert_output_eq value_pairs_def builder_defs)
    moreover from this have "upd_Values u \<noteq> []" by (auto simp: value_pairs_def)
    ultimately show ?thesis by (simp add: run_def out)
  qed
qed

text \<open>C24: The differences of registers and times between two readings of the same group.
  The difference of a register is exact when it is at most 50000 in size; a larger one is taken
  for a wrap of the 16-bit counter and corrected by 65535, one less than the counter's modulus.
  The time difference is in milliseconds, and saturates where \<open>Time.Sub\<close> does.\<close>

theorem modbus_deltas:
  assumes "m = machine_state (Modbus_DoMap lib ms) (NewModbusMapper ctx mmc) raws"
    and "is_register_read (mh_FunctionCode h)"
    and "raw_Value r1 = InjectModbusHeader h (RegistersToBytes rs1)"
    and "raw_Value r2 = InjectModbusHeader h (RegistersToBytes rs2)"
    and "i < length rs2" "length rs1 = length rs2"
  shows "\<exists>ds ts. let env = mb_env (machine_state (Modbus_DoMap lib ms) m [r1, r2]);
                 k = int (unat (mh_Address h)) + int i;
                 diff = int (unat (rs2 ! i)) - int (unat (rs1 ! i)) in
      map_of env ''deltas'' = Some (GDeltas ds) \<and> map_of env ''timedeltas'' = Some (GTimeDeltas ts) \<and>
      map_of ds k = Some (if \<bar>diff\<bar> \<le> 50000 then diff else diff - sgn diff * 65535) \<and>
      map_of ts k = Some (milliseconds (time_sub (raw_Timestamp r2) (raw_Timestamp r1)))"
proof -
  let ?a = "int (unat (mh_Address h))"
  define m1 where "m1 = fst (Modbus_DoMap lib ms m r1)"
  have inv: "modbus_inv ctx mmc m" unfolding assms(1) by (rule modbus.inv_reachable)
  have ne: "rs1 \<noteq> []" "rs2 \<noteq> []" using assms(5,6) by auto
  have inv1: "modbus_inv ctx mmc m1" unfolding m1_def by (rule modbus_step_inv [OF inv])
  have s1: "env_ok (mb_env m)" "update_registers (raw_Timestamp r1) ?a rs1 (mb_env m) = Some (mb_env m1)"
    using register_message_step [OF inv assms(2,3) ne(1)] by (simp_all add: m1_def)
  have s2: "update_registers (raw_Timestamp r2) ?a rs2 (mb_env m1) =
      Some (mb_env (machine_state (Modbus_DoMap lib ms) m [r1, r2]))"
    using register_message_step [OF inv1 assms(2,4) ne(2)] by (simp add: m1_def)
  have R: "map_of (mb_env m1) ''registers'' = Some (GRegisters (store_from ?a (\<lambda>_ r. r) rs1 []))"
    and T: "map_of (mb_env m1) ''timestamps'' = Some (GTimestamps (store_from ?a (\<lambda>_ _. raw_Timestamp r1) rs1 []))"
    using update_registers_total [OF s1(1), of "raw_Timestamp r1" ?a rs1] s1(2) by (metis option.inject)+
  let ?ds = "store_from ?a (\<lambda>k register. register_delta register
      (lookup_or 0 (store_from ?a (\<lambda>_ r. r) rs1 []) k)) rs2 []"
  let ?ts = "store_from ?a (\<lambda>k _. milliseconds (time_sub (raw_Timestamp r2)
      (lookup_or zero_time (store_from ?a (\<lambda>_ _. raw_Timestamp r1) rs1 []) k))) rs2 []"
  let ?env = "mb_env (machine_state (Modbus_DoMap lib ms) m [r1, r2])"
  have "map_of ?env ''deltas'' = Some (GDeltas ?ds)" "map_of ?env ''timedeltas'' = Some (GTimeDeltas ?ts)"
    by (rule update_registers_deltas [OF s2 R T])+
  moreover have "map_of ?ds (?a + int i) = Some (register_delta (rs2 ! i) (rs1 ! i))"
    "map_of ?ts (?a + int i) = Some (milliseconds (time_sub (raw_Timestamp r2) (raw_Timestamp r1)))"
    using assms(5,6) by (simp_all add: lookup_or_def del: of_nat_add)
  moreover have "register_delta b a = (let diff = int (unat b) - int (unat a)
      in if \<bar>diff\<bar> \<le> 50000 then diff else diff - sgn diff * 65535)" for a b
    by (simp add: register_delta_def Let_def sgn_if)
  ultimately show ?thesis by (auto simp: Let_def)
qed

theorem modbus_deltas_witness:
  "\<exists>ds. map_of (mb_env (machine_state (Modbus_DoMap variables no_structs) (NewModbusMapper [] [])
       [sample_raw (InjectModbusHeader counter_header (RegistersToBytes [65535])) 0,
        sample_raw (InjectModbusHeader counter_header (RegistersToBytes [1])) 1000000000])) ''deltas''
     = Some (GDeltas ds) \<and> map_of ds 100 = Some 1"
proof -
  let ?m = "NewModbusMapper [] [] :: string modbus_mapper"
  have "?m = machine_state (Modbus_DoMap variables no_structs) ?m []" by simp
  from modbus_deltas [OF this, of counter_header
      "sample_raw (InjectModbusHeader counter_header (RegistersToBytes [65535])) 0" "[65535]"
      "sample_raw (InjectModbusHeader counter_header (RegistersToBytes [1])) 1000000000" "[1]" 0]
  show ?thesis
    by (auto simp: sample_raw_def counter_header_def is_register_read_def Let_def)
qed

text \<open>Which mappings a frame selects. For mappings and frames inside the 65536
  addresses of a device, a mapping of the frame's slave and function code is selected when its
  range lies in the frame's range, with two exceptions, because the ends of the ranges are
  computed in 16 bits: a range that ends at the last address has end 0, so such a mapping is
  selected whatever the frame's end, and such a frame selects no other mapping.\<close>

theorem modbus_selected_range:
  assumes "unat (mh_Address (mm_Header c)) + unat (mh_NumberOfCoilsOrRegisters (mm_Header c)) \<le> 65536"
    and "unat address + unat number \<le> 65536" "0 < number" "0 < mh_NumberOfCoilsOrRegisters (mm_Header c)"
  defines "first \<equiv> unat (mh_Address (mm_Header c))"
    and "end \<equiv> unat (mh_Address (mm_Header c)) + unat (mh_NumberOfCoilsOrRegisters (mm_Header c))"
  shows "selected fc slave address number c \<longleftrightarrow>
    mh_Slave (mm_Header c) = slave \<and> mh_FunctionCode (mm_Header c) = fc \<and> unat address \<le> first \<and>
    (end = 65536 \<or> unat address + unat number \<noteq> 65536 \<and> end \<le> unat address + unat number)"
proof -
  have sum: "unat (a + n) = (if unat a + unat n = 65536 then 0 else unat a + unat n)"
    if "unat a + unat n \<le> 65536" for a n :: u16
    using that by (auto simp: unat_word_ariths)
  show ?thesis
    using sum [OF assms(1)] sum [OF assms(2)] assms(3,4)
    by (auto simp: selected_def Let_def word_less_nat_alt first_def end_def not_less split: if_splits)
qed

theorem modbus_selected_range_witness:
  "selected READ_HOLDING_REGISTERS 1 100 1 counter_mapping"
  using modbus_selected_range [of counter_mapping 100 1 READ_HOLDING_REGISTERS 1]
  by (simp add: counter_mapping_def counter_header_def modbus_mapping.defs mapping_config.defs variable_def)

end
