(* ===== verification/TextMappers.thy ===== *)
theory TextMappers
  imports Mapper
begin

text \<open>
  \<open>mapper/csv.go\<close> and \<open>mapper/json.go\<close>: the mappers of comma separated lines and
  of JSON documents. Both are stateless. Of the standard library, \<open>bufio.Scanner\<close>,
  \<open>strings.Split\<close> and \<open>strconv.ParseInt\<close> are modelled; regular expressions, the
  syntax of floats and the JSON parser are parameters.
\<close>

section \<open>Lines and fields\<close>

definition string_of_bytes :: "byte list \<Rightarrow> string" where
  "string_of_bytes bs = map (\<lambda>b. char_of (unat b)) bs"

fun split_lines :: "string \<Rightarrow> string \<Rightarrow> string list" where
  "split_lines cur [] = (if cur = [] then [] else [rev cur])"
| "split_lines cur (c # cs) =
     (if c = CHR 0x0A then rev cur # split_lines [] cs else split_lines (c # cur) cs)"

definition drop_cr :: "string \<Rightarrow> string" where
  "drop_cr l = (if l \<noteq> [] \<and> last l = CHR 0x0D then butlast l else l)"

text \<open>
  The scanner stops for good at a line that does not fit its 64 KiB buffer together with its
  line end; the mapper does not look at the scanner's error.
\<close>

definition scan_lines :: "string \<Rightarrow> string list" where
  "scan_lines s = map drop_cr (takeWhile (\<lambda>l. length l < 65536) (split_lines [] s))"

function split_sep :: "string \<Rightarrow> string \<Rightarrow> string \<Rightarrow> string list" where
  "split_sep sep cur [] = [rev cur]"
| "split_sep sep cur (c # cs) =
     (if sep \<noteq> [] \<and> prefix sep (c # cs) then rev cur # split_sep sep [] (drop (length sep) (c # cs))
      else split_sep sep (c # cur) cs)"
  by pat_completeness auto
termination by (relation "measure (\<lambda>(sep, cur, s). length s)") auto

text \<open>An empty separator splits into characters.\<close>

definition split :: "string \<Rightarrow> string \<Rightarrow> string list" where
  "split s sep = (if sep = [] then map (\<lambda>c. [c]) s else split_sep sep [] s)"

fun join :: "string \<Rightarrow> string list \<Rightarrow> string" where
  "join sep [] = []"
| "join sep [x] = x"
| "join sep (x # y # ys) = x @ sep @ join sep (y # ys)"

text \<open>\<open>ParseInt(s, 10, 64)\<close>.\<close>

definition digit :: "char \<Rightarrow> int option" where
  "digit c = (if of_char CHR ''0'' \<le> (of_char c :: nat) \<and> of_char c \<le> (of_char CHR ''9'' :: nat)
              then Some (int (of_char c - of_char CHR ''0'')) else None)"

fun parse_digits :: "int \<Rightarrow> string \<Rightarrow> int option" where
  "parse_digits n [] = Some n"
| "parse_digits n (c # cs) =
     (case digit c of None \<Rightarrow> None | Some d \<Rightarrow> parse_digits (10 * n + d) cs)"

definition ParseInt :: "string \<Rightarrow> int option" where
  "ParseInt s =
     (let (neg, ds) = (case s of
            CHR ''-'' # cs \<Rightarrow> (True, cs)
          | CHR ''+'' # cs \<Rightarrow> (False, cs)
          | _ \<Rightarrow> (False, s))
      in if ds = [] then None
         else case parse_digits 0 ds of
                None \<Rightarrow> None
              | Some n \<Rightarrow> (let i = if neg then - n else n
                           in if min_duration \<le> i \<and> i \<le> max_duration then Some i else None))"

section \<open>The CSV mapper\<close>

text \<open>
  The library functions that are parameters: \<open>tx_Regexp\<close> compiles an expression to its
  \<open>ReplaceAllString\<close> (source, then replacement).
\<close>

record go_text =
  tx_Regexp :: "string \<Rightarrow> (string \<Rightarrow> string \<Rightarrow> string) option"
  tx_ParseFloat :: "string \<Rightarrow> float64 option"

record 'p csv_mapping = "'p mapping_config" +
  cm_BeginsWith :: string
  cm_Regex :: string
  cm_ReplaceWith :: string

record 'p csv_mapper =
  csv_Context :: string
  csv_Separator :: string
  csv_SplitLines :: bool
  csv_protocol :: string
  csv_mappings :: "'p csv_mapping list"

definition CSVType :: string where
  "CSVType = ''csv''"

definition NewCSVMapper :: "string \<Rightarrow> string \<Rightarrow> bool \<Rightarrow> 'p csv_mapping list \<Rightarrow> 'p csv_mapper" where
  "NewCSVMapper ctx separator splitLines cmc =
     \<lparr>csv_Context = ctx, csv_Separator = separator, csv_SplitLines = splitLines,
      csv_protocol = CSVType, csv_mappings = cmc\<rparr>"

definition csv_env ::
    "go_text \<Rightarrow> (string \<Rightarrow> string) \<Rightarrow> string list \<Rightarrow> environment"
where
  "csv_env tx replace columns =
     (let stringValues = map replace columns;
          floatValues = map (\<lambda>s. case tx_ParseFloat tx s of Some fv \<Rightarrow> fv
                                   | None \<Rightarrow> (case tx_ParseFloat tx (swapPointAndComma s) of
                                                Some fv \<Rightarrow> fv | None \<Rightarrow> Zero False)) stringValues;
          intValues = map (\<lambda>s. case ParseInt s of Some iv \<Rightarrow> iv | None \<Rightarrow> 0) stringValues
      in AList.update ''intValues'' (GInts intValues)
           (AList.update ''floatValues'' (GFloats floatValues)
             (AList.update ''stringValues'' (GStrings stringValues) NewExpressionEnvironment)))"

fun csv_lines ::
    "'p expr_lib \<Rightarrow> mapstructure \<Rightarrow> go_text \<Rightarrow> string \<Rightarrow> 'p csv_mapping \<Rightarrow> string list \<Rightarrow> upd \<Rightarrow> upd"
where
  "csv_lines lib ms tx sep cmc [] u = u"
| "csv_lines lib ms tx sep cmc (line # lines) u =
     (if \<not> prefix (cm_BeginsWith cmc) line then csv_lines lib ms tx sep cmc lines u
      else
        (let stringValue = drop (length (cm_BeginsWith cmc)) line
         in case (if cm_Regex cmc = [] then Some id
                  else case tx_Regexp tx (cm_Regex cmc) of
                         None \<Rightarrow> None
                       | Some ReplaceAllString \<Rightarrow> Some (\<lambda>s. ReplaceAllString s (cm_ReplaceWith cmc))) of
              None \<Rightarrow> csv_lines lib ms tx sep cmc lines u
            | Some replace \<Rightarrow>
                (case runExpr lib ms (csv_env tx replace (split stringValue sep)) cmc of
                   Inr output \<Rightarrow> csv_lines lib ms tx sep cmc lines (insert_output (mc_Path cmc) output u)
                 | Inl err \<Rightarrow> csv_lines lib ms tx sep cmc lines u)))"

fun csv_mappings_loop ::
    "'p expr_lib \<Rightarrow> mapstructure \<Rightarrow> go_text \<Rightarrow> 'p csv_mapper \<Rightarrow> string \<Rightarrow> 'p csv_mapping list \<Rightarrow> upd \<Rightarrow> upd"
where
  "csv_mappings_loop lib ms tx m stringInput [] u = u"
| "csv_mappings_loop lib ms tx m stringInput (cmc # cmcs) u =
     (let lines = (if csv_SplitLines m then scan_lines stringInput else [stringInput])
      in csv_mappings_loop lib ms tx m stringInput cmcs
           (csv_lines lib ms tx (csv_Separator m) cmc lines u))"

definition CSV_DoMap ::
    "'p expr_lib \<Rightarrow> mapstructure \<Rightarrow> go_text \<Rightarrow> 'p csv_mapper \<Rightarrow> raw \<Rightarrow> 'p csv_mapper \<times> (map_error + mapped)"
where
  "CSV_DoMap lib ms tx m r =
     (let result = new_result (csv_Context m);
          u = csv_mappings_loop lib ms tx m (string_of_bytes (raw_Value r)) (csv_mappings m)
                (new_update (csv_protocol m) r)
      in if length (upd_Values u) = 0 then (m, Inl (CannotBeMapped (raw_Value r)))
         else (m, Inr (AddUpdate u result)))"

section \<open>The JSON mapper\<close>

text \<open>\<open>parse\<close> is \<open>json.Unmarshal\<close> into a \<open>map[string]interface{}\<close>.\<close>

record 'p json_mapper =
  jm_Context :: string
  jm_protocol :: string
  jm_mappings :: "'p mapping_config list"

definition JSONType :: string where
  "JSONType = ''json''"

definition NewJSONMapper :: "string \<Rightarrow> 'p mapping_config list \<Rightarrow> 'p json_mapper" where
  "NewJSONMapper ctx jmc = \<lparr>jm_Context = ctx, jm_protocol = JSONType, jm_mappings = jmc\<rparr>"

definition json_env :: "(string, gval) gomap \<Rightarrow> environment" where
  "json_env j = AList.update ''json'' (GMap j) NewExpressionEnvironment"

fun json_mappings_loop ::
    "'p expr_lib \<Rightarrow> mapstructure \<Rightarrow> (byte list \<Rightarrow> string + (string, gval) gomap) \<Rightarrow> byte list \<Rightarrow>
     'p mapping_config list \<Rightarrow> upd \<Rightarrow> upd"
where
  "json_mappings_loop lib ms parse payload [] u = u"
| "json_mappings_loop lib ms parse payload (jmc # jmcs) u =
     (case parse payload of
        Inl err \<Rightarrow> json_mappings_loop lib ms parse payload jmcs u
      | Inr j \<Rightarrow>
         (case runExpr lib ms (json_env j) jmc of
            Inr output \<Rightarrow> json_mappings_loop lib ms parse payload jmcs (insert_output (mc_Path jmc) output u)
          | Inl err \<Rightarrow> json_mappings_loop lib ms parse payload jmcs u))"

definition JSON_DoMap ::
    "'p expr_lib \<Rightarrow> mapstructure \<Rightarrow> (byte list \<Rightarrow> string + (string, gval) gomap) \<Rightarrow> 'p json_mapper \<Rightarrow>
     raw \<Rightarrow> 'p json_mapper \<times> (map_error + mapped)"
where
  "JSON_DoMap lib ms parse m r =
     (let result = new_result (jm_Context m);
          u = json_mappings_loop lib ms parse (raw_Value r) (jm_mappings m) (new_update (jm_protocol m) r)
      in if length (upd_Values u) = 0 then (m, Inl (CannotBeMapped (raw_Value r)))
         else (m, Inr (AddUpdate u result)))"

section \<open>Lemmas\<close>

definition csv_replacement :: "go_text \<Rightarrow> 'p csv_mapping \<Rightarrow> (string \<Rightarrow> string) option" where
  "csv_replacement tx cmc =
     (if cm_Regex cmc = [] then Some id
      else map_option (\<lambda>f s. f s (cm_ReplaceWith cmc)) (tx_Regexp tx (cm_Regex cmc)))"

text \<open>
  The runs of expressions a message causes: the mappings in order, whose regular expression
  compiles, and for each the lines that begin with its prefix.
\<close>

definition csv_runs ::
    "'p expr_lib \<Rightarrow> mapstructure \<Rightarrow> go_text \<Rightarrow> string \<Rightarrow> bool \<Rightarrow> 'p csv_mapping list \<Rightarrow>
     byte list \<Rightarrow> (string \<times> (expr_error + gval)) list"
where
  "csv_runs lib ms tx sep splitLines cmcs payload =
     concat (map (\<lambda>cmc. case csv_replacement tx cmc of
         None \<Rightarrow> []
       | Some replace \<Rightarrow>
           map (\<lambda>line. (mc_Path cmc, runExpr lib ms (csv_env tx replace
                  (split (drop (length (cm_BeginsWith cmc)) line) sep)) cmc))
             (filter (prefix (cm_BeginsWith cmc))
               (if splitLines then scan_lines (string_of_bytes payload) else [string_of_bytes payload])))
       cmcs)"

lemma collect_append: "collect (rs @ rs') u = collect rs' (collect rs u)"
  by (simp add: collect_def)

lemma csv_lines_collect:
  "csv_lines lib ms tx sep cmc lines u =
     collect (case csv_replacement tx cmc of
         None \<Rightarrow> []
       | Some replace \<Rightarrow>
           map (\<lambda>line. (mc_Path cmc, runExpr lib ms (csv_env tx replace
                  (split (drop (length (cm_BeginsWith cmc)) line) sep)) cmc))
             (filter (prefix (cm_BeginsWith cmc)) lines)) u"
  by (induction lib ms tx sep cmc lines u rule: csv_lines.induct)
     (auto simp: csv_replacement_def Let_def collect_Cons split: sum.splits option.splits)

lemma csv_mappings_collect:
  "csv_mappings_loop lib ms tx m (string_of_bytes payload) cmcs u =
     collect (csv_runs lib ms tx (csv_Separator m) (csv_SplitLines m) cmcs payload) u"
  by (induction cmcs arbitrary: u) (simp_all add: csv_runs_def csv_lines_collect collect_append Let_def)

definition json_runs ::
    "'p expr_lib \<Rightarrow> mapstructure \<Rightarrow> (byte list \<Rightarrow> string + (string, gval) gomap) \<Rightarrow> byte list \<Rightarrow>
     'p mapping_config list \<Rightarrow> (string \<times> (expr_error + gval)) list"
where
  "json_runs lib ms parse payload jmcs =
     (case parse payload of
        Inl err \<Rightarrow> []
      | Inr j \<Rightarrow> map (\<lambda>c. (mc_Path c, runExpr lib ms (json_env j) c)) jmcs)"

lemma json_mappings_collect:
  "json_mappings_loop lib ms parse payload jmcs u = collect (json_runs lib ms parse payload jmcs) u"
  by (induction lib ms parse payload jmcs u rule: json_mappings_loop.induct)
     (auto simp: json_runs_def collect_Cons split: sum.splits)

text \<open>Both mappers end in the same way, which gives both the same kind of result.\<close>

definition first_successes ::
    "string \<Rightarrow> string \<Rightarrow> raw \<Rightarrow> (string \<times> (expr_error + gval)) list \<Rightarrow> map_error + mapped \<Rightarrow> bool"
where
  "first_successes ctx protocol r rs result \<longleftrightarrow>
     (case result of
        Inl e \<Rightarrow> e = CannotBeMapped (raw_Value r) \<and> successes rs = []
      | Inr out \<Rightarrow> m_Context out = ctx \<and> m_Origin out = ctx \<and>
          (\<exists>u. m_Updates out = [u] \<and> upd_Source u = raw_source protocol r \<and>
             upd_Timestamp u = raw_Timestamp r \<and> distinct (map fst (value_pairs u)) \<and>
             map_of (value_pairs u) = map_of (successes rs) \<and> successes rs \<noteq> []))"

lemma collected_result:
  "first_successes ctx protocol r rs
     (if upd_Values (collect rs (new_update protocol r)) = [] then Inl (CannotBeMapped (raw_Value r))
      else Inr (AddUpdate (collect rs (new_update protocol r)) (new_result ctx)))"
  using collect_empty_iff [of "new_update protocol r" rs] collect_distinct [of "new_update protocol r" rs]
  by (auto simp: first_successes_def map_of_collect)

lemma first_successes_carries: "first_successes ctx protocol r rs result \<Longrightarrow> carries protocol r result"
  by (cases result) (auto simp: first_successes_def)

lemma CSV_DoMap_eq:
  "CSV_DoMap lib ms tx (NewCSVMapper ctx sep sl cmc) r =
     (NewCSVMapper ctx sep sl cmc,
      let u = collect (csv_runs lib ms tx sep sl cmc (raw_Value r)) (new_update CSVType r)
      in if upd_Values u = [] then Inl (CannotBeMapped (raw_Value r)) else Inr (AddUpdate u (new_result ctx)))"
  by (simp add: CSV_DoMap_def Let_def NewCSVMapper_def csv_mappings_collect)

lemma JSON_DoMap_eq:
  "JSON_DoMap lib ms parse (NewJSONMapper ctx jmc) r =
     (NewJSONMapper ctx jmc,
      let u = collect (json_runs lib ms parse (raw_Value r) jmc) (new_update JSONType r)
      in if upd_Values u = [] then Inl (CannotBeMapped (raw_Value r)) else Inr (AddUpdate u (new_result ctx)))"
  by (simp add: JSON_DoMap_def Let_def NewJSONMapper_def json_mappings_collect)

lemma CSV_first_successes:
  "first_successes ctx CSVType r (csv_runs lib ms tx sep sl cmc (raw_Value r))
     (snd (CSV_DoMap lib ms tx (NewCSVMapper ctx sep sl cmc) r))"
  unfolding CSV_DoMap_eq Let_def snd_conv by (rule collected_result)

lemma JSON_first_successes:
  "first_successes ctx JSONType r (json_runs lib ms parse (raw_Value r) jmc)
     (snd (JSON_DoMap lib ms parse (NewJSONMapper ctx jmc) r))"
  unfolding JSON_DoMap_eq Let_def snd_conv by (rule collected_result)

interpretation csv: real_mapper "CSV_DoMap lib ms tx" "NewCSVMapper ctx sep sl cmc"
    "\<lambda>m. m = NewCSVMapper ctx sep sl cmc" CSVType for lib ms tx ctx sep sl cmc
  by unfold_locales (auto simp: CSV_DoMap_eq intro: first_successes_carries [OF CSV_first_successes, unfolded CSV_DoMap_eq snd_conv])

interpretation json: real_mapper "JSON_DoMap lib ms parse" "NewJSONMapper ctx jmc"
    "\<lambda>m. m = NewJSONMapper ctx jmc" JSONType for lib ms parse ctx jmc
  by unfold_locales (auto simp: JSON_DoMap_eq intro: first_successes_carries [OF JSON_first_successes, unfolded JSON_DoMap_eq snd_conv])

section \<open>Properties\<close>

text \<open>What a CSV message is mapped to. The values of the result are, path by path, the
  first successful output, with the mappings in the order of the configuration and for each
  mapping the lines in the order of the message; the message is reported as unmappable exactly
  when no expression succeeds. The result names its raw message.\<close>

theorem csv_mapping_result:
  "case snd (CSV_DoMap lib ms tx (NewCSVMapper ctx sep sl cmc) r) of
     Inl e \<Rightarrow> e = CannotBeMapped (raw_Value r) \<and>
       successes (csv_runs lib ms tx sep sl cmc (raw_Value r)) = []
   | Inr out \<Rightarrow> m_Context out = ctx \<and> m_Origin out = ctx \<and>
       (\<exists>u. m_Updates out = [u] \<and> upd_Source u = raw_source CSVType r \<and>
          upd_Timestamp u = raw_Timestamp r \<and> distinct (map fst (value_pairs u)) \<and>
          map_of (value_pairs u) =
            map_of (successes (csv_runs lib ms tx sep sl cmc (raw_Value r))) \<and>
          successes (csv_runs lib ms tx sep sl cmc (raw_Value r)) \<noteq> [])"
  using CSV_first_successes unfolding first_successes_def .

lemma join_Cons: "xs \<noteq> [] \<Longrightarrow> join sep (x # xs) = x @ sep @ join sep xs"
  by (cases xs) simp_all

lemma split_sep_not_Nil [simp]: "split_sep sep cur s \<noteq> []"
  by (induction sep cur s rule: split_sep.induct) auto

lemma join_split_sep: "join sep (split_sep sep cur s) = rev cur @ s"
proof (induction sep cur s rule: split_sep.induct)
  case (2 sep cur c cs)
  show ?case
  proof (cases "sep \<noteq> [] \<and> prefix sep (c # cs)")
    case True
    then have "sep @ drop (length sep) (c # cs) = c # cs" by (auto simp: prefix_def)
    with True "2.IH"(1) show ?thesis by (simp add: join_Cons)
  qed (use "2.IH"(2) in auto)
qed simp

lemma join_singletons: "join [] (map (\<lambda>c. [c]) s) = s"
  by (induction s rule: induct_list012) simp_all

text \<open>Splitting a line into columns loses nothing: joining the columns with the separator
  gives the line back, whatever the line and the separator.\<close>

theorem csv_columns_rejoin: "join sep (split s sep) = s"
  by (simp add: split_def join_split_sep join_singletons)

text \<open>What a JSON message is mapped to. A message that is not a JSON object is reported
  as unmappable; otherwise every mapping is evaluated on the object and the values of the result
  are, path by path, the first successful output.\<close>

theorem json_mapping_result:
  "case snd (JSON_DoMap lib ms parse (NewJSONMapper ctx jmc) r) of
     Inl e \<Rightarrow> e = CannotBeMapped (raw_Value r) \<and>
       (case parse (raw_Value r) of
          Inl err \<Rightarrow> True
        | Inr j \<Rightarrow> list_all (\<lambda>c. \<not> is_ok (runExpr lib ms (json_env j) c)) jmc)
   | Inr out \<Rightarrow>
       (\<exists>j u. parse (raw_Value r) = Inr j \<and> m_Updates out = [u] \<and>
          upd_Source u = raw_source JSONType r \<and> distinct (map fst (value_pairs u)) \<and>
          map_of (value_pairs u) =
            map_of (successes (map (\<lambda>c. (mc_Path c, runExpr lib ms (json_env j) c)) jmc)))"
proof -
  have none: "successes (map (\<lambda>c. (mc_Path c, f c)) cs) = [] \<Longrightarrow> list_all (\<lambda>c. \<not> is_ok (f c)) cs"
    for f :: "_ \<Rightarrow> expr_error + gval" and cs :: "'a mapping_config list"
  proof (induction cs)
    case (Cons c cs)
    then show ?case by (cases "f c") auto
  qed simp
  show ?thesis
    using JSON_first_successes [of ctx r lib ms parse jmc] none
    by (cases "parse (raw_Value r)")
       (fastforce simp: first_successes_def json_runs_def split: sum.splits)+
qed

end
