(* ===== verification/CanBus.thy ===== *)
theory CanBus
  imports Mapper
begin

unbundle bit_operations_syntax

text \<open>
  CAN frames from the connector (\<open>connector/canbus.go\<close>) to the mapper
  (\<open>mapper/canbus.go\<close>): the 16-byte encoding of a frame, the extraction of a signal from
  its 64 data bits and the mapping of the signals of a frame. The DBC parser is a parameter: the
  mapper gets the parsed messages.
\<close>

section \<open>Frames\<close>

text \<open>\<open>fr_Data\<close> is the array of eight bytes.\<close>

record can_frame =
  fr_ID :: u32
  fr_Length :: byte
  fr_Flags :: byte
  fr_Res0 :: byte
  fr_Res1 :: byte
  fr_Data :: "byte list"

definition PutUint32 :: "u32 \<Rightarrow> byte list" where
  "PutUint32 v = [ucast (drop_bit 24 v), ucast (drop_bit 16 v), ucast (drop_bit 8 v), ucast v]"

fun Uint32 :: "byte list \<Rightarrow> u32" where
  "Uint32 (a # b # c # d # _) =
     push_bit 24 (ucast a) OR push_bit 16 (ucast b) OR push_bit 8 (ucast c) OR ucast d"
| "Uint32 _ = 0"

definition Uint64 :: "byte list \<Rightarrow> u64" where
  "Uint64 bs = foldl (\<lambda>acc b. push_bit 8 acc OR ucast b) 0 (take 8 bs)"

definition FrameToBytes :: "can_frame \<Rightarrow> byte list" where
  "FrameToBytes frm =
     (let bytes = PutUint32 (fr_ID frm);
          bytes = bytes @ [fr_Length frm];
          bytes = bytes @ [fr_Flags frm];
          bytes = bytes @ [fr_Res0 frm];
          bytes = bytes @ [fr_Res1 frm]
      in foldl (\<lambda>bytes v. bytes @ [v]) bytes (fr_Data frm))"

text \<open>The slice \<open>r.Value[8:16]\<close> panics when the message is shorter: a decoded base64 value has no room for 16 bytes then.\<close>

definition createFrame :: "raw \<Rightarrow> panic + can_frame" where
  "createFrame r =
     (let value = raw_Value r in
      if length value < 16 then Inl (Panic ''slice bounds out of range'')
      else Inr \<lparr>fr_ID = Uint32 (take 4 value), fr_Length = value ! 4, fr_Flags = value ! 5,
                fr_Res0 = value ! 6, fr_Res1 = value ! 7, fr_Data = take 8 (drop 8 value)\<rparr>)"

section \<open>Signals\<close>

record signal_def =
  sd_Name :: string
  sd_StartBit :: u64
  sd_Size :: u64
  sd_IsBigEndian :: bool
  sd_IsSigned :: bool
  sd_Factor :: float64
  sd_Offset :: float64

record message_def =
  md_Name :: string
  md_Signals :: "signal_def list"

record signal =
  sig_origin :: string
  sig_name :: string
  sig_value :: float64

text \<open>Shifts by a 64-bit count: zero when the count is 64 or more.\<close>

definition shl :: "u64 \<Rightarrow> u64 \<Rightarrow> u64" where
  "shl x n = (if n < 64 then push_bit (unat n) x else 0)"

definition shr :: "u64 \<Rightarrow> u64 \<Rightarrow> u64" where
  "shr x n = (if n < 64 then drop_bit (unat n) x else 0)"

definition signal_bits :: "signal_def \<Rightarrow> byte list \<Rightarrow> u64" where
  "signal_bits mapping data =
     (let start = (if sd_IsBigEndian mapping then sd_StartBit mapping - 7 else sd_StartBit mapping);
          temp = Uint64 data;
          temp = shl temp start
      in shr temp (64 - sd_Size mapping))"

definition extractSignal :: "signal_def \<Rightarrow> string \<Rightarrow> can_frame \<Rightarrow> signal" where
  "extractSignal mapping origin frm =
     (let temp = signal_bits mapping (fr_Data frm);
          val = (if sd_IsSigned mapping then fof_int (sint temp) else fof_int (int (unat temp)));
          res = val * sd_Factor mapping + sd_Offset mapping
      in \<lparr>sig_origin = origin, sig_name = sd_Name mapping, sig_value = res\<rparr>)"

section \<open>The mapper\<close>

record 'p canbus_mapping = "'p mapping_config" +
  cb_Name :: string
  cb_Origin :: string

record 'p canbus_mapper =
  can_Context :: string
  can_protocol :: string
  can_dbc :: "(u32, message_def) gomap"
  can_mappings :: "(string, (string, 'p canbus_mapping) gomap) gomap"

definition CanBusType :: string where
  "CanBusType = ''canbus''"

definition add_canbus_mapping ::
    "'p canbus_mapping \<Rightarrow> (string, (string, 'p canbus_mapping) gomap) gomap \<Rightarrow>
     (string, (string, 'p canbus_mapping) gomap) gomap"
where
  "add_canbus_mapping m mappings =
     (let mappings = (if map_of mappings (cb_Origin m) = None
                      then AList.update (cb_Origin m) [] mappings else mappings);
          inner = (case map_of mappings (cb_Origin m) of None \<Rightarrow> [] | Some i \<Rightarrow> i)
      in AList.update (cb_Origin m) (AList.update (cb_Name m) m inner) mappings)"

text \<open>\<open>readDBC\<close>: the message definitions of the parsed file by their id, a later one over an earlier one.\<close>

datatype dbc_def = MessageDef u32 message_def | OtherDef

definition readDBC :: "dbc_def list \<Rightarrow> (u32, message_def) gomap" where
  "readDBC defs =
     foldl (\<lambda>messages d. case d of MessageDef messageID md \<Rightarrow> AList.update messageID md messages | OtherDef \<Rightarrow> messages)
       [] defs"

definition NewCanBusMapper ::
    "string \<Rightarrow> (u32, message_def) gomap \<Rightarrow> 'p canbus_mapping list \<Rightarrow> 'p canbus_mapper" where
  "NewCanBusMapper ctx dbc cmc =
     \<lparr>can_Context = ctx, can_protocol = CanBusType, can_dbc = dbc,
      can_mappings = fold add_canbus_mapping cmc []\<rparr>"

text \<open>\<open>m.canbusMappings[origin][name]\<close>; a missing inner map is nil and holds nothing.\<close>

definition find_mapping ::
    "(string, (string, 'p canbus_mapping) gomap) gomap \<Rightarrow> string \<Rightarrow> string \<Rightarrow> 'p canbus_mapping option" where
  "find_mapping mappings origin name =
     (case map_of mappings origin of None \<Rightarrow> None | Some inner \<Rightarrow> map_of inner name)"

fun map_signals ::
    "'p expr_lib \<Rightarrow> mapstructure \<Rightarrow> 'p canbus_mapper \<Rightarrow> string \<Rightarrow> can_frame \<Rightarrow> signal_def list \<Rightarrow> upd \<Rightarrow> upd"
where
  "map_signals lib ms m name frm [] u = u"
| "map_signals lib ms m name frm (mapping # mappings) u =
     (let val = extractSignal mapping name frm in
      case find_mapping (can_mappings m) (sig_origin val) (sig_name val) of
        None \<Rightarrow> map_signals lib ms m name frm mappings u
      | Some mapping \<Rightarrow>
          (let env = AList.update ''value'' (GFloat (sig_value val)) NewExpressionEnvironment in
           case runExpr lib ms env mapping of
             Inr output \<Rightarrow>
               map_signals lib ms m name frm mappings
                 (AddValue (WithValue output (WithPath (mc_Path mapping) NewValue)) u)
           | Inl err \<Rightarrow> map_signals lib ms m name frm mappings u))"

definition CanBus_DoMap ::
    "'p expr_lib \<Rightarrow> mapstructure \<Rightarrow> 'p canbus_mapper \<Rightarrow> raw \<Rightarrow> 'p canbus_mapper \<times> (map_error + mapped)"
where
  "CanBus_DoMap lib ms m r =
     (let result = new_result (can_Context m);
          u = new_update (can_protocol m) r
      in case createFrame r of
           Inl p \<Rightarrow> (m, Inl (MapPanic p))
         | Inr frm \<Rightarrow>
             (case map_of (can_dbc m) (fr_ID frm) of
                None \<Rightarrow> (m, Inr (AddUpdate u result))
              | Some mappings \<Rightarrow>
                  (m, Inr (AddUpdate
                        (map_signals lib ms m (md_Name mappings) frm (md_Signals mappings) u) result))))"

section \<open>Lemmas\<close>

lemma Uint32_PutUint32 [simp]: "Uint32 (PutUint32 v) = v"
proof -
  let ?w = "push_bit 24 (ucast (ucast (drop_bit 24 v) :: byte)) OR
    push_bit 16 (ucast (ucast (drop_bit 16 v) :: byte)) OR
    push_bit 8 (ucast (ucast (drop_bit 8 v) :: byte)) OR ucast (ucast v :: byte) :: u32"
  have "bit ?w n = bit v n" if "n < 32" for n
  proof -
    consider "n < 8" | "8 \<le> n" "n < 16" | "16 \<le> n" "n < 24" | "24 \<le> n" by linarith
    then show ?thesis using that by cases (auto simp: bit_simps)
  qed
  then have "?w = v" by (intro bit_word_eqI) simp
  then show ?thesis by (simp add: PutUint32_def)
qed

lemma FrameToBytes_eq:
  "FrameToBytes frm =
     PutUint32 (fr_ID frm) @ [fr_Length frm, fr_Flags frm, fr_Res0 frm, fr_Res1 frm] @ fr_Data frm"
  using foldl_snoc_map [of "\<lambda>v. v" _ "fr_Data frm"] by (simp add: FrameToBytes_def Let_def)

lemma length_PutUint32 [simp]: "length (PutUint32 v) = 4"
  by (simp add: PutUint32_def)

lemma createFrame_FrameToBytes:
  assumes "raw_Value r = FrameToBytes frm" "length (fr_Data frm) = 8"
  shows "createFrame r = Inr frm"
proof -
  obtain a b c d where p: "PutUint32 (fr_ID frm) = [a, b, c, d]" by (simp add: PutUint32_def)
  then have "Uint32 [a, b, c, d] = fr_ID frm" using Uint32_PutUint32 [of "fr_ID frm"] by simp
  then show ?thesis
    using assms by (simp add: createFrame_def FrameToBytes_eq p Let_def del: Uint32.simps)
qed

definition raw_of_frame :: "can_frame \<Rightarrow> raw" where
  "raw_of_frame frm = WithRawValue (FrameToBytes frm) (NewRaw 0 zero_time)"

interpretation can: codec "\<lambda>frm. length (fr_Data frm) = 8" raw_of_frame createFrame
  by unfold_locales (rule createFrame_FrameToBytes; simp add: raw_of_frame_def builder_defs)

lemma signal_bits_eq:
  assumes "start = (if sd_IsBigEndian d then sd_StartBit d - 7 else sd_StartBit d)"
    and "unat start + unat (sd_Size d) \<le> 64"
  shows "signal_bits d data =
    take_bit (unat (sd_Size d)) (drop_bit (64 - unat start - unat (sd_Size d)) (Uint64 data))"
proof (cases "sd_Size d = 0")
  case True
  then show ?thesis by (simp add: signal_bits_def shr_def Let_def)
next
  case False
  let ?n = "unat (sd_Size d)" and ?s = "unat start" and ?x = "Uint64 data"
  have n: "0 < ?n" using False by (simp add: unat_gt_0)
  then have s64: "start < 64" using assms(2) by (simp add: word_less_nat_alt)
  have "sd_Size d \<le> 64" using assms(2) by (simp add: word_le_nat_alt)
  then have c: "unat (64 - sd_Size d) = 64 - ?n" by (simp add: unat_sub)
  then have "64 - sd_Size d < 64" using n by (simp add: word_less_nat_alt)
  then have "signal_bits d data = drop_bit (64 - ?n) (push_bit ?s ?x)"
    unfolding signal_bits_def shl_def shr_def Let_def assms(1) [symmetric] using s64 c by simp
  also have "\<dots> = take_bit ?n (drop_bit (64 - ?s - ?n) ?x)"
  proof (rule bit_word_eqI)
    fix k assume "k < LENGTH(64)"
    have "64 - ?n + k - ?s = 64 - ?s - ?n + k" if "k < ?n" using that assms(2) by linarith
    then show "bit (drop_bit (64 - ?n) (push_bit ?s ?x)) k = bit (take_bit ?n (drop_bit (64 - ?s - ?n) ?x)) k"
      using assms(2) n by (auto simp: bit_simps)
  qed
  finally show ?thesis .
qed

lemma sint_signal_bits:
  assumes "n < 64"
  shows "sint (take_bit n (x :: u64)) = uint (take_bit n x)"
proof -
  have "take_bit n (uint x) < 2 ^ n" by (rule take_bit_int_less_exp)
  also have "(2::int) ^ n \<le> 2 ^ 63" using assms by (intro power_increasing) simp_all
  finally have "signed_take_bit 63 (uint (take_bit n x)) = uint (take_bit n x)"
    by (intro signed_take_bit_int_eq_self)
      (simp_all add: unsigned_take_bit_eq order_trans [OF _ take_bit_nonnegative])
  then show ?thesis by (simp add: sint_uint)
qed

text \<open>The values a frame is mapped to: one per signal that is configured and evaluates.\<close>

definition signal_values ::
    "'p expr_lib \<Rightarrow> mapstructure \<Rightarrow> 'p canbus_mapper \<Rightarrow> string \<Rightarrow> can_frame \<Rightarrow> signal_def list \<Rightarrow> val list"
where
  "signal_values lib ms m name frm sigs =
     concat (map (\<lambda>d. case find_mapping (can_mappings m) name (sd_Name d) of
         None \<Rightarrow> []
       | Some c \<Rightarrow>
          (case runExpr lib ms (AList.update ''value'' (GFloat (sig_value (extractSignal d name frm)))
                  NewExpressionEnvironment) c of
             Inl _ \<Rightarrow> []
           | Inr output \<Rightarrow> [\<lparr>val_Path = mc_Path c, val_Value = output\<rparr>])) sigs)"

lemma map_signals_eq:
  "map_signals lib ms m name frm sigs u =
     u\<lparr>upd_Values := upd_Values u @ signal_values lib ms m name frm sigs\<rparr>"
  by (induction lib ms m name frm sigs u rule: map_signals.induct)
     (auto simp: signal_values_def extractSignal_def Let_def builder_defs split: option.splits sum.splits)

lemma find_mapping_add:
  "find_mapping (add_canbus_mapping c ms) origin name =
     (if origin = cb_Origin c \<and> name = cb_Name c then Some c else find_mapping ms origin name)"
  by (auto simp: find_mapping_def add_canbus_mapping_def Let_def update_conv' split: option.splits)

lemma find_mapping_fold:
  "find_mapping (fold add_canbus_mapping cmc ms) origin name =
     (case find (\<lambda>c. cb_Origin c = origin \<and> cb_Name c = name) (rev cmc) of
        None \<Rightarrow> find_mapping ms origin name | Some c \<Rightarrow> Some c)"
proof (induction cmc arbitrary: ms rule: rev_induct)
  case (snoc c cmc)
  then show ?case by (auto simp: find_mapping_add)
qed simp

lemma CanBus_DoMap_frame:
  "fst (CanBus_DoMap lib ms m r) = m"
  by (simp add: CanBus_DoMap_def Let_def split: sum.splits option.splits)

lemma CanBus_carries:
  "can_protocol m = CanBusType \<Longrightarrow> carries CanBusType r (snd (CanBus_DoMap lib ms m r))"
  by (auto simp: CanBus_DoMap_def Let_def map_signals_eq split: sum.splits option.splits)

interpretation canbus: real_mapper "CanBus_DoMap lib ms" "NewCanBusMapper ctx dbc cmc"
    "\<lambda>m. m = NewCanBusMapper ctx dbc cmc" CanBusType for lib ms ctx dbc cmc
  by unfold_locales (auto simp: CanBus_DoMap_frame CanBus_carries NewCanBusMapper_def)

section \<open>Properties\<close>

text \<open>A CAN frame survives its way from the connector to the mapper: the mapper decodes
  the 16 bytes of a frame (which carries an array of eight data bytes) to that frame, and it
  panics exactly on messages of fewer than 16 bytes.\<close>

theorem can_frame_roundtrip:
  "(length (fr_Data frm) = 8 \<longrightarrow> raw_Value r = FrameToBytes frm \<longrightarrow> createFrame r = Inr frm) \<and>
   (is_ok (createFrame r) \<longleftrightarrow> 16 \<le> length (raw_Value r))"
  using createFrame_FrameToBytes by (simp add: createFrame_def Let_def)

definition sample_frame :: can_frame where
  "sample_frame = \<lparr>fr_ID = 0x18FEF100, fr_Length = 8, fr_Flags = 0, fr_Res0 = 0, fr_Res1 = 0,
                   fr_Data = [1, 2, 3, 4, 5, 6, 7, 8]\<rparr>"

theorem can_frame_roundtrip_witness:
  "createFrame (raw_of_frame sample_frame) = Inr sample_frame"
  using can_frame_roundtrip [of sample_frame "raw_of_frame sample_frame"]
  by (simp add: raw_of_frame_def builder_defs) (simp add: sample_frame_def)

text \<open>C35: The bits of a signal. A signal of fewer than 64 bits that lies inside the eight data
  bytes is the bit field of its size that starts at its start bit (moved up by seven for
  big-endian signals), counted from the most significant bit, scaled by its factor and offset.
  Whether the signal is declared signed makes no difference: the field is never sign extended.\<close>

theorem signal_bit_field:
  assumes "start = (if sd_IsBigEndian d then sd_StartBit d - 7 else sd_StartBit d)"
    and "unat start + unat (sd_Size d) \<le> 64" "unat (sd_Size d) < 64"
  shows "extractSignal d origin frm =
    \<lparr>sig_origin = origin, sig_name = sd_Name d,
     sig_value = fof_int (uint (take_bit (unat (sd_Size d))
       (drop_bit (64 - unat start - unat (sd_Size d)) (Uint64 (fr_Data frm))))) * sd_Factor d + sd_Offset d\<rparr>"
  using signal_bits_eq [OF assms(1,2)] assms(3) by (simp add: extractSignal_def Let_def sint_signal_bits)

definition sample_signal :: signal_def where
  "sample_signal = \<lparr>sd_Name = ''s'', sd_StartBit = 15, sd_Size = 8, sd_IsBigEndian = True,
                    sd_IsSigned = True, sd_Factor = Fin 1, sd_Offset = Zero False\<rparr>"

theorem signal_bit_field_witness:
  "extractSignal sample_signal ''m'' (sample_frame\<lparr>fr_Data := [1, 0xFF, 3, 4, 5, 6, 7, 8]\<rparr>) =
     \<lparr>sig_origin = ''m'', sig_name = ''s'', sig_value = Fin 255\<rparr>"
proof -
  have "take_bit (8::nat) (drop_bit 48 (Uint64 [1, 0xFF, 3, 4, 5, 6, 7, 8])) = (255 :: u64)"
    by code_simp
  moreover have "fof_int 255 * Fin 1 + Zero False = Fin 255"
    using fround_valid_Fin [of "255"] fround_valid [of "255"] fof_int_exact [of 255]
    by (simp add: float64_ops) (simp add: fof_int_def)
  ultimately show ?thesis
    using signal_bit_field [of 8 sample_signal "''m''" "sample_frame\<lparr>fr_Data := [1, 0xFF, 3, 4, 5, 6, 7, 8]\<rparr>"]
    by (simp add: sample_signal_def sample_frame_def)
qed

text \<open>What a CAN message is mapped to. The frame's message definition is looked up by the
  frame's id; the result has one update with one value per signal of the definition, in its order,
  for which the configuration has a mapping (the last one of that origin and name) whose expression
  succeeds. A frame that is not in the DBC file gives an update without values.\<close>

theorem canbus_mapping_result:
  "snd (CanBus_DoMap lib ms (NewCanBusMapper ctx dbc cmc) r) =
     (case createFrame r of
        Inl p \<Rightarrow> Inl (MapPanic p)
      | Inr frm \<Rightarrow> Inr \<lparr>m_Context = ctx, m_Origin = ctx, m_Updates =
          [\<lparr>upd_Source = raw_source CanBusType r, upd_Timestamp = raw_Timestamp r,
            upd_Values = (case map_of dbc (fr_ID frm) of
               None \<Rightarrow> []
             | Some def \<Rightarrow> signal_values lib ms (NewCanBusMapper ctx dbc cmc) (md_Name def) frm (md_Signals def))\<rparr>]\<rparr>) \<and>
   find_mapping (can_mappings (NewCanBusMapper ctx dbc cmc)) origin name =
     find (\<lambda>c. cb_Origin c = origin \<and> cb_Name c = name) (rev cmc)"
proof
  have new: "AddUpdate u (new_result ctx) = \<lparr>m_Context = ctx, m_Origin = ctx, m_Updates = [u]\<rparr>" for u
    by (simp add: new_result_def builder_defs)
  have upd: "new_update CanBusType r = \<lparr>upd_Source = raw_source CanBusType r,
      upd_Timestamp = raw_Timestamp r, upd_Values = []\<rparr>"
    by (simp add: new_update_def raw_source_def builder_defs)
  show "snd (CanBus_DoMap lib ms (NewCanBusMapper ctx dbc cmc) r) =
     (case createFrame r of
        Inl p \<Rightarrow> Inl (MapPanic p)
      | Inr frm \<Rightarrow> Inr \<lparr>m_Context = ctx, m_Origin = ctx, m_Updates =
          [\<lparr>upd_Source = raw_source CanBusType r, upd_Timestamp = raw_Timestamp r,
            upd_Values = (case map_of dbc (fr_ID frm) of
               None \<Rightarrow> []
             | Some def \<Rightarrow> signal_values lib ms (NewCanBusMapper ctx dbc cmc) (md_Name def) frm (md_Signals def))\<rparr>]\<rparr>)"
    by (auto simp: CanBus_DoMap_def Let_def NewCanBusMapper_def map_signals_eq new upd
        split: sum.splits option.splits)
  show "find_mapping (can_mappings (NewCanBusMapper ctx dbc cmc)) origin name =
     find (\<lambda>c. cb_Origin c = origin \<and> cb_Name c = name) (rev cmc)"
    by (simp add: NewCanBusMapper_def find_mapping_fold) (simp add: find_mapping_def split: option.splits)
qed

end
