(* ===== verification/Runes.thy ===== *)
theory Runes
  imports Prelude
begin

text \<open>
  The runes of a Go string: what a \<open>range\<close> loop and \<open>strings.FieldsFunc\<close> see. A string is its UTF-8 bytes
  (a HOL string has one character per byte); a byte that starts no valid encoding is the rune U+FFFD of width 1.
  The Unicode tables of the standard library (\<open>unicode.IsLetter\<close>, \<open>unicode.IsNumber\<close>) are a parameter.
\<close>

record unicode_tables =
  uc_IsLetter :: "nat \<Rightarrow> bool"
  uc_IsNumber :: "nat \<Rightarrow> bool"

definition RuneError :: nat where
  "RuneError = 65533"

definition continuation :: "nat \<Rightarrow> nat \<Rightarrow> nat \<Rightarrow> bool" where
  "continuation lo hi b \<longleftrightarrow> lo \<le> b \<and> b \<le> hi"

text \<open>The first rune of a string of bytes and its width: the table of \<open>unicode/utf8\<close>.\<close>

definition decode_rune :: "nat list \<Rightarrow> nat \<times> nat" where
  "decode_rune bs =
     (case bs of
        [] \<Rightarrow> (RuneError, 0)
      | b0 # r1 \<Rightarrow>
          if b0 < 128 then (b0, 1)
          else if 194 \<le> b0 \<and> b0 \<le> 223 then
            (case r1 of
               b1 # _ \<Rightarrow> if continuation 128 191 b1 then ((b0 - 192) * 64 + (b1 - 128), 2) else (RuneError, 1)
             | _ \<Rightarrow> (RuneError, 1))
          else if 224 \<le> b0 \<and> b0 \<le> 239 then
            (case r1 of
               b1 # b2 # _ \<Rightarrow>
                 if continuation (if b0 = 224 then 160 else 128) (if b0 = 237 then 159 else 191) b1 \<and> continuation 128 191 b2
                 then ((b0 - 224) * 4096 + (b1 - 128) * 64 + (b2 - 128), 3) else (RuneError, 1)
             | _ \<Rightarrow> (RuneError, 1))
          else if 240 \<le> b0 \<and> b0 \<le> 244 then
            (case r1 of
               b1 # b2 # b3 # _ \<Rightarrow>
                 if continuation (if b0 = 240 then 144 else 128) (if b0 = 244 then 143 else 191) b1 \<and>
                   continuation 128 191 b2 \<and> continuation 128 191 b3
                 then ((b0 - 240) * 262144 + (b1 - 128) * 4096 + (b2 - 128) * 64 + (b3 - 128), 4) else (RuneError, 1)
             | _ \<Rightarrow> (RuneError, 1))
          else (RuneError, 1))"

lemma decode_rune_width:
  "bs \<noteq> [] \<Longrightarrow> 1 \<le> snd (decode_rune bs) \<and> snd (decode_rune bs) \<le> length bs"
  by (auto simp: decode_rune_def split: list.splits)

text \<open>The runes of a string, each with the characters it stands for.\<close>

function runes :: "string \<Rightarrow> (nat \<times> string) list" where
  "runes s =
     (if s = [] then []
      else (let (c, n) = decode_rune (map of_char s) in (c, take n s) # runes (drop n s)))"
  by pat_completeness auto
termination
proof (relation "measure length")
  fix s :: string and x :: "nat \<times> nat" and c n
  assume s: "s \<noteq> []" "x = decode_rune (map of_char s)" "(c, n) = x"
  then have "1 \<le> n" "n \<le> length s" using decode_rune_width [of "map of_char s"] by (metis length_map map_is_Nil_conv snd_conv)+
  then show "(drop n s, s) \<in> measure length" using s(1) by simp
qed simp

declare runes.simps [simp del]

lemma runes_Nil [simp]: "runes [] = []"
  by (simp add: runes.simps)

text \<open>The runes of a string cover it, and those of a string of ASCII characters are the characters.\<close>

lemma runes_cover: "concat (map snd (runes s)) = s"
proof (induction s rule: runes.induct)
  case (1 s)
  then show ?case by (subst runes.simps) (simp add: Let_def split: prod.splits)
qed

lemma runes_ascii: "list_all (\<lambda>c. of_char c < (128::nat)) s \<Longrightarrow> runes s = map (\<lambda>c. (of_char c, [c])) s"
  by (induction s) (simp_all add: runes.simps [of "_ # _"] decode_rune_def)

text \<open>\<open>strings.FieldsFunc\<close>: the maximal non-empty runs of runes that are not separators.\<close>

fun fields_runes :: "(nat \<Rightarrow> bool) \<Rightarrow> string \<Rightarrow> (nat \<times> string) list \<Rightarrow> string list" where
  "fields_runes sep cur [] = (if cur = [] then [] else [cur])"
| "fields_runes sep cur ((c, bs) # rs) =
     (if sep c then (if cur = [] then [] else [cur]) @ fields_runes sep [] rs
      else fields_runes sep (cur @ bs) rs)"

definition fields_func :: "(nat \<Rightarrow> bool) \<Rightarrow> string \<Rightarrow> string list" where
  "fields_func sep s = fields_runes sep [] (runes s)"

text \<open>Fields are not empty and hold no rune that separates.\<close>

lemma fields_runes_nonempty:
  "f \<in> set (fields_runes sep cur rs) \<Longrightarrow> \<forall>r\<in>set rs. snd r \<noteq> [] \<Longrightarrow> f \<noteq> []"
  by (induction sep cur rs rule: fields_runes.induct) (auto split: if_splits)

lemma fields_runes_concat:
  "concat (fields_runes sep cur rs) = cur @ concat (map snd (filter (\<lambda>r. \<not> sep (fst r)) rs))"
  by (induction sep cur rs rule: fields_runes.induct) auto

lemma fields_func_concat:
  "concat (fields_func sep s) = concat (map snd (filter (\<lambda>r. \<not> sep (fst r)) (runes s)))"
  by (simp add: fields_func_def fields_runes_concat)

end
