(* ===== verification/Nmea.thy ===== *)
theory Nmea
  imports TextMappers Runes
begin

text \<open>
  \<open>mapper/nmea0183.go\<close>: the mapper of NMEA 0183 sentences. The parser
  (\<open>munnik/go-nmea\<close>) is a parameter: it returns a sentence, whose capabilities (the
  interfaces it implements) are the fields of a record.
\<close>

section \<open>Sentences\<close>

text \<open>
  \<open>None\<close>: the sentence does not implement the interface; otherwise the result of its
  method, an error or a value. Values the mapper only passes on are interface values.
\<close>

type_synonym 'v capability = "(string + 'v) option"

record sentence =
  n_String :: string
  n_VDMVDO :: "((string + int) \<times> (string + int)) option"
  n_MMSI :: "string capability"
  n_VesselName :: "string capability"
  n_VesselType :: "string capability"
  n_Position2D :: "(float64 \<times> float64) capability"
  n_Position3D :: "(float64 \<times> float64 \<times> float64) capability"
  n_VesselLength :: "float64 capability"
  n_RudderAngle :: "((string + float64) \<times> (string + float64) \<times> (string + float64)) option"
  n_Alarm :: "(string \<times> (string + bool)) option"
  n_DepthBelowSurface :: "gval capability"
  n_DepthBelowTransducer :: "gval capability"
  n_FixQuality :: "gval capability"
  n_FixType :: "gval capability"
  n_RateOfTurn :: "gval capability"
  n_TrueCourseOverGround :: "gval capability"
  n_TrueHeading :: "gval capability"
  n_MagneticHeading :: "gval capability"
  n_NavigationStatus :: "gval capability"
  n_NumberOfSatellites :: "gval capability"
  n_SpeedOverGround :: "gval capability"
  n_SpeedThroughWater :: "gval capability"
  n_CallSign :: "gval capability"
  n_IMONumber :: "gval capability"
  n_ENINumber :: "gval capability"
  n_VesselBeam :: "gval capability"
  n_RelativeWindDirection :: "gval capability"
  n_TrueWindDirection :: "gval capability"
  n_MagneticWindDirection :: "gval capability"
  n_WindSpeed :: "gval capability"
  n_OutsideTemperature :: "gval capability"
  n_DewPointTemperature :: "gval capability"
  n_Humidity :: "gval capability"
  n_WaterTemperature :: "gval capability"
  n_Heave :: "gval capability"
  n_DateTime :: "gval capability"

text \<open>
  \<open>n_VDMVDO\<close> is the pair of \<open>NumFragments\<close> and \<open>FragmentNumber\<close>;
  \<open>n_RudderAngle\<close> the results of \<open>GetRudderAngleStarboard\<close>,
  \<open>GetRudderAnglePortside\<close> and \<open>GetRudderAngle\<close>; \<open>n_Alarm\<close> the
  description (its error is dropped) and the result of \<open>IsActive\<close>.
\<close>

definition pass :: "gval capability \<Rightarrow> string \<Rightarrow> upd \<Rightarrow> upd" where
  "pass c path u =
     (case c of
        Some (Inr v) \<Rightarrow> AddValue (WithValue v (WithPath path NewValue)) u
      | _ \<Rightarrow> u)"

definition capmap :: "('v \<Rightarrow> gval) \<Rightarrow> 'v capability \<Rightarrow> gval capability" where
  "capmap f c = map_option (map_sum id f) c"

section \<open>The mapper\<close>

record nmea_mapper =
  nm_Context :: string
  nm_ProtocolOptions :: "(string, string) gomap"
  nm_protocol :: string

definition NMEA0183Type :: string where
  "NMEA0183Type = ''nmea0183''"

definition NewNmea0183Mapper :: "string \<Rightarrow> (string, string) gomap \<Rightarrow> nmea_mapper" where
  "NewNmea0183Mapper ctx options =
     \<lparr>nm_Context = ctx, nm_ProtocolOptions = options, nm_protocol = NMEA0183Type\<rparr>"

definition parse_options :: "unicode_tables \<Rightarrow> nmea_mapper \<Rightarrow> string list" where
  "parse_options uc m =
     (case map_of (nm_ProtocolOptions m) ''nmea_parse'' of
        Some optionsString \<Rightarrow> fields_func (\<lambda>c. \<not> uc_IsLetter uc c \<and> \<not> uc_IsNumber uc c) optionsString
      | None \<Rightarrow> [])"

definition is_ok_result :: "string + 'v \<Rightarrow> 'v option" where
  "is_ok_result r = (case r of Inl _ \<Rightarrow> None | Inr v \<Rightarrow> Some v)"

definition rudder_value ::
    "((string + float64) \<times> (string + float64) \<times> (string + float64)) option \<Rightarrow> gval capability" where
  "rudder_value r =
     (case r of
        None \<Rightarrow> None
      | Some (starboard, portSide, rudderAngle) \<Rightarrow>
         (case (is_ok_result rudderAngle, is_ok_result starboard, is_ok_result portSide) of
            (Some a, _, _) \<Rightarrow> Some (Inr (GFloat a))
          | (None, Some s, Some p) \<Rightarrow> Some (Inr (GFloat ((s + p) / fof_int 2)))
          | (None, Some s, None) \<Rightarrow> Some (Inr (GFloat s))
          | (None, None, Some p) \<Rightarrow> Some (Inr (GFloat p))
          | (None, None, None) \<Rightarrow> None))"

definition alarm_value :: "(string \<times> (string + bool)) option \<Rightarrow> gval capability" where
  "alarm_value a =
     (case a of
        None \<Rightarrow> None
      | Some (description, r) \<Rightarrow>
          (let active = (case r of Inl _ \<Rightarrow> True | Inr b \<Rightarrow> b)
           in Some (Inr (GMerger (Alarm \<lparr>al_State = Some active, al_Message = Some description\<rparr>)))))"

text \<open>A fragment that is not the last one of its message.\<close>

definition pending_fragment :: "sentence \<Rightarrow> bool" where
  "pending_fragment sentence =
     (case n_VDMVDO sentence of
        Some (Inr numFragments, Inr fragmentNumber) \<Rightarrow> numFragments > fragmentNumber
      | _ \<Rightarrow> False)"

definition vessel_context :: "string \<Rightarrow> string" where
  "vessel_context mmsi = ''vessels.urn:mrn:imo:mmsi:'' @ mmsi"

text \<open>
  The sequence of tests of \<open>DoMap\<close>: in this order, each capability that has a value adds
  one value with its path.
\<close>

definition capabilities :: "sentence \<Rightarrow> (gval capability \<times> string) list" where
  "capabilities sentence =
     [(capmap (\<lambda>mmsi. GMerger (VesselInfo
         \<lparr>vi_MMSI = Some mmsi, vi_Name = None\<rparr>)) (n_MMSI sentence), []),
      (capmap (\<lambda>name. GMerger (VesselInfo
         \<lparr>vi_MMSI = None, vi_Name = Some name\<rparr>)) (n_VesselName sentence), []),
      (capmap (\<lambda>t. GVesselType \<lparr>vt_Id = None, vt_Name = Some t\<rparr>) (n_VesselType sentence), ''design.aisShipType''),
      (n_DepthBelowSurface sentence, ''environment.depth.belowSurface''),
      (n_DepthBelowTransducer sentence, ''environment.depth.belowTransducer''),
      (n_FixQuality sentence, ''navigation.gnss.methodQuality''),
      (n_FixType sentence, ''navigation.gnss.type''),
      (n_RateOfTurn sentence, ''navigation.rateOfTurn''),
      (n_TrueCourseOverGround sentence, ''navigation.courseOverGroundTrue''),
      (n_TrueHeading sentence, ''navigation.headingTrue''),
      (n_MagneticHeading sentence, ''navigation.headingMagnetic''),
      (n_NavigationStatus sentence, ''navigation.state''),
      (n_NumberOfSatellites sentence, ''navigation.gnss.satellites''),
      (capmap (\<lambda>(lat, lon). GMerger (Position
         \<lparr>pos_Altitude = None, pos_Latitude = Some lat, pos_Longitude = Some lon\<rparr>)) (n_Position2D sentence), ''navigation.position''),
      (capmap (\<lambda>(lat, lon, alt). GMerger (Position
         \<lparr>pos_Altitude = Some alt, pos_Latitude = Some lat, pos_Longitude = Some lon\<rparr>)) (n_Position3D sentence), ''navigation.position''),
      (n_SpeedOverGround sentence, ''navigation.speedOverGround''),
      (n_SpeedThroughWater sentence, ''navigation.speedThroughWater''),
      (n_CallSign sentence, ''communication.callsignVhf''),
      (n_IMONumber sentence, ''registrations.imo''),
      (n_ENINumber sentence, ''registrations.other.eni.registration''),
      (capmap (\<lambda>length. GMerger (Length
         \<lparr>len_Overall = Some length, len_Hull = None, len_Waterline = None\<rparr>)) (n_VesselLength sentence), ''design.length''),
      (n_VesselBeam sentence, ''design.beam''),
      (n_RelativeWindDirection sentence, ''environment.wind.angleApparent''),
      (n_TrueWindDirection sentence, ''environment.wind.directionTrue''),
      (n_MagneticWindDirection sentence, ''environment.wind.directionMagnetic''),
      (n_WindSpeed sentence, ''environment.wind.speedOverGround''),
      (n_OutsideTemperature sentence, ''environment.outside.temperature''),
      (n_DewPointTemperature sentence, ''environment.outside.dewPointTemperature''),
      (n_Humidity sentence, ''environment.outside.humidity''),
      (n_WaterTemperature sentence, ''environment.water.temperature''),
      (n_Heave sentence, ''environment.heave''),
      (n_DateTime sentence, ''navigation.datetime''),
      (rudder_value (n_RudderAngle sentence), ''steering.rudderAngle''),
      (alarm_value (n_Alarm sentence), ''notifications.ais'')]"

definition nmea_values :: "sentence \<Rightarrow> upd \<Rightarrow> upd" where
  "nmea_values sentence u = foldl (\<lambda>u (c, path). pass c path u) u (capabilities sentence)"

definition Nmea_DoMap ::
    "unicode_tables \<Rightarrow> (string \<Rightarrow> string list \<Rightarrow> string + sentence) \<Rightarrow> nmea_mapper \<Rightarrow> raw \<Rightarrow>
     nmea_mapper \<times> (map_error + mapped)"
where
  "Nmea_DoMap uc parse m r =
     (case parse (string_of_bytes (raw_Value r)) (parse_options uc m) of
        Inl err \<Rightarrow> (m, Inl (ParseFailed err))
      | Inr sentence \<Rightarrow>
         (let result = new_result (nm_Context m) in
          if pending_fragment sentence then (m, Inr result)
          else
            (let result = (case n_MMSI sentence of
                             Some (Inr mmsi) \<Rightarrow> WithContext (vessel_context mmsi) result
                           | _ \<Rightarrow> result);
                 u = nmea_values sentence (new_update (nm_protocol m) r)
             in if length (upd_Values u) = 0 then (m, Inl (SentenceCannotBeMapped (n_String sentence)))
                else (m, Inr (AddUpdate u result)))))"

section \<open>Lemmas\<close>

text \<open>The capabilities of a sentence, with the paths they are mapped to, in order.\<close>

definition capability_values :: "gval capability \<Rightarrow> string \<Rightarrow> val list" where
  "capability_values c path = (case c of Some (Inr v) \<Rightarrow> [\<lparr>val_Path = path, val_Value = v\<rparr>] | _ \<Rightarrow> [])"

lemma pass_eq: "pass c path u = u\<lparr>upd_Values := upd_Values u @ capability_values c path\<rparr>"
  by (auto simp: pass_def capability_values_def builder_defs split: option.splits sum.splits)

lemma nmea_values_eq:
  "nmea_values s u =
     u\<lparr>upd_Values := upd_Values u @ concat (map (\<lambda>(c, p). capability_values c p) (capabilities s))\<rparr>"
proof -
  have "foldl (\<lambda>u (c, path). pass c path u) u cps =
      u\<lparr>upd_Values := upd_Values u @ concat (map (\<lambda>(c, p). capability_values c p) cps)\<rparr>" for cps
    by (induction cps arbitrary: u) (auto simp: pass_eq)
  then show ?thesis by (simp add: nmea_values_def)
qed

lemma nmea_values_frame [simp]:
  "upd_Source (nmea_values s u) = upd_Source u" "upd_Timestamp (nmea_values s u) = upd_Timestamp u"
  by (simp_all add: nmea_values_eq)

text \<open>
  What the readings of a sentence are in SignalK: the path and the value of each. The angle of the rudder is the
  sentence's own, else the mean of its two rudders, else that of the one it has; an alarm
  that does not tell whether it is active is.
\<close>

inductive sk_value :: "sentence \<Rightarrow> string \<Rightarrow> gval \<Rightarrow> bool" for s where
  mmsi: "n_MMSI s = Some (Inr x) \<Longrightarrow>
     sk_value s [] (GMerger (VesselInfo \<lparr>vi_MMSI = Some x, vi_Name = None\<rparr>))"
| vessel_name: "n_VesselName s = Some (Inr x) \<Longrightarrow>
     sk_value s [] (GMerger (VesselInfo \<lparr>vi_MMSI = None, vi_Name = Some x\<rparr>))"
| vessel_type: "n_VesselType s = Some (Inr x) \<Longrightarrow>
     sk_value s ''design.aisShipType'' (GVesselType \<lparr>vt_Id = None, vt_Name = Some x\<rparr>)"
| position2D: "n_Position2D s = Some (Inr (lat, lon)) \<Longrightarrow>
     sk_value s ''navigation.position'' (GMerger (Position \<lparr>pos_Altitude = None, pos_Latitude = Some lat, pos_Longitude = Some lon\<rparr>))"
| position3D: "n_Position3D s = Some (Inr (lat, lon, alt)) \<Longrightarrow>
     sk_value s ''navigation.position'' (GMerger (Position \<lparr>pos_Altitude = Some alt, pos_Latitude = Some lat, pos_Longitude = Some lon\<rparr>))"
| vessel_length: "n_VesselLength s = Some (Inr x) \<Longrightarrow>
     sk_value s ''design.length'' (GMerger (Length \<lparr>len_Overall = Some x, len_Hull = None, len_Waterline = None\<rparr>))"
| rudder: "n_RudderAngle s = Some (starboard, portSide, Inr a) \<Longrightarrow> sk_value s ''steering.rudderAngle'' (GFloat a)"
| rudder_mean: "n_RudderAngle s = Some (Inr a, Inr b, Inl e) \<Longrightarrow> sk_value s ''steering.rudderAngle'' (GFloat ((a + b) / fof_int 2))"
| rudder_starboard: "n_RudderAngle s = Some (Inr a, Inl e', Inl e) \<Longrightarrow> sk_value s ''steering.rudderAngle'' (GFloat a)"
| rudder_port: "n_RudderAngle s = Some (Inl e', Inr b, Inl e) \<Longrightarrow> sk_value s ''steering.rudderAngle'' (GFloat b)"
| alarm: "n_Alarm s = Some (description, Inr b) \<Longrightarrow>
     sk_value s ''notifications.ais'' (GMerger (Alarm \<lparr>al_State = Some b, al_Message = Some description\<rparr>))"
| alarm_unknown: "n_Alarm s = Some (description, Inl e) \<Longrightarrow>
     sk_value s ''notifications.ais'' (GMerger (Alarm \<lparr>al_State = Some True, al_Message = Some description\<rparr>))"
| depth_below_surface: "n_DepthBelowSurface s = Some (Inr x) \<Longrightarrow> sk_value s ''environment.depth.belowSurface'' x"
| depth_below_transducer: "n_DepthBelowTransducer s = Some (Inr x) \<Longrightarrow> sk_value s ''environment.depth.belowTransducer'' x"
| fix_quality: "n_FixQuality s = Some (Inr x) \<Longrightarrow> sk_value s ''navigation.gnss.methodQuality'' x"
| fix_type: "n_FixType s = Some (Inr x) \<Longrightarrow> sk_value s ''navigation.gnss.type'' x"
| rate_of_turn: "n_RateOfTurn s = Some (Inr x) \<Longrightarrow> sk_value s ''navigation.rateOfTurn'' x"
| true_course_over_ground: "n_TrueCourseOverGround s = Some (Inr x) \<Longrightarrow> sk_value s ''navigation.courseOverGroundTrue'' x"
| true_heading: "n_TrueHeading s = Some (Inr x) \<Longrightarrow> sk_value s ''navigation.headingTrue'' x"
| magnetic_heading: "n_MagneticHeading s = Some (Inr x) \<Longrightarrow> sk_value s ''navigation.headingMagnetic'' x"
| navigation_status: "n_NavigationStatus s = Some (Inr x) \<Longrightarrow> sk_value s ''navigation.state'' x"
| number_of_satellites: "n_NumberOfSatellites s = Some (Inr x) \<Longrightarrow> sk_value s ''navigation.gnss.satellites'' x"
| speed_over_ground: "n_SpeedOverGround s = Some (Inr x) \<Longrightarrow> sk_value s ''navigation.speedOverGround'' x"
| speed_through_water: "n_SpeedThroughWater s = Some (Inr x) \<Longrightarrow> sk_value s ''navigation.speedThroughWater'' x"
| call_sign: "n_CallSign s = Some (Inr x) \<Longrightarrow> sk_value s ''communication.callsignVhf'' x"
| imo_number: "n_IMONumber s = Some (Inr x) \<Longrightarrow> sk_value s ''registrations.imo'' x"
| eni_number: "n_ENINumber s = Some (Inr x) \<Longrightarrow> sk_value s ''registrations.other.eni.registration'' x"
| vessel_beam: "n_VesselBeam s = Some (Inr x) \<Longrightarrow> sk_value s ''design.beam'' x"
| relative_wind_direction: "n_RelativeWindDirection s = Some (Inr x) \<Longrightarrow> sk_value s ''environment.wind.angleApparent'' x"
| true_wind_direction: "n_TrueWindDirection s = Some (Inr x) \<Longrightarrow> sk_value s ''environment.wind.directionTrue'' x"
| magnetic_wind_direction: "n_MagneticWindDirection s = Some (Inr x) \<Longrightarrow> sk_value s ''environment.wind.directionMagnetic'' x"
| wind_speed: "n_WindSpeed s = Some (Inr x) \<Longrightarrow> sk_value s ''environment.wind.speedOverGround'' x"
| outside_temperature: "n_OutsideTemperature s = Some (Inr x) \<Longrightarrow> sk_value s ''environment.outside.temperature'' x"
| dew_point_temperature: "n_DewPointTemperature s = Some (Inr x) \<Longrightarrow> sk_value s ''environment.outside.dewPointTemperature'' x"
| humidity: "n_Humidity s = Some (Inr x) \<Longrightarrow> sk_value s ''environment.outside.humidity'' x"
| water_temperature: "n_WaterTemperature s = Some (Inr x) \<Longrightarrow> sk_value s ''environment.water.temperature'' x"
| heave: "n_Heave s = Some (Inr x) \<Longrightarrow> sk_value s ''environment.heave'' x"
| date_time: "n_DateTime s = Some (Inr x) \<Longrightarrow> sk_value s ''navigation.datetime'' x"

lemma capability_values_iff: "v \<in> set (capability_values c p) \<longleftrightarrow> c = Some (Inr (val_Value v)) \<and> val_Path v = p"
  by (cases v) (auto simp: capability_values_def split: option.splits sum.splits)

lemma capmap_iff: "capmap f c = Some (Inr y) \<longleftrightarrow> (\<exists>x. c = Some (Inr x) \<and> y = f x)"
  by (cases c; cases "the c") (auto simp: capmap_def)

lemma rudder_value_iff: "rudder_value r = Some (Inr y) \<longleftrightarrow>
    (\<exists>st ps a. r = Some (st, ps, Inr a) \<and> y = GFloat a) \<or>
    (\<exists>a b e. r = Some (Inr a, Inr b, Inl e) \<and> y = GFloat ((a + b) / fof_int 2)) \<or>
    (\<exists>a e e'. r = Some (Inr a, Inl e', Inl e) \<and> y = GFloat a) \<or>
    (\<exists>b e e'. r = Some (Inl e', Inr b, Inl e) \<and> y = GFloat b)"
  by (auto simp: rudder_value_def is_ok_result_def split: option.splits sum.splits)

lemma alarm_value_iff: "alarm_value a = Some (Inr y) \<longleftrightarrow>
    (\<exists>d b. a = Some (d, Inr b) \<and> y = GMerger (Alarm \<lparr>al_State = Some b, al_Message = Some d\<rparr>)) \<or>
    (\<exists>d e. a = Some (d, Inl e) \<and> y = GMerger (Alarm \<lparr>al_State = Some True, al_Message = Some d\<rparr>))"
  by (auto simp: alarm_value_def Let_def split: option.splits sum.splits)

lemmas capability_iffs = capmap_iff rudder_value_iff alarm_value_iff

definition has_capability :: "(gval capability \<times> string) list \<Rightarrow> string \<Rightarrow> gval \<Rightarrow> bool" where
  "has_capability cps p x \<longleftrightarrow> list_ex (\<lambda>(c, q). c = Some (Inr x) \<and> q = p) cps"

lemma capabilities_sound: "has_capability (capabilities s) p x \<Longrightarrow> sk_value s p x"
  by (auto simp: has_capability_def capabilities_def capability_iffs intro: sk_value.intros)

lemma capabilities_complete: "sk_value s p x \<Longrightarrow> has_capability (capabilities s) p x"
  by (induction rule: sk_value.induct)
    (simp_all add: has_capability_def capabilities_def capability_iffs)

lemma nmea_values_set:
  "upd_Values u = [] \<Longrightarrow> set (upd_Values (nmea_values s u)) = {v. sk_value s (val_Path v) (val_Value v)}"
proof -
  assume "upd_Values u = []"
  then have "v \<in> set (upd_Values (nmea_values s u)) \<longleftrightarrow> has_capability (capabilities s) (val_Path v) (val_Value v)" for v
    by (auto simp: nmea_values_eq has_capability_def capability_values_iff list_ex_iff)
  then show ?thesis using capabilities_sound capabilities_complete by blast
qed

text \<open>No reading is mapped twice: two capabilities with one path have different values.\<close>

definition apart :: "gval capability \<times> string \<Rightarrow> gval capability \<times> string \<Rightarrow> bool" where
  "apart cp cp' \<longleftrightarrow> snd cp \<noteq> snd cp' \<or> (\<forall>x. fst cp = Some (Inr x) \<longrightarrow> fst cp' \<noteq> Some (Inr x))"

lemma apart_paths: "p \<noteq> p' \<Longrightarrow> apart (c, p) (c', p')"
  by (simp add: apart_def)

lemma apart_distinct:
  "sorted_wrt apart cps \<Longrightarrow> distinct (concat (map (\<lambda>(c, p). capability_values c p) cps))"
proof (induction cps)
  case (Cons cp cps)
  have "distinct (capability_values (fst cp) (snd cp))"
    by (simp add: capability_values_def split: option.splits sum.splits)
  moreover have "set (capability_values (fst cp) (snd cp)) \<inter> set (concat (map (\<lambda>(c, p). capability_values c p) cps)) = {}"
    using Cons.prems by (auto simp: capability_values_iff apart_def)
  ultimately show ?case using Cons by (cases cp) simp
qed simp

lemma capabilities_apart: "sorted_wrt apart (capabilities s)"
  by (simp add: capabilities_def apart_def) (auto simp: capability_iffs)

lemma nmea_values_distinct: "upd_Values u = [] \<Longrightarrow> distinct (upd_Values (nmea_values s u))"
  using apart_distinct [OF capabilities_apart] by (simp add: nmea_values_eq)

lemma Nmea_frame [simp]: "fst (Nmea_DoMap uc parse m r) = m"
  by (simp add: Nmea_DoMap_def Let_def split: sum.splits option.splits)

lemma Nmea_carries:
  "nm_protocol m = NMEA0183Type \<Longrightarrow> carries NMEA0183Type r (snd (Nmea_DoMap uc parse m r))"
  by (auto simp: Nmea_DoMap_def Let_def builder_defs split: sum.splits option.splits)

interpretation nmea: real_mapper "Nmea_DoMap uc parse" "NewNmea0183Mapper ctx options"
    "\<lambda>m. m = NewNmea0183Mapper ctx options" NMEA0183Type for uc parse ctx options
  by unfold_locales (auto intro: Nmea_carries simp: NewNmea0183Mapper_def)

lemma pending_fragment_iff:
  "pending_fragment s \<longleftrightarrow> (\<exists>n k. n_VDMVDO s = Some (Inr n, Inr k) \<and> k < n)"
  by (auto simp: pending_fragment_def split: option.splits sum.splits)

section \<open>Properties\<close>

text \<open>C36: What an NMEA sentence is mapped to. A sentence that does not parse is an error. A sentence that tells the
  number of its fragments and that it is an earlier one than the last gives a delta without updates, and no error. A
  sentence without any reading is reported. Otherwise the delta has one update, naming its raw
  message and its time, whose values are, each once, the readings of the sentence with their SignalK paths and
  values (\<open>sk_value\<close>, which states them reading by reading); it is about the vessel of the sentence's MMSI if it has one and about the configured
  context if not. The origin of a delta is the configured context.\<close>

theorem nmea_mapping_result:
  "case parse (string_of_bytes (raw_Value r)) (parse_options uc (NewNmea0183Mapper ctx options)) of
     Inl e \<Rightarrow> snd (Nmea_DoMap uc parse (NewNmea0183Mapper ctx options) r) = Inl (ParseFailed e)
   | Inr s \<Rightarrow>
      (if \<exists>n k. n_VDMVDO s = Some (Inr n, Inr k) \<and> k < n
       then \<exists>m. snd (Nmea_DoMap uc parse (NewNmea0183Mapper ctx options) r) = Inr m \<and>
         m_Updates m = [] \<and> m_Context m = ctx \<and> m_Origin m = ctx
       else if \<nexists>p x. sk_value s p x
       then snd (Nmea_DoMap uc parse (NewNmea0183Mapper ctx options) r) = Inl (SentenceCannotBeMapped (n_String s))
       else \<exists>m u. snd (Nmea_DoMap uc parse (NewNmea0183Mapper ctx options) r) = Inr m \<and>
         m_Origin m = ctx \<and>
         m_Context m = (case n_MMSI s of Some (Inr mmsi) \<Rightarrow> ''vessels.urn:mrn:imo:mmsi:'' @ mmsi | _ \<Rightarrow> ctx) \<and>
         m_Updates m = [u] \<and> upd_Source u = raw_source ''nmea0183'' r \<and> upd_Timestamp u = raw_Timestamp r \<and>
         distinct (upd_Values u) \<and> set (upd_Values u) = {v. sk_value s (val_Path v) (val_Value v)})"
proof (cases "parse (string_of_bytes (raw_Value r)) (parse_options uc (NewNmea0183Mapper ctx options))")
  case (Inl e)
  then show ?thesis by (simp add: Nmea_DoMap_def)
next
  case (Inr s)
  let ?u = "nmea_values s (new_update NMEA0183Type r)"
  have vals: "set (upd_Values ?u) = {v. sk_value s (val_Path v) (val_Value v)}" "distinct (upd_Values ?u)"
    by (simp_all add: nmea_values_set nmea_values_distinct builder_defs)
  have "(\<nexists>p x. sk_value s p x) \<longleftrightarrow> {v. sk_value s (val_Path v) (val_Value v)} = {}"
    by simp (metis val.select_convs)
  then have none: "(\<nexists>p x. sk_value s p x) \<longleftrightarrow> upd_Values ?u = []" using vals(1) by (metis set_empty)
  have sel: "nm_Context (NewNmea0183Mapper ctx options) = ctx"
      "nm_protocol (NewNmea0183Mapper ctx options) = NMEA0183Type"
    by (simp_all add: NewNmea0183Mapper_def)
  have ctx: "m_Context (WithContext c m) = c" "m_Origin (WithContext c m) = m_Origin m"
      "m_Updates (WithContext c m) = m_Updates m" for c m
    by (simp_all add: builder_defs)
  note run = Inr Nmea_DoMap_def Let_def sel ctx
  have fragment: "(\<exists>n k. n_VDMVDO s = Some (Inr n, Inr k) \<and> k < n) = pending_fragment s"
    by (rule pending_fragment_iff [symmetric])
  consider "pending_fragment s" | "\<not> pending_fragment s" "upd_Values ?u = []" | "\<not> pending_fragment s" "upd_Values ?u \<noteq> []"
    by blast
  then show ?thesis
  proof cases
    case 3
    have "snd (Nmea_DoMap uc parse (NewNmea0183Mapper ctx options) r) = Inr (AddUpdate ?u
        (case n_MMSI s of Some (Inr mmsi) \<Rightarrow> WithContext (vessel_context mmsi) (new_result ctx) | _ \<Rightarrow> new_result ctx))"
      using 3 by (simp add: run)
    with 3 vals show ?thesis unfolding Inr sum.case fragment none
      by (cases "n_MMSI s") (auto simp: ctx NMEA0183Type_def vessel_context_def split: sum.splits)
  next
    case 1
    then show ?thesis unfolding Inr sum.case fragment none by (simp add: run)
  next
    case 2
    then show ?thesis unfolding Inr sum.case fragment none by (simp add: run)
  qed
qed

end
