(* ===== verification/Lwe.thy ===== *)
theory Lwe
  imports TextMappers Nmea Runes
begin

unbundle bit_operations_syntax

text \<open>
  \<open>writer/lwe.go\<close>: the writer of NMEA sentences as light-weight Ethernet datagrams: the
  table of multicast groups, the tag block with its line counter and checksum, and the datagram.
  The network is a parameter (whether dialling an address succeeds) and a trace of datagrams.
\<close>

section \<open>Multicast groups\<close>

type_synonym udp_addr = "string \<times> nat"

definition MISCGroup :: udp_addr where
  "MISCGroup = (''239.192.0.1'', 60001)"

definition TGTDGroup :: udp_addr where
  "TGTDGroup = (''239.192.0.2'', 60002)"

definition SATDGroup :: udp_addr where
  "SATDGroup = (''239.192.0.3'', 60003)"

definition NAVDGroup :: udp_addr where
  "NAVDGroup = (''239.192.0.4'', 60004)"

definition VDRDGroup :: udp_addr where
  "VDRDGroup = (''239.192.0.5'', 60005)"

definition RCOMGroup :: udp_addr where
  "RCOMGroup = (''239.192.0.6'', 60006)"

definition TIMEGroup :: udp_addr where
  "TIMEGroup = (''239.192.0.7'', 60007)"

definition PROPGroup :: udp_addr where
  "PROPGroup = (''239.192.0.8'', 60008)"

definition USR1Group :: udp_addr where
  "USR1Group = (''239.192.0.9'', 60009)"

definition USR2Group :: udp_addr where
  "USR2Group = (''239.192.0.10'', 60010)"

definition USR3Group :: udp_addr where
  "USR3Group = (''239.192.0.11'', 60011)"

definition USR4Group :: udp_addr where
  "USR4Group = (''239.192.0.12'', 60012)"

definition USR5Group :: udp_addr where
  "USR5Group = (''239.192.0.13'', 60013)"

definition USR6Group :: udp_addr where
  "USR6Group = (''239.192.0.14'', 60014)"

definition USR7Group :: udp_addr where
  "USR7Group = (''239.192.0.15'', 60015)"

definition USR8Group :: udp_addr where
  "USR8Group = (''239.192.0.16'', 60016)"

lemmas group_defs = MISCGroup_def TGTDGroup_def SATDGroup_def NAVDGroup_def VDRDGroup_def RCOMGroup_def TIMEGroup_def PROPGroup_def USR1Group_def USR2Group_def USR3Group_def USR4Group_def USR5Group_def USR6Group_def USR7Group_def USR8Group_def

definition talkerMulticastMap :: "(string, udp_addr) gomap" where
  "talkerMulticastMap =
     [(''AG'', NAVDGroup), (''AI'', TGTDGroup), (''AP'', NAVDGroup), (''BI'', MISCGroup),
      (''BN'', VDRDGroup), (''CD'', RCOMGroup), (''CR'', RCOMGroup), (''CS'', RCOMGroup),
      (''CT'', RCOMGroup), (''CV'', RCOMGroup), (''CX'', RCOMGroup), (''DF'', NAVDGroup),
      (''DU'', MISCGroup), (''EC'', NAVDGroup), (''EI'', NAVDGroup), (''EP'', RCOMGroup),
      (''ER'', MISCGroup), (''FD'', VDRDGroup), (''FE'', VDRDGroup), (''FR'', VDRDGroup),
      (''FS'', VDRDGroup), (''GA'', NAVDGroup), (''GL'', NAVDGroup), (''GN'', NAVDGroup),
      (''GP'', NAVDGroup), (''HC'', NAVDGroup), (''HD'', VDRDGroup), (''HE'', SATDGroup),
      (''HF'', NAVDGroup), (''HN'', SATDGroup), (''HS'', VDRDGroup), (''II'', MISCGroup),
      (''IN'', NAVDGroup), (''LC'', NAVDGroup), (''NL'', MISCGroup), (''RA'', TGTDGroup),
      (''RC'', MISCGroup), (''SD'', NAVDGroup), (''SG'', MISCGroup), (''SI'', MISCGroup),
      (''SS'', MISCGroup), (''TI'', SATDGroup), (''U0'', MISCGroup), (''U1'', MISCGroup),
      (''U2'', MISCGroup), (''U3'', MISCGroup), (''U4'', MISCGroup), (''U5'', MISCGroup),
      (''U6'', MISCGroup), (''U7'', MISCGroup), (''U8'', MISCGroup), (''U9'', MISCGroup),
      (''UP'', MISCGroup), (''VD'', NAVDGroup), (''VM'', NAVDGroup), (''VR'', MISCGroup),
      (''VW'', NAVDGroup), (''WD'', VDRDGroup), (''WI'', NAVDGroup), (''WL'', VDRDGroup),
      (''YX'', MISCGroup), (''ZA'', TIMEGroup), (''ZC'', TIMEGroup), (''ZQ'', TIMEGroup),
      (''ZV'', TIMEGroup)]"

section \<open>Numbers in text\<close>

definition digit_char :: "nat \<Rightarrow> char" where
  "digit_char n = ''0123456789ABCDEF'' ! n"

fun show_nat :: "nat \<Rightarrow> string" where
  "show_nat n = (if n < 10 then [digit_char n] else show_nat (n div 10) @ [digit_char (n mod 10)])"

declare show_nat.simps [simp del]

definition show_int :: "int \<Rightarrow> string" where
  "show_int i = (if i < 0 then ''-'' @ show_nat (nat (- i)) else show_nat (nat i))"

text \<open>\<open>%02X\<close>: at least two hexadecimal digits.\<close>

fun show_hex :: "nat \<Rightarrow> string" where
  "show_hex n = (if n < 16 then [digit_char n] else show_hex (n div 16) @ [digit_char (n mod 16)])"

declare show_hex.simps [simp del]

definition hex2 :: "nat \<Rightarrow> string" where
  "hex2 n = (if n < 16 then CHR 0x30 # show_hex n else show_hex n)"

text \<open>\<open>Time.Unix\<close>: seconds since 1970, rounded down.\<close>

definition unix_seconds :: "time \<Rightarrow> int" where
  "unix_seconds t = t div 1000000000 - 62135596800"

definition bytes_of_string :: "string \<Rightarrow> byte list" where
  "bytes_of_string s = map (\<lambda>c. of_char c) s"

section \<open>The writer\<close>

record lwe_writer =
  lwe_DestinationIdentification :: string
  lwe_SourceIdentification :: string
  lwe_IncludeTimestamp :: bool
  lwe_IncludeLineCount :: bool
  lwe_lineCount :: u32

definition NewLWEWriter :: "string \<Rightarrow> string \<Rightarrow> bool \<Rightarrow> bool \<Rightarrow> lwe_writer" where
  "NewLWEWriter d s includeTimestamp includeLineCount =
     \<lparr>lwe_DestinationIdentification = d, lwe_SourceIdentification = s,
      lwe_IncludeTimestamp = includeTimestamp, lwe_IncludeLineCount = includeLineCount,
      lwe_lineCount = 0\<rparr>"

definition tag_checksum :: "string \<Rightarrow> nat" where
  "tag_checksum tagBlock = foldl (\<lambda>acc (c, _). acc XOR c) 0 (runes tagBlock)"

definition tag_fields :: "lwe_writer \<Rightarrow> raw \<Rightarrow> lwe_writer \<times> string" where
  "tag_fields w raw =
     (let tagBlock = [];
          tagBlock = (if lwe_DestinationIdentification w \<noteq> []
                      then tagBlock @ ''d:'' @ lwe_DestinationIdentification w @ '','' else tagBlock);
          tagBlock = (if lwe_SourceIdentification w \<noteq> []
                      then tagBlock @ ''s:'' @ lwe_SourceIdentification w @ '','' else tagBlock);
          tagBlock = (if lwe_IncludeTimestamp w
                      then tagBlock @ ''c:'' @ show_int (unix_seconds (raw_Timestamp raw)) @ '',''
                      else tagBlock)
      in if lwe_IncludeLineCount w then
           (let lineCount = (if lwe_lineCount w \<ge> 1000 then 0 else lwe_lineCount w)
            in (w\<lparr>lwe_lineCount := lineCount + 1\<rparr>,
                tagBlock @ ''n:'' @ show_nat (unat lineCount) @ '',''))
         else (w, tagBlock))"

definition createTagBlock :: "lwe_writer \<Rightarrow> raw \<Rightarrow> lwe_writer \<times> byte list" where
  "createTagBlock w raw =
     (let (w, tagBlock) = tag_fields w raw
      in if tagBlock = [] then (w, [])
         else
           (let tagBlock = take (length tagBlock - 1) tagBlock
            in (w, bytes_of_string (CHR 0x5C # tagBlock @ ''*'' @ hex2 (tag_checksum tagBlock) @ [CHR 0x5C]))))"

text \<open>The datagram sent for a message, if any, and its destination.\<close>

definition multicast ::
    "(udp_addr \<Rightarrow> bool) \<Rightarrow> lwe_writer \<Rightarrow> raw \<Rightarrow> lwe_writer \<times> (udp_addr \<times> byte list) option" where
  "multicast dial w raw =
     (if raw_Type raw \<noteq> NMEA0183Type \<or> length (raw_Value raw) < 3 then (w, None)
      else
        (let talkerID = take 2 (drop 1 (string_of_bytes (raw_Value raw))) in
         case map_of talkerMulticastMap talkerID of
           None \<Rightarrow> (w, None)
         | Some addr \<Rightarrow>
             (if \<not> dial addr then (w, None)
              else
                (let (w', tag) = createTagBlock w raw
                 in (w', Some (addr, (((bytes_of_string ''UdPbC'' @ [0]) @ tag) @ raw_Value raw) @ [13, 10]))))))"

section \<open>Lemmas\<close>

definition hex_value :: "string \<Rightarrow> nat" where
  "hex_value s = foldl (\<lambda>n c. 16 * n + the (index_of c ''0123456789ABCDEF'')) 0 s"

lemma digit_table: "list_all (\<lambda>n. index_of (digit_char n) ''0123456789ABCDEF'' = Some n) [0..<16]"
  by (simp add: upt_conv_Cons digit_char_def)

lemma digit_value [simp]: "n < 16 \<Longrightarrow> index_of (digit_char n) ''0123456789ABCDEF'' = Some n"
  using digit_table by (simp add: list_all_iff)

lemma hex_value_snoc: "hex_value (ds @ [c]) = 16 * hex_value ds + the (index_of c ''0123456789ABCDEF'')"
  by (simp add: hex_value_def del: index_of.simps)

lemma hex_value_show_hex: "hex_value (show_hex n) = n"
proof (induction n rule: show_hex.induct)
  case (1 n)
  show ?case
  proof (cases "n < 16")
    case True
    then show ?thesis by (simp add: show_hex.simps [of n] hex_value_def del: index_of.simps)
  next
    case False
    then show ?thesis using 1 by (simp add: show_hex.simps [of n] hex_value_snoc del: index_of.simps)
  qed
qed

lemma hex_value_hex2: "hex_value (hex2 n) = n"
proof -
  have "hex_value (CHR 0x30 # ds) = hex_value ds" for ds by (simp add: hex_value_def)
  then show ?thesis by (simp add: hex2_def hex_value_show_hex)
qed

lemma hex2_length: "2 \<le> length (hex2 n)"
proof -
  have "1 \<le> length (show_hex n)" for n by (simp add: show_hex.simps [of n])
  then show ?thesis by (simp add: hex2_def show_hex.simps [of n])
qed

text \<open>The configuration of the writer never changes.\<close>

definition lwe_config :: "lwe_writer \<Rightarrow> lwe_writer" where
  "lwe_config w = w\<lparr>lwe_lineCount := 0\<rparr>"

lemma tag_fields_config [simp]: "lwe_config (fst (tag_fields w raw)) = lwe_config w"
  by (simp add: tag_fields_def lwe_config_def Let_def)

lemma createTagBlock_writer: "fst (createTagBlock w raw) = fst (tag_fields w raw)"
  by (simp add: createTagBlock_def Let_def split_beta)

text \<open>A tag block is empty or framed, with the checksum of its content.\<close>

lemma createTagBlock_shape:
  "snd (createTagBlock w raw) =
     (let fields = snd (tag_fields w raw) in
      if fields = [] then []
      else bytes_of_string (CHR 0x5C # butlast fields @ ''*'' @ hex2 (tag_checksum (butlast fields)) @ [CHR 0x5C]))"
  by (simp add: createTagBlock_def Let_def split_beta butlast_conv_take)

definition talker :: "raw \<Rightarrow> string" where
  "talker raw = take 2 (drop 1 (string_of_bytes (raw_Value raw)))"

definition sends :: "(udp_addr \<Rightarrow> bool) \<Rightarrow> raw \<Rightarrow> bool" where
  "sends dial raw \<longleftrightarrow>
     raw_Type raw = NMEA0183Type \<and> 3 \<le> length (raw_Value raw) \<and>
     (\<exists>addr. map_of talkerMulticastMap (talker raw) = Some addr \<and> dial addr)"

lemma multicast_eq:
  "multicast dial w raw =
     (if sends dial raw
      then (fst (tag_fields w raw),
            Some (the (map_of talkerMulticastMap (talker raw)),
                  bytes_of_string ''UdPbC'' @ [0] @ snd (createTagBlock w raw) @ raw_Value raw @ [13, 10]))
      else (w, None))"
  by (auto simp: multicast_def sends_def Let_def split_beta talker_def createTagBlock_writer not_le
      split: option.splits)

text \<open>What a datagram of a message looks like.\<close>

definition datagram_ok :: "(udp_addr \<Rightarrow> bool) \<Rightarrow> raw \<Rightarrow> (udp_addr \<times> byte list) option \<Rightarrow> bool" where
  "datagram_ok dial raw out \<longleftrightarrow>
     (case out of
        None \<Rightarrow> \<not> sends dial raw
      | Some (addr, bytes) \<Rightarrow> sends dial raw \<and>
          map_of talkerMulticastMap (talker raw) = Some addr \<and>
          (\<exists>tag. bytes = bytes_of_string ''UdPbC'' @ [0] @ tag @ raw_Value raw @ [13, 10] \<and>
             (tag = [] \<or> (\<exists>body hex. tag = bytes_of_string (CHR 0x5C # body @ ''*'' @ hex @ [CHR 0x5C]) \<and>
                2 \<le> length hex \<and> hex_value hex = tag_checksum body))))"

lemma multicast_datagram: "datagram_ok dial raw (snd (multicast dial w raw))"
proof (cases "sends dial raw")
  case True
  then obtain addr where "map_of talkerMulticastMap (talker raw) = Some addr"
    by (auto simp: sends_def)
  moreover note hex2_length hex_value_hex2
  ultimately show ?thesis
    using True by (auto simp: datagram_ok_def multicast_eq createTagBlock_shape Let_def)
qed (simp add: datagram_ok_def multicast_eq)

text \<open>The line counter after \<open>k\<close> datagrams.\<close>

definition line_count_after :: "nat \<Rightarrow> nat" where
  "line_count_after k = (if k = 0 then 0 else (k - 1) mod 1000 + 1)"

lemma line_count_after_le: "line_count_after k \<le> 1000"
proof -
  have "(k - 1) mod 1000 < 1000" by simp
  then have "Suc ((k - 1) mod 1000) \<le> 1000" by (rule Suc_leI)
  then show ?thesis by (simp add: line_count_after_def)
qed

lemma line_count_next: "(if 1000 \<le> line_count_after k then 0 else line_count_after k) = k mod 1000"
proof (cases k)
  case 0
  then show ?thesis by (simp add: line_count_after_def)
next
  case (Suc j)
  have "j mod 1000 < 1000" by simp
  then show ?thesis by (auto simp: line_count_after_def Suc mod_Suc)
qed

lemma tag_fields_count:
  assumes "lwe_IncludeLineCount w" "unat (lwe_lineCount w) = line_count_after k"
  shows "unat (lwe_lineCount (fst (tag_fields w raw))) = line_count_after (Suc k)"
    and "\<exists>pre. snd (tag_fields w raw) = pre @ ''n:'' @ show_nat (k mod 1000) @ '',''"
proof -
  let ?c = "if lwe_lineCount w \<ge> 1000 then 0 else lwe_lineCount w"
  have c: "unat ?c = k mod 1000"
    using line_count_next [of k, folded assms(2)] by (simp add: word_le_nat_alt split: if_splits)
  have "k mod 1000 < 1000" by simp
  then have "unat (?c + 1) = k mod 1000 + 1"
    unfolding c [symmetric] by (intro unat_add_lem [THEN iffD1, THEN trans]) simp_all
  then show "unat (lwe_lineCount (fst (tag_fields w raw))) = line_count_after (Suc k)"
    using assms(1) by (simp add: tag_fields_def Let_def line_count_after_def)
  show "\<exists>pre. snd (tag_fields w raw) = pre @ ''n:'' @ show_nat (k mod 1000) @ '',''"
    unfolding tag_fields_def Let_def using assms(1) c by auto
qed

lemma lwe_count_run:
  assumes "lwe_IncludeLineCount w" "unat (lwe_lineCount w) = line_count_after k"
  shows "lwe_IncludeLineCount (machine_state (multicast dial) w raws) \<and>
    unat (lwe_lineCount (machine_state (multicast dial) w raws)) =
      line_count_after (k + length (filter (sends dial) raws))"
  using assms
proof (induction raws arbitrary: w k)
  case (Cons raw raws)
  show ?case
  proof (cases "sends dial raw")
    case True
    have "lwe_IncludeLineCount (fst (tag_fields w raw))"
      using Cons.prems(1) by (simp add: tag_fields_def Let_def)
    from Cons.IH [OF this tag_fields_count(1) [OF Cons.prems]] True show ?thesis
      by (simp add: multicast_eq)
  next
    case False
    with Cons.IH [OF Cons.prems] show ?thesis by (simp add: multicast_eq)
  qed
qed simp

interpretation lwe: machine "multicast dial" "NewLWEWriter d s ts lc"
    "\<lambda>w. lwe_config w = NewLWEWriter d s ts lc" "datagram_ok dial" for dial d s ts lc
proof
  show "lwe_config (NewLWEWriter d s ts lc) = NewLWEWriter d s ts lc"
    by (simp add: lwe_config_def NewLWEWriter_def)
next
  fix w raw assume "lwe_config w = NewLWEWriter d s ts lc"
  then show "lwe_config (fst (multicast dial w raw)) = NewLWEWriter d s ts lc"
    by (simp add: multicast_eq)
  show "datagram_ok dial raw (snd (multicast dial w raw))" by (rule multicast_datagram)
qed

definition transmission_group :: "udp_addr \<Rightarrow> bool" where
  "transmission_group a \<longleftrightarrow>
     list_ex (\<lambda>n. a = (''239.192.0.'' @ show_nat n, 60000 + n)) [1..<17]"

lemma show_nat_digits:
  "n < 10 \<Longrightarrow> show_nat n = [digit_char n]"
  "n < 100 \<Longrightarrow> 10 \<le> n \<Longrightarrow> show_nat n = [digit_char (n div 10), digit_char (n mod 10)]"
  by (simp_all add: show_nat.simps [of n] show_nat.simps [of "n div 10"])

lemma transmission_groups:
  "transmission_group MISCGroup" "transmission_group TGTDGroup" "transmission_group SATDGroup"
  "transmission_group NAVDGroup" "transmission_group VDRDGroup" "transmission_group RCOMGroup"
  "transmission_group TIMEGroup"
  by (simp_all add: transmission_group_def group_defs upt_conv_Cons show_nat_digits digit_char_def)

definition talker_key :: "string \<Rightarrow> nat" where
  "talker_key s = foldl (\<lambda>n c. 256 * n + of_char c) 0 s"

lemma talkers_ascending: "successively (<) (map talker_key (map fst talkerMulticastMap))"
  by (simp add: talkerMulticastMap_def talker_key_def)

lemma talkers_distinct: "distinct (map fst talkerMulticastMap)"
proof -
  have "sorted_wrt (<) (map talker_key (map fst talkerMulticastMap))"
    using talkers_ascending by (simp add: successively_conv_sorted_wrt)
  then have "distinct (map talker_key (map fst talkerMulticastMap))" by (simp add: strict_sorted_iff)
  then show ?thesis by (simp only: distinct_map)
qed

lemma talkers_grouped: "list_all (\<lambda>(t, a). length t = 2 \<and> transmission_group a) talkerMulticastMap"
  by (simp add: talkerMulticastMap_def transmission_groups)

section \<open>Properties\<close>

text \<open>Which messages are multicast, where to and in what form. In any run, a datagram is sent
  for exactly the NMEA 0183 messages of at least three bytes whose talker has a multicast group that
  can be dialled, to that group; it is the header, a tag block, the sentence and a line end, and
  the tag block is empty or framed by backslashes, ending in an asterisk and at least two hexadecimal digits
  that are the exclusive or of the runes between (more than two when a rune is not ASCII).\<close>

theorem lwe_datagrams:
  "list_all2 (datagram_ok dial) raws (machine_outputs (multicast dial) (NewLWEWriter d s ts lc) raws)"
  by (rule lwe.outputs_guarantee)

text \<open>Datagrams are numbered modulo 1000. In a run of a writer that includes line counts, the
  datagram sent for the \<open>i\<close>-th message has in its tag block the number of datagrams sent
  before it, modulo 1000: numbers are consecutive, and messages that are not sent use none.\<close>

theorem lwe_line_numbers:
  assumes "i < length raws" "sends dial (raws ! i)"
  defines "k \<equiv> length (filter (sends dial) (take i raws))"
  shows "\<exists>addr pre. machine_outputs (multicast dial) (NewLWEWriter d s ts True) raws ! i =
    Some (addr, bytes_of_string ''UdPbC'' @ [0] @
      bytes_of_string (CHR 0x5C # (pre @ ''n:'' @ show_nat (k mod 1000)) @ ''*'' @
        hex2 (tag_checksum (pre @ ''n:'' @ show_nat (k mod 1000))) @ [CHR 0x5C]) @
      raw_Value (raws ! i) @ [13, 10])"
proof -
  let ?w = "machine_state (multicast dial) (NewLWEWriter d s ts True) (take i raws)"
  have "lwe_IncludeLineCount ?w \<and> unat (lwe_lineCount ?w) = line_count_after (0 + k)"
    unfolding k_def by (rule lwe_count_run) (simp_all add: NewLWEWriter_def line_count_after_def)
  then obtain pre where pre: "snd (tag_fields ?w (raws ! i)) = pre @ ''n:'' @ show_nat (k mod 1000) @ '',''"
    using tag_fields_count(2) [of ?w k] by auto
  have "machine_outputs (multicast dial) (NewLWEWriter d s ts True) raws ! i =
      snd (multicast dial ?w (raws ! i))"
    by (rule machine_outputs_nth [OF assms(1)])
  also have "\<dots> = Some (the (map_of talkerMulticastMap (talker (raws ! i))),
      bytes_of_string ''UdPbC'' @ [0] @ snd (createTagBlock ?w (raws ! i)) @ raw_Value (raws ! i) @ [13, 10])"
    using assms(2) by (simp add: multicast_eq)
  also have "snd (createTagBlock ?w (raws ! i)) = bytes_of_string (CHR 0x5C # (pre @ ''n:'' @ show_nat (k mod 1000)) @ ''*'' @
        hex2 (tag_checksum (pre @ ''n:'' @ show_nat (k mod 1000))) @ [CHR 0x5C])"
    unfolding createTagBlock_shape pre by (simp add: butlast_append)
  finally show ?thesis by blast
qed

definition sample_sentence :: raw where
  "sample_sentence = \<lparr>raw_Connector = ''c'', raw_Timestamp = 0, raw_Type = ''nmea0183'', raw_Uuid = 1,
                      raw_Value = bytes_of_string ''$GPGLL''\<rparr>"

theorem lwe_line_numbers_witness:
  "\<exists>addr pre. machine_outputs (multicast (\<lambda>_. True)) (NewLWEWriter [] [] False True)
     [sample_sentence, sample_sentence] ! 1 =
    Some (addr, bytes_of_string ''UdPbC'' @ [0] @
      bytes_of_string (CHR 0x5C # (pre @ ''n:'' @ ''1'') @ ''*'' @
        hex2 (tag_checksum (pre @ ''n:'' @ ''1'')) @ [CHR 0x5C]) @
      raw_Value ([sample_sentence, sample_sentence] ! 1) @ [13, 10])"
proof -
  have "talker sample_sentence = ''GP''" by code_simp
  then have "map_of talkerMulticastMap (talker sample_sentence) = Some NAVDGroup"
    by (simp add: talkerMulticastMap_def)
  then have s: "sends (\<lambda>_. True) sample_sentence"
    by (simp add: sends_def sample_sentence_def NMEA0183Type_def bytes_of_string_def)
  then have k: "length (filter (sends (\<lambda>_. True)) (take 1 [sample_sentence, sample_sentence])) = 1"
    by simp
  have n: "show_nat (1 mod 1000) = ''1''" by (simp add: show_nat.simps digit_char_def)
  show ?thesis
    by (rule lwe_line_numbers [where i = 1 and raws = "[sample_sentence, sample_sentence]" and
          dial = "\<lambda>_. True" and d = "[]" and s = "[]" and ts = False, unfolded k n])
      (simp_all add: s)
qed

text \<open>The table of talkers is consistent. No talker is listed twice, and every talker is
  mapped to the address and the port of one and the same transmission group, of the sixteen there
  are.\<close>

theorem lwe_table_consistent:
  "distinct (map fst talkerMulticastMap) \<and>
   list_all (\<lambda>(t, a). length t = 2 \<and> transmission_group a) talkerMulticastMap"
  by (simp add: talkers_distinct talkers_grouped)

end
