(* ===== verification/RateLimit.thy ===== *)
theory RateLimit
  imports Mapper
begin

text \<open>
  \<open>mapper/ratelimit_filter.go\<close>: the filter that thins out the values of a path, and its
  refinement of a greedy specification of one stream of values.
\<close>

section \<open>The filter\<close>

record rate_limit_filter =
  rl_DefaultInterval :: duration
  rl_lastSeen :: "(string, (string, time) gomap) gomap"
  rl_rateLimit :: "(string, duration) gomap"

definition NewRateLimitFilter :: "duration \<Rightarrow> (string \<times> duration) list \<Rightarrow> rate_limit_filter" where
  "NewRateLimitFilter defaultInterval ratelimits =
     \<lparr>rl_DefaultInterval = defaultInterval, rl_lastSeen = [],
      rl_rateLimit = fold (\<lambda>(path, interval) m. AList.update path interval m) ratelimits []\<rparr>"

definition path_interval :: "rate_limit_filter \<Rightarrow> string \<Rightarrow> duration" where
  "path_interval f path =
     (let interval = rl_DefaultInterval f
      in case map_of (rl_rateLimit f) path of Some pathInterval \<Rightarrow> pathInterval | None \<Rightarrow> interval)"

definition add_updates :: "svm \<Rightarrow> mapped \<Rightarrow> mapped" where
  "add_updates s result = foldl (\<lambda>result u. AddUpdate u result) result (m_Updates (ToMapped zero_time s))"

text \<open>The loop over the single values, with the context's map of paths.\<close>

fun rate_values ::
    "rate_limit_filter \<Rightarrow> svm list \<Rightarrow> (string, time) gomap \<Rightarrow> mapped \<Rightarrow> (string, time) gomap \<times> mapped"
where
  "rate_values f [] pathMap result = (pathMap, result)"
| "rate_values f (svm # svms) pathMap result =
     (case map_of pathMap (svm_Path svm) of
        None \<Rightarrow>
          rate_values f svms (AList.update (svm_Path svm) (svm_Timestamp svm) pathMap) (add_updates svm result)
      | Some timestamp \<Rightarrow>
          (let interval = path_interval f (svm_Path svm) in
           if timestamp < time_add (svm_Timestamp svm) (- interval)
           then rate_values f svms (AList.update (svm_Path svm) (svm_Timestamp svm) pathMap)
                  (add_updates svm result)
           else rate_values f svms pathMap result))"

text \<open>\<open>pathMap\<close> is the inner map itself, so what the loop stores in it is remembered.\<close>

definition RateLimit_DoMap ::
    "rate_limit_filter \<Rightarrow> mapped \<Rightarrow> rate_limit_filter \<times> (map_error + mapped)"
where
  "RateLimit_DoMap f delta =
     (let result = WithOrigin (m_Origin delta) (WithContext (m_Context delta) NewMapped);
          pathMap = (case map_of (rl_lastSeen f) (m_Context delta) of Some pm \<Rightarrow> pm | None \<Rightarrow> []);
          (pathMap, result) = rate_values f (ToSingleValueMapped delta) pathMap result
      in (f\<lparr>rl_lastSeen := AList.update (m_Context delta) pathMap (rl_lastSeen f)\<rparr>, Inr result))"

section \<open>The specification of one stream\<close>

text \<open>
  \<open>greedy\<close> lets the first value through, and then every value that is more than the
  interval later than the last one it let through.
\<close>

definition due :: "duration \<Rightarrow> time option \<Rightarrow> svm \<Rightarrow> bool" where
  "due interval seen s = (case seen of None \<Rightarrow> True | Some t \<Rightarrow> t < time_add (svm_Timestamp s) (- interval))"

fun greedy :: "duration \<Rightarrow> time option \<Rightarrow> svm list \<Rightarrow> svm list" where
  "greedy interval seen [] = []"
| "greedy interval seen (s # ss) =
     (if due interval seen s then s # greedy interval (Some (svm_Timestamp s)) ss
      else greedy interval seen ss)"

fun greedy_seen :: "duration \<Rightarrow> time option \<Rightarrow> svm list \<Rightarrow> time option" where
  "greedy_seen interval seen [] = seen"
| "greedy_seen interval seen (s # ss) =
     greedy_seen interval (if due interval seen s then Some (svm_Timestamp s) else seen) ss"

lemma greedy_append:
  "greedy i seen (xs @ ys) = greedy i seen xs @ greedy i (greedy_seen i seen xs) ys"
  by (induction xs arbitrary: seen) simp_all

lemma greedy_seen_append: "greedy_seen i seen (xs @ ys) = greedy_seen i (greedy_seen i seen xs) ys"
  by (induction xs arbitrary: seen) simp_all

lemma greedy_subseq: "subseq (greedy i seen ss) ss"
  by (induction ss arbitrary: seen) auto

section \<open>Lemmas\<close>

lemma flatten_add_updates:
  "svm_Context s = m_Context m \<Longrightarrow> svm_Origin s = m_Origin m \<Longrightarrow>
     ToSingleValueMapped (add_updates s m) = ToSingleValueMapped m @ [s]"
  by (simp add: add_updates_def ToSingleValueMapped_eq)

lemma add_updates_frame [simp]:
  "m_Context (add_updates s m) = m_Context m" "m_Origin (add_updates s m) = m_Origin m"
  by (simp_all add: add_updates_def)

text \<open>What one delta does to the stream of one path.\<close>

lemma rate_values_frame:
  "rate_values f ss pm m = (pm', m') \<Longrightarrow> m_Context m' = m_Context m \<and> m_Origin m' = m_Origin m"
  by (induction f ss pm m rule: rate_values.induct) (auto simp: Let_def split: option.splits if_splits)

lemma rate_values_path:
  assumes "rate_values f ss pm m = (pm', m')"
    and "\<forall>s\<in>set ss. svm_Context s = m_Context m \<and> svm_Origin s = m_Origin m"
  shows "\<exists>out. ToSingleValueMapped m' = ToSingleValueMapped m @ out \<and> subseq out ss \<and>
    (\<forall>p. filter (\<lambda>s. svm_Path s = p) out =
           greedy (path_interval f p) (map_of pm p) (filter (\<lambda>s. svm_Path s = p) ss) \<and>
         map_of pm' p = greedy_seen (path_interval f p) (map_of pm p) (filter (\<lambda>s. svm_Path s = p) ss))"
  using assms
proof (induction ss arbitrary: pm m)
  case Nil
  then show ?case by auto
next
  case (Cons s ss)
  define d where "d = due (path_interval f (svm_Path s)) (map_of pm (svm_Path s)) s"
  define pm1 where "pm1 = (if d then AList.update (svm_Path s) (svm_Timestamp s) pm else pm)"
  define m1 where "m1 = (if d then add_updates s m else m)"
  have step: "rate_values f ss pm1 m1 = (pm', m')"
    using Cons.prems(1)
    by (auto simp: d_def due_def pm1_def m1_def Let_def split: option.splits if_splits)
  have "\<forall>s\<in>set ss. svm_Context s = m_Context m1 \<and> svm_Origin s = m_Origin m1"
    using Cons.prems(2) by (simp add: m1_def)
  from Cons.IH [OF step this] obtain out where out:
    "ToSingleValueMapped m' = ToSingleValueMapped m1 @ out" "subseq out ss"
    "\<And>p. filter (\<lambda>s. svm_Path s = p) out =
           greedy (path_interval f p) (map_of pm1 p) (filter (\<lambda>s. svm_Path s = p) ss)"
    "\<And>p. map_of pm' p = greedy_seen (path_interval f p) (map_of pm1 p) (filter (\<lambda>s. svm_Path s = p) ss)"
    by blast
  have "ToSingleValueMapped m1 = ToSingleValueMapped m @ (if d then [s] else [])"
    using Cons.prems(2) by (simp add: m1_def flatten_add_updates)
  then show ?case
    using out
    by (intro exI [of _ "(if d then [s] else []) @ out"]) (auto simp: pm1_def update_conv' d_def)
qed

definition seen :: "rate_limit_filter \<Rightarrow> string \<Rightarrow> string \<Rightarrow> time option" where
  "seen f c p = (case map_of (rl_lastSeen f) c of None \<Rightarrow> None | Some pm \<Rightarrow> map_of pm p)"

definition stream :: "string \<Rightarrow> string \<Rightarrow> svm list \<Rightarrow> svm list" where
  "stream c p ss = filter (\<lambda>s. svm_Context s = c \<and> svm_Path s = p) ss"

definition values_of :: "map_error + mapped \<Rightarrow> svm list" where
  "values_of out = (case out of Inl _ \<Rightarrow> [] | Inr m \<Rightarrow> ToSingleValueMapped m)"

lemma flatten_context: "s \<in> set (ToSingleValueMapped m) \<Longrightarrow> svm_Context s = m_Context m \<and> svm_Origin s = m_Origin m"
  by (simp add: ToSingleValueMapped_member)

lemma stream_same:
  "\<forall>s\<in>set ss. svm_Context s = c \<Longrightarrow> stream c p ss = filter (\<lambda>s. svm_Path s = p) ss"
  by (auto simp: stream_def intro: filter_cong)

lemma stream_other: "\<forall>s\<in>set ss. svm_Context s = c' \<Longrightarrow> c \<noteq> c' \<Longrightarrow> stream c p ss = []"
  by (auto simp: stream_def filter_empty_conv)

lemma RateLimit_step:
  fixes f delta
  defines "f' \<equiv> fst (RateLimit_DoMap f delta)" and "out \<equiv> values_of (snd (RateLimit_DoMap f delta))"
  shows "filters delta (snd (RateLimit_DoMap f delta))"
    and "path_interval f' p = path_interval f p"
    and "stream c p out = greedy (path_interval f p) (seen f c p) (stream c p (ToSingleValueMapped delta))"
    and "seen f' c p = greedy_seen (path_interval f p) (seen f c p) (stream c p (ToSingleValueMapped delta))"
proof -
  let ?ss = "ToSingleValueMapped delta" and ?d = "m_Context delta"
  define pm where "pm = (case map_of (rl_lastSeen f) ?d of Some pm \<Rightarrow> pm | None \<Rightarrow> [])"
  define m where "m = WithOrigin (m_Origin delta) (WithContext ?d NewMapped)"
  obtain pm' m' where rv: "rate_values f ?ss pm m = (pm', m')" by fastforce
  have eq: "RateLimit_DoMap f delta = (f\<lparr>rl_lastSeen := AList.update ?d pm' (rl_lastSeen f)\<rparr>, Inr m')"
    using rv by (simp add: RateLimit_DoMap_def pm_def m_def)
  have m: "m_Context m = ?d" "m_Origin m = m_Origin delta" "ToSingleValueMapped m = []"
    by (simp_all add: m_def builder_defs ToSingleValueMapped_eq)
  have "\<forall>s\<in>set ?ss. svm_Context s = m_Context m \<and> svm_Origin s = m_Origin m"
    using flatten_context m by auto
  from rate_values_path [OF rv this] obtain o' where o': "ToSingleValueMapped m' = o'" "subseq o' ?ss"
    "\<And>p. filter (\<lambda>s. svm_Path s = p) o' =
           greedy (path_interval f p) (map_of pm p) (filter (\<lambda>s. svm_Path s = p) ?ss)"
    "\<And>p. map_of pm' p = greedy_seen (path_interval f p) (map_of pm p) (filter (\<lambda>s. svm_Path s = p) ?ss)"
    by (auto simp: m)
  have cm': "m_Context m' = ?d" "m_Origin m' = m_Origin delta"
    using rate_values_frame [OF rv] m by simp_all
  show "filters delta (snd (RateLimit_DoMap f delta))" using cm' o' by (simp add: eq)
  show "path_interval f' p = path_interval f p" by (simp add: f'_def eq path_interval_def)
  have out: "out = o'" by (simp add: out_def eq values_of_def o')
  have ctx: "\<forall>s\<in>set ?ss. svm_Context s = ?d" "\<forall>s\<in>set o'. svm_Context s = ?d"
    using flatten_context cm' o'(1) by auto
  have other: "stream c p ?ss = []" "stream c p o' = []" if "c \<noteq> ?d"
    using stream_other ctx that by blast+
  have sd: "seen f ?d p = map_of pm p" by (simp add: seen_def pm_def split: option.splits)
  show "stream c p out = greedy (path_interval f p) (seen f c p) (stream c p ?ss)"
    using o'(3) sd ctx by (cases "c = ?d") (simp_all add: out stream_same other)
  show "seen f' c p = greedy_seen (path_interval f p) (seen f c p) (stream c p ?ss)"
    using o'(4) sd ctx
    by (cases "c = ?d") (simp_all add: f'_def eq stream_same other, simp_all add: seen_def update_conv')
qed

interpretation ratelimit: delta_filter RateLimit_DoMap "NewRateLimitFilter di rls" "\<lambda>_. True" for di rls
  by unfold_locales (simp_all add: RateLimit_step(1))

lemma stream_append [simp]: "stream c p (xs @ ys) = stream c p xs @ stream c p ys"
  by (simp add: stream_def)

lemma RateLimit_run:
  "stream c p (concat (map values_of (machine_outputs RateLimit_DoMap f deltas))) =
     greedy (path_interval f p) (seen f c p) (stream c p (concat (map ToSingleValueMapped deltas)))"
proof (induction deltas arbitrary: f)
  case Nil
  then show ?case by (simp add: stream_def)
next
  case (Cons d ds)
  then show ?case by (simp add: RateLimit_step(2-4) greedy_append)
qed

lemma map_of_fold_rev:
  "map_of (fold (\<lambda>(k, v). AList.update k v) xs []) k = map_of (rev xs) k"
  by (simp add: alist.look_fold_put split: option.splits)

lemma path_interval_new:
  "path_interval (NewRateLimitFilter di rls) p = (case map_of (rev rls) p of None \<Rightarrow> di | Some i \<Rightarrow> i)"
  using map_of_fold_rev [of rls p]
  by (simp add: path_interval_def NewRateLimitFilter_def split: option.splits)

lemma seen_new [simp]: "seen (NewRateLimitFilter di rls) c p = None"
  by (simp add: seen_def NewRateLimitFilter_def)

section \<open>Properties\<close>

text \<open>C12: The rate limit filter implements the greedy specification, stream by stream. For
  every context and path, the values that come out of a run are the values the greedy filter
  takes from the stream of that context and path alone, with the interval configured last for the
  path or else the default: streams do not influence each other, whatever deltas carry them.\<close>

theorem rate_limit_refines_greedy:
  "stream c p (concat (map values_of (machine_outputs RateLimit_DoMap (NewRateLimitFilter di rls) deltas))) =
     greedy (case map_of (rev rls) p of None \<Rightarrow> di | Some i \<Rightarrow> i) None
       (stream c p (concat (map ToSingleValueMapped deltas)))"
  by (simp add: RateLimit_run path_interval_new)

lemma time_add_uminus: "sint i \<noteq> min_duration \<Longrightarrow> time_add t (- i) = t - sint i"
  by (simp add: time_add_def sint_uminus_64)

lemma greedy_spacing:
  assumes "sint i \<noteq> min_duration"
  shows "successively (\<lambda>s t. sint i < svm_Timestamp t - svm_Timestamp s) (greedy i lst ss) \<and>
    (\<forall>t0. lst = Some t0 \<longrightarrow> greedy i lst ss \<noteq> [] \<longrightarrow>
       sint i < svm_Timestamp (hd (greedy i lst ss)) - t0)"
proof (induction ss arbitrary: lst)
  case (Cons s ss)
  then show ?case
    by (auto simp: due_def time_add_uminus [OF assms] successively_Cons split: option.splits)
qed simp

text \<open>Values of one path are at least the interval apart. In any run, two values of the
  same context and path that are let through one after the other have timestamps more than the
  path's interval apart (an interval other than the least one, whose negation wraps).\<close>

theorem rate_limit_spacing:
  assumes "i = (case map_of (rev rls) p of None \<Rightarrow> di | Some i \<Rightarrow> i)" "sint i \<noteq> min_duration"
  shows "successively (\<lambda>s t. sint i < svm_Timestamp t - svm_Timestamp s)
    (stream c p (concat (map values_of (machine_outputs RateLimit_DoMap (NewRateLimitFilter di rls) deltas))))"
  using greedy_spacing [OF assms(2)] by (simp add: RateLimit_run path_interval_new assms(1))

definition sample_delta :: "time \<Rightarrow> mapped" where
  "sample_delta t =
     \<lparr>m_Context = ''c'', m_Origin = ''o'', m_Updates =
        [\<lparr>upd_Source = NewSource, upd_Timestamp = t, upd_Values = [\<lparr>val_Path = ''p'', val_Value = GBool True\<rparr>]\<rparr>]\<rparr>"

theorem rate_limit_spacing_witness:
  "successively (\<lambda>s t. 10 < svm_Timestamp t - svm_Timestamp s)
     (stream ''c'' ''p'' (concat (map values_of
       (machine_outputs RateLimit_DoMap (NewRateLimitFilter 5 [(''p'', 10)]) (map sample_delta [0, 10, 11, 30]))))) \<and>
   length (stream ''c'' ''p'' (concat (map values_of
       (machine_outputs RateLimit_DoMap (NewRateLimitFilter 5 [(''p'', 10)]) (map sample_delta [0, 10, 11, 30]))))) = 3"
proof
  show "successively (\<lambda>s t. 10 < svm_Timestamp t - svm_Timestamp s)
     (stream ''c'' ''p'' (concat (map values_of
       (machine_outputs RateLimit_DoMap (NewRateLimitFilter 5 [(''p'', 10)]) (map sample_delta [0, 10, 11, 30])))))"
    using rate_limit_spacing [where i = 10 and rls = "[(''p'', 10)]" and p = "''p''" and di = 5 and
        c = "''c''" and deltas = "map sample_delta [0, 10, 11, 30]"]
    by (simp add: min_duration_def)
qed code_simp

end
