(* ===== verification/DeltaMappers.thy ===== *)
theory DeltaMappers
  imports Mapper
begin

text \<open>
  \<open>mapper/aggregate.go\<close> and \<open>mapper/expression_filter.go\<close>: the mappers that
  evaluate expressions over the latest value of each source path. Both remember those values in
  their expression environment.
\<close>

section \<open>Configuration and environment\<close>

record 'p expression_mapping = "'p mapping_config" +
  em_SourcePaths :: "string list"

type_synonym 'p path_table = "(string, 'p expression_mapping list) gomap"

text \<open>\<open>append\<close> to a missing entry appends to the nil slice.\<close>

definition add_path_mapping :: "string \<Rightarrow> 'p expression_mapping \<Rightarrow> 'p path_table \<Rightarrow> 'p path_table" where
  "add_path_mapping s m mappings =
     AList.update s ((case map_of mappings s of None \<Rightarrow> [] | Some ms \<Rightarrow> ms) @ [m]) mappings"

definition path_mappings :: "'p expression_mapping list \<Rightarrow> 'p path_table" where
  "path_mappings emc =
     foldl (\<lambda>mappings m. foldl (\<lambda>mappings s. add_path_mapping s m mappings) mappings (em_SourcePaths m))
       [] emc"

text \<open>\<open>strings.ReplaceAll(path, ".", "_")\<close>, the name of a path in expressions.\<close>

definition env_key :: "string \<Rightarrow> string" where
  "env_key path = map (\<lambda>c. if c = CHR ''.'' then CHR ''_'' else c) path"

definition svm_gval :: "svm \<Rightarrow> gval" where
  "svm_gval s = GSvm (svm_Context s) (svm_Origin s) (svm_Source s) (svm_Timestamp s) (svm_Path s) (svm_Value s)"

section \<open>The aggregate mapper\<close>

record 'p aggregate_mapper =
  ag_protocol :: string
  ag_mappings :: "'p path_table"
  ag_env :: environment

definition SignalKType :: string where
  "SignalKType = ''signalk''"

definition NewAggregateMapper :: "'p expression_mapping list \<Rightarrow> 'p aggregate_mapper" where
  "NewAggregateMapper emc =
     \<lparr>ag_protocol = SignalKType, ag_mappings = path_mappings emc, ag_env = NewExpressionEnvironment\<rparr>"

fun aggregate_mappings ::
    "'p expr_lib \<Rightarrow> mapstructure \<Rightarrow> environment \<Rightarrow> 'p expression_mapping list \<Rightarrow> upd \<Rightarrow> upd"
where
  "aggregate_mappings lib ms env [] u = u"
| "aggregate_mappings lib ms env (mapping # mappings) u =
     (case runExpr lib ms env mapping of
        Inr output \<Rightarrow> aggregate_mappings lib ms env mappings (insert_output (mc_Path mapping) output u)
      | Inl err \<Rightarrow> aggregate_mappings lib ms env mappings u)"

definition take_source :: "svm \<Rightarrow> upd \<Rightarrow> upd" where
  "take_source svm u =
     (let u = (if svm_Timestamp svm > upd_Timestamp u then WithTimestamp (svm_Timestamp svm) u else u)
      in u\<lparr>upd_Source := (upd_Source u)\<lparr>src_Uuid := src_Uuid (svm_Source svm)\<rparr>\<rparr>)"

fun aggregate_values ::
    "'p expr_lib \<Rightarrow> mapstructure \<Rightarrow> 'p path_table \<Rightarrow> svm list \<Rightarrow> environment \<Rightarrow> upd \<Rightarrow> environment \<times> upd"
where
  "aggregate_values lib ms pm [] env u = (env, u)"
| "aggregate_values lib ms pm (svm # svms) env u =
     (case map_of pm (svm_Path svm) of
        None \<Rightarrow> aggregate_values lib ms pm svms env u
      | Some mappings \<Rightarrow>
          (let u = take_source svm u;
               env = AList.update (env_key (svm_Path svm)) (svm_gval svm) env
           in aggregate_values lib ms pm svms env (aggregate_mappings lib ms env mappings u)))"

text \<open>The label is the constant, the uuid the nil uuid, the timestamp Go's zero time.\<close>

definition aggregate_update :: "string \<Rightarrow> upd" where
  "aggregate_update protocol =
     WithTimestamp zero_time
       (WithSource (WithUuid 0 (WithType protocol (WithLabel ''signalk'' NewSource))) (NewUpdate zero_time))"

definition Aggregate_DoMap ::
    "'p expr_lib \<Rightarrow> mapstructure \<Rightarrow> 'p aggregate_mapper \<Rightarrow> mapped \<Rightarrow>
     'p aggregate_mapper \<times> (map_error + mapped)"
where
  "Aggregate_DoMap lib ms m input =
     (case aggregate_values lib ms (ag_mappings m) (ToSingleValueMapped input) (ag_env m)
             (aggregate_update (ag_protocol m)) of
        (env, u) \<Rightarrow>
          (m\<lparr>ag_env := env\<rparr>, if length (upd_Values u) > 0 then Inr (AddUpdate u input) else Inr input))"

section \<open>The expression filter\<close>

record 'p expression_filter =
  ef_mappings :: "'p path_table"
  ef_env :: environment

definition NewExpressionFilter :: "'p expression_mapping list \<Rightarrow> 'p expression_filter" where
  "NewExpressionFilter emc = \<lparr>ef_mappings = path_mappings emc, ef_env = NewExpressionEnvironment\<rparr>"

text \<open>
  The filters of one value: whether one of them says to skip it. An error or an output that is
  not a boolean ends the mapping of the whole delta.
\<close>

fun should_skip ::
    "'p expr_lib \<Rightarrow> mapstructure \<Rightarrow> environment \<Rightarrow> 'p expression_mapping list \<Rightarrow> bool \<Rightarrow> map_error + bool"
where
  "should_skip lib ms env [] shouldSkip = Inr shouldSkip"
| "should_skip lib ms env (mapping # mappings) shouldSkip =
     (case runExpr lib ms env mapping of
        Inl err \<Rightarrow> Inl (ExprFailed err)
      | Inr output \<Rightarrow>
          (case output of
             GBool b \<Rightarrow> should_skip lib ms env mappings (shouldSkip \<or> b)
           | _ \<Rightarrow> Inl (NotABool output)))"

fun filter_values ::
    "'p expr_lib \<Rightarrow> mapstructure \<Rightarrow> 'p path_table \<Rightarrow> svm list \<Rightarrow> environment \<Rightarrow> mapped \<Rightarrow>
     environment \<times> (map_error + mapped)"
where
  "filter_values lib ms pm [] env result = (env, Inr result)"
| "filter_values lib ms pm (svm # svms) env result =
     (case map_of pm (svm_Path svm) of
        None \<Rightarrow>
          filter_values lib ms pm svms env
            (foldl (\<lambda>result u. AddUpdate u result) result (m_Updates (ToMapped zero_time svm)))
      | Some mappings \<Rightarrow>
          (let env = AList.update (env_key (svm_Path svm)) (svm_gval svm) env in
           case should_skip lib ms env mappings False of
             Inl err \<Rightarrow> (env, Inl err)
           | Inr skip \<Rightarrow>
               filter_values lib ms pm svms env
                 (if skip then result
                  else foldl (\<lambda>result u. AddUpdate u result) result (m_Updates (ToMapped zero_time svm)))))"

definition ExpressionFilter_DoMap ::
    "'p expr_lib \<Rightarrow> mapstructure \<Rightarrow> 'p expression_filter \<Rightarrow> mapped \<Rightarrow>
     'p expression_filter \<times> (map_error + mapped)"
where
  "ExpressionFilter_DoMap lib ms f delta =
     (let result = WithOrigin (m_Origin delta) (WithContext (m_Context delta) NewMapped)
      in case filter_values lib ms (ef_mappings f) (ToSingleValueMapped delta) (ef_env f) result of
           (env, out) \<Rightarrow> (f\<lparr>ef_env := env\<rparr>, out))"

section \<open>Lemmas on the configuration\<close>

lemma map_of_add_path:
  "map_of (add_path_mapping s m pm) p =
     (if p = s then Some ((case map_of pm p of None \<Rightarrow> [] | Some ms \<Rightarrow> ms) @ [m]) else map_of pm p)"
  by (simp add: add_path_mapping_def update_conv')

definition listed :: "'p path_table \<Rightarrow> string \<Rightarrow> 'p expression_mapping list" where
  "listed pm p = (case map_of pm p of None \<Rightarrow> [] | Some ms \<Rightarrow> ms)"

lemma listed_fold_paths:
  "listed (foldl (\<lambda>pm s. add_path_mapping s m pm) pm ss) p =
     listed pm p @ replicate (count_list ss p) m"
  by (induction ss arbitrary: pm) (auto simp: listed_def map_of_add_path)

lemma listed_fold:
  "listed (foldl (\<lambda>pm m. foldl (\<lambda>pm s. add_path_mapping s m pm) pm (em_SourcePaths m)) pm emc) p =
     listed pm p @ concat (map (\<lambda>m. replicate (count_list (em_SourcePaths m) p) m) emc)"
  by (induction emc arbitrary: pm) (simp_all add: listed_fold_paths)

text \<open>The mappings of a path are those that list it as a source, in configuration order.\<close>

lemma listed_path_mappings:
  "listed (path_mappings emc) p = concat (map (\<lambda>m. replicate (count_list (em_SourcePaths m) p) m) emc)"
  by (simp add: path_mappings_def listed_fold) (simp add: listed_def)

lemma dom_path_mappings:
  "p \<in> dom (map_of (path_mappings emc)) \<longleftrightarrow> (\<exists>m\<in>set emc. p \<in> set (em_SourcePaths m))"
proof -
  have "p \<in> dom (map_of (foldl (\<lambda>pm s. add_path_mapping s m pm) pm ss)) \<longleftrightarrow>
      p \<in> dom (map_of pm) \<or> p \<in> set ss" for m :: "'a expression_mapping" and pm ss
    by (induction ss arbitrary: pm) (auto simp: map_of_add_path split: if_splits)
  then have "p \<in> dom (map_of (foldl (\<lambda>pm m. foldl (\<lambda>pm s. add_path_mapping s m pm) pm (em_SourcePaths m)) pm emc))
      \<longleftrightarrow> p \<in> dom (map_of pm) \<or> (\<exists>m\<in>set emc. p \<in> set (em_SourcePaths m))" for pm :: "'a path_table"
    by (induction emc arbitrary: pm) auto
  from this [of "[]"] show ?thesis by (simp add: path_mappings_def)
qed

section \<open>Lemmas on the aggregate mapper\<close>

lemma aggregate_mappings_collect:
  "aggregate_mappings lib ms env mappings u =
     collect (map (\<lambda>c. (mc_Path c, runExpr lib ms env c)) mappings) u"
  by (induction lib ms env mappings u rule: aggregate_mappings.induct)
     (auto simp: collect_Cons split: sum.splits)

lemma take_source_simps [simp]:
  "upd_Values (take_source s u) = upd_Values u"
  "upd_Timestamp (take_source s u) = max (upd_Timestamp u) (svm_Timestamp s)"
  "upd_Source (take_source s u) = (upd_Source u)\<lparr>src_Uuid := src_Uuid (svm_Source s)\<rparr>"
  "value_pairs (take_source s u) = value_pairs u"
  by (auto simp: take_source_def Let_def builder_defs value_pairs_def)

lemma aggregate_values_update:
  assumes "aggregate_values lib ms pm ss env u = (env', u')"
  defines "relevant \<equiv> filter (\<lambda>s. svm_Path s \<in> dom (map_of pm)) ss"
  shows "upd_Timestamp u' = fold (\<lambda>s. max (svm_Timestamp s)) relevant (upd_Timestamp u) \<and>
    upd_Source u' = (upd_Source u)\<lparr>src_Uuid :=
      (if relevant = [] then src_Uuid (upd_Source u) else src_Uuid (svm_Source (last relevant)))\<rparr> \<and>
    (relevant = [] \<longrightarrow> u' = u) \<and>
    (distinct (map fst (value_pairs u)) \<longrightarrow> distinct (map fst (value_pairs u'))) \<and>
    (\<forall>p. map_of env' p = (case find (\<lambda>s. env_key (svm_Path s) = p) (rev relevant) of
       None \<Rightarrow> map_of env p | Some s \<Rightarrow> Some (svm_gval s)))"
  using assms(1) unfolding relevant_def
proof (induction lib ms pm ss env u rule: aggregate_values.induct)
  case (1 lib ms pm env u)
  then show ?case by simp
next
  case (2 lib ms pm s ss env u)
  show ?case
  proof (cases "map_of pm (svm_Path s)")
    case None
    then show ?thesis using 2 by auto
  next
    case (Some mappings)
    let ?env = "AList.update (env_key (svm_Path s)) (svm_gval s) env"
    let ?u = "aggregate_mappings lib ms ?env mappings (take_source s u)"
    let ?r = "filter (\<lambda>s. svm_Path s \<in> dom (map_of pm)) ss"
    have "aggregate_values lib ms pm ss ?env ?u = (env', u')" using "2.prems" Some by (simp add: Let_def)
    note IH = "2.IH"(2) [OF Some refl refl this]
    have d: "distinct (map fst (value_pairs u)) \<longrightarrow> distinct (map fst (value_pairs ?u))"
      unfolding aggregate_mappings_collect using collect_distinct [of "take_source s u"] by simp
    have find_append: "find P (xs @ [x]) = (case find P xs of None \<Rightarrow> if P x then Some x else None | Some y \<Rightarrow> Some y)"
      for P xs and x :: svm by (induction xs) auto
    show ?thesis
      using IH d Some
      by (auto simp: aggregate_mappings_collect max.commute find_append update_conv' split: option.splits)
  qed
qed

definition aggregate_inv :: "'p expression_mapping list \<Rightarrow> 'p aggregate_mapper \<Rightarrow> bool" where
  "aggregate_inv emc m \<longleftrightarrow> ag_mappings m = path_mappings emc \<and> ag_protocol m = SignalKType"

definition relevant :: "'p expression_mapping list \<Rightarrow> svm list \<Rightarrow> svm list" where
  "relevant emc ss = filter (\<lambda>s. \<exists>c\<in>set emc. svm_Path s \<in> set (em_SourcePaths c)) ss"

text \<open>The result of the mapper: its input, with at most one update more.\<close>

definition extends :: "mapped \<Rightarrow> map_error + mapped \<Rightarrow> bool" where
  "extends delta out \<longleftrightarrow>
     (\<exists>us. out = Inr (delta\<lparr>m_Updates := m_Updates delta @ us\<rparr>) \<and> length us \<le> 1)"

lemma aggregate_step:
  assumes "aggregate_inv emc m" "Aggregate_DoMap lib ms m delta = (m', out)"
  obtains u where
    "out = Inr (if upd_Values u = [] then delta else AddUpdate u delta)"
    "relevant emc (ToSingleValueMapped delta) = [] \<Longrightarrow> upd_Values u = []"
    "distinct (map fst (value_pairs u))"
    "upd_Timestamp u = fold (\<lambda>s. max (svm_Timestamp s)) (relevant emc (ToSingleValueMapped delta)) zero_time"
    "relevant emc (ToSingleValueMapped delta) \<noteq> [] \<Longrightarrow> upd_Source u =
       \<lparr>src_Label = ''signalk'', src_Type = SignalKType,
        src_Uuid = src_Uuid (svm_Source (last (relevant emc (ToSingleValueMapped delta)))), src_TransferUuid = 0\<rparr>"
    "\<And>p. map_of (ag_env m') p =
       (case find (\<lambda>s. env_key (svm_Path s) = p) (rev (relevant emc (ToSingleValueMapped delta))) of
          None \<Rightarrow> map_of (ag_env m) p | Some s \<Rightarrow> Some (svm_gval s))"
    "aggregate_inv emc m'"
proof -
  obtain env u where av: "aggregate_values lib ms (ag_mappings m) (ToSingleValueMapped delta) (ag_env m)
      (aggregate_update (ag_protocol m)) = (env, u)" by fastforce
  have rel: "filter (\<lambda>s. svm_Path s \<in> dom (map_of (ag_mappings m))) ss = relevant emc ss" for ss
    using assms(1) by (simp add: relevant_def aggregate_inv_def dom_path_mappings)
  have u0: "aggregate_update SignalKType = \<lparr>upd_Source = \<lparr>src_Label = ''signalk'', src_Type = SignalKType,
      src_Uuid = 0, src_TransferUuid = 0\<rparr>, upd_Timestamp = zero_time, upd_Values = []\<rparr>"
    by (simp add: aggregate_update_def builder_defs)
  have m': "m' = m\<lparr>ag_env := env\<rparr>" "out = Inr (if upd_Values u = [] then delta else AddUpdate u delta)"
    using assms(2) by (auto simp: Aggregate_DoMap_def av)
  have proto: "ag_protocol m = SignalKType" using assms(1) by (simp add: aggregate_inv_def)
  note U = aggregate_values_update [OF av, unfolded rel proto u0]
  show thesis
  proof (rule that [of u])
    show "aggregate_inv emc m'" using assms(1) by (simp add: m' aggregate_inv_def)
  qed (use U m' in \<open>auto simp: value_pairs_def\<close>)
qed

lemma aggregate_extends:
  "aggregate_inv emc m \<Longrightarrow> extends delta (snd (Aggregate_DoMap lib ms m delta))"
proof (cases "Aggregate_DoMap lib ms m delta")
  case (Pair m' out)
  assume "aggregate_inv emc m"
  from aggregate_step [OF this Pair] obtain u
    where "out = Inr (if upd_Values u = [] then delta else AddUpdate u delta)" by metis
  then show ?thesis
    by (auto simp: Pair extends_def builder_defs intro: exI [of _ "[]"])
qed

lemma aggregate_inv_step: "aggregate_inv emc m \<Longrightarrow> aggregate_inv emc (fst (Aggregate_DoMap lib ms m delta))"
  by (simp add: Aggregate_DoMap_def aggregate_inv_def split: prod.splits)

lemma aggregate_inv_new: "aggregate_inv emc (NewAggregateMapper emc)"
  by (simp add: aggregate_inv_def NewAggregateMapper_def)

interpretation aggregate: delta_mapper "Aggregate_DoMap lib ms" "NewAggregateMapper emc"
    "aggregate_inv emc" extends for lib ms emc
  by unfold_locales (rule aggregate_inv_new aggregate_inv_step aggregate_extends; assumption?)+

section \<open>Lemmas on the expression filter\<close>

text \<open>The environment after some values have been remembered.\<close>

definition remember :: "'p path_table \<Rightarrow> environment \<Rightarrow> svm list \<Rightarrow> environment" where
  "remember pm env ss =
     foldl (\<lambda>env s. if map_of pm (svm_Path s) = None then env
                   else AList.update (env_key (svm_Path s)) (svm_gval s) env) env ss"

definition lets_through ::
    "'p expr_lib \<Rightarrow> mapstructure \<Rightarrow> 'p path_table \<Rightarrow> environment \<Rightarrow> svm list \<Rightarrow> svm \<Rightarrow> bool" where
  "lets_through lib ms pm env before s \<longleftrightarrow>
     (\<forall>c\<in>set (listed pm (svm_Path s)).
        runExpr lib ms (remember pm env (before @ [s])) c = Inr (GBool False))"

definition decides ::
    "'p expr_lib \<Rightarrow> mapstructure \<Rightarrow> 'p path_table \<Rightarrow> environment \<Rightarrow> svm list \<Rightarrow> svm \<Rightarrow> bool" where
  "decides lib ms pm env before s \<longleftrightarrow>
     (\<forall>c\<in>set (listed pm (svm_Path s)).
        \<exists>b. runExpr lib ms (remember pm env (before @ [s])) c = Inr (GBool b))"

lemma should_skip_ok:
  "should_skip lib ms env mappings acc = Inr b \<longleftrightarrow>
     (\<forall>c\<in>set mappings. \<exists>b. runExpr lib ms env c = Inr (GBool b)) \<and>
     b = (acc \<or> \<not> (\<forall>c\<in>set mappings. runExpr lib ms env c = Inr (GBool False)))"
proof (induction lib ms env mappings acc rule: should_skip.induct)
  case (2 lib ms env c cs acc)
  show ?case
  proof (cases "\<exists>x. runExpr lib ms env c = Inr (GBool x)")
    case True
    then obtain x where "runExpr lib ms env c = Inr (GBool x)" by blast
    then show ?thesis using "2.IH" by auto
  next
    case False
    then show ?thesis by (auto split: sum.splits gval.splits)
  qed
qed auto

lemma flatten_AddUpdates:
  "svm_Context s = m_Context m \<Longrightarrow> svm_Origin s = m_Origin m \<Longrightarrow>
     ToSingleValueMapped (foldl (\<lambda>r u. AddUpdate u r) m (m_Updates (ToMapped zero_time s))) =
       ToSingleValueMapped m @ [s]"
  by (simp add: ToSingleValueMapped_eq)

lemma enumerate_shift:
  "map snd (filter (\<lambda>(i, s). P (take i (x # xs)) s) (enumerate (Suc n) ys)) =
     map snd (filter (\<lambda>(i, s). P (x # take i xs) s) (enumerate n ys))"
  by (induction ys arbitrary: n) auto

lemma filter_values_exact:
  assumes "filter_values lib ms pm ss env result = (env', out)"
    and "\<forall>s\<in>set ss. svm_Context s = m_Context result \<and> svm_Origin s = m_Origin result"
  shows "case out of
      Inl e \<Rightarrow> \<exists>i<length ss. \<not> decides lib ms pm env (take i ss) (ss ! i)
    | Inr m \<Rightarrow> (\<forall>i<length ss. decides lib ms pm env (take i ss) (ss ! i)) \<and>
        m_Context m = m_Context result \<and> m_Origin m = m_Origin result \<and>
        ToSingleValueMapped m = ToSingleValueMapped result @
          map snd (filter (\<lambda>(i, s). lets_through lib ms pm env (take i ss) s) (enumerate 0 ss))"
  using assms
proof (induction lib ms pm ss env result rule: filter_values.induct)
  case (1 lib ms pm env result)
  then show ?case by auto
next
  case (2 lib ms pm s ss env result)
  define env1 where "env1 = remember pm env [s]"
  have rem: "remember pm env (s # xs) = remember pm env1 xs" for xs
    by (simp add: env1_def remember_def)
  have dec: "decides lib ms pm env (s # xs) t = decides lib ms pm env1 xs t"
    and let_t: "lets_through lib ms pm env (s # xs) t = lets_through lib ms pm env1 xs t" for xs t
    by (simp_all add: decides_def lets_through_def rem)
  have all: "(\<forall>i<length (s # ss). Q (take i (s # ss)) ((s # ss) ! i)) \<longleftrightarrow>
      Q [] s \<and> (\<forall>i<length ss. Q (s # take i ss) (ss ! i))" for Q
    by (auto simp: less_Suc_eq_0_disj)
  have ex: "(\<exists>i<length (s # ss). Q (take i (s # ss)) ((s # ss) ! i)) \<longleftrightarrow>
      Q [] s \<or> (\<exists>i<length ss. Q (s # take i ss) (ss ! i))" for Q
    by (auto simp: less_Suc_eq_0_disj)
  have enum: "map snd (filter (\<lambda>(i, t). lets_through lib ms pm env (take i (s # ss)) t) (enumerate 0 (s # ss))) =
      (if lets_through lib ms pm env [] s then [s] else []) @
      map snd (filter (\<lambda>(i, t). lets_through lib ms pm env1 (take i ss) t) (enumerate 0 ss))"
    using enumerate_shift [of "lets_through lib ms pm env" s ss 0 ss] by (simp add: let_t)
  let ?add = "foldl (\<lambda>r u. AddUpdate u r) result (m_Updates (ToMapped zero_time s))"
  have add: "ToSingleValueMapped ?add = ToSingleValueMapped result @ [s]" "m_Context ?add = m_Context result"
      "m_Origin ?add = m_Origin result"
    using "2.prems"(2) flatten_AddUpdates [of s result] by simp_all
  note ex' = ex [of "\<lambda>b t. \<not> decides lib ms pm env b t", unfolded dec]
    and all' = all [of "decides lib ms pm env", unfolded dec]
  let ?thru = "lets_through lib ms pm env [] s"
  let ?r1 = "if ?thru then ?add else result"
  let ?sel = "map snd (filter (\<lambda>(i, t). lets_through lib ms pm env1 (take i ss) t) (enumerate 0 ss))"
  have main: ?case
    if d: "decides lib ms pm env [] s"
      and IH: "case out of
          Inl e \<Rightarrow> \<exists>i<length ss. \<not> decides lib ms pm env1 (take i ss) (ss ! i)
        | Inr m \<Rightarrow> (\<forall>i<length ss. decides lib ms pm env1 (take i ss) (ss ! i)) \<and>
            m_Context m = m_Context ?r1 \<and> m_Origin m = m_Origin ?r1 \<and>
            ToSingleValueMapped m = ToSingleValueMapped ?r1 @ ?sel"
  proof (cases out)
    case (Inl e)
    then show ?thesis using IH by (simp only: sum.case ex') blast
  next
    case (Inr m)
    have "ToSingleValueMapped ?r1 = ToSingleValueMapped result @ (if ?thru then [s] else [])"
      "m_Context ?r1 = m_Context result" "m_Origin ?r1 = m_Origin result"
      using add by simp_all
    then show ?thesis using IH d by (simp only: Inr sum.case all' enum append_assoc) blast
  qed
  have r1: "\<forall>t\<in>set ss. svm_Context t = m_Context ?r1 \<and> svm_Origin t = m_Origin ?r1"
    using "2.prems"(2) add by simp
  show ?case
  proof (cases "map_of pm (svm_Path s)")
    case None
    then have e: "env1 = env" and d: "decides lib ms pm env [] s" and t: ?thru
      by (simp_all add: env1_def remember_def decides_def lets_through_def listed_def)
    have "filter_values lib ms pm ss env ?add = (env', out)" using "2.prems"(1) None by simp
    from "2.IH"(1) [OF None this] r1 t show ?thesis by (intro main d) (simp only: e if_True)
  next
    case (Some mappings)
    have e1: "env1 = AList.update (env_key (svm_Path s)) (svm_gval s) env"
      by (simp add: env1_def remember_def Some)
    have l: "listed pm (svm_Path s) = mappings" by (simp add: listed_def Some)
    show ?thesis
    proof (cases "should_skip lib ms env1 mappings False")
      case (Inl e)
      have "\<not> decides lib ms pm env [] s"
      proof
        assume "decides lib ms pm env [] s"
        then have "should_skip lib ms env1 mappings False =
            Inr (False \<or> \<not> (\<forall>c\<in>set mappings. runExpr lib ms env1 c = Inr (GBool False)))"
          unfolding should_skip_ok by (simp add: decides_def l flip: env1_def)
        with Inl show False by simp
      qed
      moreover have "out = Inl e" using "2.prems"(1) Some Inl by (simp add: e1 Let_def)
      ultimately show ?thesis by (simp only: sum.case ex') blast
    next
      case (Inr skip)
      then have d: "decides lib ms pm env [] s" and sk: "skip = (\<not> ?thru)"
        unfolding should_skip_ok by (simp_all add: decides_def lets_through_def l flip: env1_def)
      have fv: "filter_values lib ms pm ss env1 (if skip then result else ?add) = (env', out)"
        using "2.prems"(1) Some Inr by (simp add: e1 Let_def)
      have "(if skip then result else ?add) = ?r1" by (simp add: sk)
      with "2.IH"(2) [OF Some e1 Inr fv] r1 show ?thesis by (intro main d) (simp only:)
    qed
  qed
qed

lemma subseq_selected: "subseq (map snd (filter P (enumerate n xs))) xs"
  by (induction xs arbitrary: n) auto

definition filter_inv :: "'p expression_mapping list \<Rightarrow> 'p expression_filter \<Rightarrow> bool" where
  "filter_inv emc f \<longleftrightarrow> ef_mappings f = path_mappings emc"

lemma ExpressionFilter_step:
  "case snd (ExpressionFilter_DoMap lib ms f delta) of
     Inl e \<Rightarrow> \<exists>i<length (ToSingleValueMapped delta). \<not> decides lib ms (ef_mappings f) (ef_env f)
       (take i (ToSingleValueMapped delta)) (ToSingleValueMapped delta ! i)
   | Inr m \<Rightarrow> (\<forall>i<length (ToSingleValueMapped delta). decides lib ms (ef_mappings f) (ef_env f)
       (take i (ToSingleValueMapped delta)) (ToSingleValueMapped delta ! i)) \<and>
       m_Context m = m_Context delta \<and> m_Origin m = m_Origin delta \<and>
       ToSingleValueMapped m = map snd (filter (\<lambda>(i, s). lets_through lib ms (ef_mappings f) (ef_env f)
         (take i (ToSingleValueMapped delta)) s) (enumerate 0 (ToSingleValueMapped delta)))"
proof -
  let ?result = "WithOrigin (m_Origin delta) (WithContext (m_Context delta) NewMapped)"
  obtain env out where fv: "filter_values lib ms (ef_mappings f) (ToSingleValueMapped delta) (ef_env f) ?result
      = (env, out)" by fastforce
  have r: "m_Context ?result = m_Context delta" "m_Origin ?result = m_Origin delta" "ToSingleValueMapped ?result = []"
    by (simp_all add: builder_defs ToSingleValueMapped_eq)
  have "\<forall>s\<in>set (ToSingleValueMapped delta). svm_Context s = m_Context ?result \<and> svm_Origin s = m_Origin ?result"
    by (simp add: r ToSingleValueMapped_member)
  from filter_values_exact [OF fv this] show ?thesis
    by (cases out) (simp_all add: ExpressionFilter_DoMap_def fv r)
qed

interpretation exprfilter: delta_filter "ExpressionFilter_DoMap lib ms" "NewExpressionFilter emc"
    "filter_inv emc" for lib ms emc
proof
  show "filter_inv emc (NewExpressionFilter emc)" by (simp add: filter_inv_def NewExpressionFilter_def)
next
  fix f and delta
  assume "filter_inv emc f"
  then show "filter_inv emc (fst (ExpressionFilter_DoMap lib ms f delta))"
    by (simp add: filter_inv_def ExpressionFilter_DoMap_def split: prod.splits)
  show "filters delta (snd (ExpressionFilter_DoMap lib ms f delta))"
    using ExpressionFilter_step [where lib = lib and ms = ms and f = f and delta = delta]
    by (cases "snd (ExpressionFilter_DoMap lib ms f delta)") (simp_all add: subseq_selected)
qed

section \<open>Properties\<close>

text \<open>C30: What the aggregate mapper adds to a delta. From any reachable state the result is
  the input, unchanged or with one update more. The added update has values, its paths are
  distinct, its timestamp is the most recent one of the relevant values of the delta (those whose
  path is a source of a mapping), its uuid is the one of the last relevant value; no update is
  added to a delta without relevant values.\<close>

theorem aggregate_result:
  fixes delta :: mapped
  assumes "m = machine_state (Aggregate_DoMap lib ms) (NewAggregateMapper emc) deltas"
  defines "rel \<equiv> relevant emc (ToSingleValueMapped delta)"
  shows "snd (Aggregate_DoMap lib ms m delta) = Inr delta \<or>
    (\<exists>u. snd (Aggregate_DoMap lib ms m delta) = Inr (AddUpdate u delta) \<and> rel \<noteq> [] \<and>
       upd_Values u \<noteq> [] \<and> distinct (map fst (value_pairs u)) \<and>
       upd_Timestamp u = fold (\<lambda>s. max (svm_Timestamp s)) rel zero_time \<and>
       upd_Source u = \<lparr>src_Label = ''signalk'', src_Type = SignalKType,
         src_Uuid = src_Uuid (svm_Source (last rel)), src_TransferUuid = 0\<rparr>)"
proof -
  have "aggregate_inv emc m" unfolding assms(1) by (rule aggregate.inv_reachable)
  moreover obtain m' out where p: "Aggregate_DoMap lib ms m delta = (m', out)" by fastforce
  ultimately obtain u where u:
    "out = Inr (if upd_Values u = [] then delta else AddUpdate u delta)"
    "rel = [] \<Longrightarrow> upd_Values u = []" "distinct (map fst (value_pairs u))"
    "upd_Timestamp u = fold (\<lambda>s. max (svm_Timestamp s)) rel zero_time"
    "rel \<noteq> [] \<Longrightarrow> upd_Source u = \<lparr>src_Label = ''signalk'', src_Type = SignalKType,
       src_Uuid = src_Uuid (svm_Source (last rel)), src_TransferUuid = 0\<rparr>"
    unfolding rel_def by (rule aggregate_step) blast
  show ?thesis
  proof (cases "upd_Values u = []")
    case True
    then show ?thesis using u(1) by (simp add: p)
  next
    case False
    then have "rel \<noteq> []" using u(2) by blast
    with False u show ?thesis by (intro disjI2 exI [of _ u]) (simp add: p)
  qed
qed

definition sample_values :: "(string \<times> gval) list \<Rightarrow> mapped" where
  "sample_values kvs =
     \<lparr>m_Context = ''c'', m_Origin = ''o'', m_Updates =
        [\<lparr>upd_Source = WithUuid 9 NewSource, upd_Timestamp = 5,
          upd_Values = map (\<lambda>(p, v). \<lparr>val_Path = p, val_Value = v\<rparr>) kvs\<rparr>]\<rparr>"

definition copy_mapping :: "string \<Rightarrow> string \<Rightarrow> string \<Rightarrow> string expression_mapping" where
  "copy_mapping src key path = mapping_config.extend (variable key path) \<lparr>em_SourcePaths = [src]\<rparr>"

theorem aggregate_result_witness:
  "\<exists>u. snd (Aggregate_DoMap variables no_structs (NewAggregateMapper [copy_mapping ''a.b'' ''a_b'' ''x''])
          (sample_values [(''a.b'', GBool True)])) =
        Inr (AddUpdate u (sample_values [(''a.b'', GBool True)])) \<and> upd_Timestamp u = 5"
proof -
  let ?m = "NewAggregateMapper [copy_mapping ''a.b'' ''a_b'' ''x'']"
  let ?d = "sample_values [(''a.b'', GBool True)]"
  have m: "?m = machine_state (Aggregate_DoMap variables no_structs) ?m []" by simp
  have "(case snd (Aggregate_DoMap variables no_structs ?m ?d) of
      Inl _ \<Rightarrow> False | Inr out \<Rightarrow> length (m_Updates out) = 2)" by code_simp
  then have "snd (Aggregate_DoMap variables no_structs ?m ?d) \<noteq> Inr ?d"
    by (auto simp: sample_values_def)
  moreover have "fold (\<lambda>s. max (svm_Timestamp s)) (relevant [copy_mapping ''a.b'' ''a_b'' ''x'']
      (ToSingleValueMapped ?d)) zero_time = 5" by code_simp
  ultimately show ?thesis using aggregate_result [OF m, of ?d] by auto
qed

text \<open>What the aggregate mapper remembers. After any run, the expression environment
  holds under every key the last relevant value of the run whose path has that key (the path
  with its dots replaced), and otherwise what it held at the start; so an expression sees the
  latest value of each of its sources, across deltas.\<close>

theorem aggregate_environment:
  "map_of (ag_env (machine_state (Aggregate_DoMap lib ms) (NewAggregateMapper emc) deltas)) key =
     (case find (\<lambda>s. env_key (svm_Path s) = key)
             (rev (relevant emc (concat (map ToSingleValueMapped deltas)))) of
        None \<Rightarrow> map_of NewExpressionEnvironment key
      | Some s \<Rightarrow> Some (svm_gval s))"
proof -
  have find_append: "find P (xs @ ys) = (case find P xs of None \<Rightarrow> find P ys | Some x \<Rightarrow> Some x)"
    for P and xs ys :: "svm list" by (induction xs) auto
  have "aggregate_inv emc m \<Longrightarrow>
      map_of (ag_env (machine_state (Aggregate_DoMap lib ms) m deltas)) key =
        (case find (\<lambda>s. env_key (svm_Path s) = key)
               (rev (relevant emc (concat (map ToSingleValueMapped deltas)))) of
           None \<Rightarrow> map_of (ag_env m) key | Some s \<Rightarrow> Some (svm_gval s))" for m
  proof (induction deltas arbitrary: m)
    case Nil
    then show ?case by (simp add: relevant_def)
  next
    case (Cons d ds)
    obtain m' out where p: "Aggregate_DoMap lib ms m d = (m', out)" by fastforce
    from aggregate_step [OF Cons.prems p] have
      "map_of (ag_env m') key = (case find (\<lambda>s. env_key (svm_Path s) = key)
          (rev (relevant emc (ToSingleValueMapped d))) of
          None \<Rightarrow> map_of (ag_env m) key | Some s \<Rightarrow> Some (svm_gval s))" "aggregate_inv emc m'"
      by metis+
    then show ?case
      using Cons.IH by (simp add: p relevant_def find_append split: option.splits)
  qed
  moreover have "ag_env (NewAggregateMapper emc) = NewExpressionEnvironment"
    by (simp add: NewAggregateMapper_def)
  ultimately show ?thesis by (metis aggregate_inv_new)
qed

text \<open>C31: Exactly which values an expression filter removes. When every filter of a delta's
  values evaluates to a boolean, the result has exactly the values for which none of the filters of
  their path says to skip them, evaluated with all values up to and including this one remembered;
  in particular values of other paths always pass. Otherwise the whole delta is an error.\<close>

theorem expression_filter_exact:
  fixes delta :: mapped
  assumes "f = machine_state (ExpressionFilter_DoMap lib ms) (NewExpressionFilter emc) deltas"
  defines "ss \<equiv> ToSingleValueMapped delta" and "pm \<equiv> path_mappings emc"
  shows "case snd (ExpressionFilter_DoMap lib ms f delta) of
      Inl e \<Rightarrow> \<exists>i<length ss. \<not> decides lib ms pm (ef_env f) (take i ss) (ss ! i)
    | Inr m \<Rightarrow> (\<forall>i<length ss. decides lib ms pm (ef_env f) (take i ss) (ss ! i)) \<and>
        m_Context m = m_Context delta \<and> m_Origin m = m_Origin delta \<and>
        ToSingleValueMapped m =
          map snd (filter (\<lambda>(i, s). lets_through lib ms pm (ef_env f) (take i ss) s) (enumerate 0 ss))"
proof -
  have "filter_inv emc f" unfolding assms(1) by (rule exprfilter.inv_reachable)
  then have pm: "ef_mappings f = pm" by (simp add: filter_inv_def pm_def)
  show ?thesis
    using ExpressionFilter_step [where lib = lib and ms = ms and f = f and delta = delta]
    unfolding pm ss_def by simp
qed

definition bool_filter :: "string expression_mapping" where
  "bool_filter = mapping_config.extend
     \<lparr>mc_Expression = ''hide'', mc_ExpressionEnvironment = [(''hide'', GBool True)],
      mc_CompiledExpression = None, mc_Path = []\<rparr> \<lparr>em_SourcePaths = [''a'']\<rparr>"

theorem expression_filter_exact_witness:
  "\<exists>m. snd (ExpressionFilter_DoMap variables no_structs (NewExpressionFilter [bool_filter])
         (sample_values [(''a'', GBool True), (''b'', GBool True)])) = Inr m \<and>
     map svm_Path (ToSingleValueMapped m) = [''b'']"
proof -
  let ?f = "NewExpressionFilter [bool_filter]"
  let ?d = "sample_values [(''a'', GBool True), (''b'', GBool True)]"
  let ?ss = "ToSingleValueMapped ?d" and ?pm = "path_mappings [bool_filter]"
  have f: "?f = machine_state (ExpressionFilter_DoMap variables no_structs) ?f []" by simp
  have ok: "is_ok (snd (ExpressionFilter_DoMap variables no_structs ?f ?d))" by code_simp
  have "map svm_Path (map snd (filter (\<lambda>(i, s). lets_through variables no_structs ?pm (ef_env ?f)
      (take i ?ss) s) (enumerate 0 ?ss))) = [''b'']" by code_simp
  then show ?thesis
    using expression_filter_exact [OF f, of ?d] ok by (auto simp: is_ok_iff)
qed

end
