(* ===== verification/BigCache.thy ===== *)
theory BigCache
  imports Wire
begin

text \<open>
  \<open>database/bigcache.go\<close>: the cache of the latest value of every path and of the raw
  messages. The store behind it (\<open>allegro/bigcache\<close>) is a map from keys to JSON documents
  that may lose entries at any time (\<open>Evict\<close>).
\<close>

section \<open>State and operations\<close>

record big_cache =
  bc_rawCache :: "(string, json) gomap"
  bc_mappedCache :: "(string, json) gomap"

definition NewBigCache :: big_cache where
  "NewBigCache = \<lparr>bc_rawCache = [], bc_mappedCache = []\<rparr>"

text \<open>The documented freedom of the store: entries disappear when they expire or memory is short.\<close>

definition Evict :: "string \<Rightarrow> big_cache \<Rightarrow> big_cache" where
  "Evict key c = c\<lparr>bc_mappedCache := AList.delete key (bc_mappedCache c)\<rparr>"

definition WriteRaw :: "text_codecs \<Rightarrow> raw \<Rightarrow> bool \<Rightarrow> big_cache \<Rightarrow> big_cache \<times> raw list" where
  "WriteRaw tc raw returnChanges c =
     (c\<lparr>bc_rawCache := AList.update (tc_UuidString tc (raw_Uuid raw)) (Raw_MarshalJSON tc raw) (bc_rawCache c)\<rparr>,
      if returnChanges then [raw] else [])"

definition cache_key :: "svm \<Rightarrow> string" where
  "cache_key m = svm_Context m @ ''.'' @ svm_Path m"

text \<open>
  One value: \<open>None\<close> when it is no change, otherwise the value to store and report. A cached
  document that does not unmarshal leaves the zero value in \<open>original.Value\<close>, which merges to
  the new value itself.
\<close>

definition changed_value :: "text_codecs \<Rightarrow> mapstructure \<Rightarrow> json option \<Rightarrow> svm \<Rightarrow> svm option" where
  "changed_value tc ms cached m =
     (case cached of
        None \<Rightarrow> Some m
      | Some originalBytes \<Rightarrow>
         (case Svm_UnmarshalJSON tc ms originalBytes of
            Inr original \<Rightarrow>
              (if Svm_Equals original m \<or> svm_Timestamp m < svm_Timestamp original then None
               else Some (Svm_Merge original m))
          | Inl err \<Rightarrow> Some (Svm_Merge NewSingleValueMapped m)))"

fun write_values ::
    "text_codecs \<Rightarrow> mapstructure \<Rightarrow> svm list \<Rightarrow> (string, json) gomap \<Rightarrow> svm list \<Rightarrow>
     (string, json) gomap \<times> svm list"
where
  "write_values tc ms [] cache changes = (cache, changes)"
| "write_values tc ms (m # svms) cache changes =
     (case changed_value tc ms (map_of cache (cache_key m)) m of
        None \<Rightarrow> write_values tc ms svms cache changes
      | Some m \<Rightarrow>
         (let changes = changes @ [m] in
          case Svm_Marshal tc m of
            Inl err \<Rightarrow> write_values tc ms svms cache changes
          | Inr bytes \<Rightarrow> write_values tc ms svms (AList.update (cache_key m) bytes cache) changes))"

definition WriteMapped ::
    "text_codecs \<Rightarrow> mapstructure \<Rightarrow> mapped list \<Rightarrow> big_cache \<Rightarrow> big_cache \<times> mapped list" where
  "WriteMapped tc ms mappedList c =
     (case write_values tc ms (concat (map ToSingleValueMapped mappedList)) (bc_mappedCache c) [] of
        (cache, changes) \<Rightarrow> (c\<lparr>bc_mappedCache := cache\<rparr>, map (ToMapped zero_time) changes))"

datatype cache_error = NotFound string | BadEntry json_error | BadWhere

definition unmarshal_raw :: "text_codecs \<Rightarrow> json \<Rightarrow> cache_error + raw" where
  "unmarshal_raw tc bytes =
     (case Raw_UnmarshalJSON tc bytes zero_raw of
        (raw, None) \<Rightarrow> Inr raw | (_, Some err) \<Rightarrow> Inl (BadEntry err))"

text \<open>The iterations stop at the first entry that does not unmarshal.\<close>

fun read_all :: "(json \<Rightarrow> cache_error + 'a) \<Rightarrow> json list \<Rightarrow> cache_error + 'a list" where
  "read_all f [] = Inr []"
| "read_all f (j # js) = (case f j of Inl err \<Rightarrow> Inl err | Inr x \<Rightarrow> cons_result x (read_all f js))"

definition ReadRaw :: "text_codecs \<Rightarrow> string \<Rightarrow> big_cache \<Rightarrow> cache_error + raw list" where
  "ReadRaw tc where_clause c =
     (case tc_ParseUuid tc where_clause of
        Inr uuid \<Rightarrow>
          (case map_of (bc_rawCache c) (tc_UuidString tc uuid) of
             None \<Rightarrow> Inl (NotFound (tc_UuidString tc uuid))
           | Some bytes \<Rightarrow> (case unmarshal_raw tc bytes of Inl err \<Rightarrow> Inl err | Inr raw \<Rightarrow> Inr [raw]))
      | Inl err \<Rightarrow>
          (if length where_clause > 0 then Inl BadWhere
           else read_all (unmarshal_raw tc) (map snd (bc_rawCache c))))"

definition unmarshal_svm :: "text_codecs \<Rightarrow> mapstructure \<Rightarrow> json \<Rightarrow> cache_error + mapped" where
  "unmarshal_svm tc ms bytes =
     (case Svm_UnmarshalJSON tc ms bytes of
        Inl err \<Rightarrow> Inl (BadEntry err) | Inr m \<Rightarrow> Inr (ToMapped zero_time m))"

text \<open>\<open>where\<close> and the arguments are not looked at.\<close>

definition Cache_ReadMapped :: "text_codecs \<Rightarrow> mapstructure \<Rightarrow> big_cache \<Rightarrow> cache_error + mapped list" where
  "Cache_ReadMapped tc ms c = read_all (unmarshal_svm tc ms) (map snd (bc_mappedCache c))"

section \<open>The specification: the latest value of every key\<close>

text \<open>
  A value is fresh when nothing is known of its key, or when it differs from what is known and is
  not older; the fresh values are reported and remembered.
\<close>

definition fresh :: "(string \<Rightarrow> svm option) \<Rightarrow> svm \<Rightarrow> bool" where
  "fresh latest m =
     (case latest (cache_key m) of
        None \<Rightarrow> True
      | Some original \<Rightarrow> \<not> (Svm_Equals original m \<or> svm_Timestamp m < svm_Timestamp original))"

fun spec_write :: "svm list \<Rightarrow> (string \<Rightarrow> svm option) \<Rightarrow> (string \<Rightarrow> svm option) \<times> svm list" where
  "spec_write [] latest = (latest, [])"
| "spec_write (m # ms) latest =
     (if fresh latest m
      then (case spec_write ms (latest(cache_key m \<mapsto> m)) of (l, out) \<Rightarrow> (l, m # out))
      else spec_write ms latest)"

text \<open>The abstraction: what the cached documents unmarshal to.\<close>

definition latest_of :: "text_codecs \<Rightarrow> mapstructure \<Rightarrow> (string, json) gomap \<Rightarrow> string \<Rightarrow> svm option" where
  "latest_of tc ms cache k =
     (case map_of cache k of
        None \<Rightarrow> None
      | Some j \<Rightarrow> (case Svm_UnmarshalJSON tc ms j of Inl _ \<Rightarrow> None | Inr m \<Rightarrow> Some m))"

text \<open>Numbers and strings; their times must have an RFC 3339 form.\<close>

definition scalar :: "svm \<Rightarrow> bool" where
  "scalar m \<longleftrightarrow> rfc3339_time (svm_Timestamp m) \<and>
     ((\<exists>f. svm_Value m = GFloat f \<and> is_finite f) \<or> (\<exists>s. svm_Value m = GString s))"

section \<open>Lemmas\<close>

lemma scalar_wire:
  assumes "faithful_codecs tc" "scalar m"
  obtains j where "Svm_Marshal tc m = Inr j" "Svm_UnmarshalJSON tc ms j = Inr m"
proof -
  have v: "\<exists>j. marshal_value (svm_Value m) = Inr j \<and> gval_of_json j = svm_Value m"
      "Decode ms (svm_Value m) = (svm_Value m, None)"
    using assms(2) by (auto simp: scalar_def marshal_value_def marshal_number_def)
  then obtain j where j: "Svm_Marshal tc m = Inr j" by (auto simp: Svm_Marshal_def)
  have "Svm_UnmarshalJSON tc ms j = Inr (m\<lparr>svm_Value := svm_Value m\<rparr>)"
    using Svm_Unmarshal_Marshal [OF assms(1) _ j, of ms] v assms(2) by (auto simp: scalar_def)
  with j show thesis by (intro that) auto
qed

lemma scalar_merge [simp]: "scalar m \<Longrightarrow> Svm_Merge l m = m"
  by (auto simp: scalar_def Svm_Merge_def as_merger_def split: option.splits)

lemma write_values_spec:
  assumes "faithful_codecs tc" "\<forall>m\<in>set svms. scalar m"
  shows "latest_of tc ms (fst (write_values tc ms svms cache changes)) = fst (spec_write svms (latest_of tc ms cache)) \<and>
    snd (write_values tc ms svms cache changes) = changes @ snd (spec_write svms (latest_of tc ms cache))"
  using assms(2)
proof (induction svms arbitrary: cache changes)
  case Nil
  then show ?case by simp
next
  case (Cons m svms)
  then have sm: "scalar m" by simp
  obtain j where j: "Svm_Marshal tc m = Inr j" "Svm_UnmarshalJSON tc ms j = Inr m"
    by (rule scalar_wire [OF assms(1) sm])
  have cv: "changed_value tc ms (map_of cache (cache_key m)) m =
      (if fresh (latest_of tc ms cache) m then Some m else None)"
    using sm by (auto simp: changed_value_def fresh_def latest_of_def split: option.splits sum.splits)
  have upd: "latest_of tc ms (AList.update (cache_key m) j cache) = (latest_of tc ms cache)(cache_key m \<mapsto> m)"
    by (rule ext) (simp add: latest_of_def update_conv' j)
  show ?case
    using Cons cv upd j by (auto simp: Let_def split_beta)
qed

text \<open>The specification keeps, for every key, timestamps that never decrease.\<close>

definition not_older :: "(string \<Rightarrow> svm option) \<Rightarrow> (string \<Rightarrow> svm option) \<Rightarrow> bool" where
  "not_older l l' \<longleftrightarrow>
     (\<forall>k old. l k = Some old \<longrightarrow> (\<exists>new. l' k = Some new \<and> svm_Timestamp old \<le> svm_Timestamp new))"

lemma not_older_trans: "not_older l l' \<Longrightarrow> not_older l' l'' \<Longrightarrow> not_older l l''"
  unfolding not_older_def by (meson order_trans)

lemma spec_write_monotone: "not_older l (fst (spec_write svms l))"
proof (induction svms arbitrary: l)
  case Nil
  then show ?case by (simp add: not_older_def)
next
  case (Cons m svms)
  show ?case
  proof (cases "fresh l m")
    case True
    have "not_older l (l(cache_key m \<mapsto> m))"
      using True by (auto simp: not_older_def fresh_def)
    moreover have "fst (spec_write (m # svms) l) = fst (spec_write svms (l(cache_key m \<mapsto> m)))"
      using True by (simp add: split_beta)
    ultimately show ?thesis using not_older_trans Cons by metis
  qed (simp add: Cons)
qed

lemma spec_write_other:
  "k \<notin> cache_key ` set svms \<Longrightarrow> fst (spec_write svms l) k = l k"
  by (induction svms arbitrary: l) (auto simp: split_beta)

lemma spec_write_known:
  assumes "distinct (map cache_key svms)" "m \<in> set svms"
  shows "\<exists>x. fst (spec_write svms l) (cache_key m) = Some x \<and>
    (x = m \<or> l (cache_key m) = Some x \<and> \<not> fresh l m)"
  using assms
proof (induction svms arbitrary: l)
  case (Cons a svms)
  show ?case
  proof (cases "m = a")
    case True
    then have k: "cache_key m \<notin> cache_key ` set svms" using Cons.prems(1) by auto
    show ?thesis
    proof (cases "fresh l a")
      case fr: True
      then show ?thesis using k True by (simp add: split_beta spec_write_other)
    next
      case False
      then obtain x where "l (cache_key m) = Some x" using True by (auto simp: fresh_def split: option.splits)
      then show ?thesis using k True False by (simp add: spec_write_other)
    qed
  next
    case False
    then have m: "m \<in> set svms" "cache_key m \<noteq> cache_key a" using Cons.prems by (auto simp: image_iff)
    define l' where "l' = (if fresh l a then l(cache_key a \<mapsto> a) else l)"
    have "fst (spec_write (a # svms) l) = fst (spec_write svms l')"
      by (simp add: l'_def split_beta)
    moreover have "l' (cache_key m) = l (cache_key m)" "fresh l' m = fresh l m"
      using m(2) by (simp_all add: l'_def fresh_def)
    moreover have "distinct (map cache_key svms)" using Cons.prems(1) by simp
    ultimately show ?thesis using Cons.IH [OF _ m(1), of l'] by simp
  qed
qed simp

lemma Svm_Equals_refl: "scalar m \<Longrightarrow> Svm_Equals m m"
  by (auto simp: scalar_def Svm_Equals_def feq_def fle_finite)

section \<open>Properties\<close>

definition known :: "text_codecs \<Rightarrow> mapstructure \<Rightarrow> big_cache \<Rightarrow> string \<Rightarrow> svm option" where
  "known tc ms c = latest_of tc ms (bc_mappedCache c)"

text \<open>C9: The cache refines the specification of the latest value. For deltas of numbers and
  strings, writing to the cache (through the JSON form of every value) changes what is known of
  every key, and reports changes, exactly as the specification does: a value is reported and
  remembered if and only if its key is unknown, or it differs from the known value and is not older.\<close>

theorem cache_refines_latest:
  assumes "faithful_codecs tc" "\<forall>m\<in>set (concat (map ToSingleValueMapped deltas)). scalar m"
  shows "known tc ms (fst (WriteMapped tc ms deltas c)) =
      fst (spec_write (concat (map ToSingleValueMapped deltas)) (known tc ms c)) \<and>
    snd (WriteMapped tc ms deltas c) =
      map (ToMapped zero_time) (snd (spec_write (concat (map ToSingleValueMapped deltas)) (known tc ms c)))"
  using write_values_spec [OF assms, of ms "bc_mappedCache c" "[]"]
  by (simp add: WriteMapped_def known_def split_beta)

lemma cache_refines:
  assumes "faithful_codecs tc" "\<forall>m\<in>set (concat (map ToSingleValueMapped deltas)). scalar m"
  shows "known tc ms (fst (WriteMapped tc ms deltas c)) =
      fst (spec_write (concat (map ToSingleValueMapped deltas)) (known tc ms c))"
    "snd (WriteMapped tc ms deltas c) =
      map (ToMapped zero_time) (snd (spec_write (concat (map ToSingleValueMapped deltas)) (known tc ms c)))"
  using write_values_spec [OF assms, of ms "bc_mappedCache c" "[]"]
  by (simp_all add: WriteMapped_def known_def split_beta)

definition number_delta :: "time \<Rightarrow> rat \<Rightarrow> mapped" where
  "number_delta t q = ToMapped 0 (sample_svm (GFloat (Fin q)) \<lparr>svm_Timestamp := t\<rparr>)"

lemma number_delta_simps [simp]:
  "ToSingleValueMapped (number_delta t q) = [sample_svm (GFloat (Fin q)) \<lparr>svm_Timestamp := t\<rparr>]"
  by (simp add: number_delta_def)

theorem cache_refines_latest_witness:
  "length (snd (WriteMapped tally_codecs no_structs [number_delta 5 1, number_delta 4 2, number_delta 6 3] NewBigCache)) = 2"
proof -
  have "\<forall>m\<in>set (concat (map ToSingleValueMapped [number_delta 5 1, number_delta 4 2, number_delta 6 3])). scalar m"
    by (simp add: scalar_def sample_svm_def rfc3339_time_def)
  from cache_refines_latest [OF tally_faithful this, of no_structs NewBigCache] show ?thesis
    by (simp add: known_def latest_of_def NewBigCache_def fresh_def cache_key_def sample_svm_def Svm_Equals_def
        feq_def fle_finite)
qed

text \<open>What is known of a path never gets older, and a repeated delta is no news. Over any
  sequence of writes of deltas of numbers and strings, the timestamp known of a key never decreases;
  and a delta written twice in a row, whose values have different keys, is reported at most the
  first time: the second write reports no change.\<close>

theorem cache_monotone_idempotent:
  assumes "faithful_codecs tc"
    and "\<forall>d\<in>set (deltas # ws). \<forall>m\<in>set (concat (map ToSingleValueMapped d)). scalar m"
    and "distinct (map cache_key (concat (map ToSingleValueMapped deltas)))"
  shows "not_older (known tc ms c) (known tc ms (fold (\<lambda>d c. fst (WriteMapped tc ms d c)) ws c)) \<and>
    snd (WriteMapped tc ms deltas (fst (WriteMapped tc ms deltas c))) = []"
proof
  show "not_older (known tc ms c) (known tc ms (fold (\<lambda>d c. fst (WriteMapped tc ms d c)) ws c))"
    using assms(2)
  proof (induction ws arbitrary: c)
    case Nil
    then show ?case by (simp add: not_older_def)
  next
    case (Cons w ws)
    have "not_older (known tc ms c) (known tc ms (fst (WriteMapped tc ms w c)))"
      using Cons.prems cache_refines(1) [OF assms(1)] spec_write_monotone by fastforce
    then show ?case
      using Cons.IH [of "fst (WriteMapped tc ms w c)"] Cons.prems not_older_trans by auto
  qed
next
  let ?ss = "concat (map ToSingleValueMapped deltas)"
  have sc: "\<forall>m\<in>set ?ss. scalar m" using assms(2) by simp
  let ?l = "known tc ms c"
  let ?l' = "fst (spec_write ?ss ?l)"
  have stale: "\<not> fresh ?l' m" if m: "m \<in> set ?ss" for m
  proof -
    obtain x where x: "?l' (cache_key m) = Some x" "x = m \<or> ?l (cache_key m) = Some x \<and> \<not> fresh ?l m"
      using spec_write_known [OF assms(3) m] by blast
    then show ?thesis
      using Svm_Equals_refl sc m by (auto simp: fresh_def)
  qed
  have "\<forall>m\<in>set ss. \<not> fresh l m \<Longrightarrow> snd (spec_write ss l) = []" for ss l
    by (induction ss) auto
  then show "snd (WriteMapped tc ms deltas (fst (WriteMapped tc ms deltas c))) = []"
    using stale cache_refines [OF assms(1) sc] by simp
qed

theorem cache_monotone_idempotent_witness:
  "snd (WriteMapped tally_codecs no_structs [number_delta 5 1]
     (fst (WriteMapped tally_codecs no_structs [number_delta 5 1] NewBigCache))) = []"
  using cache_monotone_idempotent [OF tally_faithful, of "[number_delta 5 1]" "[]" no_structs NewBigCache]
  by (simp add: scalar_def sample_svm_def rfc3339_time_def)

text \<open>A raw message can be read back by its uuid. After a message has been written, and
  whatever other messages are written later under other uuids, reading by the uuid's string returns
  exactly that message; reading by anything else that is not empty is an error.\<close>

theorem cache_reads_raw:
  assumes "faithful_codecs tc" "rfc3339_time (raw_Timestamp r)"
    and "\<forall>r'\<in>set later. tc_UuidString tc (raw_Uuid r') \<noteq> tc_UuidString tc (raw_Uuid r)"
  shows "ReadRaw tc (tc_UuidString tc (raw_Uuid r))
      (fold (\<lambda>r' c. fst (WriteRaw tc r' b c)) later (fst (WriteRaw tc r b c))) = Inr [r]"
proof -
  have "map_of (bc_rawCache (fold (\<lambda>r' c. fst (WriteRaw tc r' b c)) later c)) k = map_of (bc_rawCache c) k"
    if "\<forall>r'\<in>set later. tc_UuidString tc (raw_Uuid r') \<noteq> k" for k c
    using that by (induction later arbitrary: c) (auto simp: WriteRaw_def update_conv')
  from this [OF assms(3)] have "map_of (bc_rawCache (fold (\<lambda>r' c. fst (WriteRaw tc r' b c)) later
      (fst (WriteRaw tc r b c)))) (tc_UuidString tc (raw_Uuid r)) = Some (Raw_MarshalJSON tc r)"
    by (simp add: WriteRaw_def update_conv')
  then show ?thesis
    using assms(1) Raw_Unmarshal_Marshal [OF assms(1,2)]
    by (simp add: ReadRaw_def faithful_codecs_def unmarshal_raw_def)
qed

theorem cache_reads_raw_witness:
  "ReadRaw tally_codecs (tc_UuidString tally_codecs 5) (fst (WriteRaw tally_codecs sample_message True NewBigCache)) = Inr [sample_message]"
  using cache_reads_raw [OF tally_faithful, of sample_message "[]" True NewBigCache]
  by (simp add: sample_message_def rfc3339_time_def)

end
