(* ===== verification/Websocket.thy ===== *)
theory Websocket
  imports Message Mapper
begin

text \<open>
  \<open>writer/websocket.go\<close>: the Signal K stream server. Pattern matching and subscriptions of a
  client, the cache of the last delta of every context and path, and the hub, whose goroutine and
  the goroutines of the clients are a step relation over the clients' buffered channels. Sending on
  or closing a closed channel panics. Go's runes are characters here: contexts and paths are taken
  to be ASCII. The connections of the clients are in \<open>StreamConnection\<close>; the JSON encoding of a message is
  a parameter.
\<close>

section \<open>Patterns\<close>

function deepMatch :: "string \<Rightarrow> string \<Rightarrow> bool" where
  "deepMatch subject [] = (subject = [])"
| "deepMatch subject (p # pattern) =
     (if p = CHR ''*'' then
        deepMatch subject pattern \<or>
        (case subject of [] \<Rightarrow> False | s # subject' \<Rightarrow> deepMatch subject' (p # pattern))
      else (case subject of [] \<Rightarrow> False | s # subject' \<Rightarrow> if s \<noteq> p then False else deepMatch subject' pattern))"
  by pat_completeness auto
termination by (relation "measure (\<lambda>(s, p). length s + length p)") auto

definition isPatternMatch :: "string \<Rightarrow> string \<Rightarrow> bool" where
  "isPatternMatch subject pattern =
     (if pattern = [] then subject = []
      else if pattern = ''*'' then True
      else deepMatch subject pattern)"

section \<open>Subscriptions\<close>

type_synonym subscriptions = "(string, (string, unit) gomap) gomap"

record subscribe_message =
  sm_Context :: string
  sm_Subscribe :: "string list"
  sm_Unsubscribe :: "string list"

text \<open>
  A client: its subscriptions (\<open>None\<close> for the nil map), its channel of outbound messages, and
  whether its write pump runs.
\<close>

record client =
  cl_subscriptions :: "subscriptions option"
  cl_sendCachedValues :: bool
  cl_self :: string
  cl_send :: "byte list list"
  cl_closed :: bool
  cl_pumping :: bool

definition NewClient :: client where
  "NewClient =
     \<lparr>cl_subscriptions = None, cl_sendCachedValues = False, cl_self = [], cl_send = [],
      cl_closed = False, cl_pumping = False\<rparr>"

definition subscribe_path :: "string \<Rightarrow> subscriptions \<Rightarrow> string \<Rightarrow> subscriptions" where
  "subscribe_path context subs path =
     (let subs = (if map_of subs context = None then AList.update context [] subs else subs)
      in AList.update context
           (AList.update path () (case map_of subs context of None \<Rightarrow> [] | Some paths \<Rightarrow> paths)) subs)"

definition remove_paths :: "string \<Rightarrow> (string, unit) gomap \<Rightarrow> (string, unit) gomap" where
  "remove_paths pattern paths =
     foldl (\<lambda>ps (path, _). if isPatternMatch path pattern then AList.delete path ps else ps) paths paths"

definition unsubscribe_context ::
    "string \<Rightarrow> string \<Rightarrow> subscriptions \<Rightarrow> string \<times> (string, unit) gomap \<Rightarrow> subscriptions" where
  "unsubscribe_context context pattern subs entry =
     (let (c, paths) = entry;
          subs = (if isPatternMatch c context then AList.update c (remove_paths pattern paths) subs else subs)
      in if (case map_of subs c of None \<Rightarrow> [] | Some paths \<Rightarrow> paths) = [] then AList.delete c subs else subs)"

definition unsubscribe_path :: "string \<Rightarrow> subscriptions \<Rightarrow> string \<Rightarrow> subscriptions" where
  "unsubscribe_path context subs path = foldl (unsubscribe_context context path) subs subs"

definition message_context :: "client \<Rightarrow> subscribe_message \<Rightarrow> string" where
  "message_context c m = (if sm_Context m = ''vessels.self'' then cl_self c else sm_Context m)"

definition handleSubscribeMessages :: "client \<Rightarrow> subscribe_message \<Rightarrow> client" where
  "handleSubscribeMessages c m =
     (let subs = (case cl_subscriptions c of None \<Rightarrow> [] | Some subs \<Rightarrow> subs);
          context = message_context c m;
          subs = foldl (subscribe_path context) subs (sm_Subscribe m);
          subs = foldl (unsubscribe_path context) subs (sm_Unsubscribe m)
      in c\<lparr>cl_subscriptions := Some subs\<rparr>)"

definition isSubscribedTo :: "client \<Rightarrow> mapped \<Rightarrow> bool" where
  "isSubscribedTo c m =
     (case cl_subscriptions c of
        None \<Rightarrow> False
      | Some subs \<Rightarrow>
          list_ex (\<lambda>(context, paths).
            isPatternMatch (m_Context m) context \<and>
            list_ex (\<lambda>(path, _).
              list_ex (\<lambda>update. list_ex (\<lambda>v. isPatternMatch (val_Path v) path) (upd_Values update))
                (m_Updates m)) paths) subs)"

section \<open>The cache\<close>

type_synonym ws_cache = "(string, (string, mapped) gomap) gomap option"

definition single_delta :: "mapped \<Rightarrow> upd \<Rightarrow> val \<Rightarrow> mapped" where
  "single_delta m u v =
     \<lparr>m_Context = m_Context m, m_Origin = [],
      m_Updates = [\<lparr>upd_Source = upd_Source u, upd_Timestamp = upd_Timestamp u, upd_Values = [v]\<rparr>]\<rparr>"

definition put_delta :: "string \<Rightarrow> string \<Rightarrow> mapped \<Rightarrow> (string, (string, mapped) gomap) gomap \<Rightarrow>
    (string, (string, mapped) gomap) gomap" where
  "put_delta context path m content =
     AList.update context
       (AList.update path m (case map_of content context of None \<Rightarrow> [] | Some paths \<Rightarrow> paths)) content"

definition injectOrUpdate :: "ws_cache \<Rightarrow> mapped \<Rightarrow> ws_cache" where
  "injectOrUpdate cache m =
     (let content = (case cache of None \<Rightarrow> [] | Some content \<Rightarrow> content);
          content = (if map_of content (m_Context m) = None then AList.update (m_Context m) [] content else content)
      in Some (foldl (\<lambda>content u.
           foldl (\<lambda>content v. put_delta (m_Context m) (val_Path v) (single_delta m u v) content)
             content (upd_Values u)) content (m_Updates m)))"

definition retrieveAll :: "ws_cache \<Rightarrow> mapped list" where
  "retrieveAll cache =
     (case cache of None \<Rightarrow> [] | Some content \<Rightarrow> concat (map (\<lambda>(context, paths). map snd paths) content))"

section \<open>The hub\<close>

text \<open>
  The client objects by their address, the clients the hub knows, the cache, and the messages the
  hub is sending in a blocking way to a client that registered. A panic ends the program.
\<close>

record hub =
  hub_self :: string
  hub_clients :: "(nat, bool) gomap"
  hub_objects :: "(nat, client) gomap"
  hub_next :: nat
  hub_sending :: "(nat \<times> byte list) list"
  hub_cache :: ws_cache
  hub_panicked :: bool

definition NewWebsocketWriter :: "string \<Rightarrow> hub" where
  "NewWebsocketWriter self =
     \<lparr>hub_self = self, hub_clients = [], hub_objects = [], hub_next = 0, hub_sending = [],
      hub_cache = None, hub_panicked = False\<rparr>"

definition send_capacity :: nat where
  "send_capacity = 256"

text \<open>A failed encoding is logged; the nil message is sent all the same.\<close>

definition payload :: "(mapped \<Rightarrow> string + byte list) \<Rightarrow> mapped \<Rightarrow> byte list" where
  "payload marshal m = (case marshal m of Inl err \<Rightarrow> [] | Inr bytes \<Rightarrow> bytes)"

definition close_send :: "nat \<Rightarrow> client \<Rightarrow> hub \<Rightarrow> hub" where
  "close_send i c h =
     (if cl_closed c then h\<lparr>hub_panicked := True\<rparr>
      else h\<lparr>hub_objects := AList.update i (c\<lparr>cl_closed := True\<rparr>) (hub_objects h)\<rparr>)"

definition push_send :: "nat \<Rightarrow> client \<Rightarrow> byte list \<Rightarrow> hub \<Rightarrow> hub" where
  "push_send i c m h =
     (if cl_closed c then h\<lparr>hub_panicked := True\<rparr>
      else h\<lparr>hub_objects := AList.update i (c\<lparr>cl_send := cl_send c @ [m]\<rparr>) (hub_objects h)\<rparr>)"

definition initial_subscription :: "string \<Rightarrow> hub \<Rightarrow> client \<Rightarrow> client" where
  "initial_subscription subscribeParam h c =
     (if subscribeParam = ''none'' then c
      else if subscribeParam = ''all'' then
        handleSubscribeMessages c \<lparr>sm_Context = ''*'', sm_Subscribe = [''*''], sm_Unsubscribe = []\<rparr>
      else
        handleSubscribeMessages c \<lparr>sm_Context = hub_self h, sm_Subscribe = [''*''], sm_Unsubscribe = []\<rparr>)"

text \<open>A new connection: its client is made, registered with the hub, and its pumps start.\<close>

definition serveWs :: "string \<Rightarrow> string \<Rightarrow> hub \<Rightarrow> nat \<times> hub" where
  "serveWs subscribeParam sendCachedValues h =
     (let c = NewClient\<lparr>cl_sendCachedValues := sendCachedValues \<noteq> ''false''\<rparr>;
          c = initial_subscription subscribeParam h c
      in (hub_next h, h\<lparr>hub_objects := AList.update (hub_next h) (c\<lparr>cl_pumping := True\<rparr>) (hub_objects h),
                        hub_next := hub_next h + 1\<rparr>))"

definition hub_register :: "(mapped \<Rightarrow> string + byte list) \<Rightarrow> byte list \<Rightarrow> nat \<Rightarrow> hub \<Rightarrow> hub" where
  "hub_register marshal hello i h =
     h\<lparr>hub_clients := AList.update i True (hub_clients h),
       hub_sending := map (Pair i) (hello # map (payload marshal) (retrieveAll (hub_cache h)))\<rparr>"

definition hub_unregister :: "nat \<Rightarrow> hub \<Rightarrow> hub" where
  "hub_unregister i h =
     (case (map_of (hub_clients h) i, map_of (hub_objects h) i) of
        (Some _, Some c) \<Rightarrow> close_send i c (h\<lparr>hub_clients := AList.delete i (hub_clients h)\<rparr>)
      | _ \<Rightarrow> h)"

definition broadcast_client :: "(mapped \<Rightarrow> string + byte list) \<Rightarrow> mapped \<Rightarrow> hub \<Rightarrow> nat \<times> bool \<Rightarrow> hub" where
  "broadcast_client marshal delta h entry =
     (case map_of (hub_objects h) (fst entry) of
        None \<Rightarrow> h
      | Some c \<Rightarrow>
          if \<not> isSubscribedTo c delta then h
          else if cl_closed c \<or> length (cl_send c) < send_capacity
          then push_send (fst entry) c (payload marshal delta) h
          else (close_send (fst entry) c h)\<lparr>hub_clients := AList.delete (fst entry) (hub_clients h)\<rparr>)"

definition hub_broadcast :: "(mapped \<Rightarrow> string + byte list) \<Rightarrow> mapped \<Rightarrow> hub \<Rightarrow> hub" where
  "hub_broadcast marshal delta h =
     foldl (broadcast_client marshal delta) (h\<lparr>hub_cache := injectOrUpdate (hub_cache h) delta\<rparr>) (hub_clients h)"

text \<open>A blocking send of the hub: it waits while the channel is full.\<close>

definition hub_send :: "hub \<Rightarrow> hub option" where
  "hub_send h =
     (case hub_sending h of
        [] \<Rightarrow> None
      | (i, m) # rest \<Rightarrow>
          (case map_of (hub_objects h) i of
             None \<Rightarrow> None
           | Some c \<Rightarrow>
               if cl_closed c \<or> length (cl_send c) < send_capacity
               then Some ((push_send i c m h)\<lparr>hub_sending := rest\<rparr>)
               else None))"

text \<open>
  The write pump takes a message; on the closed and drained channel, or when a ping fails, it
  returns. Both pumps unregister their client when they return.
\<close>

definition pump_message :: "nat \<Rightarrow> hub \<Rightarrow> hub option" where
  "pump_message i h =
     (case map_of (hub_objects h) i of
        None \<Rightarrow> None
      | Some c \<Rightarrow>
          if cl_pumping c \<and> cl_send c \<noteq> []
          then Some (h\<lparr>hub_objects := AList.update i (c\<lparr>cl_send := tl (cl_send c)\<rparr>) (hub_objects h)\<rparr>)
          else None)"

definition pump_stop :: "nat \<Rightarrow> hub \<Rightarrow> hub" where
  "pump_stop i h =
     (case map_of (hub_objects h) i of
        None \<Rightarrow> h
      | Some c \<Rightarrow> h\<lparr>hub_objects := AList.update i (c\<lparr>cl_pumping := False\<rparr>) (hub_objects h)\<rparr>)"

definition pump_subscribe :: "nat \<Rightarrow> subscribe_message \<Rightarrow> hub \<Rightarrow> hub" where
  "pump_subscribe i m h =
     (case map_of (hub_objects h) i of
        None \<Rightarrow> h
      | Some c \<Rightarrow> h\<lparr>hub_objects := AList.update i (handleSubscribeMessages c m) (hub_objects h)\<rparr>)"

inductive hub_step :: "(mapped \<Rightarrow> string + byte list) \<Rightarrow> hub \<Rightarrow> hub \<Rightarrow> bool" for marshal where
  step_register: "\<not> hub_panicked h \<Longrightarrow> hub_sending h = [] \<Longrightarrow> serveWs q sc h = (i, h') \<Longrightarrow>
     hub_step marshal h (hub_register marshal hello i h')"
| step_send: "\<not> hub_panicked h \<Longrightarrow> hub_send h = Some h' \<Longrightarrow> hub_step marshal h h'"
| step_unregister: "\<not> hub_panicked h \<Longrightarrow> hub_sending h = [] \<Longrightarrow> hub_step marshal h (hub_unregister i h)"
| step_broadcast: "\<not> hub_panicked h \<Longrightarrow> hub_sending h = [] \<Longrightarrow> hub_step marshal h (hub_broadcast marshal delta h)"
| step_pump: "\<not> hub_panicked h \<Longrightarrow> pump_message i h = Some h' \<Longrightarrow> hub_step marshal h h'"
| step_stop: "\<not> hub_panicked h \<Longrightarrow> hub_step marshal h (pump_stop i h)"
| step_subscribe: "\<not> hub_panicked h \<Longrightarrow> hub_step marshal h (pump_subscribe i m h)"

text \<open>
  The receiver declares a nil pointer to a delta and asks for the message to be unmarshalled into
  it; \<open>json.Unmarshal\<close> refuses a nil pointer.
\<close>

definition Unmarshal_into :: "(byte list \<Rightarrow> mapped \<Rightarrow> string + mapped) \<Rightarrow> byte list \<Rightarrow> mapped option \<Rightarrow>
    string + mapped option" where
  "Unmarshal_into decode data ptr =
     (case ptr of
        None \<Rightarrow> Inl ''InvalidUnmarshalError''
      | Some m \<Rightarrow> (case decode data m of Inl err \<Rightarrow> Inl err | Inr m' \<Rightarrow> Inr (Some m')))"

definition receive_step :: "(byte list \<Rightarrow> mapped \<Rightarrow> string + mapped) \<Rightarrow> mapped option \<Rightarrow> received \<Rightarrow>
    mapped option \<times> mapped option" where
  "receive_step decode mapped r =
     (case r of
        RecvError err \<Rightarrow> (mapped, None)
      | Received data \<Rightarrow>
          (case Unmarshal_into decode data mapped of
             Inl err \<Rightarrow> (mapped, None)
           | Inr ptr \<Rightarrow> (ptr, ptr)))"

section \<open>Lemmas: patterns\<close>

text \<open>The texts a pattern stands for: an asterisk is any text, any other character itself.\<close>

inductive glob :: "string \<Rightarrow> string \<Rightarrow> bool" where
  glob_Nil: "glob [] []"
| glob_star: "glob pattern v \<Longrightarrow> glob (CHR ''*'' # pattern) (u @ v)"
| glob_char: "p \<noteq> CHR ''*'' \<Longrightarrow> glob pattern v \<Longrightarrow> glob (p # pattern) (p # v)"

inductive_simps glob_Nil_iff [simp]: "glob [] v"
inductive_simps glob_Cons_iff: "glob (p # pattern) v"

lemma glob_star_iff:
  "glob (CHR ''*'' # pattern) subject \<longleftrightarrow>
     glob pattern subject \<or> (\<exists>s subject'. subject = s # subject' \<and> glob (CHR ''*'' # pattern) subject')"
proof
  assume "glob (CHR ''*'' # pattern) subject"
  then obtain u v where uv: "subject = u @ v" "glob pattern v" by (auto simp: glob_Cons_iff)
  then show "glob pattern subject \<or> (\<exists>s subject'. subject = s # subject' \<and> glob (CHR ''*'' # pattern) subject')"
    by (cases u) (auto intro: glob_star)
next
  assume "glob pattern subject \<or> (\<exists>s subject'. subject = s # subject' \<and> glob (CHR ''*'' # pattern) subject')"
  then show "glob (CHR ''*'' # pattern) subject"
  proof
    assume "glob pattern subject"
    from glob_star [OF this, of "[]"] show ?thesis by simp
  next
    assume "\<exists>s subject'. subject = s # subject' \<and> glob (CHR ''*'' # pattern) subject'"
    then obtain s u v where "subject = s # (u @ v)" "glob pattern v" by (auto simp: glob_Cons_iff)
    then show ?thesis using glob_star [of pattern v "s # u"] by simp
  qed
qed

lemma glob_char_iff:
  "p \<noteq> CHR ''*'' \<Longrightarrow> glob (p # pattern) subject \<longleftrightarrow> (\<exists>subject'. subject = p # subject' \<and> glob pattern subject')"
  by (auto simp: glob_Cons_iff)

lemma deepMatch_glob: "deepMatch subject pattern \<longleftrightarrow> glob pattern subject"
proof (induction subject pattern rule: deepMatch.induct)
  case (2 subject p pattern)
  show ?case
  proof (cases "p = CHR ''*''")
    case True
    then show ?thesis
      using 2 by (subst glob_star_iff [folded True]) (auto split: list.splits)
  next
    case False
    then show ?thesis
      using 2 by (auto simp: glob_char_iff split: list.splits)
  qed
qed simp

lemma isPatternMatch_glob: "isPatternMatch subject pattern \<longleftrightarrow> glob pattern subject"
  using glob_star [of "[]" "[]" subject] by (auto simp: isPatternMatch_def deepMatch_glob glob_Nil)

section \<open>Lemmas: subscriptions\<close>

definition subscribed :: "subscriptions \<Rightarrow> string \<Rightarrow> string \<Rightarrow> bool" where
  "subscribed subs context path \<longleftrightarrow>
     (case map_of subs context of None \<Rightarrow> False | Some paths \<Rightarrow> map_of paths path \<noteq> None)"

definition subs_ok :: "subscriptions \<Rightarrow> bool" where
  "subs_ok subs \<longleftrightarrow> distinct (map fst subs) \<and>
     (\<forall>context paths. map_of subs context = Some paths \<longrightarrow> paths \<noteq> [] \<and> distinct (map fst paths))"

lemma subs_ok_Nil [simp]: "subs_ok []" "\<not> subscribed [] c p"
  by (simp_all add: subs_ok_def subscribed_def)

lemma subscribe_path_ok: "subs_ok subs \<Longrightarrow> subs_ok (subscribe_path context subs path)"
  by (auto simp: subs_ok_def subscribe_path_def Let_def update_conv' distinct_update
      split: option.splits if_splits)

lemma subscribed_subscribe_path [simp]:
  "subscribed (subscribe_path context subs path) c p \<longleftrightarrow> subscribed subs c p \<or> (c = context \<and> p = path)"
  by (auto simp: subscribed_def subscribe_path_def Let_def update_conv' split: option.splits)

lemma subscribe_paths:
  "subs_ok subs \<Longrightarrow> subs_ok (foldl (subscribe_path context) subs paths)"
  "subscribed (foldl (subscribe_path context) subs paths) c p \<longleftrightarrow>
     subscribed subs c p \<or> (c = context \<and> p \<in> set paths)"
  by (induction paths arbitrary: subs) (auto simp: subscribe_path_ok)

lemma map_of_remove_paths:
  "map_of (remove_paths pattern paths) p = (if isPatternMatch p pattern then None else map_of paths p)"
proof -
  have "map_of (foldl (\<lambda>ps (path, _). if isPatternMatch path pattern then AList.delete path ps else ps) acc entries) p =
      (if p \<in> fst ` set entries \<and> isPatternMatch p pattern then None else map_of acc p)"
    for acc entries :: "(string, unit) gomap"
    by (induction entries arbitrary: acc) (auto simp: delete_conv')
  then show ?thesis
    by (auto simp: remove_paths_def map_of_eq_None_iff image_iff)
qed

lemma distinct_remove_paths: "distinct (map fst paths) \<Longrightarrow> distinct (map fst (remove_paths pattern paths))"
proof -
  have "distinct (map fst acc) \<Longrightarrow>
    distinct (map fst (foldl (\<lambda>ps (path, _). if isPatternMatch path pattern then AList.delete path ps else ps) acc entries))"
    for acc entries :: "(string, unit) gomap"
    by (induction entries arbitrary: acc) (auto simp: distinct_delete)
  then show "distinct (map fst paths) \<Longrightarrow> ?thesis" by (simp add: remove_paths_def)
qed

lemma no_entries: "xs = [] \<longleftrightarrow> (\<forall>k. map_of xs k = None)"
  by (cases xs) auto

text \<open>One entry of the loop over the contexts changes that context only.\<close>

lemma unsubscribe_context_entry:
  assumes "subs_ok subs" "map_of subs c = Some paths"
  shows "subs_ok (unsubscribe_context context pattern subs (c, paths))"
    and "map_of (unsubscribe_context context pattern subs (c, paths)) =
      (if isPatternMatch c context
       then (map_of subs)(c := (if remove_paths pattern paths = [] then None else Some (remove_paths pattern paths)))
       else map_of subs)"
proof -
  have "paths \<noteq> []" "distinct (map fst paths)" "distinct (map fst subs)"
    using assms by (auto simp: subs_ok_def)
  then show "map_of (unsubscribe_context context pattern subs (c, paths)) =
      (if isPatternMatch c context
       then (map_of subs)(c := (if remove_paths pattern paths = [] then None else Some (remove_paths pattern paths)))
       else map_of subs)"
    using assms(2) by (auto simp: unsubscribe_context_def Let_def update_conv' delete_conv')
  then have "\<forall>k ps. map_of (unsubscribe_context context pattern subs (c, paths)) k = Some ps \<longrightarrow>
      ps \<noteq> [] \<and> distinct (map fst ps)"
    using assms \<open>distinct (map fst paths)\<close> by (auto simp: subs_ok_def distinct_remove_paths split: if_splits)
  moreover have "distinct (map fst (unsubscribe_context context pattern subs (c, paths)))"
    using \<open>distinct (map fst subs)\<close>
    by (simp add: unsubscribe_context_def Let_def distinct_update distinct_delete)
  ultimately show "subs_ok (unsubscribe_context context pattern subs (c, paths))"
    by (simp add: subs_ok_def)
qed

lemma unsubscribe_contexts:
  assumes "subs_ok subs" "distinct (map fst entries)" "\<forall>(c, paths)\<in>set entries. map_of subs c = Some paths"
  shows "subs_ok (foldl (unsubscribe_context context pattern) subs entries) \<and>
    (\<forall>c p. subscribed (foldl (unsubscribe_context context pattern) subs entries) c p \<longleftrightarrow>
       subscribed subs c p \<and>
       \<not> (c \<in> fst ` set entries \<and> isPatternMatch c context \<and> isPatternMatch p pattern))"
  using assms
proof (induction entries arbitrary: subs)
  case (Cons e entries)
  obtain c paths where e: "e = (c, paths)" by (cases e)
  have c: "map_of subs c = Some paths" using Cons.prems(3) e by simp
  let ?s = "unsubscribe_context context pattern subs (c, paths)"
  note entry = unsubscribe_context_entry [OF Cons.prems(1) c, of "context" pattern]
  have "\<forall>(c, paths)\<in>set entries. map_of ?s c = Some paths"
  proof (rule ballI, clarify)
    fix c' ps assume m: "(c', ps) \<in> set entries"
    then have "c' \<noteq> c" "map_of subs c' = Some ps" using Cons.prems(2,3) e by (force, auto)
    then show "map_of ?s c' = Some ps" by (simp add: entry(2))
  qed
  from Cons.IH [OF entry(1) _ this] Cons.prems(2)
  have IH: "subs_ok (foldl (unsubscribe_context context pattern) ?s entries)"
    "\<And>c p. subscribed (foldl (unsubscribe_context context pattern) ?s entries) c p \<longleftrightarrow>
       subscribed ?s c p \<and> \<not> (c \<in> fst ` set entries \<and> isPatternMatch c context \<and> isPatternMatch p pattern)"
    by auto
  have "subscribed ?s c' p \<longleftrightarrow>
      subscribed subs c' p \<and> \<not> (c' = c \<and> isPatternMatch c context \<and> isPatternMatch p pattern)" for c' p
    using c by (auto simp: subscribed_def entry(2) map_of_remove_paths no_entries)
  then show ?case using IH e by auto
qed simp

lemma subscribed_dom: "subscribed subs c p \<Longrightarrow> c \<in> fst ` set subs"
  by (auto simp: subscribed_def split: option.splits dest!: map_of_SomeD) (metis fst_conv image_eqI)

lemma unsubscribe_path:
  assumes "subs_ok subs"
  shows "subs_ok (unsubscribe_path context subs pattern)"
    and "subscribed (unsubscribe_path context subs pattern) c p \<longleftrightarrow>
      subscribed subs c p \<and> \<not> (isPatternMatch c context \<and> isPatternMatch p pattern)"
proof -
  have "distinct (map fst subs)" "\<forall>(c, paths)\<in>set subs. map_of subs c = Some paths"
    using assms by (auto simp: subs_ok_def)
  from unsubscribe_contexts [OF assms this, of "context" pattern]
  show "subs_ok (unsubscribe_path context subs pattern)"
    "subscribed (unsubscribe_path context subs pattern) c p \<longleftrightarrow>
      subscribed subs c p \<and> \<not> (isPatternMatch c context \<and> isPatternMatch p pattern)"
    using subscribed_dom by (auto simp: unsubscribe_path_def)
qed

lemma unsubscribe_paths:
  assumes "subs_ok subs"
  shows "subs_ok (foldl (unsubscribe_path context) subs patterns) \<and>
    (\<forall>c p. subscribed (foldl (unsubscribe_path context) subs patterns) c p \<longleftrightarrow>
      subscribed subs c p \<and> \<not> (isPatternMatch c context \<and> (\<exists>q\<in>set patterns. isPatternMatch p q)))"
  using assms by (induction patterns arbitrary: subs) (auto simp: unsubscribe_path)

definition client_subs :: "client \<Rightarrow> subscriptions" where
  "client_subs c = (case cl_subscriptions c of None \<Rightarrow> [] | Some subs \<Rightarrow> subs)"

lemma handleSubscribeMessages_subs:
  "client_subs (handleSubscribeMessages c m) =
     foldl (unsubscribe_path (message_context c m))
       (foldl (subscribe_path (message_context c m)) (client_subs c) (sm_Subscribe m)) (sm_Unsubscribe m)"
  by (simp add: handleSubscribeMessages_def client_subs_def Let_def)

lemma handleSubscribeMessages_ok: "subs_ok (client_subs c) \<Longrightarrow> subs_ok (client_subs (handleSubscribeMessages c m))"
  by (simp add: handleSubscribeMessages_subs subscribe_paths unsubscribe_paths)

lemma handleSubscribeMessages_other [simp]:
  "cl_send (handleSubscribeMessages c m) = cl_send c"
  "cl_closed (handleSubscribeMessages c m) = cl_closed c"
  "cl_pumping (handleSubscribeMessages c m) = cl_pumping c"
  "cl_self (handleSubscribeMessages c m) = cl_self c"
  by (simp_all add: handleSubscribeMessages_def Let_def)

lemma isSubscribedTo_iff:
  assumes "subs_ok (client_subs c)"
  shows "isSubscribedTo c m \<longleftrightarrow>
    (\<exists>context path u v. subscribed (client_subs c) context path \<and> isPatternMatch (m_Context m) context \<and>
       u \<in> set (m_Updates m) \<and> v \<in> set (upd_Values u) \<and> isPatternMatch (val_Path v) path)"
proof -
  have d: "distinct (map fst (client_subs c))" using assms by (simp add: subs_ok_def)
  have u: "(path, ()) \<in> set paths \<longleftrightarrow> map_of paths path \<noteq> None" for path and paths :: "(string, unit) gomap"
    by (force simp: map_of_eq_None_iff image_iff)
  have "(\<exists>paths. (con, paths) \<in> set (client_subs c) \<and> (path, ()) \<in> set paths) \<longleftrightarrow>
      subscribed (client_subs c) con path" for con path
    unfolding subscribed_def u map_of_eq_Some_iff [OF d, symmetric] by (auto split: option.splits)
  then show ?thesis
    by (fastforce simp: isSubscribedTo_def client_subs_def list_ex_iff split: option.splits)
qed

declare map_of_eq_Some_iff [simp del] Some_eq_map_of_iff [simp del]

section \<open>Lemmas: the cache\<close>

definition cache_look :: "(string, (string, mapped) gomap) gomap \<Rightarrow> string \<times> string \<Rightarrow> mapped option" where
  "cache_look content = (\<lambda>(c, p). case map_of content c of None \<Rightarrow> None | Some paths \<Rightarrow> map_of paths p)"

definition cache_ok :: "(string, (string, mapped) gomap) gomap \<Rightarrow> bool" where
  "cache_ok content \<longleftrightarrow> distinct (map fst content) \<and> (\<forall>(c, paths)\<in>set content. distinct (map fst paths))"

text \<open>The values of a delta, one after another, under their contexts and paths.\<close>

definition delta_entries :: "mapped \<Rightarrow> ((string \<times> string) \<times> mapped) list" where
  "delta_entries m =
     concat (map (\<lambda>u. map (\<lambda>v. ((m_Context m, val_Path v), single_delta m u v)) (upd_Values u)) (m_Updates m))"

lemma cache_ok_iff:
  "cache_ok content \<longleftrightarrow> distinct (map fst content) \<and>
     (\<forall>c paths. map_of content c = Some paths \<longrightarrow> distinct (map fst paths))"
  by (auto simp: cache_ok_def map_of_eq_Some_iff)

lemma put_delta_look: "cache_look (put_delta c p m content) = (cache_look content)((c, p) \<mapsto> m)"
  by (rule ext, cases "map_of content c")
    (simp_all add: cache_look_def put_delta_def update_conv' split: prod.splits)

lemma put_delta_ok: "cache_ok content \<Longrightarrow> cache_ok (put_delta c p m content)"
  by (auto simp: cache_ok_iff put_delta_def update_conv' distinct_update split: option.splits)

lemma foldl_concat: "foldl (\<lambda>acc u. foldl f acc (g u)) acc us = foldl f acc (concat (map g us))"
  by (induction us arbitrary: acc) simp_all

lemma foldl_put_delta:
  "cache_look (foldl (\<lambda>content (k, m). put_delta (fst k) (snd k) m content) content kms) =
     cache_look content ++ map_of (rev kms)"
  "cache_ok content \<Longrightarrow> cache_ok (foldl (\<lambda>content (k, m). put_delta (fst k) (snd k) m content) content kms)"
  by (induction kms arbitrary: content) (auto simp: put_delta_look put_delta_ok map_add_assoc)

definition cache_content :: "ws_cache \<Rightarrow> (string, (string, mapped) gomap) gomap" where
  "cache_content cache = (case cache of None \<Rightarrow> [] | Some content \<Rightarrow> content)"

lemma injectOrUpdate_entries:
  obtains content where
    "cache_look content = cache_look (cache_content cache)"
    "cache_ok (cache_content cache) \<Longrightarrow> cache_ok content"
    "cache_content (injectOrUpdate cache m) =
       foldl (\<lambda>content (k, m). put_delta (fst k) (snd k) m content) content (delta_entries m)"
proof
  let ?content = "if map_of (cache_content cache) (m_Context m) = None
    then AList.update (m_Context m) [] (cache_content cache) else cache_content cache"
  show "cache_look ?content = cache_look (cache_content cache)"
    by (rule ext) (auto simp: cache_look_def update_conv')
  show "cache_ok (cache_content cache) \<Longrightarrow> cache_ok ?content"
    by (simp add: cache_ok_iff update_conv' distinct_update)
  have foldl_map_pair: "foldl (\<lambda>content v. put_delta (m_Context m) (val_Path v) (single_delta m u v) content) acc vs =
      foldl (\<lambda>content (k, m). put_delta (fst k) (snd k) m content) acc
        (map (\<lambda>v. ((m_Context m, val_Path v), single_delta m u v)) vs)" for u vs acc
    by (simp add: foldl_map)
  show "cache_content (injectOrUpdate cache m) =
       foldl (\<lambda>content (k, m). put_delta (fst k) (snd k) m content) ?content (delta_entries m)"
    unfolding delta_entries_def injectOrUpdate_def Let_def foldl_map_pair foldl_concat
    by (simp add: cache_content_def)
qed

lemma injectOrUpdate_look:
  "cache_look (cache_content (injectOrUpdate cache m)) =
     cache_look (cache_content cache) ++ map_of (rev (delta_entries m))"
  by (rule injectOrUpdate_entries [of cache m]) (simp add: foldl_put_delta)

lemma injectOrUpdate_ok:
  "cache_ok (cache_content cache) \<Longrightarrow> cache_ok (cache_content (injectOrUpdate cache m))"
  by (rule injectOrUpdate_entries [of cache m]) (simp add: foldl_put_delta)

lemma foldl_injectOrUpdate:
  "cache_look (cache_content (foldl injectOrUpdate cache ds)) =
     cache_look (cache_content cache) ++ map_of (rev (concat (map delta_entries ds)))"
  "cache_ok (cache_content cache) \<Longrightarrow> cache_ok (cache_content (foldl injectOrUpdate cache ds))"
  by (induction ds arbitrary: cache) (auto simp: injectOrUpdate_look injectOrUpdate_ok map_add_assoc)

lemma set_retrieveAll:
  assumes "cache_ok (cache_content cache)"
  shows "set (retrieveAll cache) = ran (cache_look (cache_content cache))"
proof -
  have a: "(c, paths) \<in> set (cache_content cache) \<longleftrightarrow> map_of (cache_content cache) c = Some paths" for c paths
    using assms by (simp add: cache_ok_def map_of_eq_Some_iff)
  have b: "(p, m) \<in> set paths \<longleftrightarrow> map_of paths p = Some m"
    if "map_of (cache_content cache) c = Some paths" for c p m paths
    using assms that by (simp add: cache_ok_iff map_of_eq_Some_iff)
  have "retrieveAll cache = concat (map (\<lambda>(c, paths). map snd paths) (cache_content cache))"
    by (simp add: retrieveAll_def cache_content_def split: option.split)
  then have "m \<in> set (retrieveAll cache) \<longleftrightarrow>
      (\<exists>c paths p. (c, paths) \<in> set (cache_content cache) \<and> (p, m) \<in> set paths)" for m
    by force
  then have "m \<in> set (retrieveAll cache) \<longleftrightarrow>
      (\<exists>c paths p. map_of (cache_content cache) c = Some paths \<and> map_of paths p = Some m)" for m
    unfolding a using b by blast
  moreover have c: "cache_look (cache_content cache) (c, p) = Some m \<longleftrightarrow>
      (\<exists>paths. map_of (cache_content cache) c = Some paths \<and> map_of paths p = Some m)" for c p m
    by (simp add: cache_look_def split: option.splits)
  have "m \<in> ran (cache_look (cache_content cache)) \<longleftrightarrow>
      (\<exists>c paths p. map_of (cache_content cache) c = Some paths \<and> map_of paths p = Some m)" for m
    by (auto simp: ran_def c)
  ultimately show ?thesis by blast
qed

section \<open>Lemmas: the hub\<close>

definition hub_inv :: "hub \<Rightarrow> bool" where
  "hub_inv h \<longleftrightarrow> \<not> hub_panicked h \<and> distinct (map fst (hub_clients h)) \<and>
     (\<forall>i b. map_of (hub_clients h) i = Some b \<longrightarrow>
        (\<exists>c. map_of (hub_objects h) i = Some c \<and> \<not> cl_closed c)) \<and>
     (\<forall>i c. map_of (hub_objects h) i = Some c \<longrightarrow>
        length (cl_send c) \<le> send_capacity \<and> i < hub_next h \<and> subs_ok (client_subs c)) \<and>
     (\<forall>(i, m)\<in>set (hub_sending h). map_of (hub_clients h) i \<noteq> None)"

text \<open>What a broadcast does to an open, registered client.\<close>

definition delivered :: "byte list \<Rightarrow> mapped \<Rightarrow> client \<Rightarrow> client" where
  "delivered m delta c =
     (if \<not> isSubscribedTo c delta then c
      else if length (cl_send c) < send_capacity then c\<lparr>cl_send := cl_send c @ [m]\<rparr>
      else c\<lparr>cl_closed := True\<rparr>)"

definition overflows :: "mapped \<Rightarrow> client \<Rightarrow> bool" where
  "overflows delta c \<longleftrightarrow> isSubscribedTo c delta \<and> \<not> length (cl_send c) < send_capacity"

lemma broadcast_client_open:
  assumes "map_of (hub_objects h) i = Some c" "\<not> cl_closed c"
  shows "map_of (hub_objects (broadcast_client marshal delta h (i, b))) =
      (map_of (hub_objects h))(i \<mapsto> delivered (payload marshal delta) delta c)"
    "hub_clients (broadcast_client marshal delta h (i, b)) =
      (if overflows delta c then AList.delete i (hub_clients h) else hub_clients h)"
    "hub_panicked (broadcast_client marshal delta h (i, b)) = hub_panicked h"
    "hub_next (broadcast_client marshal delta h (i, b)) = hub_next h"
    "hub_sending (broadcast_client marshal delta h (i, b)) = hub_sending h"
    "hub_cache (broadcast_client marshal delta h (i, b)) = hub_cache h"
  using assms
  by (auto simp: broadcast_client_def push_send_def close_send_def delivered_def overflows_def update_conv'
      fun_upd_idem)

lemma broadcast_clients:
  assumes "distinct (map fst entries)"
    and "\<forall>(i, b)\<in>set entries. \<exists>c. map_of (hub_objects h) i = Some c \<and> \<not> cl_closed c"
    and "distinct (map fst (hub_clients h))"
    and h': "h' = foldl (broadcast_client marshal delta) h entries"
  shows "(\<forall>i. map_of (hub_objects h') i =
        (if i \<in> fst ` set entries
         then map_option (delivered (payload marshal delta) delta) (map_of (hub_objects h) i)
         else map_of (hub_objects h) i)) \<and>
      (\<forall>i. map_of (hub_clients h') i =
        (if i \<in> fst ` set entries \<and> overflows delta (the (map_of (hub_objects h) i)) then None
         else map_of (hub_clients h) i)) \<and>
      distinct (map fst (hub_clients h')) \<and>
      hub_panicked h' = hub_panicked h \<and> hub_next h' = hub_next h \<and> hub_sending h' = hub_sending h \<and>
      hub_cache h' = hub_cache h"
  using assms(1-3) unfolding h'
proof (induction entries arbitrary: h)
  case (Cons e entries)
  obtain i b where e: "e = (i, b)" by (cases e)
  obtain c where c: "map_of (hub_objects h) i = Some c" "\<not> cl_closed c" using Cons.prems(2) e by auto
  let ?h = "broadcast_client marshal delta h (i, b)"
  note eff = broadcast_client_open [OF c, of marshal delta b]
  have i: "i \<notin> fst ` set entries" using Cons.prems(1) e by simp
  have "\<forall>(j, b)\<in>set entries. \<exists>c. map_of (hub_objects ?h) j = Some c \<and> \<not> cl_closed c"
  proof (rule ballI, clarify)
    fix j b' assume j: "(j, b') \<in> set entries"
    then have "j \<noteq> i" using i by force
    with j Cons.prems(2) show "\<exists>c. map_of (hub_objects ?h) j = Some c \<and> \<not> cl_closed c"
      by (auto simp: eff)
  qed
  moreover have "distinct (map fst (hub_clients ?h))"
    using Cons.prems(3) by (simp add: eff distinct_delete)
  moreover have "distinct (map fst entries)" using Cons.prems(1) by simp
  ultimately show ?case
    using Cons.IH [of ?h] i c by (auto simp: e eff delete_conv')
qed simp

lemma hub_inv_object:
  assumes "hub_inv h" "map_of (hub_objects h) i = Some c"
    and "cl_closed c' = cl_closed c" "length (cl_send c') \<le> send_capacity" "subs_ok (client_subs c')"
  shows "hub_inv (h\<lparr>hub_objects := AList.update i c' (hub_objects h)\<rparr>)"
  using assms unfolding hub_inv_def by (auto simp: update_conv')

lemma client_subs_update [simp]:
  "client_subs (c\<lparr>cl_send := q\<rparr>) = client_subs c" "client_subs (c\<lparr>cl_closed := b\<rparr>) = client_subs c"
  "client_subs (c\<lparr>cl_pumping := b\<rparr>) = client_subs c"
  "client_subs (c\<lparr>cl_sendCachedValues := b\<rparr>) = client_subs c"
  by (simp_all add: client_subs_def)

lemma NewClient_simps [simp]:
  "cl_send NewClient = []" "\<not> cl_closed NewClient" "client_subs NewClient = []" "cl_self NewClient = []"
  by (simp_all add: NewClient_def client_subs_def)

lemma initial_subscription_simps [simp]:
  "cl_send (initial_subscription q h c) = cl_send c" "cl_closed (initial_subscription q h c) = cl_closed c"
  "cl_self (initial_subscription q h c) = cl_self c"
  "subs_ok (client_subs c) \<Longrightarrow> subs_ok (client_subs (initial_subscription q h c))"
  by (simp_all add: initial_subscription_def handleSubscribeMessages_ok)

lemma hub_inv_register:
  assumes "hub_inv h" "serveWs q sc h = (i, h')"
  shows "hub_inv (hub_register marshal hello i h')"
proof -
  have i: "i = hub_next h" and new: "map_of (hub_clients h) (hub_next h) = None"
    using assms by (auto simp: serveWs_def Let_def hub_inv_def) (metis not_None_eq less_irrefl)
  show ?thesis
    using assms new unfolding serveWs_def Let_def
    by (auto simp: hub_inv_def hub_register_def update_conv' distinct_update send_capacity_def less_SucI split: if_splits)
qed

lemma hub_inv_send:
  assumes "hub_inv h" "hub_send h = Some h'"
  shows "hub_inv h'"
proof -
  obtain i m rest where s: "hub_sending h = (i, m) # rest"
    using assms(2) by (auto simp: hub_send_def split: list.splits)
  then have "map_of (hub_clients h) i \<noteq> None" using assms(1) by (auto simp: hub_inv_def)
  then obtain c where c: "map_of (hub_objects h) i = Some c" "\<not> cl_closed c"
    using assms(1) by (auto simp: hub_inv_def)
  then have "length (cl_send c) < send_capacity"
    and h': "h' = (push_send i c m h)\<lparr>hub_sending := rest\<rparr>"
    using assms(2) s by (auto simp: hub_send_def split: if_splits)
  then have "hub_inv (push_send i c m h)"
    using assms(1) c by (auto simp: push_send_def hub_inv_def update_conv')
  then show ?thesis using s assms(1) h' c(2) by (auto simp: hub_inv_def push_send_def)
qed

lemma hub_inv_unregister:
  assumes "hub_inv h" "hub_sending h = []"
  shows "hub_inv (hub_unregister i h)"
  using assms
  by (auto simp: hub_unregister_def close_send_def hub_inv_def update_conv' delete_conv' distinct_delete
      split: option.splits)

lemma hub_broadcast_effect:
  assumes "hub_inv h" and h': "h' = hub_broadcast marshal delta h"
  shows "map_of (hub_objects h') i =
      (if map_of (hub_clients h) i \<noteq> None
       then map_option (delivered (payload marshal delta) delta) (map_of (hub_objects h) i)
       else map_of (hub_objects h) i)"
    and "map_of (hub_clients h') i =
      (if overflows delta (the (map_of (hub_objects h) i)) then None else map_of (hub_clients h) i)"
    and "distinct (map fst (hub_clients h'))" "\<not> hub_panicked h'" "hub_next h' = hub_next h"
      "hub_sending h' = hub_sending h" "hub_cache h' = injectOrUpdate (hub_cache h) delta"
proof -
  let ?h = "h\<lparr>hub_cache := injectOrUpdate (hub_cache h) delta\<rparr>"
  have d: "distinct (map fst (hub_clients h))" using assms(1) by (simp add: hub_inv_def)
  have "\<forall>(i, b)\<in>set (hub_clients h). \<exists>c. map_of (hub_objects ?h) i = Some c \<and> \<not> cl_closed c"
    using assms(1) d by (auto simp: hub_inv_def)
  note eff = broadcast_clients [OF d this _ h' [unfolded hub_broadcast_def]]
  have dom: "i \<in> fst ` set (hub_clients h) \<longleftrightarrow> map_of (hub_clients h) i \<noteq> None" for i
    by (simp add: map_of_eq_None_iff)
  show "map_of (hub_objects h') i =
      (if map_of (hub_clients h) i \<noteq> None
       then map_option (delivered (payload marshal delta) delta) (map_of (hub_objects h) i)
       else map_of (hub_objects h) i)"
    "map_of (hub_clients h') i =
      (if overflows delta (the (map_of (hub_objects h) i)) then None else map_of (hub_clients h) i)"
    "distinct (map fst (hub_clients h'))" "\<not> hub_panicked h'" "hub_next h' = hub_next h"
    "hub_sending h' = hub_sending h" "hub_cache h' = injectOrUpdate (hub_cache h) delta"
    using eff d assms(1) by (auto simp: dom hub_inv_def)
qed

lemma delivered_simps [simp]:
  "client_subs (delivered m delta c) = client_subs c"
  "length (cl_send c) \<le> send_capacity \<Longrightarrow> length (cl_send (delivered m delta c)) \<le> send_capacity"
  "\<not> cl_closed c \<Longrightarrow> cl_closed (delivered m delta c) \<longleftrightarrow> overflows delta c"
  by (auto simp: delivered_def overflows_def)

lemma hub_inv_broadcast:
  assumes "hub_inv h" "hub_sending h = []"
  shows "hub_inv (hub_broadcast marshal delta h)"
proof -
  note eff = hub_broadcast_effect [OF assms(1) refl, of marshal delta]
  have "\<exists>c. map_of (hub_objects (hub_broadcast marshal delta h)) i = Some c \<and> \<not> cl_closed c"
    if "map_of (hub_clients (hub_broadcast marshal delta h)) i = Some b" for i b
    using that assms(1) by (auto simp: eff hub_inv_def split: if_splits)
  moreover have "length (cl_send c) \<le> send_capacity \<and> i < hub_next h \<and> subs_ok (client_subs c)"
    if "map_of (hub_objects (hub_broadcast marshal delta h)) i = Some c" for i c
    using that assms(1) by (auto simp: eff hub_inv_def split: if_splits)
  ultimately show ?thesis using assms(2) by (simp add: hub_inv_def eff)
qed

lemma hub_inv_step: "hub_step marshal h h' \<Longrightarrow> hub_inv h \<Longrightarrow> hub_inv h'"
proof (induction rule: hub_step.induct)
  case (step_pump h i h')
  then obtain c where c: "map_of (hub_objects h) i = Some c"
    and h': "h' = h\<lparr>hub_objects := AList.update i (c\<lparr>cl_send := tl (cl_send c)\<rparr>) (hub_objects h)\<rparr>"
    by (auto simp: pump_message_def split: option.splits if_splits)
  have "length (cl_send c) \<le> send_capacity" "subs_ok (client_subs c)"
    using step_pump.prems c by (auto simp: hub_inv_def)
  then show ?case unfolding h' by (intro hub_inv_object [OF step_pump.prems c]) auto
next
  case (step_stop h i)
  show ?case
  proof (cases "map_of (hub_objects h) i")
    case (Some c)
    then have "length (cl_send c) \<le> send_capacity" "subs_ok (client_subs c)"
      using step_stop.prems by (auto simp: hub_inv_def)
    then show ?thesis unfolding pump_stop_def Some option.case
      by (intro hub_inv_object [OF step_stop.prems Some]) auto
  qed (simp add: pump_stop_def step_stop.prems)
next
  case (step_subscribe h i m)
  show ?case
  proof (cases "map_of (hub_objects h) i")
    case (Some c)
    then have "length (cl_send c) \<le> send_capacity" "subs_ok (client_subs c)"
      using step_subscribe.prems by (auto simp: hub_inv_def)
    then show ?thesis unfolding pump_subscribe_def Some option.case
      by (intro hub_inv_object [OF step_subscribe.prems Some]) (auto simp: handleSubscribeMessages_ok)
  qed (simp add: pump_subscribe_def step_subscribe.prems)
qed (auto intro: hub_inv_register hub_inv_send hub_inv_unregister hub_inv_broadcast)

lemma hub_inv_new: "hub_inv (NewWebsocketWriter self)"
  by (simp add: hub_inv_def NewWebsocketWriter_def)

lemma hub_inv_reachable: "(hub_step marshal)\<^sup>*\<^sup>* (NewWebsocketWriter self) h \<Longrightarrow> hub_inv h"
  by (induction rule: rtranclp_induct) (auto intro: hub_inv_new hub_inv_step)

text \<open>The hub waits for a full channel that nobody reads.\<close>

definition hub_waits :: "nat \<Rightarrow> hub \<Rightarrow> bool" where
  "hub_waits i h \<longleftrightarrow>
     (\<exists>m rest c. hub_sending h = (i, m) # rest \<and> map_of (hub_objects h) i = Some c \<and>
        \<not> cl_closed c \<and> \<not> cl_pumping c \<and> length (cl_send c) = send_capacity)"

lemma hub_waits_step:
  assumes "hub_step marshal h h'" "hub_waits i h"
  shows "hub_waits i h' \<and> hub_sending h' = hub_sending h \<and> hub_clients h' = hub_clients h \<and>
    hub_cache h' = hub_cache h"
proof -
  obtain m rest c where w: "hub_sending h = (i, m) # rest" "map_of (hub_objects h) i = Some c"
    "\<not> cl_closed c" "\<not> cl_pumping c" "length (cl_send c) = send_capacity"
    using assms(2) by (auto simp: hub_waits_def)
  from assms(1) show ?thesis
  proof (cases rule: hub_step.cases)
    case step_send
    then show ?thesis using w by (simp add: hub_send_def)
  next
    case (step_pump j)
    then show ?thesis
      using w by (auto simp: pump_message_def hub_waits_def update_conv' split: option.splits if_splits)
  next
    case (step_stop j)
    then show ?thesis
      using w by (cases "map_of (hub_objects h) j") (auto simp: pump_stop_def hub_waits_def update_conv')
  next
    case (step_subscribe j m)
    then show ?thesis
      using w by (cases "map_of (hub_objects h) j") (auto simp: pump_subscribe_def hub_waits_def update_conv')
  qed (use w in simp_all)
qed

section \<open>Properties\<close>

text \<open>C3: A pattern matches exactly the texts it stands for: an asterisk matches any text, also an
  empty one, every other character itself. The matcher, with its two shortcuts, decides this.\<close>

theorem pattern_match_glob: "isPatternMatch subject pattern \<longleftrightarrow> glob pattern subject"
  by (rule isPatternMatch_glob)

text \<open>The specification of subscriptions: a set of pairs of a context pattern and a path pattern.\<close>

definition spec_context :: "string \<Rightarrow> subscribe_message \<Rightarrow> string" where
  "spec_context self m = (if sm_Context m = ''vessels.self'' then self else sm_Context m)"

definition spec_handle :: "string \<Rightarrow> (string \<times> string) set \<Rightarrow> subscribe_message \<Rightarrow> (string \<times> string) set" where
  "spec_handle self pairs m =
     {(c, p) \<in> pairs \<union> {spec_context self m} \<times> set (sm_Subscribe m).
        \<not> (glob (spec_context self m) c \<and> (\<exists>q\<in>set (sm_Unsubscribe m). glob q p))}"

lemma handle_spec:
  assumes "subs_ok (client_subs c)" "{(x, p). subscribed (client_subs c) x p} = pairs"
  shows "{(x, p). subscribed (client_subs (handleSubscribeMessages c m)) x p} = spec_handle (cl_self c) pairs m"
proof -
  have k: "message_context c m = spec_context (cl_self c) m"
    by (simp add: message_context_def spec_context_def)
  have ok: "subs_ok (foldl (subscribe_path (message_context c m)) (client_subs c) (sm_Subscribe m))"
    using assms(1) by (rule subscribe_paths(1))
  show ?thesis
    unfolding handleSubscribeMessages_subs using unsubscribe_paths [OF ok] assms(2)
    by (auto simp: spec_handle_def subscribe_paths(2) isPatternMatch_glob k)
qed

lemma handle_run_spec:
  assumes "subs_ok (client_subs c)" "{(x, p). subscribed (client_subs c) x p} = pairs"
  shows "subs_ok (client_subs (foldl handleSubscribeMessages c ms)) \<and>
    {(x, p). subscribed (client_subs (foldl handleSubscribeMessages c ms)) x p} =
      foldl (spec_handle (cl_self c)) pairs ms"
  using assms
proof (induction ms arbitrary: c pairs)
  case (Cons m ms)
  from Cons.IH [OF handleSubscribeMessages_ok [OF Cons.prems(1)] handle_spec [OF Cons.prems]]
  show ?case by simp
qed simp

text \<open>C2: A client gets exactly what it subscribed to. After any sequence of subscribe messages, it
  is subscribed to a delta if and only if some pair of patterns of the specification is matched by
  the delta's context and the path of one of its values; in the specification, a message first
  adds its pairs and then removes every pair whose context matches the message's context and whose
  path matches one of its unsubscribed paths.\<close>

theorem subscriptions_exact:
  "isSubscribedTo (foldl handleSubscribeMessages (NewClient\<lparr>cl_self := self\<rparr>) ms) delta \<longleftrightarrow>
     (\<exists>(c, p) \<in> foldl (spec_handle self) {} ms. glob c (m_Context delta) \<and>
        (\<exists>u\<in>set (m_Updates delta). \<exists>v\<in>set (upd_Values u). glob p (val_Path v)))"
proof -
  have "client_subs (NewClient\<lparr>cl_self := self\<rparr>) = []" by (simp add: client_subs_def NewClient_def)
  with handle_run_spec [of "NewClient\<lparr>cl_self := self\<rparr>" "{}" ms]
  have "subs_ok (client_subs (foldl handleSubscribeMessages (NewClient\<lparr>cl_self := self\<rparr>) ms))"
    and s: "foldl (spec_handle self) {} ms =
      {(x, p). subscribed (client_subs (foldl handleSubscribeMessages (NewClient\<lparr>cl_self := self\<rparr>) ms)) x p}"
    by simp_all
  from isSubscribedTo_iff [OF this(1)] show ?thesis
    unfolding s by (fastforce simp: isPatternMatch_glob)
qed

text \<open>Subscribing to one's own vessel selects nothing. The context of a client is never set
  when a connection is served, so a subscription for \<open>vessels.self\<close> covers only deltas whose
  context is empty.\<close>

theorem self_subscription_empty:
  assumes "m_Context delta \<noteq> []"
  shows "\<not> isSubscribedTo (handleSubscribeMessages (NewClient\<lparr>cl_sendCachedValues := b\<rparr>)
    \<lparr>sm_Context = ''vessels.self'', sm_Subscribe = paths, sm_Unsubscribe = []\<rparr>) delta"
proof -
  let ?c = "NewClient\<lparr>cl_sendCachedValues := b\<rparr>"
  let ?m = "\<lparr>sm_Context = ''vessels.self'', sm_Subscribe = paths, sm_Unsubscribe = []\<rparr>"
  have k: "message_context ?c ?m = []" by (simp add: message_context_def NewClient_def)
  have "subs_ok (client_subs (handleSubscribeMessages ?c ?m))"
    by (intro handleSubscribeMessages_ok) simp
  moreover have "subscribed (client_subs (handleSubscribeMessages ?c ?m)) x p \<Longrightarrow> x = []" for x p
    by (simp add: handleSubscribeMessages_subs subscribe_paths(2) k)
  ultimately show ?thesis
    using assms by (auto simp: isSubscribedTo_iff isPatternMatch_def)
qed

definition own_delta :: mapped where
  "own_delta =
     \<lparr>m_Context = ''vessels.urn:mrn:imo:mmsi:1'', m_Origin = [],
      m_Updates = [\<lparr>upd_Source = NewSource, upd_Timestamp = 0,
        upd_Values = [\<lparr>val_Path = ''p'', val_Value = GNil\<rparr>]\<rparr>]\<rparr>"

theorem self_subscription_empty_witness:
  "\<not> isSubscribedTo (handleSubscribeMessages (NewClient\<lparr>cl_sendCachedValues := True\<rparr>)
     \<lparr>sm_Context = ''vessels.self'', sm_Subscribe = [''*''], sm_Unsubscribe = []\<rparr>) own_delta"
  by (rule self_subscription_empty) (simp add: own_delta_def)

text \<open>The cache holds the last value of every context and path. After any sequence of deltas,
  what it returns is exactly, for every context and path that occurred, the single-value delta of the
  value that occurred last.\<close>

theorem ws_cache_latest:
  "set (retrieveAll (foldl injectOrUpdate None ds)) = ran (map_of (rev (concat (map delta_entries ds))))"
proof -
  have "cache_ok (cache_content None)" by (simp add: cache_ok_def cache_content_def)
  moreover have "cache_look (cache_content None) = Map.empty"
    by (rule ext) (auto simp: cache_look_def cache_content_def)
  ultimately show ?thesis
    by (simp add: set_retrieveAll foldl_injectOrUpdate)
qed

text \<open>C1: The hub is safe. In every state that connections, subscriptions, deltas, closing
  connections and the pumps can reach, in any interleaving, the program has not panicked: the hub
  never sends on a closed channel and closes no channel twice. A registered client's channel is open,
  and no channel holds more than its capacity.\<close>

theorem hub_safe:
  assumes "(hub_step marshal)\<^sup>*\<^sup>* (NewWebsocketWriter self) h"
  shows "\<not> hub_panicked h \<and>
    (\<forall>i b. map_of (hub_clients h) i = Some b \<longrightarrow>
       (\<exists>c. map_of (hub_objects h) i = Some c \<and> \<not> cl_closed c)) \<and>
    (\<forall>i c. map_of (hub_objects h) i = Some c \<longrightarrow> length (cl_send c) \<le> send_capacity)"
  using hub_inv_reachable [OF assms] by (simp add: hub_inv_def)

theorem hub_safe_witness:
  "\<not> hub_panicked (hub_register (\<lambda>_. Inl []) [1] 0 (snd (serveWs ''all'' [] (NewWebsocketWriter ''s''))))"
proof -
  have "hub_step (\<lambda>_. Inl []) (NewWebsocketWriter ''s'')
      (hub_register (\<lambda>_. Inl []) [1] 0 (snd (serveWs ''all'' [] (NewWebsocketWriter ''s''))))"
    by (rule step_register [where q = "''all''" and sc = "[]"]) (simp_all add: NewWebsocketWriter_def serveWs_def Let_def)
  from hub_safe [OF r_into_rtranclp, OF this] show ?thesis by simp
qed

text \<open>C13: A broadcast reaches exactly the subscribed clients. In a reachable state, a delta that arrives is appended once to the channel of every registered client that
  is subscribed to it and has room; a subscribed client without room is closed and forgotten; every
  other client, and every other message of a channel, is untouched.\<close>

theorem hub_broadcast_exact:
  assumes "(hub_step marshal)\<^sup>*\<^sup>* (NewWebsocketWriter self) h"
    and "map_of (hub_objects h) i = Some c"
    and "h' = hub_broadcast marshal delta h"
  shows "(if map_of (hub_clients h) i = None \<or> \<not> isSubscribedTo c delta
      then map_of (hub_objects h') i = Some c \<and> map_of (hub_clients h') i = map_of (hub_clients h) i
      else if length (cl_send c) < send_capacity
      then map_of (hub_objects h') i = Some (c\<lparr>cl_send := cl_send c @ [payload marshal delta]\<rparr>) \<and>
        map_of (hub_clients h') i = map_of (hub_clients h) i
      else map_of (hub_objects h') i = Some (c\<lparr>cl_closed := True\<rparr>) \<and> map_of (hub_clients h') i = None)"
  using hub_broadcast_effect [OF hub_inv_reachable [OF assms(1)] assms(3)] assms(2)
  by (auto simp: delivered_def overflows_def)

theorem hub_broadcast_exact_witness:
  "\<exists>h c. map_of (hub_objects h) 0 = Some c \<and>
     map_of (hub_objects (hub_broadcast (\<lambda>_. Inr [7]) own_delta h)) 0 = Some (c\<lparr>cl_send := cl_send c @ [[7]]\<rparr>)"
proof -
  let ?w = "NewWebsocketWriter ''s''"
  let ?h = "hub_register (\<lambda>_. Inr [7]) [1] 0 (snd (serveWs ''all'' [] ?w))"
  have "hub_step (\<lambda>_. Inr [7]) ?w ?h"
    by (rule step_register [where q = "''all''" and sc = "[]"]) (simp_all add: NewWebsocketWriter_def serveWs_def Let_def)
  then have r: "(hub_step (\<lambda>_. Inr [7]))\<^sup>*\<^sup>* ?w ?h" by (rule r_into_rtranclp)
  obtain c where c: "map_of (hub_objects ?h) 0 = Some c"
    by (simp add: hub_register_def serveWs_def Let_def NewWebsocketWriter_def)
  then have "cl_subscriptions c = Some [(''*'', [(''*'', ())])]" "cl_send c = []"
    by (auto simp: hub_register_def serveWs_def Let_def NewWebsocketWriter_def initial_subscription_def NewClient_def
        handleSubscribeMessages_def message_context_def subscribe_path_def)
  then have "isSubscribedTo c own_delta" "length (cl_send c) < send_capacity"
    by (simp_all add: isSubscribedTo_def own_delta_def isPatternMatch_def send_capacity_def)
  moreover have "map_of (hub_clients ?h) 0 = Some True"
    by (simp add: hub_register_def serveWs_def Let_def NewWebsocketWriter_def)
  ultimately show ?thesis
    using hub_broadcast_exact [OF r c refl, of own_delta] c by (intro exI [of _ ?h] exI [of _ c]) (simp add: payload_def)
qed

text \<open>C32: A client that stops reading can stop the hub. When the hub is sending cached deltas to a
  client whose channel is full and whose write pump has returned, then nothing that can happen
  afterwards lets it go on: it keeps waiting to send the same message, and no client is registered or
  unregistered and no delta handled ever again.\<close>

theorem hub_blocked_forever:
  assumes "hub_waits i h" "(hub_step marshal)\<^sup>*\<^sup>* h h'"
  shows "hub_sending h' = hub_sending h \<and> hub_sending h' \<noteq> [] \<and> hub_clients h' = hub_clients h \<and>
    hub_cache h' = hub_cache h"
proof -
  from assms(2) have "hub_waits i h' \<and> hub_sending h' = hub_sending h \<and> hub_clients h' = hub_clients h \<and>
      hub_cache h' = hub_cache h"
  proof (induction rule: rtranclp_induct)
    case (step y z)
    with hub_waits_step [OF step.hyps(2), of i] show ?case by simp
  qed (simp add: assms(1))
  then show ?thesis by (auto simp: hub_waits_def)
qed

definition full_client :: client where
  "full_client = NewClient\<lparr>cl_send := replicate send_capacity []\<rparr>"

definition waiting_hub :: hub where
  "waiting_hub = (NewWebsocketWriter [])\<lparr>hub_objects := [(0, full_client)], hub_sending := [(0, [1])]\<rparr>"

theorem hub_blocked_forever_witness:
  "hub_sending (pump_stop 0 waiting_hub) = [(0, [1])]"
proof -
  have "hub_waits 0 waiting_hub"
    by (simp add: hub_waits_def waiting_hub_def full_client_def NewClient_def)
  moreover have "hub_step (\<lambda>_. Inl []) waiting_hub (pump_stop 0 waiting_hub)"
    by (rule step_stop) (simp add: waiting_hub_def NewWebsocketWriter_def)
  ultimately show ?thesis
    using hub_blocked_forever [OF _ r_into_rtranclp] by (fastforce simp: waiting_hub_def)
qed

text \<open>No delta is ever broadcast. The receiver starts with a nil pointer, into which nothing can
  be unmarshalled: whatever messages arrive, and whatever they decode to, nothing is handed to the hub.\<close>

theorem receive_never_broadcasts:
  "machine_outputs (receive_step decode) None rs = replicate (length rs) None"
proof (induction rs)
  case (Cons r rs)
  have "receive_step decode None r = (None, None)"
    by (cases r) (simp_all add: receive_step_def Unmarshal_into_def)
  with Cons show ?case by simp
qed simp

end
