(* ===== verification/Mqtt.thy ===== *)
theory Mqtt
  imports Message Mapper "HOL-Library.Sublist"
begin

text \<open>
  \<open>writer/mqtt.go\<close>, \<open>reader/mqtt.go\<close> and the payloads they exchange: the
  writer collects deltas in one of two buffers and hands a buffer as one batch to a goroutine, which compresses
  and publishes it; the reader takes batches apart again. What the writer's own goroutine and one call of
  the reader's handler do is here; the goroutines of batches and handlers, and the broker between them, are in \<open>MqttLink\<close>.
  The JSON encodings and the zstd compression are parameters.
\<close>

section \<open>Libraries\<close>

record mqtt_lib =
  ml_Unmarshal :: "byte list \<Rightarrow> string + mapped"
  ml_Marshal :: "mapped \<Rightarrow> string + byte list"
  ml_MarshalList :: "mapped list \<Rightarrow> string + byte list"
  ml_UnmarshalList :: "byte list \<Rightarrow> string + mapped list"
  ml_EncodeAll :: "byte list \<Rightarrow> byte list"
  ml_DecodeAll :: "byte list \<Rightarrow> string + byte list"

section \<open>The writer\<close>

record mqtt_config =
  mq_URLString :: string
  mq_Username :: string
  mq_Password :: string
  mq_Interval :: duration
  mq_BufferSize :: int

definition default_mqtt_config :: mqtt_config where
  "default_mqtt_config =
     \<lparr>mq_URLString = [], mq_Username = [], mq_Password = [], mq_Interval = 30 * 1000000000, mq_BufferSize = 100\<rparr>"

record mqtt_writer =
  mw_useA :: bool
  mw_bufferA :: "byte list list"
  mw_bufferB :: "byte list list"
  mw_lastFlush :: time

definition NewMqttWriter :: "time \<Rightarrow> mqtt_writer" where
  "NewMqttWriter now = \<lparr>mw_useA = True, mw_bufferA = [], mw_bufferB = [], mw_lastFlush = now\<rparr>"

definition write_topic :: "mqtt_config \<Rightarrow> string" where
  "write_topic c = ''vessels/urn:mrn:imo:mmsi:'' @ mq_Username c"

text \<open>
  A batch that cannot be marshalled is logged and dropped. Otherwise a goroutine is started with the topic and the
  bytes, which are the result here; it compresses and publishes them later.
\<close>

definition sendMQTT :: "mqtt_lib \<Rightarrow> mqtt_config \<Rightarrow> mapped list \<Rightarrow> (string \<times> byte list) option" where
  "sendMQTT lib c deltas =
     (case ml_MarshalList lib deltas of
        Inl err \<Rightarrow> None
      | Inr bytes \<Rightarrow> Some (write_topic c, bytes))"

definition compress_batch :: "mqtt_lib \<Rightarrow> string \<times> byte list \<Rightarrow> string \<times> byte list" where
  "compress_batch lib p = (fst p, ml_EncodeAll lib (snd p))"

definition lenCache :: "mqtt_writer \<Rightarrow> int" where
  "lenCache w = (if mw_useA w then int (length (mw_bufferA w)) else int (length (mw_bufferB w)))"

fun unmarshal_buffer :: "mqtt_lib \<Rightarrow> byte list list \<Rightarrow> string + mapped list" where
  "unmarshal_buffer lib [] = Inr []"
| "unmarshal_buffer lib (v # vs) =
     (case ml_Unmarshal lib v of
        Inl err \<Rightarrow> Inl err
      | Inr m \<Rightarrow> cons_result m (unmarshal_buffer lib vs))"

text \<open>
  The buffers are swapped first; the buffer that was in use is unmarshalled, sent and cleared. An
  error returns before it is cleared.
\<close>

definition flushCache ::
    "mqtt_lib \<Rightarrow> mqtt_config \<Rightarrow> time \<Rightarrow> mqtt_writer \<Rightarrow> mqtt_writer \<times> (string \<times> byte list) option" where
  "flushCache lib c now w =
     (let w = w\<lparr>mw_useA := \<not> mw_useA w, mw_lastFlush := now\<rparr>;
          buffer = (if \<not> mw_useA w then mw_bufferA w else mw_bufferB w)
      in case unmarshal_buffer lib buffer of
           Inl err \<Rightarrow> (w, None)
         | Inr deltas \<Rightarrow>
             (if \<not> mw_useA w then w\<lparr>mw_bufferA := []\<rparr> else w\<lparr>mw_bufferB := []\<rparr>, sendMQTT lib c deltas))"

text \<open>The clock is read twice: for the time since the last flush, and in the flush.\<close>

definition appendToCache ::
    "mqtt_lib \<Rightarrow> mqtt_config \<Rightarrow> mqtt_writer \<Rightarrow> time \<times> time \<times> byte list \<Rightarrow>
     mqtt_writer \<times> (string \<times> byte list) option" where
  "appendToCache lib c w input =
     (case input of (now, now', data) \<Rightarrow>
        (let w = (if mw_useA w then w\<lparr>mw_bufferA := mw_bufferA w @ [data]\<rparr>
                  else w\<lparr>mw_bufferB := mw_bufferB w @ [data]\<rparr>)
         in if lenCache w > mq_BufferSize c \<or> sint (time_sub now (mw_lastFlush w)) > sint (mq_Interval c)
            then flushCache lib c now' w
            else (w, None)))"

text \<open>The loop of \<open>WriteMapped\<close>: an error of the subscriber is logged.\<close>

definition mqtt_write_step ::
    "mqtt_lib \<Rightarrow> mqtt_config \<Rightarrow> mqtt_writer \<Rightarrow> time \<times> time \<times> received \<Rightarrow>
     mqtt_writer \<times> (string \<times> byte list) option" where
  "mqtt_write_step lib c w input =
     (case input of
        (now, now', RecvError err) \<Rightarrow> (w, None)
      | (now, now', Received data) \<Rightarrow> appendToCache lib c w (now, now', data))"

section \<open>The reader\<close>

record mqtt_reader =
  mr_messagesReceived :: nat
  mr_messagesDecompressed :: nat
  mr_messagesUnmarshalled :: nat
  mr_totalUpdatesSent :: nat
  mr_transferRequestUpdatesSent :: nat

definition NewMqttReader :: mqtt_reader where
  "NewMqttReader =
     \<lparr>mr_messagesReceived = 0, mr_messagesDecompressed = 0, mr_messagesUnmarshalled = 0,
      mr_totalUpdatesSent = 0, mr_transferRequestUpdatesSent = 0\<rparr>"

definition count_update :: "mqtt_reader \<Rightarrow> upd \<Rightarrow> mqtt_reader" where
  "count_update r u =
     (let r = (if src_TransferUuid (upd_Source u) \<noteq> 0
               then r\<lparr>mr_transferRequestUpdatesSent := mr_transferRequestUpdatesSent r + 1\<rparr> else r)
      in r\<lparr>mr_totalUpdatesSent := mr_totalUpdatesSent r + 1\<rparr>)"

text \<open>\<open>send\<close> says whether the publisher accepts a message.\<close>

fun forward_deltas ::
    "mqtt_lib \<Rightarrow> (byte list \<Rightarrow> bool) \<Rightarrow> mapped list \<Rightarrow> mqtt_reader \<Rightarrow> mqtt_reader \<times> byte list list" where
  "forward_deltas lib send [] r = (r, [])"
| "forward_deltas lib send (delta # deltas) r =
     (case ml_Marshal lib delta of
        Inl err \<Rightarrow> forward_deltas lib send deltas r
      | Inr bytes \<Rightarrow>
          if \<not> send bytes then forward_deltas lib send deltas r
          else (case forward_deltas lib send deltas (foldl count_update r (m_Updates delta)) of
                  (r, out) \<Rightarrow> (r, bytes # out)))"

definition messageReceived ::
    "mqtt_lib \<Rightarrow> (byte list \<Rightarrow> bool) \<Rightarrow> mqtt_reader \<Rightarrow> byte list \<Rightarrow> mqtt_reader \<times> byte list list" where
  "messageReceived lib send r payload =
     (let r = r\<lparr>mr_messagesReceived := mr_messagesReceived r + 1\<rparr>
      in case ml_DecodeAll lib payload of
           Inl err \<Rightarrow> (r, [])
         | Inr received \<Rightarrow>
             (let r = r\<lparr>mr_messagesDecompressed := mr_messagesDecompressed r + 1\<rparr>
              in case ml_UnmarshalList lib received of
                   Inl err \<Rightarrow> (r, [])
                 | Inr deltas \<Rightarrow>
                     forward_deltas lib send deltas
                       (r\<lparr>mr_messagesUnmarshalled := mr_messagesUnmarshalled r + 1\<rparr>)))"

section \<open>Lemmas\<close>

definition active :: "mqtt_writer \<Rightarrow> byte list list" where
  "active w = (if mw_useA w then mw_bufferA w else mw_bufferB w)"

definition idle :: "mqtt_writer \<Rightarrow> byte list list" where
  "idle w = (if mw_useA w then mw_bufferB w else mw_bufferA w)"

text \<open>What the code relies on: encodings of batches of the deltas \<open>S\<close> can be decoded.\<close>

definition faithful_batches :: "mqtt_lib \<Rightarrow> mapped set \<Rightarrow> bool" where
  "faithful_batches lib S \<longleftrightarrow>
     (\<forall>ds. set ds \<subseteq> S \<longrightarrow>
        (\<exists>bytes. ml_MarshalList lib ds = Inr bytes \<and>
           ml_DecodeAll lib (ml_EncodeAll lib bytes) = Inr bytes \<and> ml_UnmarshalList lib bytes = Inr ds))"

definition decoded :: "mqtt_lib \<Rightarrow> byte list \<Rightarrow> mapped" where
  "decoded lib b = (case ml_Unmarshal lib b of Inl _ \<Rightarrow> NewMapped | Inr m \<Rightarrow> m)"

definition decodes :: "mqtt_lib \<Rightarrow> byte list \<Rightarrow> bool" where
  "decodes lib b = is_ok (ml_Unmarshal lib b)"

lemma unmarshal_buffer_decodes:
  "list_all (decodes lib) bs \<Longrightarrow> unmarshal_buffer lib bs = Inr (map (decoded lib) bs)"
  by (induction bs) (auto simp: decodes_def decoded_def is_ok_iff)

lemma unmarshal_buffer_fails:
  "\<not> list_all (decodes lib) bs \<Longrightarrow> \<exists>err. unmarshal_buffer lib bs = Inl err"
  by (induction bs) (auto simp: decodes_def is_ok_def split: sum.splits)

definition must_flush :: "mqtt_config \<Rightarrow> mqtt_writer \<Rightarrow> time \<Rightarrow> bool" where
  "must_flush c w now \<longleftrightarrow>
     int (length (active w)) + 1 > mq_BufferSize c \<or>
     sint (time_sub now (mw_lastFlush w)) > sint (mq_Interval c)"

lemma appendToCache_keeps:
  "\<not> must_flush c w now \<Longrightarrow>
     active (fst (appendToCache lib c w (now, now', b))) = active w @ [b] \<and>
     idle (fst (appendToCache lib c w (now, now', b))) = idle w \<and>
     mw_useA (fst (appendToCache lib c w (now, now', b))) = mw_useA w \<and>
     mw_lastFlush (fst (appendToCache lib c w (now, now', b))) = mw_lastFlush w \<and>
     snd (appendToCache lib c w (now, now', b)) = None"
  by (auto simp: appendToCache_def must_flush_def active_def idle_def lenCache_def Let_def)

lemma appendToCache_flushes:
  "must_flush c w now \<Longrightarrow>
     appendToCache lib c w (now, now', b) =
       flushCache lib c now' (if mw_useA w then w\<lparr>mw_bufferA := mw_bufferA w @ [b]\<rparr>
         else w\<lparr>mw_bufferB := mw_bufferB w @ [b]\<rparr>)"
  by (auto simp: appendToCache_def must_flush_def active_def lenCache_def Let_def)

lemma flush_decodes:
  assumes "must_flush c w now" "list_all (decodes lib) (active w @ [b])"
  shows "active (fst (appendToCache lib c w (now, now', b))) = idle w \<and>
    idle (fst (appendToCache lib c w (now, now', b))) = [] \<and>
    mw_lastFlush (fst (appendToCache lib c w (now, now', b))) = now' \<and>
    snd (appendToCache lib c w (now, now', b)) = sendMQTT lib c (map (decoded lib) (active w @ [b]))"
  using assms(2) unmarshal_buffer_decodes [OF assms(2)]
  by (auto simp: appendToCache_flushes [OF assms(1)] flushCache_def active_def idle_def Let_def)

lemma flush_fails:
  assumes "must_flush c w now" "\<not> list_all (decodes lib) (active w @ [b])"
  shows "active (fst (appendToCache lib c w (now, now', b))) = idle w \<and>
    idle (fst (appendToCache lib c w (now, now', b))) = active w @ [b] \<and>
    snd (appendToCache lib c w (now, now', b)) = None"
  using unmarshal_buffer_fails [OF assms(2)]
  by (auto simp: appendToCache_flushes [OF assms(1)] flushCache_def active_def idle_def Let_def)

lemma appendToCache_swaps:
  "mw_useA (fst (appendToCache lib c w (now, now', b))) = (if must_flush c w now then \<not> mw_useA w else mw_useA w)"
  using appendToCache_keeps [of c w now]
  by (auto simp: appendToCache_flushes flushCache_def Let_def split: sum.splits)

text \<open>What the reader sends on for a batch of deltas.\<close>

fun forwards :: "mqtt_lib \<Rightarrow> (byte list \<Rightarrow> bool) \<Rightarrow> mapped list \<Rightarrow> byte list list" where
  "forwards lib send [] = []"
| "forwards lib send (d # ds) =
     (case ml_Marshal lib d of
        Inl err \<Rightarrow> forwards lib send ds
      | Inr bytes \<Rightarrow> (if send bytes then [bytes] else []) @ forwards lib send ds)"

lemma forwards_append [simp]: "forwards lib send (ds @ es) = forwards lib send ds @ forwards lib send es"
  by (induction ds) (auto split: sum.splits)

lemma snd_forward_deltas [simp]: "snd (forward_deltas lib send ds r) = forwards lib send ds"
  by (induction ds arbitrary: r) (auto split: sum.splits prod.splits, (metis snd_conv)+)

definition batch :: "mqtt_lib \<Rightarrow> byte list \<Rightarrow> mapped list" where
  "batch lib payload =
     (case ml_DecodeAll lib payload of
        Inl err \<Rightarrow> []
      | Inr received \<Rightarrow> (case ml_UnmarshalList lib received of Inl err \<Rightarrow> [] | Inr deltas \<Rightarrow> deltas))"

definition json_batch :: "mqtt_lib \<Rightarrow> byte list \<Rightarrow> mapped list" where
  "json_batch lib bytes = (case ml_UnmarshalList lib bytes of Inl err \<Rightarrow> [] | Inr deltas \<Rightarrow> deltas)"

text \<open>The messages of a batch, and those of them that the publisher accepts.\<close>

definition encodings :: "mqtt_lib \<Rightarrow> mapped list \<Rightarrow> byte list list" where
  "encodings lib ds = forwards lib (\<lambda>_. True) ds"

lemma encodings_simps [simp]:
  "encodings lib [] = []"
  "encodings lib (d # ds) = (case ml_Marshal lib d of Inl err \<Rightarrow> [] | Inr bytes \<Rightarrow> [bytes]) @ encodings lib ds"
  "encodings lib (ds @ es) = encodings lib ds @ encodings lib es"
  by (simp_all add: encodings_def split: sum.split)

lemma forwards_accepted: "forwards lib send ds = filter send (encodings lib ds)"
  by (induction ds) (auto split: sum.splits)

lemma messageReceived_forwards: "snd (messageReceived lib send r payload) = forwards lib send (batch lib payload)"
  by (auto simp: messageReceived_def batch_def Let_def split: sum.splits)

text \<open>The batches handed to goroutines.\<close>

definition payloads :: "(string \<times> byte list) option list \<Rightarrow> byte list list" where
  "payloads outs = concat (map (\<lambda>out. case out of None \<Rightarrow> [] | Some (topic, p) \<Rightarrow> [p]) outs)"

lemma payloads_simps [simp]:
  "payloads [] = []" "payloads (None # outs) = payloads outs"
  "payloads (Some (topic, p) # outs) = p # payloads outs"
  by (simp_all add: payloads_def)

fun received_data :: "(time \<times> time \<times> received) list \<Rightarrow> byte list list" where
  "received_data [] = []"
| "received_data ((now, now', RecvError err) # ins) = received_data ins"
| "received_data ((now, now', Received data) # ins) = data # received_data ins"

definition faithful_payload :: "mqtt_lib \<Rightarrow> byte list \<Rightarrow> bool" where
  "faithful_payload lib bytes \<longleftrightarrow> batch lib (ml_EncodeAll lib bytes) = json_batch lib bytes"

lemma faithful_batches_send:
  assumes "faithful_batches lib S" "set ds \<subseteq> S"
  obtains bytes where "sendMQTT lib c ds = Some (write_topic c, bytes)" "json_batch lib bytes = ds"
    "faithful_payload lib bytes"
  using assms by (fastforce simp: faithful_batches_def sendMQTT_def batch_def json_batch_def faithful_payload_def)

text \<open>What was handed to goroutines and what is pending is, together, everything that was received.\<close>

lemma writer_delivers:
  assumes "faithful_batches lib S" "idle w = []"
    and "list_all (decodes lib) (active w @ received_data ins)"
    and "decoded lib ` set (active w @ received_data ins) \<subseteq> S"
  shows "concat (map (json_batch lib) (payloads (machine_outputs (mqtt_write_step lib c) w ins))) @
      map (decoded lib) (active (machine_state (mqtt_write_step lib c) w ins)) =
    map (decoded lib) (active w @ received_data ins) \<and>
    idle (machine_state (mqtt_write_step lib c) w ins) = [] \<and>
    list_all (faithful_payload lib) (payloads (machine_outputs (mqtt_write_step lib c) w ins))"
  using assms(2-4)
proof (induction ins arbitrary: w)
  case (Cons i ins)
  obtain now now' r where i: "i = (now, now', r)" by (cases i)
  show ?case
  proof (cases r)
    case (RecvError err)
    with Cons i show ?thesis by (simp add: mqtt_write_step_def)
  next
    case (Received b)
    let ?w = "fst (appendToCache lib c w (now, now', b))"
    have step: "mqtt_write_step lib c w (now, now', Received b) = appendToCache lib c w (now, now', b)"
      by (simp add: mqtt_write_step_def)
    show ?thesis
    proof (cases "must_flush c w now")
      case False
      note k = appendToCache_keeps [OF this, of lib now' b]
      have "idle ?w = []" "list_all (decodes lib) (active ?w @ received_data ins)"
        "decoded lib ` set (active ?w @ received_data ins) \<subseteq> S"
        using k Cons.prems i Received by auto
      from Cons.IH [OF this] k show ?thesis by (simp add: step i Received)
    next
      case True
      have dec: "list_all (decodes lib) (active w @ [b])" using Cons.prems(2) i Received by simp
      note f = flush_decodes [OF True dec, of now']
      have "set (map (decoded lib) (active w @ [b])) \<subseteq> S" using Cons.prems(3) i Received by auto
      then obtain bytes where p: "sendMQTT lib c (map (decoded lib) (active w @ [b])) = Some (write_topic c, bytes)"
        "json_batch lib bytes = map (decoded lib) (active w @ [b])" "faithful_payload lib bytes"
        by (rule faithful_batches_send [OF assms(1)])
      have "idle ?w = []" "list_all (decodes lib) (active ?w @ received_data ins)"
        "decoded lib ` set (active ?w @ received_data ins) \<subseteq> S"
        using f Cons.prems i Received by auto
      from Cons.IH [OF this] f p Cons.prems(1) show ?thesis by (simp add: step i Received)
    qed
  qed
qed simp

text \<open>The invariant of a run in which every message decodes.\<close>

definition mqtt_inv :: "mqtt_lib \<Rightarrow> mqtt_config \<Rightarrow> mqtt_writer \<Rightarrow> bool" where
  "mqtt_inv lib c w \<longleftrightarrow>
     idle w = [] \<and> list_all (decodes lib) (active w) \<and> int (length (active w)) \<le> max 0 (mq_BufferSize c)"

lemma appendToCache_inv:
  assumes "mqtt_inv lib c w" "decodes lib b"
  shows "mqtt_inv lib c (fst (appendToCache lib c w (now, now', b)))"
proof (cases "must_flush c w now")
  case False
  then have "int (length (active w)) + 1 \<le> mq_BufferSize c" by (simp add: must_flush_def)
  with appendToCache_keeps [OF False, of lib now' b] assms show ?thesis by (auto simp: mqtt_inv_def)
next
  case True
  have "list_all (decodes lib) (active w @ [b])" using assms by (simp add: mqtt_inv_def)
  from flush_decodes [OF True this, of now'] assms(1) show ?thesis by (auto simp: mqtt_inv_def)
qed

lemma mqtt_inv_run:
  assumes "mqtt_inv lib c w" "list_all (decodes lib) (received_data ins)"
  shows "mqtt_inv lib c (machine_state (mqtt_write_step lib c) w ins)"
  using assms
proof (induction ins arbitrary: w)
  case (Cons i ins)
  obtain now now' r where i: "i = (now, now', r)" by (cases i)
  show ?case
  proof (cases r)
    case (Received b)
    have "mqtt_inv lib c (fst (appendToCache lib c w (now, now', b)))"
      using Cons.prems i Received by (intro appendToCache_inv) auto
    with Cons.IH Cons.prems(2) i Received show ?thesis by (simp add: mqtt_write_step_def)
  qed (use Cons i in \<open>simp add: mqtt_write_step_def\<close>)
qed simp

lemma mqtt_inv_new: "mqtt_inv lib c (NewMqttWriter t0)"
  by (simp add: mqtt_inv_def NewMqttWriter_def active_def idle_def)

text \<open>A buffer with a message that does not decode is never sent or cleared.\<close>

lemma poisoned_step:
  assumes "\<not> list_all (decodes lib) (mw_bufferA w)"
  shows "prefix (mw_bufferA w) (mw_bufferA (fst (mqtt_write_step lib c w i))) \<and>
    (mw_useA w \<longrightarrow> snd (mqtt_write_step lib c w i) = None)"
proof -
  obtain now now' r where i: "i = (now, now', r)" by (cases i)
  show ?thesis
  proof (cases r)
    case (Received b)
    have step: "mqtt_write_step lib c w i = appendToCache lib c w (now, now', b)"
      by (simp add: i Received mqtt_write_step_def)
    show ?thesis
    proof (cases "must_flush c w now")
      case False
      show ?thesis
        using False by (auto simp: step appendToCache_def must_flush_def active_def lenCache_def Let_def)
    next
      case True
      have "\<exists>err. unmarshal_buffer lib (mw_bufferA w @ [b]) = Inl err"
        using assms by (intro unmarshal_buffer_fails) simp
      then show ?thesis
        by (auto simp: step appendToCache_flushes [OF True] flushCache_def Let_def split: sum.splits)
    qed
  qed (simp add: i mqtt_write_step_def)
qed

lemma poisoned_run:
  assumes "\<not> list_all (decodes lib) (mw_bufferA w)"
  shows "prefix (mw_bufferA w) (mw_bufferA (machine_state (mqtt_write_step lib c) w ins))"
  using assms
proof (induction ins arbitrary: w)
  case (Cons i ins)
  let ?w = "fst (mqtt_write_step lib c w i)"
  have p: "prefix (mw_bufferA w) (mw_bufferA ?w)" using poisoned_step [OF Cons.prems] by blast
  then have "\<not> list_all (decodes lib) (mw_bufferA ?w)"
    using Cons.prems by (auto simp: prefix_def)
  from Cons.IH [OF this] p show ?case by (auto intro: prefix_order.trans)
qed simp

section \<open>Properties\<close>

text \<open>What is pending is bounded. When the received messages are deltas, then after every
  message the buffer that is not in use is empty and the other one holds at most the configured
  number of messages.\<close>

theorem mqtt_pending_bound:
  assumes "list_all (decodes lib) (received_data ins)"
    and "w = machine_state (mqtt_write_step lib c) (NewMqttWriter t0) ins"
  shows "idle w = [] \<and> int (length (active w)) \<le> max 0 (mq_BufferSize c)"
  using mqtt_inv_run [OF mqtt_inv_new assms(1)] by (simp add: assms(2) mqtt_inv_def)

text \<open>One bad message disables a buffer for good. Once the first buffer holds a message that is
  no delta, it is never cleared, in any run: it only grows, and no batch is handed on while it is in
  use, so none of the messages in it is ever sent.\<close>

theorem mqtt_poisoned_buffer:
  assumes "b \<in> set (mw_bufferA w)" "\<not> decodes lib b" "i < length ins"
  shows "prefix (mw_bufferA w) (mw_bufferA (machine_state (mqtt_write_step lib c) w ins)) \<and>
    (mw_useA (machine_state (mqtt_write_step lib c) w (take i ins)) \<longrightarrow>
       machine_outputs (mqtt_write_step lib c) w ins ! i = None)"
proof -
  have bad: "\<not> list_all (decodes lib) (mw_bufferA w)" using assms(1,2) by (auto simp: list_all_iff)
  let ?w = "machine_state (mqtt_write_step lib c) w (take i ins)"
  have "prefix (mw_bufferA w) (mw_bufferA ?w)" by (rule poisoned_run [OF bad])
  then have "\<not> list_all (decodes lib) (mw_bufferA ?w)" using bad by (auto simp: prefix_def)
  from poisoned_step [OF this] show ?thesis
    using poisoned_run [OF bad] assms(3) by (simp add: machine_outputs_nth)
qed

text \<open>A library for the witnesses: one delta, whose batches are encoded by their length.\<close>

definition unary_lib :: mqtt_lib where
  "unary_lib =
     \<lparr>ml_Unmarshal = (\<lambda>b. if b = [] then Inl ''EOF'' else Inr NewMapped),
      ml_Marshal = (\<lambda>m. Inr [1]),
      ml_MarshalList = (\<lambda>ds. Inr (replicate (length ds) 1)),
      ml_UnmarshalList = (\<lambda>bs. Inr (replicate (length bs) NewMapped)),
      ml_EncodeAll = (\<lambda>bs. 0 # bs), ml_DecodeAll = (\<lambda>bs. Inr (tl bs))\<rparr>"

definition sample_inputs :: "(time \<times> time \<times> received) list" where
  "sample_inputs = [(0, 0, Received [1]), (0, 0, Received [2]), (0, 0, Received [3])]"

lemma unary_lib_sample:
  "list_all (decodes unary_lib) (received_data sample_inputs)"
  "faithful_batches unary_lib (decoded unary_lib ` set (received_data sample_inputs))"
proof -
  have "ds = replicate (length ds) NewMapped" if "set ds \<subseteq> {NewMapped}" for ds :: "mapped list"
    using that by (induction ds) auto
  then show "faithful_batches unary_lib (decoded unary_lib ` set (received_data sample_inputs))"
    by (auto simp: faithful_batches_def sample_inputs_def decoded_def unary_lib_def)
qed (simp add: sample_inputs_def decodes_def unary_lib_def)

theorem mqtt_pending_bound_witness:
  "length (active (machine_state (mqtt_write_step unary_lib default_mqtt_config) (NewMqttWriter 0) sample_inputs)) \<le> 100"
  using mqtt_pending_bound [OF unary_lib_sample(1) refl, of default_mqtt_config 0] by (simp add: default_mqtt_config_def)

theorem mqtt_poisoned_buffer_witness:
  "prefix [[]] (mw_bufferA (machine_state (mqtt_write_step unary_lib default_mqtt_config)
     ((NewMqttWriter 0)\<lparr>mw_bufferA := [[]]\<rparr>) sample_inputs))"
  using mqtt_poisoned_buffer [of "[]" "(NewMqttWriter 0)\<lparr>mw_bufferA := [[]]\<rparr>" unary_lib 0 sample_inputs default_mqtt_config]
  by (simp add: decodes_def unary_lib_def sample_inputs_def)

end
