(* ===== verification/Postgres.thy ===== *)
theory Postgres
  imports Wire Mapper "HOL-Library.Multiset" "HOL-Library.Sublist"
begin

text \<open>
  \<open>database/postgresql.go\<close> and \<open>writer/postgresql.go\<close>: the batch of
  statements and its flush, the rows written and read, the queries of the transfer, and the
  writer's loops. The server is a parameter: a query has an answer, which may be an error, a
  timeout, or rows whose scan may fail. The statements that the transfer relies on are also given
  their meaning on a table, a list of rows. The goroutines that queue and flush share the batch
  without a lock; their interleavings are a step relation.
\<close>

section \<open>Statements\<close>

text \<open>A row of \<open>mapped_data\<close>, in the order of the arguments of \<open>mappedInsertQuery\<close>.\<close>

record mapped_row =
  row_time :: time
  row_connector :: string
  row_type :: string
  row_context :: string
  row_path :: string
  row_value :: gval
  row_uuid :: uuid
  row_origin :: string
  row_transfer_uuid :: uuid

datatype statement =
    InsertRaw time string "byte list" uuid string
  | InsertMapped mapped_row

text \<open>\<open>strconv.Quote\<close> of an ASCII string.\<close>

definition hex_digit :: "nat \<Rightarrow> char" where
  "hex_digit n = ''0123456789abcdef'' ! n"

definition quote_char :: "char \<Rightarrow> string" where
  "quote_char c =
     (let n = of_char c :: nat in
      if c = CHR 0x22 then [CHR 0x5C, CHR 0x22]
      else if c = CHR 0x5C then [CHR 0x5C, CHR 0x5C]
      else if 32 \<le> n \<and> n < 127 then [c]
      else if n = 7 then [CHR 0x5C, CHR ''a'']
      else if n = 8 then [CHR 0x5C, CHR ''b'']
      else if n = 12 then [CHR 0x5C, CHR ''f'']
      else if n = 10 then [CHR 0x5C, CHR ''n'']
      else if n = 13 then [CHR 0x5C, CHR ''r'']
      else if n = 9 then [CHR 0x5C, CHR ''t'']
      else if n = 11 then [CHR 0x5C, CHR ''v'']
      else [CHR 0x5C, CHR ''x'', hex_digit (n div 16), hex_digit (n mod 16)])"

definition Quote :: "string \<Rightarrow> string" where
  "Quote s = [CHR 0x22] @ concat (map quote_char s) @ [CHR 0x22]"

section \<open>The database: queueing\<close>

record postgresql =
  pg_batch :: "statement list"
  pg_batchSize :: int
  pg_lastFlush :: time
  pg_writes :: nat
  pg_flushes :: nat
  pg_timeouts :: nat
  pg_batchSizeGauge :: nat

definition NewPostgresqlDatabase :: "int \<Rightarrow> time \<Rightarrow> postgresql" where
  "NewPostgresqlDatabase batchFlushLength now =
     \<lparr>pg_batch = [], pg_batchSize = batchFlushLength, pg_lastFlush = now, pg_writes = 0,
      pg_flushes = 0, pg_timeouts = 0, pg_batchSizeGauge = 0\<rparr>"

text \<open>Queueing a statement; the result says whether a flush is started.\<close>

definition queue_statement :: "statement \<Rightarrow> postgresql \<Rightarrow> postgresql \<times> bool" where
  "queue_statement s db =
     (let db = db\<lparr>pg_batch := pg_batch db @ [s], pg_batchSizeGauge := pg_batchSizeGauge db + 1\<rparr>
      in (db, int (length (pg_batch db)) > pg_batchSize db))"

definition Db_WriteRaw :: "raw \<Rightarrow> postgresql \<Rightarrow> postgresql \<times> bool" where
  "Db_WriteRaw r db =
     queue_statement
       (InsertRaw (raw_Timestamp r) (raw_Connector r) (raw_Value r) (raw_Uuid r) (raw_Type r))
       (db\<lparr>pg_writes := pg_writes db + 1\<rparr>)"

definition mapped_row_of :: "svm \<Rightarrow> mapped_row" where
  "mapped_row_of s =
     (let v = (case svm_Value s of GString str \<Rightarrow> GString (Quote str) | v \<Rightarrow> v);
          path = (if svm_Path s = [] then
                    (case v of
                       GMerger (VesselInfo i) \<Rightarrow> (if vi_MMSI i = None then ''name'' else ''mmsi'')
                     | _ \<Rightarrow> [])
                  else svm_Path s)
      in \<lparr>row_time = svm_Timestamp s, row_connector = src_Label (svm_Source s),
          row_type = src_Type (svm_Source s), row_context = svm_Context s, row_path = path,
          row_value = v, row_uuid = src_Uuid (svm_Source s), row_origin = svm_Origin s,
          row_transfer_uuid = src_TransferUuid (svm_Source s)\<rparr>)"

definition WriteSingleValueMapped :: "svm \<Rightarrow> postgresql \<Rightarrow> postgresql \<times> bool" where
  "WriteSingleValueMapped s db =
     queue_statement (InsertMapped (mapped_row_of s)) (db\<lparr>pg_writes := pg_writes db + 1\<rparr>)"

fun write_svms :: "svm list \<Rightarrow> postgresql \<Rightarrow> postgresql \<times> bool" where
  "write_svms [] db = (db, False)"
| "write_svms (s # ss) db =
     (let (db, flush) = WriteSingleValueMapped s db; (db, flush') = write_svms ss db
      in (db, flush \<or> flush'))"

definition Db_WriteMapped :: "mapped \<Rightarrow> postgresql \<Rightarrow> postgresql \<times> bool" where
  "Db_WriteMapped m db = write_svms (ToSingleValueMapped m) db"

text \<open>
  \<open>flushBatch\<close>: the batch is taken and sent; the result of the server says whether it was
  closed with an error, and whether that was a timeout. An empty batch is not sent.
\<close>

datatype batch_result = BatchDone | BatchFailed | BatchTimeout

definition flushBatch :: "(statement list \<Rightarrow> batch_result) \<Rightarrow> time \<Rightarrow> postgresql \<Rightarrow> postgresql \<times> statement list option" where
  "flushBatch server now db =
     (if length (pg_batch db) < 1 then (db, None)
      else
        (let batchPtr = pg_batch db;
             db = db\<lparr>pg_flushes := pg_flushes db + 1, pg_batch := [], pg_batchSizeGauge := 0\<rparr>
         in (case server batchPtr of
               BatchTimeout \<Rightarrow> db\<lparr>pg_timeouts := pg_timeouts db + 1\<rparr>
             | BatchFailed \<Rightarrow> db
             | BatchDone \<Rightarrow> db\<lparr>pg_lastFlush := now\<rparr>, Some batchPtr)))"

text \<open>The flush of the ticker: \<open>now\<close> must be after the last flush plus the interval.\<close>

definition ticker_flush :: "duration \<Rightarrow> (statement list \<Rightarrow> batch_result) \<Rightarrow> time \<Rightarrow> postgresql \<Rightarrow>
    postgresql \<times> statement list option" where
  "ticker_flush interval server now db =
     (if now > time_add (pg_lastFlush db) interval then flushBatch server now db else (db, None))"

section \<open>The writer's loops\<close>

text \<open>Every received message is counted, unmarshalled and put on the channel of the workers.\<close>

record pg_counters =
  pw_messagesReceived :: nat
  pw_messagesUnmarshalled :: nat

definition pg_receive_step :: "(byte list \<Rightarrow> string + 'm) \<Rightarrow> pg_counters \<Rightarrow> received \<Rightarrow> pg_counters \<times> 'm option" where
  "pg_receive_step unmarshal w r =
     (case r of
        RecvError err \<Rightarrow> (w, None)
      | Received data \<Rightarrow>
          (let w = w\<lparr>pw_messagesReceived := pw_messagesReceived w + 1\<rparr>
           in case unmarshal data of
                Inl err \<Rightarrow> (w, None)
              | Inr m \<Rightarrow> (w\<lparr>pw_messagesUnmarshalled := pw_messagesUnmarshalled w + 1\<rparr>, Some m)))"

section \<open>Queries\<close>

text \<open>
  The answer of the server to a query: an error, a timeout, or the scans of its rows and the error
  after the last one.
\<close>

datatype 'r answer = QueryFailed string | QueryTimeout | QueryRows "(string + 'r) list" "string option"

datatype query_error = ServerError string | DeadlineExceeded

fun scan_rows :: "('a \<Rightarrow> 'r \<Rightarrow> 'a) \<Rightarrow> 'a \<Rightarrow> (string + 'r) list \<Rightarrow> string + 'a" where
  "scan_rows f acc [] = Inr acc"
| "scan_rows f acc (Inl err # rows) = Inl err"
| "scan_rows f acc (Inr r # rows) = scan_rows f (f acc r) rows"

definition read_answer :: "('a \<Rightarrow> 'r \<Rightarrow> 'a) \<Rightarrow> 'a \<Rightarrow> 'r answer \<Rightarrow> postgresql \<Rightarrow> postgresql \<times> (query_error + 'a)" where
  "read_answer f init ans db =
     (case ans of
        QueryFailed err \<Rightarrow> (db, Inl (ServerError err))
      | QueryTimeout \<Rightarrow> (db\<lparr>pg_timeouts := pg_timeouts db + 1\<rparr>, Inl DeadlineExceeded)
      | QueryRows rows end_err \<Rightarrow>
          (db, case scan_rows f init rows of
                 Inl err \<Rightarrow> Inl (ServerError err)
               | Inr result \<Rightarrow>
                   (case end_err of None \<Rightarrow> Inr result | Some err \<Rightarrow> Inl (ServerError err))))"

text \<open>
  A row is read into a single value; a value that cannot be decoded is logged and kept as
  \<open>Decode\<close> returned it. Paths \<open>mmsi\<close> and \<open>name\<close> become empty.
\<close>

definition svm_of_row :: "mapstructure \<Rightarrow> mapped_row \<Rightarrow> svm" where
  "svm_of_row ms r =
     \<lparr>svm_Context = row_context r, svm_Origin = row_origin r,
      svm_Source = \<lparr>src_Label = row_connector r, src_Type = row_type r, src_Uuid = row_uuid r,
        src_TransferUuid = row_transfer_uuid r\<rparr>,
      svm_Timestamp = row_time r,
      svm_Path = (if row_path r = ''mmsi'' \<or> row_path r = ''name'' then [] else row_path r),
      svm_Value = fst (Decode ms (row_value r))\<rparr>"

definition Db_ReadMapped :: "mapstructure \<Rightarrow> time \<Rightarrow> mapped_row answer \<Rightarrow> postgresql \<Rightarrow>
    postgresql \<times> (query_error + mapped list)" where
  "Db_ReadMapped ms now ans db =
     read_answer (\<lambda>result r. result @ [ToMapped now (svm_of_row ms r)]) [] ans db"

definition SelectFirstMappedDataPerOrigin :: "(string \<times> time) answer \<Rightarrow> postgresql \<Rightarrow>
    postgresql \<times> (query_error + (string, time) gomap)" where
  "SelectFirstMappedDataPerOrigin ans db =
     read_answer (\<lambda>result (origin, minStart). AList.update origin minStart result) [] ans db"

type_synonym remote_counts = "(string, (time, unit) gomap) gomap"

definition SelectExistingRemoteCounts :: "(string \<times> time) answer \<Rightarrow> postgresql \<Rightarrow>
    postgresql \<times> (query_error + remote_counts)" where
  "SelectExistingRemoteCounts ans db =
     read_answer (\<lambda>result (origin, start).
       let result = (if map_of result origin = None then AList.update origin [] result else result)
       in AList.update origin (AList.update start () (the (map_of result origin))) result) [] ans db"

definition SelectIncompletePeriods :: "(string \<times> time) answer \<Rightarrow> postgresql \<Rightarrow>
    postgresql \<times> (query_error + (string, time list) gomap)" where
  "SelectIncompletePeriods ans db =
     read_answer (\<lambda>result (origin, start).
       let result = (if map_of result origin = None then AList.update origin [] result else result)
       in AList.update origin (the (map_of result origin) @ [start]) result) [] ans db"

definition SelectCountPerUuid :: "(uuid \<times> int) answer \<Rightarrow> postgresql \<Rightarrow>
    postgresql \<times> (query_error + (uuid, int) gomap)" where
  "SelectCountPerUuid ans db =
     read_answer (\<lambda>result (uuid, count). AList.update uuid count result) [] ans db"

text \<open>\<open>None\<close> in an answer of one row is \<open>pgx.ErrNoRows\<close>, which counts as zero.\<close>

datatype row_answer = RowFailed string | RowTimeout | RowFound int | NoRows

definition SelectCountMapped :: "row_answer \<Rightarrow> postgresql \<Rightarrow> postgresql \<times> (query_error + int)" where
  "SelectCountMapped ans db =
     (case ans of
        NoRows \<Rightarrow> (db, Inr 0)
      | RowFailed err \<Rightarrow> (db, Inl (ServerError err))
      | RowTimeout \<Rightarrow> (db\<lparr>pg_timeouts := pg_timeouts db + 1\<rparr>, Inl DeadlineExceeded)
      | RowFound result \<Rightarrow> (db, Inr result))"

section \<open>The statements on a table\<close>

text \<open>
  \<open>mappedInsertQuery\<close> does nothing when the table has a row with the same time, origin,
  context, connector and path. \<open>BETWEEN\<close> includes both ends.
\<close>

definition row_key :: "mapped_row \<Rightarrow> time \<times> string \<times> string \<times> string \<times> string" where
  "row_key r = (row_time r, row_origin r, row_context r, row_connector r, row_path r)"

definition sql_insert :: "mapped_row \<Rightarrow> mapped_row list \<Rightarrow> mapped_row list" where
  "sql_insert r table = (if row_key r \<in> row_key ` set table then table else table @ [r])"

definition in_period :: "time \<Rightarrow> mapped_row \<Rightarrow> bool" where
  "in_period start r \<longleftrightarrow> start \<le> row_time r \<and> row_time r \<le> start + 300000000000"

definition sql_count_per_uuid :: "string \<Rightarrow> time \<Rightarrow> mapped_row list \<Rightarrow> (uuid \<times> int) list" where
  "sql_count_per_uuid origin start table =
     (let rows = filter (\<lambda>r. row_origin r = origin \<and> in_period start r) table
      in map (\<lambda>u. (u, int (length (filter (\<lambda>r. row_uuid r = u) rows)))) (remdups (map row_uuid rows)))"

text \<open>\<open>WHERE "uuid" = ANY ($1) AND "time" BETWEEN $2 AND $2 + '5m'\<close>.\<close>

definition sql_read_uuids :: "uuid list \<Rightarrow> time \<Rightarrow> mapped_row list \<Rightarrow> mapped_row list" where
  "sql_read_uuids uuids start table = filter (\<lambda>r. row_uuid r \<in> set uuids \<and> in_period start r) table"

section \<open>Goroutines that share the batch\<close>

text \<open>
  The batch is an object behind a pointer. A write first loads the pointer, then appends to the
  object and compares its length; a flush first looks at the length, then takes the pointer under
  its lock and installs a new object, then sends what the taken object holds. The workers, the
  ticker and the flushes they start run concurrently.
\<close>

record shared =
  sh_objects :: "nat \<Rightarrow> statement list"
  sh_batch :: nat
  sh_next :: nat
  sh_writing :: "(nat \<times> statement) list"
  sh_flushing :: nat
  sh_taken :: "nat list"
  sh_sent :: "(nat \<times> statement list) list"
  sh_submitted :: "statement list"

definition shared_init :: shared where
  "shared_init =
     \<lparr>sh_objects = (\<lambda>_. []), sh_batch = 0, sh_next = 1, sh_writing = [], sh_flushing = 0, sh_taken = [],
      sh_sent = [], sh_submitted = []\<rparr>"

inductive shared_step :: "shared \<Rightarrow> shared \<Rightarrow> bool" where
  load: "shared_step h (h\<lparr>sh_writing := sh_writing h @ [(sh_batch h, s)], sh_submitted := sh_submitted h @ [s]\<rparr>)"
| queue: "sh_writing h = ws @ (p, s) # ws' \<Longrightarrow>
     shared_step h (h\<lparr>sh_writing := ws @ ws', sh_objects := (sh_objects h)(p := sh_objects h p @ [s])\<rparr>)"
| check: "sh_objects h (sh_batch h) \<noteq> [] \<Longrightarrow> shared_step h (h\<lparr>sh_flushing := sh_flushing h + 1\<rparr>)"
| takes: "sh_flushing h = Suc n \<Longrightarrow>
     shared_step h (h\<lparr>sh_flushing := n, sh_taken := sh_taken h @ [sh_batch h], sh_batch := sh_next h,
                      sh_next := sh_next h + 1\<rparr>)"
| sends: "sh_taken h = ps @ p # ps' \<Longrightarrow>
     shared_step h (h\<lparr>sh_taken := ps @ ps', sh_sent := sh_sent h @ [(p, sh_objects h p)]\<rparr>)"

inductive_cases shared_stepE: "shared_step h h'"

section \<open>Lemmas: queueing and flushing\<close>

text \<open>One after another: what is written and when the batch is flushed.\<close>

datatype pg_event = WritesRaw raw | WritesMapped mapped | Flushes time | Ticks time

fun pg_step :: "(statement list \<Rightarrow> batch_result) \<Rightarrow> duration \<Rightarrow> postgresql \<Rightarrow> pg_event \<Rightarrow>
    postgresql \<times> statement list option" where
  "pg_step server interval db (WritesRaw r) = (fst (Db_WriteRaw r db), None)"
| "pg_step server interval db (WritesMapped m) = (fst (Db_WriteMapped m db), None)"
| "pg_step server interval db (Flushes now) = flushBatch server now db"
| "pg_step server interval db (Ticks now) = ticker_flush interval server now db"

definition raw_statement :: "raw \<Rightarrow> statement" where
  "raw_statement r =
     InsertRaw (raw_Timestamp r) (raw_Connector r) (raw_Value r) (raw_Uuid r) (raw_Type r)"

fun statements :: "pg_event \<Rightarrow> statement list" where
  "statements (WritesRaw r) = [raw_statement r]"
| "statements (WritesMapped m) = map (\<lambda>s. InsertMapped (mapped_row_of s)) (ToSingleValueMapped m)"
| "statements _ = []"

definition batches :: "statement list option list \<Rightarrow> statement list" where
  "batches outs = concat (map (\<lambda>out. case out of None \<Rightarrow> [] | Some b \<Rightarrow> b) outs)"

lemma batches_simps [simp]:
  "batches [] = []" "batches (None # outs) = batches outs" "batches (Some b # outs) = b @ batches outs"
  by (simp_all add: batches_def)

definition pg_inv :: "nat \<Rightarrow> postgresql \<Rightarrow> bool" where
  "pg_inv n db \<longleftrightarrow> pg_batchSizeGauge db = length (pg_batch db) \<and> pg_writes db = n"

lemma queue_statement_simps [simp]:
  "pg_batch (fst (queue_statement s db)) = pg_batch db @ [s]"
  "pg_batchSizeGauge (fst (queue_statement s db)) = pg_batchSizeGauge db + 1"
  "pg_writes (fst (queue_statement s db)) = pg_writes db"
  by (simp_all add: queue_statement_def Let_def)

lemma write_svms_queue:
  "pg_batch (fst (write_svms ss db)) = pg_batch db @ map (\<lambda>s. InsertMapped (mapped_row_of s)) ss \<and>
   (pg_inv n db \<longrightarrow> pg_inv (n + length ss) (fst (write_svms ss db)))"
  by (induction ss arbitrary: db n)
     (auto simp: Let_def split_beta WriteSingleValueMapped_def pg_inv_def)

lemma flushBatch_batch:
  "(case snd (flushBatch server now db) of None \<Rightarrow> [] | Some b \<Rightarrow> b) @ pg_batch (fst (flushBatch server now db)) = pg_batch db \<and>
   (pg_inv n db \<longrightarrow> pg_inv n (fst (flushBatch server now db)))"
  by (auto simp: flushBatch_def Let_def pg_inv_def split: batch_result.splits)

lemma pg_step_batch:
  "(case snd (pg_step server interval db e) of None \<Rightarrow> [] | Some b \<Rightarrow> b) @ pg_batch (fst (pg_step server interval db e)) =
     pg_batch db @ statements e \<and>
   (pg_inv n db \<longrightarrow> pg_inv (n + length (statements e)) (fst (pg_step server interval db e)))"
proof (cases e)
  case (WritesRaw r)
  then show ?thesis by (simp add: Db_WriteRaw_def raw_statement_def pg_inv_def)
next
  case (WritesMapped m)
  then show ?thesis
    using write_svms_queue [of "ToSingleValueMapped m" db n] by (simp add: Db_WriteMapped_def)
next
  case (Flushes now)
  then show ?thesis using flushBatch_batch [of server now db n] by simp
next
  case (Ticks now)
  then show ?thesis using flushBatch_batch [of server now db n] by (simp add: ticker_flush_def)
qed

lemma pg_run_batch:
  "pg_inv n db \<Longrightarrow>
     batches (machine_outputs (pg_step server interval) db es) @ pg_batch (machine_state (pg_step server interval) db es) =
       pg_batch db @ concat (map statements es) \<and>
     pg_inv (n + length (concat (map statements es))) (machine_state (pg_step server interval) db es)"
proof (induction es arbitrary: db n)
  case (Cons e es)
  let ?db = "fst (pg_step server interval db e)"
  have inv: "pg_inv (n + length (statements e)) ?db" using Cons.prems pg_step_batch by blast
  have "batches (machine_outputs (pg_step server interval) db (e # es)) =
      (case snd (pg_step server interval db e) of None \<Rightarrow> [] | Some b \<Rightarrow> b) @
      batches (machine_outputs (pg_step server interval) ?db es)"
    by (simp split: option.split)
  with Cons.IH [OF inv] pg_step_batch [of server interval db e n] show ?case
    by (simp add: add.assoc)
qed simp

section \<open>Lemmas: shared batches\<close>

definition all_objects :: "shared \<Rightarrow> statement multiset" where
  "all_objects h = (\<Sum>p\<in>{..<sh_next h}. mset (sh_objects h p))"

definition shared_inv :: "shared \<Rightarrow> bool" where
  "shared_inv h \<longleftrightarrow>
     mset (sh_submitted h) = mset (map snd (sh_writing h)) + all_objects h \<and>
     (\<forall>p\<ge>sh_next h. sh_objects h p = []) \<and>
     sh_batch h < sh_next h \<and> fst ` set (sh_writing h) \<subseteq> {..<sh_next h} \<and>
     distinct (sh_batch h # sh_taken h @ map fst (sh_sent h)) \<and>
     set (sh_taken h) \<union> fst ` set (sh_sent h) \<subseteq> {..<sh_next h} \<and>
     (\<forall>(p, ss)\<in>set (sh_sent h). prefix ss (sh_objects h p))"

lemma sum_objects_append:
  "p < (n::nat) \<Longrightarrow> (\<Sum>q\<in>{..<n}. mset ((f(p := f p @ [s])) q)) = add_mset s (\<Sum>q\<in>{..<n}. mset (f q))"
proof -
  assume p: "p < n"
  have "(\<Sum>q\<in>{..<n}. mset ((f(p := f p @ [s])) q)) = (\<Sum>q\<in>{..<n}. mset (f q) + (if q = p then {#s#} else {#}))"
    by (rule sum.cong) auto
  also have "\<dots> = add_mset s (\<Sum>q\<in>{..<n}. mset (f q))" using p by (simp add: sum.distrib)
  finally show ?thesis .
qed

lemma shared_inv_step: "shared_step h h' \<Longrightarrow> shared_inv h \<Longrightarrow> shared_inv h'"
proof (induction rule: shared_step.induct)
  case (load h s)
  then show ?case by (auto simp: shared_inv_def all_objects_def)
next
  case (queue h ws p s ws')
  then have "p < sh_next h" by (auto simp: shared_inv_def)
  with queue sum_objects_append [OF this, of "sh_objects h" s] show ?case
    by (auto simp: shared_inv_def all_objects_def intro: prefix_order.trans)
next
  case (takes h n)
  then show ?case by (auto simp: shared_inv_def all_objects_def less_Suc_eq)
next
  case (sends h ps p ps')
  then show ?case by (auto simp: shared_inv_def all_objects_def)
qed (simp add: shared_inv_def all_objects_def)

lemma shared_inv_reachable: "shared_step\<^sup>*\<^sup>* shared_init h \<Longrightarrow> shared_inv h"
  by (induction rule: rtranclp_induct)
     (auto simp: shared_inv_step, simp add: shared_inv_def shared_init_def all_objects_def)

lemma prefix_mset: "prefix xs ys \<Longrightarrow> mset xs \<subseteq># mset ys"
  by (auto simp: prefix_def)

lemma sent_subset_objects:
  assumes "shared_inv h"
  shows "mset (concat (map snd (sh_sent h))) \<subseteq># all_objects h"
proof -
  have d: "distinct (map fst (sh_sent h))" "fst ` set (sh_sent h) \<subseteq> {..<sh_next h}"
    using assms by (auto simp: shared_inv_def)
  have "mset (concat (map snd xs)) \<subseteq># (\<Sum>p\<in>fst ` set xs. mset (sh_objects h p))"
    if "distinct (map fst xs)" "\<forall>(p, ss)\<in>set xs. prefix ss (sh_objects h p)" for xs
    using that by (induction xs) (auto intro!: subset_mset.add_mono prefix_mset)
  from this [OF d(1)] assms
  have "mset (concat (map snd (sh_sent h))) \<subseteq># (\<Sum>p\<in>fst ` set (sh_sent h). mset (sh_objects h p))"
    by (simp add: shared_inv_def)
  also have "\<dots> \<subseteq># all_objects h"
    unfolding all_objects_def using sum.subset_diff [OF d(2), of "\<lambda>p. mset (sh_objects h p)"] by simp
  finally show ?thesis .
qed

section \<open>Lemmas: quoted strings\<close>

text \<open>
  JSON string literals (RFC 8259), which the column of values accepts: the escapes are
  \<open>\"\<close>, \<open>\\\<close>, \<open>\/\<close>, \<open>\b\<close>, \<open>\f\<close>, \<open>\n\<close>, \<open>\r\<close> and
  \<open>\t\<close> (and \<open>\u\<close>, which a quoted ASCII string does not have and which is not read here);
  other control characters are not allowed.
\<close>

definition json_escape :: "char \<Rightarrow> char option" where
  "json_escape c = map_of
     [(CHR 0x22, CHR 0x22), (CHR 0x5C, CHR 0x5C), (CHR ''/'', CHR ''/''), (CHR ''b'', CHR 0x08),
      (CHR ''f'', CHR 0x0C), (CHR ''n'', CHR 0x0A), (CHR ''r'', CHR 0x0D), (CHR ''t'', CHR 0x09)] c"

fun json_chars :: "string \<Rightarrow> string option" where
  "json_chars [] = None"
| "json_chars (c # cs) =
     (if c = CHR 0x22 then (if cs = [] then Some [] else None)
      else if c = CHR 0x5C then
        (case cs of
           [] \<Rightarrow> None
         | e # cs' \<Rightarrow> (case json_escape e of None \<Rightarrow> None | Some x \<Rightarrow> map_option (Cons x) (json_chars cs')))
      else if of_char c < (32::nat) then None
      else map_option (Cons c) (json_chars cs))"

definition json_string :: "string \<Rightarrow> string option" where
  "json_string s = (case s of [] \<Rightarrow> None | c # cs \<Rightarrow> if c = CHR 0x22 then json_chars cs else None)"

text \<open>The characters whose Go escape is also a JSON escape.\<close>

definition storable :: "char \<Rightarrow> bool" where
  "storable c \<longleftrightarrow> (let n = of_char c :: nat in 32 \<le> n \<and> n < 127 \<or> n \<in> {8, 9, 10, 12, 13})"

lemma char_code: "k < 256 \<Longrightarrow> (c :: char) = char_of k \<longleftrightarrow> of_char c = (k :: nat)"
  by (metis char_of_char mod_less of_char_of)

lemma escape_codes:
  "CHR 0x22 = char_of (34::nat)" "CHR 0x5C = char_of (92::nat)" "CHR 0x08 = char_of (8::nat)"
  "CHR 0x0C = char_of (12::nat)" "CHR 0x0A = char_of (10::nat)" "CHR 0x0D = char_of (13::nat)"
  "CHR 0x09 = char_of (9::nat)"
  by code_simp+

lemma json_escape_simps:
  "json_escape (CHR 0x22) = Some (CHR 0x22)" "json_escape (CHR 0x5C) = Some (CHR 0x5C)"
  "json_escape (CHR ''b'') = Some (CHR 0x08)" "json_escape (CHR ''f'') = Some (CHR 0x0C)"
  "json_escape (CHR ''n'') = Some (CHR 0x0A)" "json_escape (CHR ''r'') = Some (CHR 0x0D)"
  "json_escape (CHR ''t'') = Some (CHR 0x09)" "json_escape (CHR ''a'') = None"
  "json_escape (CHR ''v'') = None" "json_escape (CHR ''x'') = None"
  by (simp_all add: json_escape_def)

lemma quote_char_cases:
  fixes c :: char
  obtains "quote_char c = [c]" "storable c" "c \<noteq> CHR 0x22" "c \<noteq> CHR 0x5C" "\<not> of_char c < (32::nat)"
  | e where "quote_char c = [CHR 0x5C, e]" "storable c" "json_escape e = Some c"
  | e es where "quote_char c = CHR 0x5C # e # es" "\<not> storable c" "json_escape e = None"
proof -
  define n :: nat where "n = of_char c"
  have code: "k < 256 \<Longrightarrow> c = char_of k \<longleftrightarrow> n = k" for k by (simp add: n_def char_code)
  have q: "c = CHR 0x22 \<longleftrightarrow> n = 34" "c = CHR 0x5C \<longleftrightarrow> n = 92"
    unfolding escape_codes by (simp_all add: code)
  have quote: "quote_char c =
     (if n = 34 then [CHR 0x5C, CHR 0x22] else if n = 92 then [CHR 0x5C, CHR 0x5C]
      else if 32 \<le> n \<and> n < 127 then [c] else if n = 7 then [CHR 0x5C, CHR ''a'']
      else if n = 8 then [CHR 0x5C, CHR ''b''] else if n = 12 then [CHR 0x5C, CHR ''f'']
      else if n = 10 then [CHR 0x5C, CHR ''n''] else if n = 13 then [CHR 0x5C, CHR ''r'']
      else if n = 9 then [CHR 0x5C, CHR ''t''] else if n = 11 then [CHR 0x5C, CHR ''v'']
      else [CHR 0x5C, CHR ''x'', hex_digit (n div 16), hex_digit (n mod 16)])"
    unfolding quote_char_def Let_def n_def [symmetric] q ..
  have st: "storable c \<longleftrightarrow> 32 \<le> n \<and> n < 127 \<or> n \<in> {8, 9, 10, 12, 13}"
    by (simp add: storable_def Let_def n_def)
  have "n = 34 \<Longrightarrow> c = CHR 0x22" "n = 92 \<Longrightarrow> c = CHR 0x5C" "n = 8 \<Longrightarrow> c = CHR 0x08"
    "n = 12 \<Longrightarrow> c = CHR 0x0C" "n = 10 \<Longrightarrow> c = CHR 0x0A" "n = 13 \<Longrightarrow> c = CHR 0x0D" "n = 9 \<Longrightarrow> c = CHR 0x09"
    unfolding escape_codes by (simp_all add: code)
  then have esc: "n = 34 \<Longrightarrow> json_escape (CHR 0x22) = Some c" "n = 92 \<Longrightarrow> json_escape (CHR 0x5C) = Some c"
    "n = 8 \<Longrightarrow> json_escape (CHR ''b'') = Some c" "n = 12 \<Longrightarrow> json_escape (CHR ''f'') = Some c"
    "n = 10 \<Longrightarrow> json_escape (CHR ''n'') = Some c" "n = 13 \<Longrightarrow> json_escape (CHR ''r'') = Some c"
    "n = 9 \<Longrightarrow> json_escape (CHR ''t'') = Some c"
    by (simp_all only: json_escape_simps)
  consider (plain) "32 \<le> n" "n < 127" "n \<noteq> 34" "n \<noteq> 92"
    | (escape) "n \<in> {34, 92, 8, 12, 10, 13, 9}" | (other) "\<not> storable c" "n \<notin> {34, 92, 8, 12, 10, 13, 9}"
    unfolding st by blast
  then show thesis
  proof cases
    case plain
    then show thesis by (intro that(1)) (auto simp: quote st q n_def [symmetric])
  next
    case escape
    then show thesis using that(2) esc by (auto simp: quote st)
  next
    case other
    then have "\<exists>e es. quote_char c = CHR 0x5C # e # es \<and> json_escape e = None"
      by (auto simp: quote st json_escape_simps)
    then show thesis using that(3) other(1) by blast
  qed
qed

lemma json_chars_quote:
  "\<forall>c\<in>set s. of_char c < (128::nat) \<Longrightarrow>
     json_chars (concat (map quote_char s) @ [CHR 0x22]) = (if list_all storable s then Some s else None)"
proof (induction s)
  case (Cons c s)
  then show ?case by (cases c rule: quote_char_cases) auto
qed simp

section \<open>Properties\<close>

text \<open>C16: Every statement is sent once, in order. When messages and flushes happen one after
  another, the batches that were sent, followed by the current batch, are the statements of all
  messages written, each once and in their order, whatever the server answers; and the counters tell
  how many statements were written and how many are waiting.\<close>

theorem db_batches_exact:
  "batches (machine_outputs (pg_step server interval) (NewPostgresqlDatabase n now) es) @
     pg_batch (machine_state (pg_step server interval) (NewPostgresqlDatabase n now) es) =
   concat (map statements es) \<and>
   pg_inv (length (concat (map statements es)))
     (machine_state (pg_step server interval) (NewPostgresqlDatabase n now) es)"
proof -
  have "pg_inv 0 (NewPostgresqlDatabase n now)" "pg_batch (NewPostgresqlDatabase n now) = []"
    by (simp_all add: pg_inv_def NewPostgresqlDatabase_def)
  with pg_run_batch [OF this(1), of server interval es] show ?thesis by simp
qed

text \<open>C8: Concurrent writes and flushes never send a statement twice. In every interleaving of
  goroutines that write and flush, no batch object is sent twice and the statements sent are, as a
  multiset, among those submitted; what was sent of an object is the beginning of what it holds.\<close>

theorem db_sent_at_most_once:
  assumes "shared_step\<^sup>*\<^sup>* shared_init h"
  shows "mset (concat (map snd (sh_sent h))) \<subseteq># mset (sh_submitted h) \<and> distinct (map fst (sh_sent h)) \<and>
    (\<forall>(p, ss)\<in>set (sh_sent h). prefix ss (sh_objects h p))"
proof -
  have inv: "shared_inv h" by (rule shared_inv_reachable [OF assms])
  have "mset (concat (map snd (sh_sent h))) \<subseteq># all_objects h" by (rule sent_subset_objects [OF inv])
  also have "\<dots> \<subseteq># mset (sh_submitted h)" using inv by (simp add: shared_inv_def)
  finally show ?thesis using inv by (auto simp: shared_inv_def)
qed

definition sample_statement :: "nat \<Rightarrow> statement" where
  "sample_statement n = InsertRaw (int n) [] [] 0 []"

definition shared_load :: "statement \<Rightarrow> shared \<Rightarrow> shared" where
  "shared_load s h =
     h\<lparr>sh_writing := sh_writing h @ [(sh_batch h, s)], sh_submitted := sh_submitted h @ [s]\<rparr>"

lemma shared_load_reach: "shared_step\<^sup>*\<^sup>* shared_init h \<Longrightarrow> shared_step\<^sup>*\<^sup>* shared_init (shared_load s h)"
  unfolding shared_load_def by (erule rtranclp.rtrancl_into_rtrancl) (rule load)

theorem db_sent_at_most_once_witness:
  "mset (concat (map snd (sh_sent (shared_load (sample_statement 1) shared_init)))) \<subseteq>#
     mset (sh_submitted (shared_load (sample_statement 1) shared_init))"
  using db_sent_at_most_once [OF shared_load_reach [OF rtranclp.rtrancl_refl], of "sample_statement 1"] by blast

text \<open>A write that races with a flush can be lost. There is an interleaving after which nothing is
  being written or flushed and the current batch is empty, and yet one of the two statements submitted
  was never sent: it was appended to a batch that had been sent already.\<close>

theorem db_write_lost:
  "\<exists>h. shared_step\<^sup>*\<^sup>* shared_init h \<and> sh_writing h = [] \<and> sh_flushing h = 0 \<and> sh_taken h = [] \<and>
     sh_objects h (sh_batch h) = [] \<and>
     sh_submitted h = [sample_statement 1, sample_statement 2] \<and>
     concat (map snd (sh_sent h)) = [sample_statement 1]"
proof -
  let ?s1 = "sample_statement 1" and ?s2 = "sample_statement 2"
  let ?h2 = "shared_load ?s2 (shared_load ?s1 shared_init)"
  let ?h3 = "?h2\<lparr>sh_writing := [(0, ?s2)], sh_objects := (sh_objects ?h2)(0 := [?s1])\<rparr>"
  let ?h4 = "?h3\<lparr>sh_flushing := 1\<rparr>"
  let ?h5 = "?h4\<lparr>sh_flushing := 0, sh_taken := [0], sh_batch := 1, sh_next := 2\<rparr>"
  let ?h6 = "?h5\<lparr>sh_taken := [], sh_sent := [(0, [?s1])]\<rparr>"
  let ?h7 = "?h6\<lparr>sh_writing := [], sh_objects := (sh_objects ?h6)(0 := [?s1, ?s2])\<rparr>"
  have h2: "sh_writing ?h2 = [(0, ?s1), (0, ?s2)]" "sh_objects ?h2 = (\<lambda>_. [])" "sh_batch ?h2 = 0"
    "sh_next ?h2 = 1" "sh_flushing ?h2 = 0" "sh_taken ?h2 = []" "sh_sent ?h2 = []"
    by (simp_all add: shared_load_def shared_init_def)
  have "shared_step\<^sup>*\<^sup>* shared_init ?h2" by (intro shared_load_reach) simp
  also have "shared_step ?h2 ?h3" using queue [of ?h2 "[]" 0 ?s1 "[(0, ?s2)]"] h2 by simp
  also have "shared_step ?h3 ?h4" using check [of ?h3] h2 by simp
  also have "shared_step ?h4 ?h5" using takes [of ?h4 0] h2 by (simp add: numeral_2_eq_2)
  also have "shared_step ?h5 ?h6" using sends [of ?h5 "[]" 0 "[]"] h2 by simp
  also have "shared_step ?h6 ?h7" using queue [of ?h6 "[]" 0 ?s2 "[]"] h2 by simp
  finally have "shared_step\<^sup>*\<^sup>* shared_init ?h7" .
  moreover have "sh_submitted ?h7 = [?s1, ?s2]" by (simp add: shared_load_def shared_init_def)
  ultimately show ?thesis using h2 by (intro exI [of _ ?h7]) simp
qed

text \<open>Which text values the database can store. A text value is queued as Go's quoted form of
  it; that is a JSON string literal exactly when the text (in ASCII) has no control characters
  other than backspace, tab, line feed, form feed and carriage return, and no DEL, and then it
  reads back as the text.\<close>

theorem text_value_quoted:
  assumes "\<forall>c\<in>set str. of_char c < (128::nat)" "svm_Value s = GString str"
  shows "\<exists>q. row_value (mapped_row_of s) = GString q \<and>
    json_string q = (if list_all storable str then Some str else None)"
  using json_chars_quote [OF assms(1)] assms(2)
  by (simp add: mapped_row_of_def Let_def Quote_def json_string_def)

theorem text_value_quoted_witness:
  "\<exists>q. row_value (mapped_row_of (NewSingleValueMapped\<lparr>svm_Value := GString [CHR ''a'', CHR 0x07]\<rparr>)) = GString q \<and>
    json_string q = None"
  using text_value_quoted [of "[CHR ''a'', CHR 0x07]" "NewSingleValueMapped\<lparr>svm_Value := GString [CHR ''a'', CHR 0x07]\<rparr>"]
  by (simp add: storable_def)

end
