(* ===== verification/Database.thy ===== *)
theory Database
  imports Postgres
begin

text \<open>
  The part of \<open>database/postgresql.go\<close> around the statements: getting a connection, upgrading and
  downgrading the schema, and the statements that are executed one by one (the remote counts and
  the log of the transfer). The driver and the migrations are parameters: what each call answers.
\<close>

section \<open>Schema and connection\<close>

datatype migration = Migrated | NoChange | MigrationFailed string

record database =
  db_connection :: "nat option"
  db_upgradeDone :: bool

record db_driver =
  dr_OpenMigrations :: "string option"
  dr_NewMigration :: "string option"
  dr_Up :: migration
  dr_Down :: migration
  dr_Ping :: "nat \<Rightarrow> bool"
  dr_ParseConfig :: "string option"
  dr_Connect :: "string + nat"

definition UpgradeDatabase :: "db_driver \<Rightarrow> database \<Rightarrow> database \<times> string option" where
  "UpgradeDatabase dr db =
     (if db_upgradeDone db then (db, None)
      else case dr_OpenMigrations dr of
             Some err \<Rightarrow> (db, Some err)
           | None \<Rightarrow>
              (case dr_NewMigration dr of
                 Some err \<Rightarrow> (db, Some err)
               | None \<Rightarrow>
                  (case dr_Up dr of
                     MigrationFailed err \<Rightarrow> (db, Some err)
                   | _ \<Rightarrow> (db\<lparr>db_upgradeDone := True\<rparr>, None))))"

definition DowngradeDatabase :: "db_driver \<Rightarrow> database \<Rightarrow> database \<times> string option" where
  "DowngradeDatabase dr db =
     (case dr_OpenMigrations dr of
        Some err \<Rightarrow> (db, Some err)
      | None \<Rightarrow>
          (case dr_NewMigration dr of
             Some err \<Rightarrow> (db, Some err)
           | None \<Rightarrow>
               (case dr_Down dr of
                  MigrationFailed err \<Rightarrow> (db, Some err)
                | _ \<Rightarrow> (db, None))))"

text \<open>
  A connection that does not answer a ping is replaced; \<open>Inl\<close> is the fatal error that ends the
  process. The second check is made under the lock.
\<close>

definition alive :: "db_driver \<Rightarrow> database \<Rightarrow> nat option" where
  "alive dr db =
     (case db_connection db of
        None \<Rightarrow> None
      | Some c \<Rightarrow> if dr_Ping dr c then Some c else None)"

definition GetConnection :: "db_driver \<Rightarrow> database \<Rightarrow> database \<times> (string + nat)" where
  "GetConnection dr db =
     (case alive dr db of
        Some c \<Rightarrow> (db, Inr c)
      | None \<Rightarrow>
          (case UpgradeDatabase dr db of
             (db, Some err) \<Rightarrow> (db, Inl err)
           | (db, None) \<Rightarrow>
               (case alive dr db of
                  Some c \<Rightarrow> (db, Inr c)
                | None \<Rightarrow>
                    (case dr_ParseConfig dr of
                       Some err \<Rightarrow> (db, Inl err)
                     | None \<Rightarrow>
                         (case dr_Connect dr of
                            Inl err \<Rightarrow> (db, Inl err)
                          | Inr c \<Rightarrow> (db\<lparr>db_connection := Some c\<rparr>, Inr c))))))"

section \<open>Statements executed one by one\<close>

text \<open>
  The server executes a statement, refuses it, or does not answer in time; a statement that timed
  out may have been executed. The tables are the remote counts, by period and origin, and the log.
\<close>

datatype exec_answer = Executed | ExecFailed string | TimedOut bool

type_synonym remote_table = "(time \<times> string, int) gomap"

definition executed :: "exec_answer \<Rightarrow> bool" where
  "executed ans = (case ans of Executed \<Rightarrow> True | ExecFailed err \<Rightarrow> False | TimedOut b \<Rightarrow> b)"

definition exec_result :: "exec_answer \<Rightarrow> postgresql \<Rightarrow> postgresql \<times> query_error option" where
  "exec_result ans db =
     (case ans of
        Executed \<Rightarrow> (db, None)
      | ExecFailed err \<Rightarrow> (db, Some (ServerError err))
      | TimedOut b \<Rightarrow> (db\<lparr>pg_timeouts := pg_timeouts db + 1\<rparr>, Some DeadlineExceeded))"

definition CreateRemoteCount ::
    "exec_answer \<Rightarrow> time \<Rightarrow> string \<Rightarrow> int \<Rightarrow> postgresql \<times> remote_table \<Rightarrow>
     (postgresql \<times> remote_table) \<times> query_error option" where
  "CreateRemoteCount ans start origin n st =
     (case st of (db, table) \<Rightarrow>
        (let table = (if executed ans then AList.update (start, origin) n table else table)
         in case exec_result ans db of (db, err) \<Rightarrow> ((db, table), err)))"

definition LogTransferRequest ::
    "exec_answer \<Rightarrow> string \<Rightarrow> 'm \<Rightarrow> postgresql \<times> (string \<times> 'm) list \<Rightarrow>
     (postgresql \<times> (string \<times> 'm) list) \<times> query_error option" where
  "LogTransferRequest ans origin m st =
     (case st of (db, entries) \<Rightarrow>
        (let entries = (if executed ans then entries @ [(origin, m)] else entries)
         in case exec_result ans db of (db, err) \<Rightarrow> ((db, entries), err)))"

section \<open>Lemmas\<close>

text \<open>A connection that answers pings is kept; the schema is upgraded at most once.\<close>

lemma GetConnection_alive: "alive dr db = Some c \<Longrightarrow> GetConnection dr db = (db, Inr c)"
  by (simp add: GetConnection_def)

lemma UpgradeDatabase_monotone: "db_upgradeDone db \<Longrightarrow> db_upgradeDone (fst (UpgradeDatabase dr db))"
  by (simp add: UpgradeDatabase_def)

lemma UpgradeDatabase_ok:
  "snd (UpgradeDatabase dr db) = None \<Longrightarrow> db_upgradeDone (fst (UpgradeDatabase dr db))"
  by (auto simp: UpgradeDatabase_def split: option.splits migration.splits if_splits)

lemma UpgradeDatabase_connection [simp]: "db_connection (fst (UpgradeDatabase dr db)) = db_connection db"
  by (auto simp: UpgradeDatabase_def split: option.splits migration.splits)

text \<open>
  A downgrade leaves \<open>upgradeDone\<close> set: a schema that was upgraded and then downgraded counts as
  upgraded, and upgrading it again succeeds without doing anything.
\<close>

lemma downgrade_not_noticed:
  assumes "snd (UpgradeDatabase dr db) = None"
  shows "UpgradeDatabase dr'' (fst (DowngradeDatabase dr' (fst (UpgradeDatabase dr db)))) =
    (fst (UpgradeDatabase dr db), None)"
proof -
  have "fst (DowngradeDatabase dr' d) = d" for d
    by (simp add: DowngradeDatabase_def split: option.split migration.split)
  with UpgradeDatabase_ok [OF assms] show ?thesis by (simp add: UpgradeDatabase_def)
qed

section \<open>Properties\<close>

text \<open>What \<open>GetConnection\<close> returns. A connection it returns is the one the database keeps, and it was
  either just opened or answered a ping; one that is opened is opened on an upgraded schema; and when
  the old connection answers the ping nothing changes.\<close>

theorem connection_usable:
  "case GetConnection dr db of
     (db', Inl err) \<Rightarrow> alive dr db = None \<and> db_connection db' = db_connection db
   | (db', Inr c) \<Rightarrow> db_connection db' = Some c \<and>
       (if alive dr db = None then db_upgradeDone db' \<and> dr_Connect dr = Inr c else db' = db \<and> dr_Ping dr c)"
proof (cases "alive dr db")
  case (Some c)
  then have "db_connection db = Some c" "dr_Ping dr c" by (auto simp: alive_def split: option.splits if_splits)
  with Some show ?thesis by (simp add: GetConnection_alive)
next
  case None
  obtain db' r where u: "UpgradeDatabase dr db = (db', r)" by (cases "UpgradeDatabase dr db")
  have same: "db_connection db' = db_connection db" using UpgradeDatabase_connection [of dr db] u by simp
  have "alive dr db' = None" using None same by (simp add: alive_def)
  moreover have "r = None \<Longrightarrow> db_upgradeDone db'" using UpgradeDatabase_ok [of dr db] u by simp
  ultimately show ?thesis
    using None u same by (auto simp: GetConnection_def split: option.splits sum.splits)
qed

end
