(* ===== verification/DataTransfer.thy ===== *)
theory DataTransfer
  imports Database
begin

text \<open>
  \<open>transfer/request.go\<close> and \<open>transfer/respond.go\<close>: the protocol that finds and
  transmits again the data points a database is missing. The requester asks other installations for
  the number of data points of periods of five minutes, and for the data of periods in which it has
  too few; the responder answers from its own database. The answers of the database, the MQTT
  client and the uuids drawn are parameters. The goroutines per origin are independent of each
  other and are modelled one origin at a time.
\<close>

section \<open>Messages\<close>

definition countCmd :: string where
  "countCmd = ''count''"

definition dataCmd :: string where
  "dataCmd = ''data''"

definition requestTopic :: "string \<Rightarrow> string" where
  "requestTopic origin = ''request/'' @ origin"

definition respondTopic :: "string \<Rightarrow> string" where
  "respondTopic origin = ''respond/'' @ origin"

definition periodDuration :: int where
  "periodDuration = 5 * 60 * 1000000000"

definition countRequestCoolDown :: int where
  "countRequestCoolDown = 12 * periodDuration"

record request_message =
  rq_Command :: string
  rq_UUID :: uuid
  rq_PeriodStart :: time
  rq_CountsPerUuid :: "(uuid, int) gomap"

record response_message =
  rs_Command :: string
  rs_UUID :: uuid
  rs_PeriodStart :: time
  rs_DataPoints :: int

section \<open>The requester: counts\<close>

definition has_remote_count :: "remote_counts \<Rightarrow> string \<Rightarrow> time \<Rightarrow> bool" where
  "has_remote_count counts origin p =
     (case map_of counts origin of None \<Rightarrow> False | Some periods \<Rightarrow> map_of periods p \<noteq> None)"

text \<open>
  The loop over the periods of an origin. \<open>now k\<close> is the clock when the condition is evaluated for
  the \<open>k\<close>-th time; a clock that keeps ahead of the periods would keep the loop running.
\<close>

partial_function (option) period_loop ::
    "(nat \<Rightarrow> time) \<Rightarrow> remote_counts \<Rightarrow> string \<Rightarrow> nat \<Rightarrow> time \<Rightarrow> time list \<Rightarrow> time list option" where
  "period_loop now counts origin k p periods =
     (if p < now k - countRequestCoolDown
      then period_loop now counts origin (Suc k) (p + periodDuration)
             (if has_remote_count counts origin p then periods else periods @ [p])
      else Some periods)"

definition count_request :: "uuid \<Rightarrow> time \<Rightarrow> request_message" where
  "count_request u period =
     \<lparr>rq_Command = countCmd, rq_UUID = u, rq_PeriodStart = period, rq_CountsPerUuid = []\<rparr>"

text \<open>A command that cannot be marshalled is not published.\<close>

definition sendMQTTCommand :: "(request_message \<Rightarrow> string + byte list) \<Rightarrow> string \<Rightarrow> request_message \<Rightarrow>
    (string \<times> byte list) list" where
  "sendMQTTCommand marshal origin message =
     (case marshal message of Inl err \<Rightarrow> [] | Inr bytes \<Rightarrow> [(requestTopic origin, bytes)])"

text \<open>
  A request is published and logged, one after another, whatever the database answers; the log holds the
  requests that were stored.
\<close>

definition send_request ::
    "(request_message \<Rightarrow> string + byte list) \<Rightarrow> exec_answer \<Rightarrow> string \<Rightarrow> request_message \<Rightarrow>
     postgresql \<times> (string \<times> request_message) list \<Rightarrow>
     (postgresql \<times> (string \<times> request_message) list) \<times> (string \<times> byte list) list" where
  "send_request marshal log_ans origin request st =
     (let out = sendMQTTCommand marshal origin request
      in (fst (LogTransferRequest log_ans origin request st), out))"

fun send_requests ::
    "(request_message \<Rightarrow> string + byte list) \<Rightarrow> string \<Rightarrow> (request_message \<times> exec_answer) list \<Rightarrow>
     postgresql \<times> (string \<times> request_message) list \<Rightarrow>
     (postgresql \<times> (string \<times> request_message) list) \<times> (string \<times> byte list) list" where
  "send_requests marshal origin [] st = (st, [])"
| "send_requests marshal origin ((request, log_ans) # requests) st =
     (case send_request marshal log_ans origin request st of (st, out) \<Rightarrow>
        (case send_requests marshal origin requests st of (st, outs) \<Rightarrow> (st, out @ outs)))"

text \<open>The requests of the goroutine of one origin, which \<open>send_requests\<close> then sends.\<close>

definition origin_count_requests ::
    "(nat \<Rightarrow> time) \<Rightarrow> (nat \<Rightarrow> uuid) \<Rightarrow> remote_counts \<Rightarrow> string \<Rightarrow> time \<Rightarrow> request_message list option" where
  "origin_count_requests now uuids counts origin start =
     map_option (\<lambda>periods. map (\<lambda>(i, period). count_request (uuids i) period) (enumerate 0 periods))
       (period_loop now counts origin 0 start [])"

definition min_start :: "time \<Rightarrow> (string, time) gomap \<Rightarrow> time" where
  "min_start now origins = foldl (\<lambda>minStart (origin, start). if start < minStart then start else minStart) now origins"

text \<open>
  The two queries of \<open>sendCountRequests\<close>; the second one starts at the earliest period. \<open>None\<close>:
  a query failed and nothing is requested. Otherwise the requests per origin, each the result of
  its loop.
\<close>

definition sendCountRequests ::
    "(string \<times> time) answer \<Rightarrow> (time \<Rightarrow> (string \<times> time) answer) \<Rightarrow> time \<Rightarrow> (nat \<Rightarrow> time) \<Rightarrow> (nat \<Rightarrow> uuid) \<Rightarrow>
     postgresql \<Rightarrow> postgresql \<times> (string \<times> request_message list option) list option" where
  "sendCountRequests first_ans remote_ans now0 now uuids db =
     (case SelectFirstMappedDataPerOrigin first_ans db of
        (db, Inl err) \<Rightarrow> (db, None)
      | (db, Inr origins) \<Rightarrow>
          (case SelectExistingRemoteCounts (remote_ans (min_start now0 origins)) db of
             (db, Inl err) \<Rightarrow> (db, None)
           | (db, Inr counts) \<Rightarrow>
               (db, Some (map (\<lambda>(origin, start).
                  (origin, origin_count_requests now uuids counts origin start)) origins))))"

definition trim_prefix :: "string \<Rightarrow> string \<Rightarrow> string" where
  "trim_prefix s p = (if prefix p s then drop (length p) s else s)"

text \<open>
  A response is stored as the remote count of its period and logged; errors of the database are not
  looked at.
\<close>

record requester_tables =
  rt_db :: postgresql
  rt_counts :: remote_table
  rt_log :: "(string \<times> response_message) list"

definition countResponseReceived ::
    "exec_answer \<Rightarrow> exec_answer \<Rightarrow> string \<Rightarrow> response_message \<Rightarrow> requester_tables \<Rightarrow> requester_tables" where
  "countResponseReceived create_ans log_ans origin r t =
     (case CreateRemoteCount create_ans (rs_PeriodStart r) origin (rs_DataPoints r) (rt_db t, rt_counts t) of
        ((db, counts), _) \<Rightarrow>
          (case LogTransferRequest log_ans origin r (db, rt_log t) of
             ((db, entries), _) \<Rightarrow> t\<lparr>rt_db := db, rt_counts := counts, rt_log := entries\<rparr>))"

definition requester_messageReceived ::
    "(byte list \<Rightarrow> string + response_message) \<Rightarrow> exec_answer \<Rightarrow> exec_answer \<Rightarrow> requester_tables \<Rightarrow>
     string \<times> byte list \<Rightarrow> requester_tables" where
  "requester_messageReceived unmarshal create_ans log_ans t m =
     (case m of (topic, payload) \<Rightarrow>
        (case unmarshal payload of
           Inl err \<Rightarrow> t
         | Inr response \<Rightarrow>
             countResponseReceived create_ans log_ans (trim_prefix topic (respondTopic [])) response t))"

section \<open>The requester: data\<close>

fun data_periods :: "int \<Rightarrow> int \<Rightarrow> time list \<Rightarrow> time list" where
  "data_periods maxPeriods i [] = []"
| "data_periods maxPeriods i (period # periods) =
     (if i > maxPeriods then [] else period # data_periods maxPeriods (i + 1) periods)"

definition sendDataRequests ::
    "int \<Rightarrow> (string \<times> time) answer \<Rightarrow> postgresql \<Rightarrow> postgresql \<times> (string \<times> time) list option" where
  "sendDataRequests maxPeriods ans db =
     (case SelectIncompletePeriods ans db of
        (db, Inl err) \<Rightarrow> (db, None)
      | (db, Inr origins) \<Rightarrow>
          (db, Some (concat (map (\<lambda>(origin, periods). map (Pair origin) (data_periods maxPeriods 0 periods)) origins))))"

definition data_request :: "uuid \<Rightarrow> time \<Rightarrow> (uuid, int) gomap \<Rightarrow> request_message" where
  "data_request u period counts =
     \<lparr>rq_Command = dataCmd, rq_UUID = u, rq_PeriodStart = period, rq_CountsPerUuid = counts\<rparr>"

text \<open>
  The workers take periods from the channel; a worker whose query fails returns. The state is the
  number of workers that are left, the database and the log; without workers a period stays in the channel.
\<close>

definition data_worker_step ::
    "(request_message \<Rightarrow> string + byte list) \<Rightarrow> nat \<times> postgresql \<times> (string \<times> request_message) list \<Rightarrow>
     (string \<times> time) \<times> uuid \<times> (uuid \<times> int) answer \<times> exec_answer \<Rightarrow>
     (nat \<times> postgresql \<times> (string \<times> request_message) list) \<times> (string \<times> byte list) list option" where
  "data_worker_step marshal st input =
     (case (st, input) of ((workers, db, entries), ((origin, period), u, ans, log_ans)) \<Rightarrow>
        if workers = 0 then (st, None)
        else
          (case SelectCountPerUuid ans db of
             (db, Inl err) \<Rightarrow> ((workers - 1, db, entries), None)
           | (db, Inr counts) \<Rightarrow>
               (case send_request marshal log_ans origin (data_request u period counts) (db, entries) of
                  (st, out) \<Rightarrow> ((workers, st), Some out))))"

section \<open>The responder\<close>

record responder =
  rp_Origin :: string
  rp_countRequestsReceived :: nat
  rp_countRequestsHandled :: nat
  rp_dataRequestsReceived :: nat
  rp_dataRequestsHandled :: nat
  rp_recordsTransmitted :: nat
  rp_uuidsTransmitted :: nat

definition NewTransferResponder :: "string \<Rightarrow> responder" where
  "NewTransferResponder origin =
     \<lparr>rp_Origin = origin, rp_countRequestsReceived = 0, rp_countRequestsHandled = 0,
      rp_dataRequestsReceived = 0, rp_dataRequestsHandled = 0, rp_recordsTransmitted = 0,
      rp_uuidsTransmitted = 0\<rparr>"

definition respondWithCount ::
    "(response_message \<Rightarrow> string + byte list) \<Rightarrow> row_answer \<Rightarrow> request_message \<Rightarrow> responder \<times> postgresql \<Rightarrow>
     (responder \<times> postgresql) \<times> (string \<times> byte list) option" where
  "respondWithCount marshal ans request st =
     (case st of (t, db) \<Rightarrow>
        (case SelectCountMapped ans db of
           (db, Inl err) \<Rightarrow> ((t, db), None)
         | (db, Inr n) \<Rightarrow>
             (case marshal \<lparr>rs_Command = countCmd, rs_UUID = rq_UUID request,
                            rs_PeriodStart = rq_PeriodStart request, rs_DataPoints = n\<rparr> of
                Inl err \<Rightarrow> ((t, db), None)
              | Inr bytes \<Rightarrow>
                  ((t\<lparr>rp_countRequestsHandled := rp_countRequestsHandled t + 1\<rparr>, db),
                   Some (respondTopic (rp_Origin t), bytes)))))"

text \<open>The uuids whose data the requester has completely are taken out.\<close>

definition drop_complete :: "(uuid, int) gomap \<Rightarrow> uuid \<times> int \<Rightarrow> (uuid, int) gomap" where
  "drop_complete local entry =
     (case entry of (u, n) \<Rightarrow>
        (case map_of local u of
           None \<Rightarrow> local
         | Some c \<Rightarrow> if c \<le> n then AList.delete u local else local))"

definition uuids_to_transmit :: "(uuid, int) gomap \<Rightarrow> (uuid, int) gomap \<Rightarrow> (uuid, int) gomap" where
  "uuids_to_transmit remote local = foldl drop_complete local remote"

text \<open>\<open>make([]uuid.UUID, n)\<close> followed by \<open>append\<close>: the slice starts with n nil uuids.\<close>

definition uuid_argument :: "(uuid, int) gomap \<Rightarrow> uuid list" where
  "uuid_argument m = replicate (length m) 0 @ map fst m"

definition set_transfer :: "uuid \<Rightarrow> mapped \<Rightarrow> mapped" where
  "set_transfer u delta =
     delta\<lparr>m_Updates := map (\<lambda>x. x\<lparr>upd_Source := WithTransferUuid u (upd_Source x)\<rparr>) (m_Updates delta)\<rparr>"

fun transmit :: "(mapped \<Rightarrow> string + byte list) \<Rightarrow> (byte list \<Rightarrow> bool) \<Rightarrow> uuid \<Rightarrow> mapped list \<Rightarrow> responder \<Rightarrow>
    responder \<times> byte list list" where
  "transmit marshal send u [] t = (t, [])"
| "transmit marshal send u (delta # deltas) t =
     (case marshal (set_transfer u delta) of
        Inl err \<Rightarrow> transmit marshal send u deltas t
      | Inr bytes \<Rightarrow>
          if \<not> send bytes then transmit marshal send u deltas t
          else (case transmit marshal send u deltas (t\<lparr>rp_recordsTransmitted := rp_recordsTransmitted t + 1\<rparr>) of
                  (t, out) \<Rightarrow> (t, bytes # out)))"

definition injectData ::
    "mapstructure \<Rightarrow> time \<Rightarrow> (uuid list \<Rightarrow> time \<Rightarrow> mapped_row answer) \<Rightarrow> (mapped \<Rightarrow> string + byte list) \<Rightarrow>
     (byte list \<Rightarrow> bool) \<Rightarrow> (uuid, int) gomap \<Rightarrow> uuid \<Rightarrow> time \<Rightarrow> responder \<times> postgresql \<Rightarrow>
     (responder \<times> postgresql) \<times> byte list list" where
  "injectData ms now read marshal send m u period st =
     (case st of (t, db) \<Rightarrow>
        (case Db_ReadMapped ms now (read (uuid_argument m) period) db of
           (db, Inl err) \<Rightarrow> ((t, db), [])
         | (db, Inr deltas) \<Rightarrow>
             (case transmit marshal send u deltas t of (t, out) \<Rightarrow> ((t, db), out))))"

definition respondWithData ::
    "mapstructure \<Rightarrow> time \<Rightarrow> (uuid \<times> int) answer \<Rightarrow> (uuid list \<Rightarrow> time \<Rightarrow> mapped_row answer) \<Rightarrow>
     (mapped \<Rightarrow> string + byte list) \<Rightarrow> (byte list \<Rightarrow> bool) \<Rightarrow> request_message \<Rightarrow> responder \<times> postgresql \<Rightarrow>
     (responder \<times> postgresql) \<times> byte list list" where
  "respondWithData ms now counts_ans read marshal send request st =
     (case st of (t, db) \<Rightarrow>
        (case SelectCountPerUuid counts_ans db of
           (db, Inl err) \<Rightarrow> ((t, db), [])
         | (db, Inr local) \<Rightarrow>
             (let m = uuids_to_transmit (rq_CountsPerUuid request) local
              in case injectData ms now read marshal send m (rq_UUID request) (rq_PeriodStart request) (t, db) of
                   ((t, db), out) \<Rightarrow>
                     ((t\<lparr>rp_uuidsTransmitted := rp_uuidsTransmitted t + length m,
                         rp_dataRequestsHandled := rp_dataRequestsHandled t + 1\<rparr>, db), out))))"

text \<open>What the responder does with a message: at most one answer to the broker, and deltas.\<close>

definition responder_messageReceived ::
    "mapstructure \<Rightarrow> time \<Rightarrow> (byte list \<Rightarrow> string + request_message) \<Rightarrow> (response_message \<Rightarrow> string + byte list) \<Rightarrow>
     row_answer \<Rightarrow> (uuid \<times> int) answer \<Rightarrow> (uuid list \<Rightarrow> time \<Rightarrow> mapped_row answer) \<Rightarrow>
     (mapped \<Rightarrow> string + byte list) \<Rightarrow> (byte list \<Rightarrow> bool) \<Rightarrow> responder \<times> postgresql \<Rightarrow> byte list \<Rightarrow>
     (responder \<times> postgresql) \<times> (string \<times> byte list) option \<times> byte list list" where
  "responder_messageReceived ms now unmarshal marshal_response count_ans counts_ans read marshal send st payload =
     (case unmarshal payload of
        Inl err \<Rightarrow> (st, None, [])
      | Inr request \<Rightarrow>
          if rq_Command request = countCmd then
            (let st = ((fst st)\<lparr>rp_countRequestsReceived := rp_countRequestsReceived (fst st) + 1\<rparr>, snd st)
             in case respondWithCount marshal_response count_ans request st of (st, answer) \<Rightarrow> (st, answer, []))
          else if rq_Command request = dataCmd then
            (let st = ((fst st)\<lparr>rp_dataRequestsReceived := rp_dataRequestsReceived (fst st) + 1\<rparr>, snd st)
             in case respondWithData ms now counts_ans read marshal send request st of (st, out) \<Rightarrow> (st, None, out))
          else (st, None, []))"

section \<open>Lemmas\<close>

lemma period_loop_steps:
  assumes "\<forall>j<n. p + int j * periodDuration < now (k + j) - countRequestCoolDown"
    and "\<not> p + int n * periodDuration < now (k + n) - countRequestCoolDown"
  shows "period_loop now counts origin k p periods =
    Some (periods @ filter (\<lambda>q. \<not> has_remote_count counts origin q) (map (\<lambda>j. p + int j * periodDuration) [0..<n]))"
  using assms
proof (induction n arbitrary: k p periods)
  case 0
  then show ?case by (subst period_loop.simps) simp
next
  case (Suc n)
  have "\<forall>j<n. p + periodDuration + int j * periodDuration < now (Suc k + j) - countRequestCoolDown"
    using Suc.prems(1) by (auto simp: algebra_simps dest: spec [of _ "Suc _"])
  moreover have "\<not> p + periodDuration + int n * periodDuration < now (Suc k + n) - countRequestCoolDown"
    using Suc.prems(2) by (simp add: algebra_simps)
  ultimately have IH: "period_loop now counts origin (Suc k) (p + periodDuration) ps =
      Some (ps @ filter (\<lambda>q. \<not> has_remote_count counts origin q)
        (map (\<lambda>j. p + periodDuration + int j * periodDuration) [0..<n]))" for ps
    by (rule Suc.IH)
  have "p < now k - countRequestCoolDown" using Suc.prems(1) by fastforce
  then have "period_loop now counts origin k p periods =
      period_loop now counts origin (Suc k) (p + periodDuration)
        (if has_remote_count counts origin p then periods else periods @ [p])"
    by (subst period_loop.simps) simp
  moreover have "map (\<lambda>j. p + int j * periodDuration) [0..<Suc n] =
      p # map (\<lambda>j. p + periodDuration + int j * periodDuration) [0..<n]"
    by (subst map_upt_Suc) (simp add: algebra_simps)
  ultimately show ?case by (simp add: IH)
qed

lemma data_periods_take: "data_periods m i periods = take (nat (m + 1 - i)) periods"
proof (induction periods arbitrary: i)
  case (Cons p ps)
  have "0 < m + 1 - i \<Longrightarrow> nat (m + 1 - i) = Suc (nat (m + 1 - (i + 1)))" by linarith
  then show ?case using Cons [of "i + 1"] by (cases "i > m") auto
qed simp

text \<open>The periods of an origin are the ones of its rows, in their order.\<close>

definition group_row :: "(string, time list) gomap \<Rightarrow> string \<times> time \<Rightarrow> (string, time list) gomap" where
  "group_row result row =
     (case row of (origin, start) \<Rightarrow>
        (let result = (if map_of result origin = None then AList.update origin [] result else result)
         in AList.update origin (the (map_of result origin) @ [start]) result))"

lemma scan_rows_ok: "scan_rows f acc (map Inr rows) = Inr (foldl f acc rows)"
  by (induction rows arbitrary: acc) simp_all

lemma group_rows:
  assumes "distinct (map fst acc)"
  shows "distinct (map fst (foldl group_row acc rows)) \<and>
    (\<forall>origin. (case map_of (foldl group_row acc rows) origin of None \<Rightarrow> [] | Some ps \<Rightarrow> ps) =
       (case map_of acc origin of None \<Rightarrow> [] | Some ps \<Rightarrow> ps) @ map snd (filter (\<lambda>r. fst r = origin) rows))"
  using assms
proof (induction rows arbitrary: acc)
  case (Cons row rows)
  obtain o' t where row: "row = (o', t)" by (cases row)
  have "distinct (map fst (group_row acc row))"
    using Cons.prems by (simp add: row group_row_def Let_def distinct_update)
  moreover have "(case map_of (group_row acc row) origin of None \<Rightarrow> [] | Some ps \<Rightarrow> ps) =
      (case map_of acc origin of None \<Rightarrow> [] | Some ps \<Rightarrow> ps) @ (if o' = origin then [t] else [])" for origin
    by (auto simp: row group_row_def Let_def update_conv' split: option.splits)
  ultimately show ?case using Cons.IH [of "group_row acc row"] row by auto
qed simp

lemma SelectIncompletePeriods_rows:
  "SelectIncompletePeriods (QueryRows (map Inr rows) None) db = (db, Inr (foldl group_row [] rows))"
proof -
  have "(\<lambda>result (origin, start).
       let result = (if map_of result origin = None then AList.update origin [] result else result)
       in AList.update origin (the (map_of result origin) @ [start]) result) = group_row"
    by (intro ext) (simp add: group_row_def split: prod.splits)
  then show ?thesis by (simp add: SelectIncompletePeriods_def read_answer_def scan_rows_ok)
qed

text \<open>A list of pairs of an association list, for one key.\<close>

lemma concat_map_key:
  assumes "distinct (map fst m)"
  shows "map snd (filter (\<lambda>r. fst r = k) (concat (map (\<lambda>(k, vs). map (Pair k) (f vs)) m))) =
    (case map_of m k of None \<Rightarrow> [] | Some vs \<Rightarrow> f vs)"
  using assms
proof (induction m)
  case (Cons kv m)
  obtain k' vs where kv: "kv = (k', vs)" by (cases kv)
  have none: "map_of m k' = None" using Cons.prems kv by (simp add: map_of_eq_None_iff)
  have "filter (\<lambda>r. fst r = k) (map (Pair k') (f vs)) = (if k' = k then map (Pair k') (f vs) else [])"
    by (auto simp: filter_empty_conv)
  then show ?case using Cons none kv by (auto simp: comp_def)
qed simp

text \<open>Whether a worker's query fails does not depend on the state.\<close>

definition query_fails :: "(uuid \<times> int) answer \<Rightarrow> bool" where
  "query_fails ans \<longleftrightarrow>
     (case ans of
        QueryRows rows end_err \<Rightarrow> end_err \<noteq> None \<or> \<not> list_all is_ok rows
      | _ \<Rightarrow> True)"

lemma scan_rows_is_ok: "is_ok (scan_rows f acc rows) \<longleftrightarrow> list_all is_ok rows"
proof (induction rows arbitrary: acc)
  case (Cons r rows)
  then show ?case by (cases r) simp_all
qed simp

lemma query_fails_iff: "query_fails ans \<longleftrightarrow> \<not> is_ok (snd (SelectCountPerUuid ans db))"
proof (cases ans)
  case (QueryRows rows end_err)
  let ?f = "\<lambda>result (uuid, count). AList.update uuid count result :: (uuid, int) gomap"
  have "is_ok (scan_rows ?f [] rows) \<longleftrightarrow> list_all is_ok rows" by (rule scan_rows_is_ok)
  with QueryRows show ?thesis
    by (cases "scan_rows ?f [] rows") (auto simp: query_fails_def SelectCountPerUuid_def read_answer_def is_ok_def split: sum.splits option.splits)
qed (simp_all add: query_fails_def SelectCountPerUuid_def read_answer_def)

lemma worker_run:
  "fst (machine_state (data_worker_step marshal) (n, db, entries) inputs) =
     n - length (filter (\<lambda>(_, _, ans, _). query_fails ans) inputs)"
proof (induction inputs arbitrary: n db entries)
  case (Cons x inputs)
  obtain o' p u ans log_ans where x: "x = ((o', p), u, ans, log_ans)" by (metis prod.exhaust)
  obtain db' r where r: "SelectCountPerUuid ans db = (db', r)" by (cases "SelectCountPerUuid ans db")
  have "query_fails ans \<longleftrightarrow> \<not> is_ok r" using query_fails_iff [of ans db] r by simp
  moreover obtain db'' entries' out where "send_request marshal log_ans o' (data_request u p (projr r)) (db', entries) =
      ((db'', entries'), out)"
    by (metis prod.exhaust)
  ultimately show ?case
    using Cons [of "n - 1" db' entries] Cons [of n db'' entries'] Cons [of 0 db entries] r
    by (cases r) (auto simp: data_worker_step_def x)
qed simp

text \<open>Which uuids are transmitted.\<close>

lemma distinct_drop_complete: "distinct (map fst local) \<Longrightarrow> distinct (map fst (uuids_to_transmit remote local))"
  unfolding uuids_to_transmit_def
proof (induction remote arbitrary: local)
  case (Cons e remote)
  have "distinct (map fst (drop_complete local e))"
    using Cons.prems by (auto simp: drop_complete_def distinct_delete split: prod.splits option.splits)
  then show ?case using Cons.IH by simp
qed simp

lemma map_of_uuids_to_transmit:
  "map_of (uuids_to_transmit remote local) u =
     (case map_of local u of
        None \<Rightarrow> None
      | Some c \<Rightarrow> if \<exists>n. (u, n) \<in> set remote \<and> c \<le> n then None else Some c)"
  unfolding uuids_to_transmit_def
proof (induction remote arbitrary: local)
  case Nil
  then show ?case by (simp split: option.split)
next
  case (Cons e remote)
  obtain u' n where e: "e = (u', n)" by (cases e)
  have "map_of (drop_complete local e) u =
      (if u = u' \<and> (\<exists>c. map_of local u = Some c \<and> c \<le> n) then None else map_of local u)"
    by (auto simp: drop_complete_def e delete_conv' split: option.splits)
  then show ?case using Cons.IH [of "drop_complete local e"] by (auto simp: e split: option.splits)
qed

lemma snd_transmit:
  "snd (transmit marshal send u deltas t) =
     filter send (concat (map (\<lambda>d. case marshal (set_transfer u d) of Inl _ \<Rightarrow> [] | Inr b \<Rightarrow> [b]) deltas))"
  by (induction deltas arbitrary: t) (auto split: sum.splits prod.splits, (metis snd_conv)+)

lemma respondWithData_out:
  assumes "SelectCountPerUuid counts_ans db = (db', Inr local)"
    and "m = uuids_to_transmit (rq_CountsPerUuid request) local"
    and "read (uuid_argument m) (rq_PeriodStart request) = QueryRows (map Inr rows) None"
  shows "snd (respondWithData ms now counts_ans read marshal send request (t, db)) =
    filter send (concat (map (\<lambda>r. case marshal (set_transfer (rq_UUID request) (ToMapped now (svm_of_row ms r))) of
        Inl _ \<Rightarrow> [] | Inr b \<Rightarrow> [b]) rows))"
proof -
  have "foldl (\<lambda>result r. result @ [ToMapped now (svm_of_row ms r)]) [] rows =
      map (\<lambda>r. ToMapped now (svm_of_row ms r)) rows"
    by (simp add: foldl_snoc_map)
  then have "Db_ReadMapped ms now (read (uuid_argument m) (rq_PeriodStart request)) db' =
      (db', Inr (map (\<lambda>r. ToMapped now (svm_of_row ms r)) rows))"
    by (simp add: Db_ReadMapped_def read_answer_def assms(3) scan_rows_ok)
  with assms(1,2) show ?thesis
    by (simp add: respondWithData_def injectData_def Let_def split_beta snd_transmit comp_def)
qed

section \<open>Properties\<close>

text \<open>C20: The loop over the periods returns, with exactly the missing periods. If at some iteration
  the clock has not outrun the periods, the loop ends no later; it returns, in order, the periods
  of five minutes from the start on for which there is no remote count, up to the first one that was
  not over for an hour when it was looked at.\<close>

theorem period_loop_returns:
  assumes "now k - countRequestCoolDown \<le> start + int k * periodDuration"
  shows "\<exists>n\<le>k. period_loop now counts origin 0 start [] =
      Some (filter (\<lambda>q. \<not> has_remote_count counts origin q) (map (\<lambda>j. start + int j * periodDuration) [0..<n])) \<and>
    (\<forall>j<n. start + int j * periodDuration < now j - countRequestCoolDown) \<and>
    now n - countRequestCoolDown \<le> start + int n * periodDuration"
proof -
  define n where "n = (LEAST k. now k - countRequestCoolDown \<le> start + int k * periodDuration)"
  have n: "now n - countRequestCoolDown \<le> start + int n * periodDuration" "n \<le> k"
    unfolding n_def using assms by (rule LeastI, rule Least_le)
  have less: "\<forall>j<n. start + int j * periodDuration < now j - countRequestCoolDown"
    using not_less_Least [of _ "\<lambda>k. now k - countRequestCoolDown \<le> start + int k * periodDuration"]
    by (auto simp: n_def [symmetric] not_le)
  with n period_loop_steps [of n start now 0 counts origin "[]"] show ?thesis by auto
qed

theorem period_loop_returns_witness:
  "\<exists>n\<le>3. period_loop (\<lambda>_. countRequestCoolDown + 3 * periodDuration) [(''o'', [(periodDuration, ())])] ''o'' 0 0 [] =
     Some (filter (\<lambda>q. \<not> has_remote_count [(''o'', [(periodDuration, ())])] ''o'' q)
       (map (\<lambda>j. 0 + int j * periodDuration) [0..<n]))"
  using period_loop_returns [of "\<lambda>_. countRequestCoolDown + 3 * periodDuration" 3 0 "[(''o'', [(periodDuration, ())])]" "''o''"]
  by auto

text \<open>How many periods are requested at a time. When the server answers with the incomplete
  periods, the data of every origin is requested for the first periods of its answer, in the order
  of the answer; there are one more of them than the configured maximum.\<close>

theorem data_requests_bound:
  "case snd (sendDataRequests maxPeriods (QueryRows (map Inr rows) None) db) of
     None \<Rightarrow> False
   | Some reqs \<Rightarrow>
       map snd (filter (\<lambda>r. fst r = origin) reqs) =
         take (nat (maxPeriods + 1)) (map snd (filter (\<lambda>r. fst r = origin) rows))"
proof -
  have g: "distinct (map fst (foldl group_row [] rows))"
    "(case map_of (foldl group_row [] rows) origin of None \<Rightarrow> [] | Some ps \<Rightarrow> ps) =
      map snd (filter (\<lambda>r. fst r = origin) rows)"
    using group_rows [of "[]" rows] by auto
  show ?thesis
    using concat_map_key [OF g(1), of origin "take (nat (maxPeriods + 1))"] g(2)
    by (simp add: sendDataRequests_def SelectIncompletePeriods_rows data_periods_take split: option.splits)
qed

text \<open>A worker that meets an error is gone. Of the periods put on the channel, one is requested
  exactly when its query succeeds and fewer queries than there are workers failed before; after as
  many failures as workers no data is requested any more.\<close>

theorem data_workers_exhausted:
  assumes "i < length inputs" "inputs ! i = ((origin, period), u, ans, log_ans)"
  shows "machine_outputs (data_worker_step marshal) (n, db, entries) inputs ! i \<noteq> None \<longleftrightarrow>
    \<not> query_fails ans \<and> length (filter (\<lambda>(_, _, ans, _). query_fails ans) (take i inputs)) < n"
proof -
  let ?st = "machine_state (data_worker_step marshal) (n, db, entries) (take i inputs)"
  have w: "fst ?st = n - length (filter (\<lambda>(_, _, ans, _). query_fails ans) (take i inputs))"
    by (rule worker_run)
  obtain k db' entries' where st: "?st = (k, db', entries')" by (metis prod.exhaust)
  obtain db'' r where r: "SelectCountPerUuid ans db' = (db'', r)" by (cases "SelectCountPerUuid ans db'")
  have "query_fails ans \<longleftrightarrow> \<not> is_ok r" using query_fails_iff [of ans db'] r by simp
  then show ?thesis
    using w st r assms by (cases r) (auto simp: machine_outputs_nth data_worker_step_def split_beta)
qed

theorem data_workers_exhausted_witness:
  "machine_outputs (data_worker_step (\<lambda>_. Inr [])) (1, NewPostgresqlDatabase 1 0, [])
     [((''o'', 0), 1, QueryTimeout, Executed), ((''o'', 0), 2, QueryRows [] None, Executed)] ! 1 = None"
  using data_workers_exhausted [of 1 "[((''o'', 0), 1, QueryTimeout, Executed), ((''o'', 0), 2, QueryRows [] None, Executed)]" "''o''" 0 2
      "QueryRows [] None" Executed "\<lambda>_. Inr []" 1 "NewPostgresqlDatabase 1 0" "[]"]
  by (simp add: query_fails_def del: machine_outputs_simps not_None_eq)

text \<open>C29: What the responder transmits. When its queries succeed, it reads the rows of exactly the
  uuids of which it has more data points than the requester reported or the requester reported none
  (and of the nil uuid, if there is one), and publishes the delta of every row it read, once and in
  order, with the request's uuid as the transfer uuid.\<close>

theorem responder_transmits:
  assumes "SelectCountPerUuid counts_ans db = (db', Inr local)" "distinct (map fst local)"
    and "read (uuid_argument (uuids_to_transmit (rq_CountsPerUuid request) local)) (rq_PeriodStart request) =
      QueryRows (map Inr rows) None"
  shows "(u \<in> set (uuid_argument (uuids_to_transmit (rq_CountsPerUuid request) local)) \<longleftrightarrow>
      (\<exists>c. map_of local u = Some c \<and> (\<forall>n. (u, n) \<in> set (rq_CountsPerUuid request) \<longrightarrow> n < c)) \<or>
      u = 0 \<and> uuids_to_transmit (rq_CountsPerUuid request) local \<noteq> []) \<and>
    snd (respondWithData ms now counts_ans read marshal send request (t, db)) =
      filter send (concat (map (\<lambda>r. case marshal (set_transfer (rq_UUID request) (ToMapped now (svm_of_row ms r))) of
        Inl _ \<Rightarrow> [] | Inr b \<Rightarrow> [b]) rows))"
proof
  let ?m = "uuids_to_transmit (rq_CountsPerUuid request) local"
  have "u \<in> fst ` set ?m \<longleftrightarrow> map_of ?m u \<noteq> None" by (simp add: map_of_eq_None_iff)
  also have "\<dots> \<longleftrightarrow> (\<exists>c. map_of local u = Some c \<and> (\<forall>n. (u, n) \<in> set (rq_CountsPerUuid request) \<longrightarrow> n < c))"
    by (auto simp: map_of_uuids_to_transmit not_le split: option.split)
  finally show "u \<in> set (uuid_argument ?m) \<longleftrightarrow>
      (\<exists>c. map_of local u = Some c \<and> (\<forall>n. (u, n) \<in> set (rq_CountsPerUuid request) \<longrightarrow> n < c)) \<or>
      u = 0 \<and> ?m \<noteq> []"
    by (auto simp: uuid_argument_def)
qed (rule respondWithData_out [where read = read, OF assms(1) refl assms(3)])

definition sample_row :: mapped_row where
  "sample_row =
     \<lparr>row_time = 5, row_connector = ''c'', row_type = ''modbus'', row_context = ''x'', row_path = ''p'',
      row_value = GFloat (Fin 1), row_uuid = 3, row_origin = ''o'', row_transfer_uuid = 0\<rparr>"

theorem responder_transmits_witness:
  "length (snd (respondWithData no_structs 0 (QueryRows [Inr (3, 2)] None) (\<lambda>us p. QueryRows (map Inr [sample_row]) None)
     (\<lambda>m. Inr [1]) (\<lambda>_. True) (data_request 7 0 [(3, 1)]) (NewTransferResponder ''o'', NewPostgresqlDatabase 1 0))) = 1"
  using responder_transmits [of "QueryRows [Inr (3, 2)] None" "NewPostgresqlDatabase 1 0" "NewPostgresqlDatabase 1 0" "[(3, 2)]"
      "\<lambda>us p. QueryRows (map Inr [sample_row]) None" "data_request 7 0 [(3, 1)]" "[sample_row]"]
  by (simp add: SelectCountPerUuid_def read_answer_def)

end
