(* ===== verification/TransferRound.thy ===== *)
theory TransferRound
  imports DataTransfer
begin

text \<open>
  A round of the transfer between two databases: the requester counts its rows of a period per uuid
  and asks for the data (\<open>transfer/request.go\<close>), the responder sends the rows it has more of
  (\<open>transfer/respond.go\<close>), and the requester's writer inserts what it receives
  (\<open>database/postgresql.go\<close>). Both databases are tables, the queries have their meaning on them.
\<close>

section \<open>Statements on a table\<close>

fun execute_statement :: "statement \<Rightarrow> mapped_row list \<Rightarrow> mapped_row list" where
  "execute_statement (InsertMapped r) table = sql_insert r table"
| "execute_statement (InsertRaw t c v u y) table = table"

definition execute :: "statement list \<Rightarrow> mapped_row list \<Rightarrow> mapped_row list" where
  "execute ss table = fold execute_statement ss table"

text \<open>The delta that is sent for a row.\<close>

definition row_delta :: "mapstructure \<Rightarrow> time \<Rightarrow> uuid \<Rightarrow> mapped_row \<Rightarrow> mapped" where
  "row_delta ms now u r = set_transfer u (ToMapped now (svm_of_row ms r))"

text \<open>The requester's table after it has stored the messages received.\<close>

definition store_messages :: "(byte list \<Rightarrow> string + mapped) \<Rightarrow> byte list list \<Rightarrow> mapped_row list \<Rightarrow> mapped_row list" where
  "store_messages unmarshal msgs table =
     execute (concat (map (\<lambda>b. case unmarshal b of Inl err \<Rightarrow> [] | Inr m \<Rightarrow> statements (WritesMapped m)) msgs)) table"

section \<open>Lemmas\<close>

lemma sql_insert_keys [simp]: "row_key ` set (sql_insert r table) = insert (row_key r) (row_key ` set table)"
  by (auto simp: sql_insert_def)

lemma execute_append [simp]: "execute (ss @ ss') table = execute ss' (execute ss table)"
  by (simp add: execute_def)

lemma execute_Nil [simp]: "execute [] table = table"
  by (simp add: execute_def)

lemma execute_keys:
  "row_key ` set (execute ss table) = row_key ` set table \<union> {row_key r |r. InsertMapped r \<in> set ss}"
  unfolding execute_def
proof (induction ss arbitrary: table)
  case (Cons s ss)
  show ?case by (cases s) (auto simp: Cons.IH)
qed simp

lemma execute_mono: "set table \<subseteq> set (execute ss table)"
  unfolding execute_def
proof (induction ss arbitrary: table)
  case (Cons s ss)
  have "set table \<subseteq> set (execute_statement s table)" by (cases s) (auto simp: sql_insert_def)
  with Cons.IH [of "execute_statement s table"] show ?case by simp
qed simp

text \<open>The key survives the way from a row to a delta and back, unless the path is one that the database renames.\<close>

lemma row_delta_statements:
  assumes "row_path r \<notin> {[], ''mmsi'', ''name''}"
  obtains r' where "statements (WritesMapped (row_delta ms now u r)) = [InsertMapped r']" "row_key r' = row_key r"
proof (rule that)
  let ?s = "(svm_of_row ms r)\<lparr>svm_Source := WithTransferUuid u (svm_Source (svm_of_row ms r))\<rparr>"
  have "ToSingleValueMapped (row_delta ms now u r) = [?s]"
    by (simp add: row_delta_def set_transfer_def ToMapped_def ToSingleValueMapped_eq builder_defs)
  then show "statements (WritesMapped (row_delta ms now u r)) = [InsertMapped (mapped_row_of ?s)]" by simp
  show "row_key (mapped_row_of ?s) = row_key r"
    using assms by (simp add: mapped_row_of_def svm_of_row_def row_key_def WithTransferUuid_def Let_def)
qed

text \<open>Counting rows per uuid.\<close>

definition period_rows :: "string \<Rightarrow> time \<Rightarrow> uuid \<Rightarrow> mapped_row list \<Rightarrow> mapped_row list" where
  "period_rows origin p u table = filter (\<lambda>r. row_origin r = origin \<and> in_period p r \<and> row_uuid r = u) table"

lemma sql_count_per_uuid_eq:
  "map_of (sql_count_per_uuid origin p table) u =
     (if period_rows origin p u table = [] then None else Some (int (length (period_rows origin p u table))))"
proof -
  let ?rows = "filter (\<lambda>r. row_origin r = origin \<and> in_period p r) table"
  have rows: "filter (\<lambda>r. row_uuid r = u) ?rows = period_rows origin p u table"
    by (simp add: period_rows_def conj_assoc)
  have map_of_pairs: "map_of (map (\<lambda>u. (u, f u)) us) u = (if u \<in> set us then Some (f u) else None)"
    for f :: "uuid \<Rightarrow> int" and us
    by (induction us) auto
  have "u \<in> row_uuid ` set ?rows \<longleftrightarrow> period_rows origin p u table \<noteq> []"
    by (auto simp: period_rows_def filter_empty_conv)
  then show ?thesis
    unfolding sql_count_per_uuid_def Let_def map_of_pairs rows by simp
qed

lemma distinct_sql_count: "distinct (map fst (sql_count_per_uuid origin p table))"
  by (simp add: sql_count_per_uuid_def Let_def comp_def)

lemma foldl_update_distinct:
  "distinct (map fst (acc @ kvs)) \<Longrightarrow> foldl (\<lambda>m (k, v). AList.update k v m) acc kvs = acc @ kvs"
proof (induction kvs arbitrary: acc)
  case (Cons kv kvs)
  obtain k v where kv: "kv = (k, v)" by (cases kv)
  then have "k \<notin> fst ` set acc" using Cons.prems by auto
  then have "AList.update k v acc = acc @ [(k, v)]" by (induction acc) auto
  with Cons show ?case by (simp add: kv)
qed simp

lemma SelectCountPerUuid_table:
  "SelectCountPerUuid (QueryRows (map Inr (sql_count_per_uuid origin p table)) None) db =
     (db, Inr (sql_count_per_uuid origin p table))"
  using foldl_update_distinct [of "[]" "sql_count_per_uuid origin p table"] distinct_sql_count
  by (simp add: SelectCountPerUuid_def read_answer_def scan_rows_ok)

text \<open>
  If the requester has no more rows of a uuid than the responder, all of them among the responder's,
  and as many, it has them all.
\<close>

lemma complete_uuid:
  assumes "distinct (map row_key L)" "distinct (map row_key R)"
    and "\<forall>r\<in>set R. row_origin r = origin \<and> in_period p r \<longrightarrow>
      (\<exists>l\<in>set L. row_key l = row_key r \<and> row_uuid l = row_uuid r)"
    and "length (period_rows origin p u L) \<le> length (period_rows origin p u R)"
  shows "row_key ` set (period_rows origin p u L) \<subseteq> row_key ` set R"
proof -
  let ?keys = "\<lambda>t. row_key ` set (period_rows origin p u t)"
  have card: "card (?keys t) = length (period_rows origin p u t)" if "distinct (map row_key t)" for t
    using that distinct_card [of "map row_key (period_rows origin p u t)"]
    by (simp add: period_rows_def distinct_map_filter)
  have "?keys R \<subseteq> ?keys L"
  proof
    fix k assume "k \<in> ?keys R"
    then obtain r where r: "r \<in> set R" "row_origin r = origin" "in_period p r" "row_uuid r = u" "k = row_key r"
      by (auto simp: period_rows_def)
    then obtain l where l: "l \<in> set L" "row_key l = row_key r" "row_uuid l = row_uuid r" using assms(3) by blast
    then have "row_origin l = origin" "in_period p l" using r by (auto simp: row_key_def in_period_def)
    with l r have "l \<in> set (period_rows origin p u L)" by (simp add: period_rows_def)
    with l r show "k \<in> ?keys L" by (metis imageI)
  qed
  moreover have "card (?keys L) \<le> card (?keys R)" using assms(4) card assms(1,2) by simp
  ultimately have "?keys R = ?keys L" by (meson card_seteq finite_imageI List.finite_set)
  then show ?thesis by (auto simp: period_rows_def)
qed

text \<open>\<open>SELECT "origin", "start" FROM "transfer_remote_data" WHERE "start" >= $1\<close>.\<close>

definition sql_remote_counts :: "time \<Rightarrow> remote_table \<Rightarrow> (string \<times> time) list" where
  "sql_remote_counts start table =
     filter (\<lambda>(origin, p). start \<le> p) (map (\<lambda>((p, origin), n). (origin, p)) table)"

definition add_remote_count :: "remote_counts \<Rightarrow> string \<times> time \<Rightarrow> remote_counts" where
  "add_remote_count result row =
     (case row of (origin, start) \<Rightarrow>
        (let result = (if map_of result origin = None then AList.update origin [] result else result)
         in AList.update origin (AList.update start () (the (map_of result origin))) result))"

lemma has_remote_count_add:
  "has_remote_count (add_remote_count counts row) origin p \<longleftrightarrow> has_remote_count counts origin p \<or> row = (origin, p)"
  by (auto simp: has_remote_count_def add_remote_count_def update_conv' Let_def split: prod.split option.splits)

lemma has_remote_count_rows:
  "has_remote_count (foldl add_remote_count counts rows) origin p \<longleftrightarrow>
     has_remote_count counts origin p \<or> (origin, p) \<in> set rows"
  by (induction rows arbitrary: counts) (auto simp: has_remote_count_add)

lemma SelectExistingRemoteCounts_rows:
  "SelectExistingRemoteCounts (QueryRows (map Inr rows) None) db = (db, Inr (foldl add_remote_count [] rows))"
proof -
  have "(\<lambda>result (origin, start).
       let result = (if map_of result origin = None then AList.update origin [] result else result)
       in AList.update origin (AList.update start () (the (map_of result origin))) result) = add_remote_count"
    by (intro ext) (simp add: add_remote_count_def split: prod.splits)
  then show ?thesis by (simp add: SelectExistingRemoteCounts_def read_answer_def scan_rows_ok)
qed

lemma period_loop_missing:
  "period_loop now counts origin k p periods = Some result \<Longrightarrow>
     (\<forall>q\<in>set periods. \<not> has_remote_count counts origin q) \<longrightarrow>
     (\<forall>q\<in>set result. \<not> has_remote_count counts origin q)"
proof (induction rule: period_loop.raw_induct [rotated, consumes 1])
  case (1 rec now counts origin k p periods result)
  show ?case
  proof (cases "p < now k - countRequestCoolDown")
    case True
    with 1(2) have "rec now counts origin (Suc k) (p + periodDuration)
        (if has_remote_count counts origin p then periods else periods @ [p]) = Some result" by simp
    from 1(1) [OF this] show ?thesis by (cases "has_remote_count counts origin p") auto
  next
    case False
    with 1(2) show ?thesis by simp
  qed
qed

text \<open>The table of remote counts never loses a row.\<close>

lemma remote_counts_kept:
  "fst ` set (rt_counts t) \<subseteq>
     fst ` set (rt_counts (foldl (\<lambda>t (a, b, m). requester_messageReceived unmarshal a b t m) t later))"
proof (induction later arbitrary: t)
  case (Cons x later)
  obtain a b m where x: "x = (a, b, m)" by (metis prod.exhaust)
  have "fst ` set (rt_counts t) \<subseteq> fst ` set (rt_counts (requester_messageReceived unmarshal a b t m))"
    by (auto simp: requester_messageReceived_def countResponseReceived_def CreateRemoteCount_def Let_def dom_update
        split: prod.splits sum.splits)
  with Cons.IH [of "requester_messageReceived unmarshal a b t m"] show ?case by (simp add: x)
qed simp

text \<open>A row whose delta is among the messages is stored under its key.\<close>

lemma store_transmitted:
  assumes "b \<in> set msgs" "unmarshal b = Inr (row_delta ms now u l)" "row_path l \<notin> {[], ''mmsi'', ''name''}"
  shows "row_key l \<in> row_key ` set (store_messages unmarshal msgs R)"
proof -
  obtain r' where r': "statements (WritesMapped (row_delta ms now u l)) = [InsertMapped r']" "row_key r' = row_key l"
    using row_delta_statements assms(3) by blast
  then have "InsertMapped r' \<in> set (concat (map (\<lambda>b. case unmarshal b of Inl err \<Rightarrow> []
      | Inr m \<Rightarrow> statements (WritesMapped m)) msgs))"
    using assms(1,2) by (auto intro!: bexI [of _ b])
  with r'(2) show ?thesis
    unfolding store_messages_def execute_keys by (auto intro!: exI [of _ r'])
qed

section \<open>Properties\<close>

text \<open>C5: One round fills the gaps, when counting can tell them. Assume that the keys of the rows are distinct on
  both sides; that the rows the requester has of an origin and a period are among the responder's, with the same
  uuids; that the delta of every row of the responder can be marshalled and unmarshalled back to itself; and that all deltas sent
  arrive. Then after the requester has stored what the responder sent for its data request, it has a row for
  every row the responder has of that origin and period (under the key of the table, and unless its path is empty,
  \<open>mmsi\<close> or \<open>name\<close>, which the database renames), and it has kept all its rows. Without the assumption that the
  requester's rows are the responder's equal counts hide a missing row: \<open>equal_counts_hide_rows\<close>.\<close>

theorem transfer_round_completes:
  assumes "distinct (map row_key L)" "distinct (map row_key R)"
    and "\<forall>r\<in>set R. row_origin r = rp_Origin t \<and> in_period p r \<longrightarrow>
      (\<exists>l\<in>set L. row_key l = row_key r \<and> row_uuid l = row_uuid r)"
    and "\<forall>l\<in>set L. \<exists>b. marshal (row_delta ms now u l) = Inr b \<and> unmarshal b = Inr (row_delta ms now u l)"
    and "msgs = snd (respondWithData ms now
        (QueryRows (map Inr (sql_count_per_uuid (rp_Origin t) p L)) None)
        (\<lambda>uuids q. QueryRows (map Inr (sql_read_uuids uuids q L)) None) marshal (\<lambda>_. True)
        (data_request u p (sql_count_per_uuid (rp_Origin t) p R)) (t, db))"
  shows "set R \<subseteq> set (store_messages unmarshal msgs R) \<and>
    (\<forall>l\<in>set L. row_origin l = rp_Origin t \<and> in_period p l \<and> row_path l \<notin> {[], ''mmsi'', ''name''} \<longrightarrow>
       row_key l \<in> row_key ` set (store_messages unmarshal msgs R))"
proof (intro conjI ballI impI)
  let ?o = "rp_Origin t"
  let ?m = "uuids_to_transmit (sql_count_per_uuid ?o p R) (sql_count_per_uuid ?o p L)"
  let ?sent = "sql_read_uuids (uuid_argument ?m) p L"
  show "set R \<subseteq> set (store_messages unmarshal msgs R)" unfolding store_messages_def by (rule execute_mono)
  have msgs: "msgs = concat (map (\<lambda>r. case marshal (row_delta ms now u r) of Inl _ \<Rightarrow> [] | Inr b \<Rightarrow> [b]) ?sent)"
    using respondWithData_out [OF SelectCountPerUuid_table refl, where request = "data_request u p (sql_count_per_uuid ?o p R)"
        and rows = ?sent and read = "\<lambda>uuids q. QueryRows (map Inr (sql_read_uuids uuids q L)) None"]
    unfolding assms(5) by (simp add: data_request_def row_delta_def)
  fix l
  assume l: "l \<in> set L" and lo: "row_origin l = ?o \<and> in_period p l \<and> row_path l \<notin> {[], ''mmsi'', ''name''}"
  have count: "map_of (sql_count_per_uuid ?o p L) (row_uuid l) = Some (int (length (period_rows ?o p (row_uuid l) L)))"
    using l lo by (auto simp: sql_count_per_uuid_eq period_rows_def filter_empty_conv)
  show "row_key l \<in> row_key ` set (store_messages unmarshal msgs R)"
  proof (cases "map_of ?m (row_uuid l)")
    case (Some c)
    then have "l \<in> set ?sent"
      using l lo by (force simp: sql_read_uuids_def uuid_argument_def dest: map_of_SomeD)
    moreover obtain b where b: "marshal (row_delta ms now u l) = Inr b" "unmarshal b = Inr (row_delta ms now u l)"
      using assms(4) l by blast
    ultimately have "b \<in> set msgs" unfolding msgs by force
    then show ?thesis using b(2) lo by (intro store_transmitted) simp_all
  next
    case None
    then obtain n where "(row_uuid l, n) \<in> set (sql_count_per_uuid ?o p R)"
      "int (length (period_rows ?o p (row_uuid l) L)) \<le> n"
      using count by (auto simp: map_of_uuids_to_transmit split: if_splits)
    then have "map_of (sql_count_per_uuid ?o p R) (row_uuid l) = Some n"
      using distinct_sql_count by (simp add: map_of_eq_Some_iff)
    then have "length (period_rows ?o p (row_uuid l) L) \<le> length (period_rows ?o p (row_uuid l) R)"
      using \<open>_ \<le> n\<close> by (auto simp: sql_count_per_uuid_eq split: if_splits)
    from complete_uuid [OF assms(1-3) this] l lo have "row_key l \<in> row_key ` set R"
      by (force simp: period_rows_def)
    then show ?thesis unfolding store_messages_def execute_keys by blast
  qed
qed

theorem transfer_round_completes_witness:
  "row_key sample_row \<in> row_key ` set (store_messages (\<lambda>b. Inr (row_delta no_structs 0 7 sample_row))
     (snd (respondWithData no_structs 0 (QueryRows (map Inr (sql_count_per_uuid ''o'' 0 [sample_row])) None)
        (\<lambda>uuids q. QueryRows (map Inr (sql_read_uuids uuids q [sample_row])) None) (\<lambda>m. Inr [1]) (\<lambda>_. True)
        (data_request 7 0 (sql_count_per_uuid ''o'' 0 [])) (NewTransferResponder ''o'', NewPostgresqlDatabase 1 0))) [])"
proof -
  have o: "rp_Origin (NewTransferResponder ''o'') = ''o''" by (simp add: NewTransferResponder_def)
  from transfer_round_completes [OF _ _ _ _ refl, where L = "[sample_row]" and R = "[]" and u = 7 and p = 0
      and ms = no_structs and now = 0 and marshal = "\<lambda>m. Inr [1]" and t = "NewTransferResponder ''o''"
      and unmarshal = "\<lambda>b. Inr (row_delta no_structs 0 7 sample_row)" and db = "NewPostgresqlDatabase 1 0", unfolded o]
  show ?thesis by (simp add: sample_row_def in_period_def)
qed

text \<open>
  The comparison is of counts per uuid. A requester that has, of the same uuid, another row than the responder is not sent the one it lacks.
\<close>

definition other_row :: mapped_row where
  "other_row = sample_row\<lparr>row_path := ''q''\<rparr>"

theorem equal_counts_hide_rows:
  "row_key sample_row \<notin> row_key ` set (store_messages unmarshal
     (snd (respondWithData ms now (QueryRows (map Inr (sql_count_per_uuid ''o'' 0 [sample_row])) None)
        (\<lambda>uuids q. QueryRows (map Inr (sql_read_uuids uuids q [sample_row])) None) marshal (\<lambda>_. True)
        (data_request u 0 (sql_count_per_uuid ''o'' 0 [other_row])) (NewTransferResponder ''o'', NewPostgresqlDatabase 1 0)))
     [other_row])"
proof -
  have c: "sql_count_per_uuid ''o'' 0 [sample_row] = [(3, 1)]" "sql_count_per_uuid ''o'' 0 [other_row] = [(3, 1)]"
    by (simp_all add: sql_count_per_uuid_def other_row_def sample_row_def in_period_def)
  have none: "uuids_to_transmit [(3, 1)] [(3, 1)] = ([] :: (uuid \<times> int) list)" by (simp add: uuids_to_transmit_def drop_complete_def)
  have "sql_read_uuids (uuid_argument ([] :: (uuid \<times> int) list)) 0 [sample_row] = []"
    by (simp add: uuid_argument_def sql_read_uuids_def sample_row_def)
  then show ?thesis
    using respondWithData_out [OF SelectCountPerUuid_table [of "''o''" 0 "[sample_row]", unfolded c] refl,
        where request = "data_request u 0 [(3, 1)]" and rows = "[]"
          and read = "\<lambda>uuids q. QueryRows (map Inr (sql_read_uuids uuids q [sample_row])) None"]
    unfolding c by (simp add: data_request_def none store_messages_def execute_def other_row_def sample_row_def row_key_def)
qed

text \<open>A period that was answered is not asked for again. Once a response for a period of an origin has
  been received and its count stored, and whatever else was received before or is received later,
  the next round of count requests to that origin does not ask for that period.\<close>

theorem answered_period_not_requested:
  assumes "executed create_ans" "first \<le> rs_PeriodStart r"
    and "t' = foldl (\<lambda>t (a, b, m). requester_messageReceived unmarshal a b t m)
        (countResponseReceived create_ans log_ans origin r t) later"
    and "SelectExistingRemoteCounts (QueryRows (map Inr (sql_remote_counts first (rt_counts t'))) None) db = (db', Inr counts)"
    and "origin_count_requests now uuids counts origin start = Some requests"
  shows "rs_PeriodStart r \<notin> rq_PeriodStart ` set requests"
proof -
  have "(rs_PeriodStart r, origin) \<in> fst ` set (rt_counts (countResponseReceived create_ans log_ans origin r t))"
    using assms(1) by (auto simp: countResponseReceived_def CreateRemoteCount_def Let_def dom_update split: prod.splits)
  then have "(rs_PeriodStart r, origin) \<in> fst ` set (rt_counts t')"
    using remote_counts_kept unfolding assms(3) by blast
  then have "(origin, rs_PeriodStart r) \<in> set (sql_remote_counts first (rt_counts t'))"
    using assms(2) by (force simp: sql_remote_counts_def)
  moreover have "counts = foldl add_remote_count [] (sql_remote_counts first (rt_counts t'))"
    using assms(4) by (simp add: SelectExistingRemoteCounts_rows)
  ultimately have has: "has_remote_count counts origin (rs_PeriodStart r)" by (simp add: has_remote_count_rows)
  obtain periods where p: "period_loop now counts origin 0 start [] = Some periods"
    and reqs: "requests = map (\<lambda>(i, period). count_request (uuids i) period) (enumerate 0 periods)"
    using assms(5) by (auto simp: origin_count_requests_def)
  have "rq_PeriodStart ` set requests \<subseteq> set periods"
    by (auto simp: reqs count_request_def in_set_enumerate_eq)
  with period_loop_missing [OF p] has show ?thesis by auto
qed

definition sample_response :: response_message where
  "sample_response = \<lparr>rs_Command = countCmd, rs_UUID = 1, rs_PeriodStart = 0, rs_DataPoints = 7\<rparr>"

definition sample_tables :: requester_tables where
  "sample_tables = \<lparr>rt_db = NewPostgresqlDatabase 1 0, rt_counts = [], rt_log = []\<rparr>"

theorem answered_period_not_requested_witness:
  "\<exists>counts requests.
     SelectExistingRemoteCounts (QueryRows (map Inr (sql_remote_counts 0 (rt_counts
       (countResponseReceived Executed (ExecFailed ''e'') ''o'' sample_response sample_tables)))) None)
       (NewPostgresqlDatabase 1 0) = (NewPostgresqlDatabase 1 0, Inr counts) \<and>
     origin_count_requests (\<lambda>_. countRequestCoolDown + periodDuration) (\<lambda>_. 9) counts ''o'' 0 = Some requests \<and>
     0 \<notin> rq_PeriodStart ` set requests"
proof -
  let ?t = "countResponseReceived Executed (ExecFailed ''e'') ''o'' sample_response sample_tables"
  let ?counts = "foldl add_remote_count [] (sql_remote_counts 0 (rt_counts ?t))"
  obtain requests where r: "origin_count_requests (\<lambda>_. countRequestCoolDown + periodDuration) (\<lambda>_. 9) ?counts ''o'' 0 = Some requests"
    using period_loop_returns [of "\<lambda>_. countRequestCoolDown + periodDuration" 1 0 ?counts "''o''"]
    by (auto simp: origin_count_requests_def)
  moreover have "0 \<notin> rq_PeriodStart ` set requests"
    using answered_period_not_requested [OF _ _ _ SelectExistingRemoteCounts_rows r, where create_ans = Executed
        and r = sample_response and later = "[]" and t = sample_tables and log_ans = "ExecFailed ''e''"]
    by (simp add: executed_def sample_response_def)
  ultimately show ?thesis using SelectExistingRemoteCounts_rows by blast
qed

end
