(* ===== verification/PollStream.thy ===== *)
theory PollStream
  imports ModbusClient
begin

text \<open>
  How a frame gets from the polling goroutine to the publishing one (\<open>Poll\<close> and \<open>Read\<close> in
  \<open>protocol/modbus.go\<close>, \<open>Publish\<close> in \<open>connector/modbus.go\<close> and \<open>process\<close> in
  \<open>connector/main.go\<close>). \<open>Read\<close> copies every frame into one buffer, and \<open>Poll\<close> sends slices of it on a
  channel of capacity one; \<open>process\<close> takes a slice from the channel and encodes the bytes that it
  shows. Nothing keeps the copying and the encoding apart: they are a step per byte, in any order.
\<close>

section \<open>The goroutines\<close>

text \<open>
  A slice of this register group is known by its length: all of them start at the first byte of \<open>pl_buffer\<close>.
  The other groups send slices of their own buffers on the same channel (\<open>Other\<close>). \<open>pl_writing\<close> is the frame
  that is being copied into the buffer, with the positions still to be written; \<open>pl_sending\<close> is the slice \<open>Poll\<close>
  is about to put on the channel, \<open>pl_channel\<close> the content of the channel, \<open>pl_held\<close> the slice \<open>process\<close> has taken, with
  the bytes that have been encoded. \<open>pl_frames\<close> records the frames that were read, \<open>pl_published\<close> the values of this
  group that were encoded. The run ends when a read fails.
\<close>

datatype stream_slice = Own nat | Other

record poll_state =
  pl_buffer :: "byte list"
  pl_writing :: "(byte list \<times> nat list) option"
  pl_sending :: "nat option"
  pl_channel :: "stream_slice list"
  pl_held :: "(stream_slice \<times> byte option list) option"
  pl_frames :: "byte list list"
  pl_published :: "byte list list"

definition channel_capacity :: nat where
  "channel_capacity = 1"

definition poll_start :: "modbus_header \<Rightarrow> poll_state" where
  "poll_start h =
     \<lparr>pl_buffer = replicate (poll_capacity h) 0, pl_writing = None, pl_sending = None, pl_channel = [], pl_held = None,
      pl_frames = [], pl_published = []\<rparr>"

fun encoding_start :: "stream_slice \<Rightarrow> byte option list" where
  "encoding_start (Own n) = replicate n None"
| "encoding_start Other = []"

text \<open>A frame that does not fit the buffer is not copied; the groups that the connector accepts have none.\<close>

inductive poll_step :: "modbus_header \<Rightarrow> poll_state \<Rightarrow> poll_state \<Rightarrow> bool" for h :: modbus_header where
  reads: "pl_writing s = None \<Longrightarrow> pl_sending s = None \<Longrightarrow> exact_device dev \<Longrightarrow> read_frame dev h = Inr frame \<Longrightarrow>
     length frame \<le> length (pl_buffer s) \<Longrightarrow>
     poll_step h s (s\<lparr>pl_writing := Some (frame, [0..<length frame]), pl_frames := pl_frames s @ [frame]\<rparr>)"
| copies: "pl_writing s = Some (frame, ps @ i # qs) \<Longrightarrow>
     poll_step h s (s\<lparr>pl_buffer := (pl_buffer s)[i := frame ! i], pl_writing := Some (frame, ps @ qs)\<rparr>)"
| copied: "pl_writing s = Some (frame, []) \<Longrightarrow>
     poll_step h s (s\<lparr>pl_writing := None, pl_sending := Some (length frame)\<rparr>)"
| sends: "pl_sending s = Some n \<Longrightarrow> length (pl_channel s) < channel_capacity \<Longrightarrow>
     poll_step h s (s\<lparr>pl_sending := None, pl_channel := pl_channel s @ [Own n]\<rparr>)"
| other_sends: "length (pl_channel s) < channel_capacity \<Longrightarrow> poll_step h s (s\<lparr>pl_channel := pl_channel s @ [Other]\<rparr>)"
| takes: "pl_held s = None \<Longrightarrow> pl_channel s = x # xs \<Longrightarrow>
     poll_step h s (s\<lparr>pl_held := Some (x, encoding_start x), pl_channel := xs\<rparr>)"
| encodes: "pl_held s = Some (Own n, bs) \<Longrightarrow> i < n \<Longrightarrow> bs ! i = None \<Longrightarrow>
     poll_step h s (s\<lparr>pl_held := Some (Own n, bs[i := Some (pl_buffer s ! i)])\<rparr>)"
| publishes: "pl_held s = Some (Own n, map Some v) \<Longrightarrow>
     poll_step h s (s\<lparr>pl_held := None, pl_published := pl_published s @ [v]\<rparr>)"
| other_published: "pl_held s = Some (Other, bs) \<Longrightarrow> poll_step h s (s\<lparr>pl_held := None\<rparr>)"

section \<open>The invariant\<close>

definition waiting :: "'a option \<Rightarrow> nat" where
  "waiting x = (case x of None \<Rightarrow> 0 | Some _ \<Rightarrow> 1)"

lemma waiting_simps [simp]: "waiting None = 0" "waiting (Some x) = 1"
  by (simp_all add: waiting_def)

fun own :: "stream_slice \<Rightarrow> nat" where
  "own (Own n) = 1"
| "own Other = 0"

definition held_own :: "poll_state \<Rightarrow> nat" where
  "held_own s = (case pl_held s of None \<Rightarrow> 0 | Some (x, bs) \<Rightarrow> own x)"

definition frame_size :: "modbus_header \<Rightarrow> nat" where
  "frame_size h = 2 * unat (mh_NumberOfCoilsOrRegisters h) + 7"

text \<open>The frame that the byte at a position of the buffer is from.\<close>

definition unwritten :: "poll_state \<Rightarrow> nat list" where
  "unwritten s = (case pl_writing s of None \<Rightarrow> [] | Some (frame, ps) \<Rightarrow> ps)"

definition origin_of :: "poll_state \<Rightarrow> nat \<Rightarrow> nat" where
  "origin_of s p = (if p \<in> set (unwritten s) then length (pl_frames s) - 2 else length (pl_frames s) - 1)"

text \<open>
  \<open>j i p\<close> tells which frame the byte at position \<open>p\<close> of the \<open>i\<close>-th value published is from.
\<close>

definition late_byte :: "byte list list \<Rightarrow> (nat \<Rightarrow> nat \<Rightarrow> nat) \<Rightarrow> nat \<Rightarrow> nat \<Rightarrow> byte \<Rightarrow> bool" where
  "late_byte frames j i p b \<longleftrightarrow>
     i \<le> j i p \<and> j i p \<le> i + 2 \<and> j i p < length frames \<and> b = frames ! j i p ! p \<and> (\<forall>i'<i. j i' p \<le> j i p)"

definition values_late :: "nat \<Rightarrow> byte list list \<Rightarrow> byte list list \<Rightarrow> (nat \<Rightarrow> nat \<Rightarrow> nat) \<Rightarrow> bool" where
  "values_late n frames published j \<longleftrightarrow>
     (\<forall>i<length published. length (published ! i) = n \<and> (\<forall>p<n. late_byte frames j i p (published ! i ! p)))"

definition poll_counts :: "poll_state \<Rightarrow> bool" where
  "poll_counts s \<longleftrightarrow>
     length (pl_frames s) =
       length (pl_published s) + held_own s + sum_list (map own (pl_channel s)) + waiting (pl_sending s) + waiting (pl_writing s) \<and>
     waiting (pl_sending s) + waiting (pl_writing s) \<le> 1 \<and> length (pl_channel s) \<le> channel_capacity"

definition poll_sizes :: "modbus_header \<Rightarrow> poll_state \<Rightarrow> bool" where
  "poll_sizes h s \<longleftrightarrow>
     (\<forall>n. Own n \<in> set (pl_channel s) \<longrightarrow> n = frame_size h) \<and>
     (\<forall>n. pl_sending s = Some n \<longrightarrow> n = frame_size h) \<and>
     (\<forall>n bs. pl_held s = Some (Own n, bs) \<longrightarrow> n = frame_size h \<and> length bs = n)"

definition poll_bytes :: "modbus_header \<Rightarrow> poll_state \<Rightarrow> bool" where
  "poll_bytes h s \<longleftrightarrow>
     length (pl_buffer s) = frame_size h \<and>
     (\<forall>f\<in>set (pl_frames s). \<exists>bs. f = InjectModbusHeader h bs \<and> length f = frame_size h) \<and>
     (\<forall>frame ps. pl_writing s = Some (frame, ps) \<longrightarrow>
        pl_frames s \<noteq> [] \<and> frame = last (pl_frames s) \<and> distinct ps \<and> set ps \<subseteq> {..<frame_size h}) \<and>
     (\<forall>p<frame_size h. pl_frames s \<noteq> [] \<and> (p \<in> set (unwritten s) \<longrightarrow> 2 \<le> length (pl_frames s)) \<longrightarrow>
        pl_buffer s ! p = pl_frames s ! origin_of s p ! p)"

definition poll_values :: "modbus_header \<Rightarrow> poll_state \<Rightarrow> (nat \<Rightarrow> nat \<Rightarrow> nat) \<Rightarrow> bool" where
  "poll_values h s j \<longleftrightarrow>
     values_late (frame_size h) (pl_frames s) (pl_published s) j \<and>
     (\<forall>i<length (pl_published s). \<forall>p<frame_size h. j i p \<le> origin_of s p) \<and>
     (\<forall>n bs p b. pl_held s = Some (Own n, bs) \<and> p < n \<and> bs ! p = Some b \<longrightarrow>
        late_byte (pl_frames s) j (length (pl_published s)) p b \<and> j (length (pl_published s)) p \<le> origin_of s p)"


lemma poll_counts_start: "poll_counts (poll_start h)"
  by (simp add: poll_counts_def poll_start_def held_own_def)

lemma poll_sizes_start: "poll_sizes h (poll_start h)"
  by (simp add: poll_sizes_def poll_start_def)

lemma read_frame_shape:
  assumes "exact_device dev" "read_frame dev h = Inr frame"
  shows "\<exists>bs. frame = InjectModbusHeader h bs \<and> length frame = frame_size h"
proof -
  have "length frame = frame_size h" using read_frame_length [OF assms] by (simp add: frame_size_def)
  moreover have "\<exists>bs. frame = InjectModbusHeader h bs"
    using assms(2) by (auto simp: read_frame_def Let_def split: if_splits sum.splits)
  ultimately show ?thesis by blast
qed

lemma poll_counts_step: "poll_step h s s' \<Longrightarrow> poll_counts s \<Longrightarrow> poll_counts s'"
proof (induction rule: poll_step.induct)
  case (takes s x xs)
  then show ?case by (cases x) (simp_all add: poll_counts_def held_own_def)
qed (simp_all add: poll_counts_def held_own_def channel_capacity_def)

lemma poll_sizes_step:
  "poll_step h s s' \<Longrightarrow> poll_bytes h s \<Longrightarrow> poll_sizes h s \<Longrightarrow> poll_sizes h s'"
proof (induction rule: poll_step.induct)
  case (copied s frame)
  then have "frame \<in> set (pl_frames s)" by (auto simp: poll_bytes_def)
  then have "length frame = frame_size h" using copied(2) unfolding poll_bytes_def by blast
  with copied show ?case by (simp add: poll_sizes_def)
next
  case (takes s x xs)
  then show ?case by (cases x) (auto simp: poll_sizes_def)
qed (auto simp: poll_sizes_def)

lemma poll_bytes_start:
  "unat (mh_NumberOfCoilsOrRegisters h) \<le> 2000 \<Longrightarrow> poll_bytes h (poll_start h)"
  by (simp add: poll_bytes_def poll_start_def poll_capacity_eq frame_size_def)

lemma origin_of_cong:
  "pl_writing s' = pl_writing s \<Longrightarrow> pl_frames s' = pl_frames s \<Longrightarrow> origin_of s' = origin_of s"
  unfolding origin_of_def unwritten_def by (simp only:)

lemma poll_bytes_cong:
  "poll_bytes h s \<Longrightarrow> pl_writing s' = pl_writing s \<Longrightarrow> pl_frames s' = pl_frames s \<Longrightarrow> pl_buffer s' = pl_buffer s \<Longrightarrow> poll_bytes h s'"
  using origin_of_cong [of s' s] by (simp add: poll_bytes_def unwritten_def)

lemma poll_bytes_step: "poll_step h s s' \<Longrightarrow> poll_bytes h s \<Longrightarrow> poll_bytes h s'"
proof (induction rule: poll_step.induct)
  case (reads s dev frame)
  have sh: "\<exists>bs. frame = InjectModbusHeader h bs \<and> length frame = frame_size h"
    by (rule read_frame_shape [OF reads(3,4)])
  have new: "unwritten (s\<lparr>pl_writing := Some (frame, [0..<length frame]), pl_frames := pl_frames s @ [frame]\<rparr>) = [0..<frame_size h]"
    "unwritten s = []" using sh reads(1) by (auto simp: unwritten_def)
  let ?s = "s\<lparr>pl_writing := Some (frame, [0..<length frame]), pl_frames := pl_frames s @ [frame]\<rparr>"
  have "pl_buffer ?s ! p = pl_frames ?s ! origin_of ?s p ! p"
    if p: "p < frame_size h" "2 \<le> length (pl_frames ?s)" for p
  proof -
    have "pl_frames s \<noteq> []" using p(2) by auto
    then have "pl_buffer s ! p = pl_frames s ! origin_of s p ! p" "origin_of s p = origin_of ?s p" "origin_of ?s p < length (pl_frames s)"
      using reads(6) p new by (auto simp: poll_bytes_def origin_of_def)
    then show ?thesis by (simp add: nth_append)
  qed
  with new reads(6) sh show ?case by (auto simp: poll_bytes_def)
next
  case (copies s frame ps i qs)
  then have w: "pl_frames s \<noteq> []" "frame = last (pl_frames s)" "distinct (ps @ i # qs)" "set (ps @ i # qs) \<subseteq> {..<frame_size h}"
    "length (pl_buffer s) = frame_size h" by (simp_all add: poll_bytes_def)
  have u: "unwritten s = ps @ i # qs" using copies by (simp add: unwritten_def)
  let ?s = "s\<lparr>pl_buffer := (pl_buffer s)[i := frame ! i], pl_writing := Some (frame, ps @ qs)\<rparr>"
  have u': "unwritten ?s = ps @ qs" by (simp add: unwritten_def)
  have "pl_buffer ?s ! p = pl_frames ?s ! origin_of ?s p ! p"
    if p: "p < frame_size h" "p \<in> set (unwritten ?s) \<longrightarrow> 2 \<le> length (pl_frames s)" for p
  proof (cases "p = i")
    case True
    then have "p \<notin> set (unwritten ?s)" using w(3) u' by auto
    then have "origin_of ?s p = length (pl_frames s) - 1" by (simp add: origin_of_def)
    then show ?thesis using True p(1) w by (simp add: last_conv_nth)
  next
    case False
    then have "p \<in> set (unwritten ?s) \<longleftrightarrow> p \<in> set (unwritten s)" using u u' by simp
    then have "origin_of ?s p = origin_of s p" by (simp add: origin_of_def)
    moreover have "pl_buffer s ! p = pl_frames s ! origin_of s p ! p"
      using copies(2) p w(1) \<open>p \<in> set (unwritten ?s) \<longleftrightarrow> p \<in> set (unwritten s)\<close> unfolding poll_bytes_def by blast
    ultimately show ?thesis using False by simp
  qed
  with copies w show ?case unfolding poll_bytes_def by auto
next
  case (copied s frame)
  then have "unwritten s = []" "unwritten (s\<lparr>pl_writing := None, pl_sending := Some (length frame)\<rparr>) = []"
    by (simp_all add: unwritten_def)
  with copied show ?case by (auto simp: poll_bytes_def origin_of_def)
qed (auto elim: poll_bytes_cong)


lemma late_byte_reads: "late_byte fs j i p b \<Longrightarrow> late_byte (fs @ [f]) j i p b"
  by (auto simp: late_byte_def nth_append)

lemma values_late_reads: "values_late n fs ps j \<Longrightarrow> values_late n (fs @ [f]) ps j"
  unfolding values_late_def by (blast intro: late_byte_reads)

lemma unwritten_simps [simp]:
  "unwritten (s\<lparr>pl_sending := a\<rparr>) = unwritten s" "unwritten (s\<lparr>pl_channel := c\<rparr>) = unwritten s"
  "unwritten (s\<lparr>pl_held := d\<rparr>) = unwritten s" "unwritten (s\<lparr>pl_published := e\<rparr>) = unwritten s"
  by (simp_all add: unwritten_def)

lemma origin_of_step:
  assumes "poll_step h s s'" "p < frame_size h" "poll_bytes h s"
  shows "origin_of s p \<le> origin_of s' p"
  using assms
proof (induction rule: poll_step.induct)
  case (reads s dev frame)
  have "length frame = frame_size h" using read_frame_shape [OF reads(3,4)] by blast
  with reads(1,6) show ?case by (simp add: origin_of_def unwritten_def)
next
  case (copies s frame ps i qs)
  then have "p \<in> set (ps @ qs) \<Longrightarrow> p \<in> set (unwritten s)" by (auto simp: unwritten_def)
  then show ?case by (auto simp: origin_of_def unwritten_def)
next
  case (copied s frame)
  then show ?case by (simp add: origin_of_def unwritten_def)
qed (simp_all add: origin_of_def)

lemma poll_values_mono:
  assumes "poll_values h s j" "poll_step h s s'" "poll_bytes h s" "poll_sizes h s"
    and "pl_published s' = pl_published s" "pl_held s' = pl_held s"
    and "pl_frames s' = pl_frames s \<or> (\<exists>f. pl_frames s' = pl_frames s @ [f])"
  shows "poll_values h s' j"
proof -
  have o: "p < frame_size h \<Longrightarrow> origin_of s p \<le> origin_of s' p" for p
    by (rule origin_of_step [OF assms(2) _ assms(3)])
  have l: "late_byte (pl_frames s) j i p b \<Longrightarrow> late_byte (pl_frames s') j i p b" for i p b
    using assms(7) late_byte_reads by metis
  have v: "values_late (frame_size h) (pl_frames s') (pl_published s') j"
    using assms(1,5,7) values_late_reads unfolding poll_values_def by metis
  have held: "pl_held s = Some (Own n, bs) \<Longrightarrow> n = frame_size h" for n bs
    using assms(4) by (simp add: poll_sizes_def)
  show ?thesis
    unfolding poll_values_def assms(5,6)
  proof (intro conjI allI impI)
    show "values_late (frame_size h) (pl_frames s') (pl_published s) j" using v assms(5) by simp
  next
    fix i p assume "i < length (pl_published s)" "p < frame_size h"
    then show "j i p \<le> origin_of s' p" using assms(1) o order_trans unfolding poll_values_def by metis
  next
    fix n bs p b assume a: "pl_held s = Some (Own n, bs) \<and> p < n \<and> bs ! p = Some b"
    then have "late_byte (pl_frames s) j (length (pl_published s)) p b \<and> j (length (pl_published s)) p \<le> origin_of s p"
      using assms(1) unfolding poll_values_def by blast
    moreover have "p < frame_size h" using a held by blast
    ultimately show "late_byte (pl_frames s') j (length (pl_published s)) p b"
      "j (length (pl_published s)) p \<le> origin_of s' p"
      using l o order_trans by blast+
  qed
qed

text \<open>The byte that is encoded is of the frame whose turn it is, or of one of the two frames after it.\<close>

lemma encoded_byte:
  assumes "poll_counts s" "poll_sizes h s" "poll_bytes h s" "pl_held s = Some (Own n, bs)" "i < n"
  shows "length (pl_published s) \<le> origin_of s i \<and> origin_of s i \<le> length (pl_published s) + 2 \<and>
    origin_of s i < length (pl_frames s) \<and> pl_buffer s ! i = pl_frames s ! origin_of s i ! i"
proof -
  have n: "n = frame_size h" using assms(2,4) by (simp add: poll_sizes_def)
  have one: "sum_list (map own (pl_channel s)) \<le> 1"
    using assms(1) by (cases "pl_channel s"; cases "hd (pl_channel s)") (auto simp: poll_counts_def channel_capacity_def)
  have len: "length (pl_frames s) =
      length (pl_published s) + 1 + sum_list (map own (pl_channel s)) + waiting (pl_sending s) + waiting (pl_writing s)"
    "waiting (pl_sending s) + waiting (pl_writing s) \<le> 1"
    using assms(1,4) by (simp_all add: poll_counts_def held_own_def)
  have w: "i \<in> set (unwritten s) \<Longrightarrow> waiting (pl_writing s) = 1"
    by (cases "pl_writing s") (simp_all add: unwritten_def)
  have bounds: "length (pl_published s) \<le> origin_of s i" "origin_of s i \<le> length (pl_published s) + 2"
    "origin_of s i < length (pl_frames s)" "i \<in> set (unwritten s) \<longrightarrow> 2 \<le> length (pl_frames s)"
    using one len w by (auto simp: origin_of_def)
  moreover have "pl_frames s \<noteq> []" using len(1) by auto
  ultimately show ?thesis using assms(3,5) n unfolding poll_bytes_def by blast
qed

lemma poll_values_encodes:
  assumes "poll_values h s j" "poll_counts s" "poll_sizes h s" "poll_bytes h s"
    and "pl_held s = Some (Own n, bs)" "i < n" "bs ! i = None"
  shows "poll_values h (s\<lparr>pl_held := Some (Own n, bs[i := Some (pl_buffer s ! i)])\<rparr>)
    (j(length (pl_published s) := (j (length (pl_published s)))(i := origin_of s i)))"
proof -
  let ?P = "length (pl_published s)"
  let ?j = "j(?P := (j ?P)(i := origin_of s i))"
  let ?s = "s\<lparr>pl_held := Some (Own n, bs[i := Some (pl_buffer s ! i)])\<rparr>"
  have o: "origin_of ?s = origin_of s" by (rule origin_of_cong) simp_all
  have n: "n = frame_size h" "length bs = n" using assms(3,5) by (simp_all add: poll_sizes_def)
  note e = encoded_byte [OF assms(2-6)]
  have old: "late_byte (pl_frames s) ?j k p b" if "late_byte (pl_frames s) j k p b" "k < ?P \<or> p \<noteq> i \<and> k = ?P" for k p b
    using that by (auto simp: late_byte_def)
  have below: "\<forall>k<?P. \<forall>p<frame_size h. j k p \<le> origin_of s p" using assms(1) by (simp add: poll_values_def)
  have new: "late_byte (pl_frames s) ?j ?P i (pl_buffer s ! i)"
    using e below assms(6) n(1) by (auto simp: late_byte_def)
  show ?thesis
    unfolding poll_values_def o
  proof (intro conjI allI impI)
    show "values_late (frame_size h) (pl_frames ?s) (pl_published ?s) ?j"
      using assms(1) old by (auto simp: poll_values_def values_late_def)
  next
    fix k p assume "k < length (pl_published ?s)" "p < frame_size h"
    then show "?j k p \<le> origin_of s p" using below by simp
  next
    fix n' bs' p b assume a: "pl_held ?s = Some (Own n', bs') \<and> p < n' \<and> bs' ! p = Some b"
    then have eq: "n' = n" "bs' = bs[i := Some (pl_buffer s ! i)]" by auto
    have "late_byte (pl_frames s) ?j ?P p b \<and> ?j ?P p \<le> origin_of s p"
    proof (cases "p = i")
      case True
      then show ?thesis using new a eq assms(6) n(2) by simp
    next
      case False
      then have "late_byte (pl_frames s) j ?P p b \<and> j ?P p \<le> origin_of s p"
        using a eq assms(1,5) by (auto simp: poll_values_def)
      then show ?thesis using old [of ?P p b] False by simp
    qed
    then show "late_byte (pl_frames ?s) ?j (length (pl_published ?s)) p b"
      "?j (length (pl_published ?s)) p \<le> origin_of s p" by simp_all
  qed
qed

lemma poll_values_publishes:
  assumes "poll_values h s j" "poll_sizes h s" "pl_held s = Some (Own n, map Some v)"
  shows "poll_values h (s\<lparr>pl_held := None, pl_published := pl_published s @ [v]\<rparr>) j"
proof -
  have n: "n = frame_size h" "length v = n" using assms(2,3) by (simp_all add: poll_sizes_def)
  let ?s = "s\<lparr>pl_held := None, pl_published := pl_published s @ [v]\<rparr>"
  have o: "origin_of ?s = origin_of s" by (rule origin_of_cong) simp_all
  have v: "\<forall>p<frame_size h. late_byte (pl_frames s) j (length (pl_published s)) p (v ! p) \<and>
      j (length (pl_published s)) p \<le> origin_of s p"
    using assms(1,3) n by (simp add: poll_values_def)
  with assms(1) n show ?thesis
    unfolding poll_values_def values_late_def o by (simp add: nth_append less_Suc_eq)
qed

definition poll_inv :: "modbus_header \<Rightarrow> poll_state \<Rightarrow> bool" where
  "poll_inv h s \<longleftrightarrow> poll_counts s \<and> poll_sizes h s \<and> poll_bytes h s \<and> (\<exists>j. poll_values h s j)"

lemma poll_values_step:
  assumes "poll_step h s s'" "poll_inv h s"
  shows "\<exists>j. poll_values h s' j"
proof -
  obtain j where j: "poll_counts s" "poll_sizes h s" "poll_bytes h s" "poll_values h s j"
    using assms(2) by (auto simp: poll_inv_def)
  note mono = poll_values_mono [OF j(4) assms(1) j(3,2)]
  from assms(1) show ?thesis
  proof (cases rule: poll_step.cases)
    case (takes x xs)
    have o: "origin_of s' = origin_of s" using takes by (intro origin_of_cong) simp_all
    have "poll_values h s' j"
      using j(4) takes unfolding poll_values_def o by (cases x) auto
    then show ?thesis by (rule exI [of _ j])
  next
    case (encodes n bs i)
    with poll_values_encodes [OF j(4,1-3)] show ?thesis by blast
  next
    case (publishes n v)
    with poll_values_publishes [OF j(4,2)] show ?thesis by blast
  next
    case (other_published bs)
    have o: "origin_of s' = origin_of s" using other_published by (intro origin_of_cong) simp_all
    have "poll_values h s' j" using j(4) other_published unfolding poll_values_def o by simp
    then show ?thesis by (rule exI [of _ j])
  qed (use mono in \<open>(intro exI [of _ j], simp)+\<close>)
qed

lemma poll_inv_reachable:
  assumes "unat (mh_NumberOfCoilsOrRegisters h) \<le> 2000" "(poll_step h)\<^sup>*\<^sup>* (poll_start h) s"
  shows "poll_inv h s"
  using assms(2)
proof (induction rule: rtranclp_induct)
  case base
  have "poll_values h (poll_start h) (\<lambda>_ _. 0)"
    by (simp add: poll_values_def poll_start_def values_late_def)
  then show ?case
    using poll_counts_start poll_sizes_start poll_bytes_start [OF assms(1)] unfolding poll_inv_def by blast
next
  case (step s s')
  then show ?case
    using poll_counts_step poll_sizes_step poll_bytes_step poll_values_step unfolding poll_inv_def by blast
qed


section \<open>Properties\<close>

lemma InjectModbusHeader_prefix: "InjectModbusHeader h bs = InjectModbusHeader h [] @ bs"
  by (simp add: InjectModbusHeader_def)

text \<open>C22: What is published for the frames that were read. For a register group the connector
  accepts and a device that returns as many values as it is asked for, in every interleaving of the
  copying of frames into the buffer, of the channel, which other groups use as well, and of the encoding, byte by
  byte, at most as many values are published as frames were read; every value has the size of a frame and the
  header of the group; and each of its bytes is the byte at this position of a frame that was read: for the \<open>i\<close>-th value of the \<open>i\<close>-th
  frame or of one of the two frames read after it, and never of an earlier frame than the byte at this position of a value
  published before. Bytes of one value can be of different frames (\<open>poll_frame_torn\<close>), and frames can be
  lost (\<open>poll_frames_lost\<close>).\<close>

theorem poll_published_late:
  assumes "check_register_groups rgcs = Inr ()" "h \<in> set rgcs" "(poll_step h)\<^sup>*\<^sup>* (poll_start h) s"
  shows "length (pl_published s) \<le> length (pl_frames s) \<and>
    (\<forall>v\<in>set (pl_published s). \<exists>bs. v = InjectModbusHeader h bs \<and> length bs = 2 * unat (mh_NumberOfCoilsOrRegisters h)) \<and>
    (\<exists>j. \<forall>i<length (pl_published s). \<forall>p<frame_size h.
       i \<le> j i p \<and> j i p \<le> i + 2 \<and> j i p < length (pl_frames s) \<and>
       pl_published s ! i ! p = pl_frames s ! j i p ! p \<and> (\<forall>i'<i. j i' p \<le> j i p))"
proof -
  have inv: "poll_inv h s" by (rule poll_inv_reachable [OF accepted_group_limit [OF assms(1,2)] assms(3)])
  then obtain j where j: "values_late (frame_size h) (pl_frames s) (pl_published s) j"
    by (auto simp: poll_inv_def poll_values_def)
  have header: "\<exists>bs. v = InjectModbusHeader h bs \<and> length bs = 2 * unat (mh_NumberOfCoilsOrRegisters h)"
    if "v \<in> set (pl_published s)" for v
  proof -
    from that obtain i where i: "i < length (pl_published s)" "v = pl_published s ! i" by (auto simp: in_set_conv_nth)
    then have v: "length v = frame_size h" "\<forall>p<frame_size h. late_byte (pl_frames s) j i p (v ! p)"
      using j by (auto simp: values_late_def)
    have "take 7 v ! p = InjectModbusHeader h [] ! p" if p: "p < 7" for p
    proof -
      have "late_byte (pl_frames s) j i p (v ! p)" using v(2) p by (simp add: frame_size_def)
      then have f: "pl_frames s ! j i p \<in> set (pl_frames s)" "v ! p = pl_frames s ! j i p ! p"
        by (auto simp: late_byte_def)
      from f(1) obtain bs where "pl_frames s ! j i p = InjectModbusHeader h bs"
        using inv unfolding poll_inv_def poll_bytes_def by blast
      then have "v ! p = (InjectModbusHeader h [] @ bs) ! p"
        using f(2) by (metis InjectModbusHeader_prefix)
      also have "\<dots> = InjectModbusHeader h [] ! p" using p by (simp add: nth_append)
      finally show ?thesis using p by simp
    qed
    then have "take 7 v = InjectModbusHeader h []"
      using v(1) by (intro nth_equalityI) (auto simp: frame_size_def)
    then have "v = InjectModbusHeader h (drop 7 v)"
      using InjectModbusHeader_prefix [of h "drop 7 v"] by (metis append_take_drop_id)
    then show ?thesis using v(1) by (intro exI [of _ "drop 7 v"]) (simp add: frame_size_def)
  qed
  have "length (pl_published s) \<le> length (pl_frames s)" using inv by (simp add: poll_inv_def poll_counts_def)
  moreover have "\<forall>i<length (pl_published s). \<forall>p<frame_size h.
       i \<le> j i p \<and> j i p \<le> i + 2 \<and> j i p < length (pl_frames s) \<and>
       pl_published s ! i ! p = pl_frames s ! j i p ! p \<and> (\<forall>i'<i. j i' p \<le> j i p)"
    using j unfolding values_late_def late_byte_def by simp
  ultimately show ?thesis using header by (intro conjI ballI exI [of _ j])
qed

definition reading :: "u16 \<Rightarrow> modbus_device" where
  "reading r = sample_device\<lparr>dev_ReadRegisters := (\<lambda>u a n k. Inr (replicate (unat n) r))\<rparr>"

definition registers_frame :: "u16 list \<Rightarrow> byte list" where
  "registers_frame rs = InjectModbusHeader sample_header (RegistersToBytes rs)"

definition reading_frame :: "u16 \<Rightarrow> byte list" where
  "reading_frame r = registers_frame (replicate (unat (mh_NumberOfCoilsOrRegisters sample_header)) r)"

lemma reading_frame_eq: "reading_frame r = registers_frame [r, r]"
proof -
  have "replicate 2 r = [r, r]" by (simp add: numeral_2_eq_2)
  then show ?thesis by (simp add: reading_frame_def sample_header_def)
qed

lemma reading_exact: "exact_device (reading r)"
  using sample_device_exact by (simp add: exact_device_def reading_def)

lemma length_reading_frame [simp]: "length (reading_frame r) = 11"
  by (simp add: reading_frame_eq registers_frame_def)

lemma sample_group_accepted: "check_register_groups [sample_header] = Inr ()"
  by (simp add: sample_header_def modbus_code_defs MODBUS_MAXIMUM_NUMBER_OF_REGISTERS_def)

lemma reading_read: "read_frame (reading r) sample_header = Inr (reading_frame r)"
  by (simp add: read_frame_def reading_def reading_frame_def registers_frame_def sample_header_def sample_device_def
      modbus_code_defs Let_def)

text \<open>Steps that copy a whole frame, and that encode the next bytes of a slice.\<close>

lemma copies_all:
  "pl_writing s = Some (frame, ps) \<Longrightarrow>
     (poll_step h)\<^sup>*\<^sup>* s (s\<lparr>pl_buffer := fold (\<lambda>i b. b[i := frame ! i]) ps (pl_buffer s), pl_writing := Some (frame, [])\<rparr>)"
proof (induction ps arbitrary: s)
  case Nil
  then show ?case by (simp add: Nil [symmetric])
next
  case (Cons i ps)
  let ?s = "s\<lparr>pl_buffer := (pl_buffer s)[i := frame ! i], pl_writing := Some (frame, [] @ ps)\<rparr>"
  have "poll_step h s ?s" by (rule copies) (simp add: Cons.prems)
  moreover have "(poll_step h)\<^sup>*\<^sup>* ?s (s\<lparr>pl_buffer := fold (\<lambda>i b. b[i := frame ! i]) (i # ps) (pl_buffer s),
      pl_writing := Some (frame, [])\<rparr>)"
    using Cons.IH [of ?s] by simp
  ultimately show ?case by (rule converse_rtranclp_into_rtranclp)
qed

lemma fold_copy:
  "length b = length frame \<Longrightarrow> n \<le> length frame \<Longrightarrow>
     fold (\<lambda>i b. b[i := frame ! i]) [0..<n] b = take n frame @ drop n b"
proof (induction n)
  case (Suc n)
  then show ?case by (simp add: list_update_append take_Suc_conv_app_nth Cons_nth_drop_Suc [symmetric])
qed simp

lemma reads_all:
  assumes "pl_writing s = None" "pl_sending s = None" "exact_device dev" "read_frame dev h = Inr frame"
    and "length frame = length (pl_buffer s)"
  shows "(poll_step h)\<^sup>*\<^sup>* s (s\<lparr>pl_buffer := frame, pl_sending := Some (length frame), pl_frames := pl_frames s @ [frame]\<rparr>)"
proof -
  let ?s1 = "s\<lparr>pl_writing := Some (frame, [0..<length frame]), pl_frames := pl_frames s @ [frame]\<rparr>"
  let ?s2 = "?s1\<lparr>pl_buffer := frame, pl_writing := Some (frame, [])\<rparr>"
  let ?s3 = "s\<lparr>pl_buffer := frame, pl_sending := Some (length frame), pl_frames := pl_frames s @ [frame]\<rparr>"
  have 1: "poll_step h s ?s1" by (rule reads [OF assms(1-4)]) (simp add: assms(5))
  have "fold (\<lambda>i b. b[i := frame ! i]) [0..<length frame] (pl_buffer s) = frame"
    using fold_copy [of "pl_buffer s" frame "length frame"] assms(5) by simp
  then have 2: "(poll_step h)\<^sup>*\<^sup>* ?s1 ?s2"
    using copies_all [of ?s1 frame "[0..<length frame]" h] by simp
  have "?s2\<lparr>pl_writing := None, pl_sending := Some (length frame)\<rparr> = ?s3"
    by (rule poll_state.equality) (simp_all add: assms(1))
  then have 3: "poll_step h ?s2 ?s3" using copied [of ?s2 frame h] by simp
  show ?thesis by (rule converse_rtranclp_into_rtranclp [where r = "poll_step h", OF 1 rtranclp.rtrancl_into_rtrancl [where r = "poll_step h", OF 2 3]])
qed

lemma encodes_next:
  assumes "pl_held s = Some (Own n, map Some xs @ replicate k None)" "n = length xs + k" "n \<le> length (pl_buffer s)" "m \<le> k"
  shows "(poll_step h)\<^sup>*\<^sup>* s
    (s\<lparr>pl_held := Some (Own n, map Some (xs @ take m (drop (length xs) (pl_buffer s))) @ replicate (k - m) None)\<rparr>)"
  using assms(4)
proof (induction m)
  case 0
  then show ?case by (simp add: assms(1) [symmetric])
next
  case (Suc m)
  let ?ys = "xs @ take m (drop (length xs) (pl_buffer s))"
  let ?s = "s\<lparr>pl_held := Some (Own n, map Some ?ys @ replicate (k - m) None)\<rparr>"
  have len: "length ?ys = length xs + m" using Suc.prems assms(2,3) by simp
  have "k - m = Suc (k - Suc m)" using Suc.prems by simp
  then have upd: "(map Some ?ys @ replicate (k - m) None)[length ?ys := Some (pl_buffer s ! length ?ys)] =
      map Some (?ys @ [pl_buffer s ! length ?ys]) @ replicate (k - Suc m) None"
    by (simp add: list_update_append del: append_assoc)
  have "take (Suc m) (drop (length xs) (pl_buffer s)) = take m (drop (length xs) (pl_buffer s)) @ [pl_buffer s ! length ?ys]"
    using len Suc.prems assms(2,3) by (simp add: take_Suc_conv_app_nth)
  with upd have eq: "(map Some ?ys @ replicate (k - m) None)[length ?ys := Some (pl_buffer s ! length ?ys)] =
      map Some (xs @ take (Suc m) (drop (length xs) (pl_buffer s))) @ replicate (k - Suc m) None"
    by (simp only: append_assoc)
  have none: "(map Some ?ys @ replicate (k - m) None) ! length ?ys = None"
    using Suc.prems by (simp add: nth_append del: map_append)
  have "poll_step h ?s (?s\<lparr>pl_held := Some (Own n, (map Some ?ys @ replicate (k - m) None)[length ?ys := Some (pl_buffer ?s ! length ?ys)])\<rparr>)"
    by (rule encodes) (use len none Suc.prems assms(2) in simp_all)
  then have "poll_step h ?s (s\<lparr>pl_held := Some (Own n, map Some (xs @ take (Suc m) (drop (length xs) (pl_buffer s))) @ replicate (k - Suc m) None)\<rparr>)"
    using eq by simp
  moreover have "(poll_step h)\<^sup>*\<^sup>* s ?s" using Suc by simp
  ultimately show ?case by (rule rtranclp.rtrancl_into_rtrancl [rotated])
qed


text \<open>Runs of two or three readings: all are of the group \<open>sample_header\<close> of two registers.\<close>

definition run_state :: "u16 \<Rightarrow> nat option \<Rightarrow> stream_slice list \<Rightarrow> (stream_slice \<times> byte option list) option \<Rightarrow> u16 list \<Rightarrow> byte list list \<Rightarrow> poll_state" where
  "run_state b sending channel held frames published =
     \<lparr>pl_buffer = reading_frame b, pl_writing = None, pl_sending = sending, pl_channel = channel, pl_held = held,
      pl_frames = map reading_frame frames, pl_published = published\<rparr>"

definition taken :: "(stream_slice \<times> byte option list) option" where
  "taken = Some (Own 11, replicate 11 None)"

abbreviation poll_runs :: "poll_state \<Rightarrow> poll_state \<Rightarrow> bool" where
  "poll_runs \<equiv> (poll_step sample_header)\<^sup>*\<^sup>*"

lemma run_first: "poll_runs (poll_start sample_header) (run_state r (Some 11) [] None [r] [])"
proof -
  have "poll_capacity sample_header = 11" by (simp add: poll_capacity_eq sample_header_def)
  then show ?thesis
    using reads_all [OF _ _ reading_exact reading_read, of "poll_start sample_header" r]
    by (simp add: poll_start_def run_state_def)
qed

lemma run_reads:
  "poll_runs (run_state b None channel held frames published) (run_state r (Some 11) channel held (frames @ [r]) published)"
  using reads_all [OF _ _ reading_exact reading_read, of "run_state b None channel held frames published" r]
  by (simp add: run_state_def)

lemma run_sends:
  "poll_runs (run_state b (Some 11) [] held frames published) (run_state b None [Own 11] held frames published)"
  using sends [of "run_state b (Some 11) [] held frames published" 11 sample_header]
  by (intro r_into_rtranclp) (simp add: run_state_def channel_capacity_def)

lemma run_takes:
  "poll_runs (run_state b sending [Own 11] None frames published) (run_state b sending [] taken frames published)"
  using takes [of "run_state b sending [Own 11] None frames published" "Own 11" "[]" sample_header]
  by (intro r_into_rtranclp) (simp add: run_state_def taken_def)

lemma run_encodes:
  assumes "length xs + k = 11" "m \<le> k"
  shows "poll_runs (run_state b sending channel (Some (Own 11, map Some xs @ replicate k None)) frames published)
    (run_state b sending channel
      (Some (Own 11, map Some (xs @ take m (drop (length xs) (reading_frame b))) @ replicate (k - m) None)) frames published)"
proof -
  let ?s = "run_state b sending channel (Some (Own 11, map Some xs @ replicate k None)) frames published"
  have "pl_held ?s = Some (Own 11, map Some xs @ replicate k None)" "11 = length xs + k" "11 \<le> length (pl_buffer ?s)"
    using assms(1) by (simp_all only: run_state_def poll_state.simps length_reading_frame)
  from encodes_next [OF this assms(2), of sample_header] show ?thesis
    unfolding run_state_def by (simp only: poll_state.simps poll_state.update_convs)
qed

lemma run_publishes:
  "poll_runs (run_state b sending channel (Some (Own 11, map Some v)) frames published)
     (run_state b sending channel None frames (published @ [v]))"
  using publishes [of "run_state b sending channel (Some (Own 11, map Some v)) frames published" 11 v sample_header]
  by (intro r_into_rtranclp) (simp add: run_state_def)

lemma run_encodes_all:
  "poll_runs (run_state b sending channel taken frames published)
     (run_state b sending channel None frames (published @ [reading_frame b]))"
proof -
  have "poll_runs (run_state b sending channel taken frames published)
      (run_state b sending channel (Some (Own 11, map Some (reading_frame b))) frames published)"
    using run_encodes [of "[]" 11 11 b] by (simp add: taken_def)
  then show ?thesis using run_publishes by (rule rtranclp_trans)
qed

lemma run_three_read:
  "poll_runs (poll_start sample_header) (run_state r3 (Some 11) [Own 11] taken [r1, r2, r3] [])"
proof -
  note run_first [of r1]
  also note run_sends
  also note run_takes
  also note run_reads [of r1 "[]" taken "[r1]" "[]" r2]
  also note run_sends
  also note run_reads [of r2 "[Own 11]" taken "[r1] @ [r2]" "[]" r3]
  finally show ?thesis by simp
qed

theorem poll_published_late_witness:
  "\<exists>s j. poll_runs (poll_start sample_header) s \<and> pl_published s = [reading_frame 3] \<and>
     (\<forall>p<11. j p \<le> 2 \<and> reading_frame 3 ! p = map reading_frame [1, 2, 3] ! j p ! p)"
proof -
  note run_three_read [of 3 1 2]
  also note run_encodes_all
  finally have run: "poll_runs (poll_start sample_header) (run_state 3 (Some 11) [Own 11] None [1, 2, 3] [reading_frame 3])"
    by simp
  have size: "frame_size sample_header = 11" by (simp add: frame_size_def sample_header_def)
  let ?s = "run_state 3 (Some 11) [Own 11] None [1, 2, 3] [reading_frame 3]"
  have "sample_header \<in> set [sample_header]" by simp
  from poll_published_late [OF sample_group_accepted this run] obtain j where
    j: "\<forall>i<length (pl_published ?s). \<forall>p<11. i \<le> j i p \<and> j i p \<le> i + 2 \<and> j i p < length (pl_frames ?s) \<and>
       pl_published ?s ! i ! p = pl_frames ?s ! j i p ! p \<and> (\<forall>i'<i. j i' p \<le> j i p)"
    unfolding size by blast
  have "pl_published ?s = [reading_frame 3]" "pl_frames ?s = map reading_frame [1, 2, 3]"
    by (simp_all only: run_state_def poll_state.simps)
  with j [rule_format, of 0] run show ?thesis
    by (intro exI [of _ ?s] exI [of _ "j 0"]) (auto simp: numeral_2_eq_2 simp del: list.map)
qed

text \<open>Frames can be lost. For any three readings of a device there is an interleaving after
  which all three frames have been read, nothing is waiting, and the third frame has been published
  three times, the other two never.\<close>

theorem poll_frames_lost:
  "\<exists>s. poll_runs (poll_start sample_header) s \<and>
     pl_writing s = None \<and> pl_sending s = None \<and> pl_channel s = [] \<and> pl_held s = None \<and>
     pl_frames s = map reading_frame [r1, r2, r3] \<and> pl_published s = map reading_frame [r3, r3, r3]"
proof -
  note run_three_read [of r3 r1 r2]
  also note run_encodes_all
  also note run_takes
  also note run_sends
  also note run_encodes_all
  also note run_takes
  also note run_encodes_all
  finally show ?thesis by (intro exI conjI) (assumption, simp_all add: run_state_def)
qed

text \<open>A value can be torn. For any two readings there is an interleaving in which the one value published
  has the first register of the first reading and the second register of the second one: a frame the device never
  answered when the readings differ.\<close>

theorem poll_frame_torn:
  "\<exists>s. poll_runs (poll_start sample_header) s \<and> pl_frames s = [registers_frame [r1, r1], registers_frame [r2, r2]] \<and>
     pl_published s = [registers_frame [r1, r2]]"
proof -
  let ?xs = "take 9 (reading_frame r1)"
  have len: "length ?xs = 9" by simp
  have "?xs @ drop 9 (reading_frame r2) = registers_frame [r1, r2]"
    by (simp add: reading_frame_eq registers_frame_def InjectModbusHeader_def RegistersToBytes_eq)
  then have torn: "map Some (?xs @ take 2 (drop (length ?xs) (reading_frame r2))) @ replicate (2 - 2) None =
      map Some (registers_frame [r1, r2])"
    by (simp add: len)
  note run_first [of r1]
  also note run_sends
  also note run_takes
  also have "poll_runs (run_state r1 None [] taken [r1] [])
      (run_state r1 None [] (Some (Own 11, map Some ?xs @ replicate 2 None)) [r1] [])"
    using run_encodes [of "[]" 11 9 r1] by (simp add: taken_def)
  also note run_reads [of _ _ _ _ _ r2]
  also have "poll_runs (run_state r2 (Some 11) [] (Some (Own 11, map Some ?xs @ replicate 2 None)) ([r1] @ [r2]) [])
      (run_state r2 (Some 11) [] (Some (Own 11, map Some (registers_frame [r1, r2]))) ([r1] @ [r2]) [])"
    using run_encodes [of ?xs 2 2 r2] unfolding torn by (simp add: len)
  also note run_publishes
  finally show ?thesis by (intro exI conjI) (assumption, simp_all add: run_state_def reading_frame_eq)
qed

end
