(* ===== verification/Config.thy ===== *)
theory Config
  imports Mqtt ModbusProtocol "HOL-Library.Sublist"
begin

text \<open>
  \<open>config/config_file.go\<close> and \<open>config/main.go\<close>: reading a configuration over its defaults.
  The configuration library is a parameter: whether the file could be read, and what unmarshalling
  (part of) it over given defaults yields. \<open>logger.Fatal\<close> ends the process: it is the \<open>Inl\<close> of a
  result. The records of a component that only it uses are in the theory of the component.
\<close>

section \<open>The configuration file\<close>

definition readConfigFile ::
    "string option \<Rightarrow> (string option \<Rightarrow> 'a \<Rightarrow> string + 'a) \<Rightarrow> 'a \<Rightarrow> string list \<Rightarrow> string + 'a" where
  "readConfigFile read_error unmarshal result subKeys =
     (case read_error of
        Some err \<Rightarrow> Inl err
      | None \<Rightarrow>
          if length subKeys > 1 then Inl ''Unable to read the configuration, only one key is allowed''
          else (case (if length subKeys = 0 then unmarshal None result
                      else unmarshal (Some (subKeys ! 0)) result) of
                  Inl err \<Rightarrow> Inl err
                | Inr result \<Rightarrow> Inr result))"

section \<open>Connectors\<close>

text \<open>\<open>strings.Index\<close>: the first position of a substring, or -1.\<close>

fun index_from :: "int \<Rightarrow> string \<Rightarrow> string \<Rightarrow> int" where
  "index_from i [] sub = (if sub = [] then i else -1)"
| "index_from i (c # cs) sub = (if prefix sub (c # cs) then i else index_from (i + 1) cs sub)"

definition strings_Index :: "string \<Rightarrow> string \<Rightarrow> int" where
  "strings_Index s sub = index_from 0 s sub"

definition ParityMap :: string where
  "ParityMap = ''NOE''"

text \<open>A \<open>url.URL\<close> with what its methods \<open>Hostname\<close>, \<open>Port\<close> and \<open>String\<close> return.\<close>

record url =
  url_Scheme :: string
  url_Host :: string
  url_Path :: string
  url_Hostname :: string
  url_Port :: string
  url_String :: string

record connector_config =
  cc_Name :: string
  cc_URL :: "url option"
  cc_URLString :: string
  cc_Listen :: bool
  cc_BaudRate :: int
  cc_DataBits :: int
  cc_StopBits :: int
  cc_Parity :: int
  cc_ParityString :: string
  cc_Protocol :: string

definition default_connector_config :: connector_config where
  "default_connector_config =
     \<lparr>cc_Name = [], cc_URL = None, cc_URLString = [], cc_Listen = False, cc_BaudRate = 4800,
      cc_DataBits = 8, cc_StopBits = 1, cc_Parity = 0, cc_ParityString = ''N'', cc_Protocol = []\<rparr>"

text \<open>\<open>read\<close> is \<open>readConfigFile\<close> on the configuration file; an error of \<open>url.Parse\<close> is dropped.\<close>

definition NewConnectorConfig ::
    "(connector_config \<Rightarrow> string list \<Rightarrow> string + connector_config) \<Rightarrow> (string \<Rightarrow> url option) \<Rightarrow>
     string + connector_config" where
  "NewConnectorConfig read parse =
     (case read default_connector_config [] of
        Inl err \<Rightarrow> Inl err
      | Inr result \<Rightarrow>
          (let result = result\<lparr>cc_URL := parse (cc_URLString result)\<rparr>
           in Inr (result\<lparr>cc_Parity := strings_Index ParityMap (cc_ParityString result)\<rparr>)))"

record register_group_config = modbus_header +
  rgc_PollingInterval :: duration

definition NewRegisterGroupsConfig ::
    "(register_group_config list \<Rightarrow> string list \<Rightarrow> string + register_group_config list) \<Rightarrow>
     string + register_group_config list" where
  "NewRegisterGroupsConfig read = read [] [''registerGroups'']"

definition group_header :: "register_group_config \<Rightarrow> modbus_header" where
  "group_header rgc =
     \<lparr>mh_Slave = mh_Slave rgc, mh_FunctionCode = mh_FunctionCode rgc, mh_Address = mh_Address rgc,
      mh_NumberOfCoilsOrRegisters = mh_NumberOfCoilsOrRegisters rgc\<rparr>"

record url_group_config =
  ugc_Url :: string
  ugc_PollingInterval :: duration

definition NewUrlGroupsConfig ::
    "(url_group_config list \<Rightarrow> string list \<Rightarrow> string + url_group_config list) \<Rightarrow>
     string + url_group_config list" where
  "NewUrlGroupsConfig read = read [] [''urlGroups'']"

section \<open>Mappers\<close>

record mapper_config =
  mpc_Context :: string
  mpc_Protocol :: string
  mpc_ProtocolOptions :: "(string, string) gomap"

definition NewMapperConfig ::
    "(mapper_config \<Rightarrow> string list \<Rightarrow> string + mapper_config) \<Rightarrow> string + mapper_config" where
  "NewMapperConfig read = read \<lparr>mpc_Context = [], mpc_Protocol = [], mpc_ProtocolOptions = []\<rparr> []"

record canbus_mapper_config = mapper_config +
  cbc_DbcFile :: string

definition NewCanBusMapperConfig ::
    "(canbus_mapper_config \<Rightarrow> string list \<Rightarrow> string + canbus_mapper_config) \<Rightarrow> string + canbus_mapper_config" where
  "NewCanBusMapperConfig read =
     read \<lparr>mpc_Context = [], mpc_Protocol = [], mpc_ProtocolOptions = [], cbc_DbcFile = []\<rparr> []"

record csv_mapper_config = mapper_config +
  csc_Separator :: string
  csc_SplitLines :: bool

definition NewCSVMapperConfig ::
    "(csv_mapper_config \<Rightarrow> string list \<Rightarrow> string + csv_mapper_config) \<Rightarrow> string + csv_mapper_config" where
  "NewCSVMapperConfig read =
     read \<lparr>mpc_Context = [], mpc_Protocol = [], mpc_ProtocolOptions = [], csc_Separator = '','', csc_SplitLines = False\<rparr> []"

text \<open>\<open>verify\<close> only warns; the mappings are used as they are.\<close>

datatype mapping_warning = PathWasNotSet | ExpressionWasNotSet

definition verify :: "('p, 'm) mapping_config_scheme \<Rightarrow> mapping_warning list" where
  "verify m =
     (if mc_Path m = [] then [PathWasNotSet] else []) @
     (if mc_Expression m = [] then [ExpressionWasNotSet] else [])"

definition verify_all ::
    "(('p, 'm) mapping_config_scheme list \<Rightarrow> string list \<Rightarrow> string + ('p, 'm) mapping_config_scheme list) \<Rightarrow>
     string + ('p, 'm) mapping_config_scheme list \<times> mapping_warning list" where
  "verify_all read =
     (case read [] [''mappings''] of
        Inl err \<Rightarrow> Inl err
      | Inr result \<Rightarrow> Inr (result, concat (map verify result)))"

section \<open>Databases and transfer\<close>

definition NewMQTTConfig :: "(mqtt_config \<Rightarrow> string list \<Rightarrow> string + mqtt_config) \<Rightarrow> string + mqtt_config" where
  "NewMQTTConfig read = read default_mqtt_config []"

record postgresql_config =
  pgc_URLString :: string
  pgc_BatchFlushLength :: int
  pgc_BatchFlushInterval :: duration
  pgc_BufferSize :: int
  pgc_NumberOfWorkers :: int
  pgc_Timeout :: duration

definition defaultPostgresqlConfig :: postgresql_config where
  "defaultPostgresqlConfig =
     \<lparr>pgc_URLString = [], pgc_BatchFlushLength = 100, pgc_BatchFlushInterval = 10 * 1000000000,
      pgc_BufferSize = 100, pgc_NumberOfWorkers = 10, pgc_Timeout = 5 * 1000000000\<rparr>"

definition NewPostgresqlConfig ::
    "(postgresql_config \<Rightarrow> string list \<Rightarrow> string + postgresql_config) \<Rightarrow> string + postgresql_config" where
  "NewPostgresqlConfig read = read defaultPostgresqlConfig []"

record big_cache_config =
  bcc_LifeWindow :: int
  bcc_HardMaxCacheSize :: int

definition NewBigCacheConfig ::
    "(big_cache_config \<Rightarrow> string list \<Rightarrow> string + big_cache_config) \<Rightarrow> string + big_cache_config" where
  "NewBigCacheConfig read = read \<lparr>bcc_LifeWindow = 0, bcc_HardMaxCacheSize = 0\<rparr> []"

record signalk_config =
  skc_URLString :: string
  skc_URL :: "url option"
  skc_Version :: string
  skc_SelfContext :: string
  skc_PostgresqlConfig :: "postgresql_config option"
  skc_BigCacheConfig :: "big_cache_config option"

definition NewSignalKConfig ::
    "(signalk_config \<Rightarrow> string list \<Rightarrow> string + signalk_config) \<Rightarrow> (string \<Rightarrow> url option) \<Rightarrow> string + signalk_config" where
  "NewSignalKConfig read parse =
     (case read \<lparr>skc_URLString = [], skc_URL = None, skc_Version = ''undefined'', skc_SelfContext = [],
                 skc_PostgresqlConfig = Some defaultPostgresqlConfig, skc_BigCacheConfig = None\<rparr> [] of
        Inl err \<Rightarrow> Inl err
      | Inr result \<Rightarrow> Inr (result\<lparr>skc_URL := parse (skc_URLString result)\<rparr>))"

definition WithVersion :: "string \<Rightarrow> signalk_config \<Rightarrow> signalk_config" where
  "WithVersion version c = c\<lparr>skc_Version := version\<rparr>"

record transfer_config =
  trc_PostgresqlConfig :: postgresql_config
  trc_MQTTConfig :: mqtt_config
  trc_Origin :: string
  trc_SleepBetweenCountRequests :: duration
  trc_SleepBetweenDataRequests :: duration
  trc_SleepBetweenRespondDeltas :: duration
  trc_NumberOfRequestWorkers :: int
  trc_MaxPeriodsToRequest :: int

text \<open>The MQTT part has the zero values, not the defaults of \<open>default_mqtt_config\<close>.\<close>

definition default_transfer_config :: transfer_config where
  "default_transfer_config =
     \<lparr>trc_PostgresqlConfig = defaultPostgresqlConfig,
      trc_MQTTConfig = \<lparr>mq_URLString = [], mq_Username = [], mq_Password = [], mq_Interval = 0, mq_BufferSize = 0\<rparr>,
      trc_Origin = [], trc_SleepBetweenCountRequests = 30 * 60 * 1000000000,
      trc_SleepBetweenDataRequests = 6 * 60 * 60 * 1000000000, trc_SleepBetweenRespondDeltas = 100 * 1000000,
      trc_NumberOfRequestWorkers = 0, trc_MaxPeriodsToRequest = 500\<rparr>"

definition NewTransferConfig ::
    "(transfer_config \<Rightarrow> string list \<Rightarrow> string + transfer_config) \<Rightarrow> string + transfer_config" where
  "NewTransferConfig read = read default_transfer_config []"

section \<open>Writers, filters and test data\<close>

record lwe_config =
  lwc_DestinationIdentification :: string
  lwc_SourceIdentification :: string
  lwc_IncludeTimestamp :: bool
  lwc_IncludeLineCount :: bool

definition NewLWEConfig :: "(lwe_config \<Rightarrow> string list \<Rightarrow> string + lwe_config) \<Rightarrow> string + lwe_config" where
  "NewLWEConfig read =
     read \<lparr>lwc_DestinationIdentification = [], lwc_SourceIdentification = [], lwc_IncludeTimestamp = False,
           lwc_IncludeLineCount = False\<rparr> []"

record event_config =
  evc_Expression :: string

definition NewEventConfig :: "(event_config \<Rightarrow> string list \<Rightarrow> string + event_config) \<Rightarrow> string + event_config" where
  "NewEventConfig read = read \<lparr>evc_Expression = []\<rparr> []"

record rate_limits_config =
  rlc_Path :: string
  rlc_Interval :: duration

record rate_limit_filter_config =
  rfc_Ratelimits :: "rate_limits_config list"
  rfc_DefaultInterval :: duration

definition NewRateLimitConfig ::
    "(rate_limit_filter_config \<Rightarrow> string list \<Rightarrow> string + rate_limit_filter_config) \<Rightarrow> string + rate_limit_filter_config" where
  "NewRateLimitConfig read = read \<lparr>rfc_Ratelimits = [], rfc_DefaultInterval = 0\<rparr> []"

record 'p test_data_config =
  tdc_Context :: string
  tdc_Delay :: duration
  tdc_Paths :: "'p mapping_config list"

definition NewTestDataConfig ::
    "('p test_data_config \<Rightarrow> string list \<Rightarrow> string + 'p test_data_config) \<Rightarrow> string + 'p test_data_config" where
  "NewTestDataConfig read = read \<lparr>tdc_Context = [], tdc_Delay = 0, tdc_Paths = []\<rparr> []"

section \<open>Lemmas\<close>

lemma index_from_cases:
  "index_from i s sub = -1 \<and> \<not> sublist sub s \<or>
   (\<exists>n\<le>length s. index_from i s sub = i + int n \<and> prefix sub (drop n s) \<and>
      (\<forall>m<n. \<not> prefix sub (drop m s)))"
proof (induction s arbitrary: i)
  case Nil
  then show ?case by auto
next
  case (Cons c cs)
  show ?case
  proof (cases "prefix sub (c # cs)")
    case True
    then show ?thesis by (intro disjI2 exI [of _ 0]) simp
  next
    case False
    consider "index_from (i + 1) cs sub = -1" "\<not> sublist sub cs"
      | n where "n \<le> length cs" "index_from (i + 1) cs sub = i + 1 + int n" "prefix sub (drop n cs)"
          "\<forall>m<n. \<not> prefix sub (drop m cs)"
      using Cons.IH by blast
    then show ?thesis
    proof cases
      case 1
      with False show ?thesis by (simp add: sublist_Cons_right)
    next
      case 2
      with False show ?thesis
        by (intro disjI2 exI [of _ "Suc n"]) (auto simp: less_Suc_eq_0_disj)
    qed
  qed
qed

text \<open>\<open>strings.Index\<close> returns the first position at which the substring is found.\<close>

lemma strings_Index_first:
  assumes "sublist sub s"
  obtains n where "strings_Index s sub = int n" "n \<le> length s" "prefix sub (drop n s)"
    "\<forall>m<n. \<not> prefix sub (drop m s)"
  using assms index_from_cases [of 0 s sub] unfolding strings_Index_def by auto

lemma strings_Index_none: "\<not> sublist sub s \<Longrightarrow> strings_Index s sub = -1"
  using index_from_cases [of 0 s sub] unfolding strings_Index_def
  by (metis append_take_drop_id prefix_def sublist_def)

end
