(* ===== verification/Connector.thy ===== *)
theory Connector
  imports PollStream CanBus Config
begin

text \<open>
  \<open>connector/\<close>: opening a connection, publishing what is received as raw messages, and writing
  received raw messages to the connection. The operating system, the serial and Modbus libraries,
  the JSON text of messages, the clock and the uuids drawn are parameters.
\<close>

section \<open>Opening a connection\<close>

datatype connector_error =
    UnsupportedScheme string
  | ListenFailed string
  | AcceptFailed string
  | DialFailed string
  | StatFailed string
  | PortFailed string
  | FileFailed string
  | RegisterGroupError group_error
  | ClientFailed string
  | OpenFailed string

datatype 'c open_result = Opened 'c | OpenError connector_error | OpenPanic panic

record serial_config =
  ser_Address :: string
  ser_BaudRate :: int
  ser_DataBits :: int
  ser_StopBits :: int
  ser_Parity :: string

text \<open>\<open>UdpListenerConnection\<close> reads from the packet connection it wraps, its \<open>Write\<close> fails.\<close>

datatype 'c connection = Stream 'c | UdpListenerConnection 'c

record 'c os =
  os_Listen :: "string \<Rightarrow> string \<Rightarrow> string + nat"
  os_Accept :: "nat \<Rightarrow> string + 'c"
  os_ListenPacket :: "string \<Rightarrow> string \<Rightarrow> string + 'c"
  os_Dial :: "string \<Rightarrow> string \<Rightarrow> string + 'c"
  os_StatCharDevice :: "string \<Rightarrow> string + bool"
  os_OpenSerial :: "serial_config \<Rightarrow> string + 'c"
  os_OpenFile :: "string \<Rightarrow> string + 'c"

definition address :: "url \<Rightarrow> string" where
  "address u = url_Hostname u @ '':'' @ url_Port u"

definition createNetworkConnection :: "'c os \<Rightarrow> connector_config \<Rightarrow> url \<Rightarrow> 'c connection option open_result" where
  "createNetworkConnection os c u =
     (if cc_Listen c then
        (if url_Scheme u = ''tcp'' then
           (case os_Listen os (url_Scheme u) (address u) of
              Inl err \<Rightarrow> OpenError (ListenFailed err)
            | Inr listener \<Rightarrow>
                (case os_Accept os listener of
                   Inl err \<Rightarrow> OpenError (AcceptFailed err)
                 | Inr conn \<Rightarrow> Opened (Some (Stream conn))))
         else if url_Scheme u = ''udp'' then
           (case os_ListenPacket os (url_Scheme u) (address u) of
              Inl err \<Rightarrow> OpenError (ListenFailed err)
            | Inr conn \<Rightarrow> Opened (Some (UdpListenerConnection conn)))
         else Opened None)
      else
        (case os_Dial os (url_Scheme u) (address u) of
           Inl err \<Rightarrow> OpenError (DialFailed err)
         | Inr conn \<Rightarrow> Opened (Some (Stream conn))))"

text \<open>\<open>ParityMap[i]\<close> panics when the index is out of range.\<close>

definition parity_string :: "connector_config \<Rightarrow> panic + string" where
  "parity_string c =
     (if 0 \<le> cc_Parity c \<and> cc_Parity c < int (length ParityMap) then Inr [ParityMap ! nat (cc_Parity c)]
      else Inl (Panic ''index out of range''))"

definition createFileConnection :: "'c os \<Rightarrow> connector_config \<Rightarrow> url \<Rightarrow> 'c connection option open_result" where
  "createFileConnection os c u =
     (case os_StatCharDevice os (url_Path u) of
        Inl err \<Rightarrow> OpenError (StatFailed err)
      | Inr True \<Rightarrow>
          (case parity_string c of
             Inl p \<Rightarrow> OpenPanic p
           | Inr parity \<Rightarrow>
               (case os_OpenSerial os
                       \<lparr>ser_Address = url_Path u, ser_BaudRate = cc_BaudRate c, ser_DataBits = cc_DataBits c,
                        ser_StopBits = cc_StopBits c, ser_Parity = parity\<rparr> of
                  Inl err \<Rightarrow> OpenError (PortFailed err)
                | Inr conn \<Rightarrow> Opened (Some (Stream conn))))
      | Inr False \<Rightarrow>
          (case os_OpenFile os (url_Path u) of
             Inl err \<Rightarrow> OpenError (FileFailed err)
           | Inr conn \<Rightarrow> Opened (Some (Stream conn))))"

text \<open>
  The loop tries again after every error, five seconds later; \<open>os k\<close> is the operating system at
  attempt \<open>k\<close>. A loop that never succeeds does not return.
\<close>

partial_function (option) create_attempts ::
    "(nat \<Rightarrow> 'c os) \<Rightarrow> connector_config \<Rightarrow> nat \<Rightarrow> 'c connection option open_result option" where
  "create_attempts os c k =
     (case cc_URL c of
        None \<Rightarrow> Some (OpenPanic (Panic ''nil pointer dereference''))
      | Some u \<Rightarrow>
          if url_Scheme u = ''tcp'' \<or> url_Scheme u = ''udp'' then
            (case createNetworkConnection (os k) c u of
               OpenError err \<Rightarrow> create_attempts os c (Suc k)
             | r \<Rightarrow> Some r)
          else if url_Scheme u = ''file'' then
            (case createFileConnection (os k) c u of
               OpenError err \<Rightarrow> create_attempts os c (Suc k)
             | r \<Rightarrow> Some r)
          else Some (OpenError (UnsupportedScheme (url_Scheme u))))"

definition createConnection ::
    "(nat \<Rightarrow> 'c os) \<Rightarrow> connector_config \<Rightarrow> 'c connection option open_result option" where
  "createConnection os c = create_attempts os c 0"

text \<open>The Modbus connector: \<open>uint(c.Parity)\<close> is a conversion to 64 bits.\<close>

record modbus_client_config =
  mcc_URL :: string
  mcc_Speed :: u64
  mcc_DataBits :: u64
  mcc_Parity :: u64
  mcc_StopBits :: u64

definition NewModbusConnector ::
    "(modbus_client_config \<Rightarrow> string + 'dev) \<Rightarrow> ('dev \<Rightarrow> string option) \<Rightarrow> connector_config \<Rightarrow>
     register_group_config list \<Rightarrow> 'dev open_result" where
  "NewModbusConnector NewClient Open c rgcs =
     (case check_register_groups (map group_header rgcs) of
        Inl err \<Rightarrow> OpenError (RegisterGroupError err)
      | Inr _ \<Rightarrow>
          (case cc_URL c of
             None \<Rightarrow> OpenPanic (Panic ''nil pointer dereference'')
           | Some u \<Rightarrow>
               (case NewClient
                       \<lparr>mcc_URL = url_String u, mcc_Speed = word_of_int (cc_BaudRate c),
                        mcc_DataBits = word_of_int (cc_DataBits c), mcc_Parity = word_of_int (cc_Parity c),
                        mcc_StopBits = word_of_int (cc_StopBits c)\<rparr> of
                  Inl err \<Rightarrow> OpenError (ClientFailed err)
                | Inr realClient \<Rightarrow>
                    (case Open realClient of
                       Some err \<Rightarrow> OpenError (OpenFailed err)
                     | None \<Rightarrow> Opened realClient))))"

section \<open>Publishing\<close>

text \<open>
  The loop of \<open>process\<close> over the values of the stream, each with the uuid and the clock \<open>NewRaw\<close>
  reads; \<open>send\<close> says whether the publisher accepts a message.
\<close>

definition process_value ::
    "(raw \<Rightarrow> string + byte list) \<Rightarrow> (byte list \<Rightarrow> bool) \<Rightarrow> string \<Rightarrow> string \<Rightarrow>
     uuid \<times> time \<times> byte list \<Rightarrow> byte list option" where
  "process_value marshal send connector protocol input =
     (case input of (u, now, value) \<Rightarrow>
        (let m = WithRawType protocol (WithRawValue value (WithConnector connector (NewRaw u now)))
         in case marshal m of
              Inl err \<Rightarrow> None
            | Inr bytes \<Rightarrow> if send bytes then Some bytes else None))"

definition process ::
    "(raw \<Rightarrow> string + byte list) \<Rightarrow> (byte list \<Rightarrow> bool) \<Rightarrow> string \<Rightarrow> string \<Rightarrow>
     (uuid \<times> time \<times> byte list) list \<Rightarrow> byte list list" where
  "process marshal send connector protocol stream =
     List.map_filter (process_value marshal send connector protocol) stream"

section \<open>Writing received messages\<close>

text \<open>
  One \<open>Raw\<close> is reused for all messages. \<open>json.Unmarshal\<close> checks the text and hands it to
  \<open>Raw.UnmarshalJSON\<close>.
\<close>

definition unmarshal_into :: "text_codecs \<Rightarrow> (byte list \<Rightarrow> json option) \<Rightarrow> byte list \<Rightarrow> raw \<Rightarrow> raw \<times> bool" where
  "unmarshal_into tc parse received r =
     (case parse received of
        None \<Rightarrow> (r, False)
      | Some j \<Rightarrow> (case Raw_UnmarshalJSON tc j r of (r, err) \<Rightarrow> (r, err = None)))"

definition line_subscribe_step ::
    "(byte list \<Rightarrow> raw \<Rightarrow> raw \<times> bool) \<Rightarrow> raw \<Rightarrow> received \<Rightarrow> raw \<times> byte list option" where
  "line_subscribe_step unmarshal raw input =
     (case input of
        RecvError err \<Rightarrow> (raw, None)
      | Received received \<Rightarrow>
          (case unmarshal received raw of
             (raw, False) \<Rightarrow> (raw, None)
           | (raw, True) \<Rightarrow> (raw, Some (raw_Value raw @ [13, 10]))))"

text \<open>The loop of the Modbus connector: a panic in \<open>Write\<close> ends the process.\<close>

fun modbus_subscribe ::
    "(byte list \<Rightarrow> raw \<Rightarrow> raw \<times> bool) \<Rightarrow> raw \<Rightarrow> received list \<Rightarrow> device_call list" where
  "modbus_subscribe unmarshal raw [] = []"
| "modbus_subscribe unmarshal raw (RecvError err # inputs) = modbus_subscribe unmarshal raw inputs"
| "modbus_subscribe unmarshal raw (Received received # inputs) =
     (case unmarshal received raw of
        (raw, False) \<Rightarrow> modbus_subscribe unmarshal raw inputs
      | (raw, True) \<Rightarrow>
          (case Client_Write (raw_Value raw) of
             (calls, Inl IndexOutOfRange) \<Rightarrow> calls
           | (calls, _) \<Rightarrow> calls @ modbus_subscribe unmarshal raw inputs))"

section \<open>Lemmas\<close>

text \<open>One attempt to connect, for the schemes that are tried.\<close>

definition dialled :: "string list" where
  "dialled = [''tcp'', ''udp'', ''file'']"

definition attempt :: "'c os \<Rightarrow> connector_config \<Rightarrow> url \<Rightarrow> 'c connection option open_result" where
  "attempt os c u =
     (if url_Scheme u = ''file'' then createFileConnection os c u else createNetworkConnection os c u)"

definition failed :: "'c open_result \<Rightarrow> bool" where
  "failed r = (case r of OpenError err \<Rightarrow> True | _ \<Rightarrow> False)"

lemma create_attempts_unfold:
  assumes "cc_URL c = Some u" "url_Scheme u \<in> set dialled"
  shows "create_attempts os c k =
    (if failed (attempt (os k) c u) then create_attempts os c (Suc k) else Some (attempt (os k) c u))"
  using assms
  by (subst create_attempts.simps) (auto simp: dialled_def attempt_def failed_def split: open_result.splits)

lemma create_attempts_returns:
  "create_attempts os c k = Some r \<Longrightarrow>
     cc_URL c = Some u \<longrightarrow> url_Scheme u \<in> set dialled \<longrightarrow> (\<exists>j. \<not> failed (attempt (os j) c u))"
proof (induction rule: create_attempts.raw_induct [rotated, consumes 1])
  case (1 rec os c k r)
  show ?case
  proof (intro impI)
    assume u: "cc_URL c = Some u" "url_Scheme u \<in> set dialled"
    show "\<exists>j. \<not> failed (attempt (os j) c u)"
    proof (cases "failed (attempt (os k) c u)")
      case True
      with 1(2) u have "rec os c (Suc k) = Some r"
        by (auto simp: dialled_def attempt_def failed_def split: open_result.splits)
      with 1(1) u show ?thesis by blast
    qed blast
  qed
qed

lemma create_attempts_first:
  assumes "cc_URL c = Some u" "url_Scheme u \<in> set dialled" "\<not> failed (attempt (os n) c u)"
    and "\<forall>i<n. failed (attempt (os i) c u)" "k \<le> n"
  shows "create_attempts os c k = Some (attempt (os n) c u)"
  using assms(5)
proof (induction "n - k" arbitrary: k)
  case 0
  with assms show ?case by (simp add: create_attempts_unfold)
next
  case (Suc m)
  then have "create_attempts os c (Suc k) = Some (attempt (os n) c u)" by (intro Suc.hyps(1)) auto
  with Suc.hyps(2) assms show ?case by (simp add: create_attempts_unfold [of c u])
qed

text \<open>The position of a parity string in \<open>ParityMap\<close> selects its first character.\<close>

lemma parity_first_char:
  assumes "sublist s ParityMap"
  obtains n where "strings_Index ParityMap s = int n" "n < length ParityMap"
    "[ParityMap ! n] = take 1 (if s = [] then ParityMap else s)"
proof (cases "s = []")
  case True
  have "strings_Index ParityMap [] = int 0" by (simp add: strings_Index_def ParityMap_def)
  with True show thesis by (intro that) (auto simp: ParityMap_def)
next
  case False
  obtain n where n: "strings_Index ParityMap s = int n" "prefix s (drop n ParityMap)"
    using strings_Index_first [OF assms] by metis
  have less: "n < length ParityMap" using n(2) False by (cases "n < length ParityMap") auto
  have "[ParityMap ! n] = take 1 (drop n ParityMap)"
    using less by (simp add: hd_drop_conv_nth take_Suc)
  also have "\<dots> = take 1 s" using n(2) False by (cases s) (auto simp: prefix_def)
  finally show thesis using that n(1) less False by simp
qed

text \<open>Unmarshalling a message that is accepted does not depend on what the receiver held.\<close>

lemma Raw_UnmarshalJSON_independent:
  "snd (Raw_UnmarshalJSON tc j r) = snd (Raw_UnmarshalJSON tc j r') \<and>
   (snd (Raw_UnmarshalJSON tc j r) = None \<longrightarrow> fst (Raw_UnmarshalJSON tc j r) = fst (Raw_UnmarshalJSON tc j r'))"
  by (auto simp: Raw_UnmarshalJSON_def Let_def split: sum.splits option.splits)

lemma unmarshal_into_independent:
  "snd (unmarshal_into tc parse b r) = snd (unmarshal_into tc parse b r') \<and>
   (snd (unmarshal_into tc parse b r) \<longrightarrow>
      raw_Value (fst (unmarshal_into tc parse b r)) = raw_Value (fst (unmarshal_into tc parse b r')))"
  using Raw_UnmarshalJSON_independent [of tc _ r r']
  by (auto simp: unmarshal_into_def split_beta split: option.splits)

text \<open>What a message asks for, by itself.\<close>

definition message_value :: "text_codecs \<Rightarrow> (byte list \<Rightarrow> json option) \<Rightarrow> received \<Rightarrow> byte list option" where
  "message_value tc parse input =
     (case input of
        RecvError err \<Rightarrow> None
      | Received b \<Rightarrow>
          (case unmarshal_into tc parse b (NewRaw 0 zero_time) of
             (r, ok) \<Rightarrow> if ok then Some (raw_Value r) else None))"

lemma line_subscribe_value:
  "snd (line_subscribe_step (unmarshal_into tc parse) raw input) =
     map_option (\<lambda>v. v @ [13, 10]) (message_value tc parse input)"
proof (cases input)
  case (Received b)
  show ?thesis
    using unmarshal_into_independent [of tc parse b raw "NewRaw 0 zero_time"]
    by (cases "unmarshal_into tc parse b raw"; cases "unmarshal_into tc parse b (NewRaw 0 zero_time)")
       (auto simp: Received line_subscribe_step_def message_value_def split: bool.split)
qed (simp add: line_subscribe_step_def message_value_def)

fun relay_calls :: "byte list list \<Rightarrow> device_call list" where
  "relay_calls [] = []"
| "relay_calls (v # vs) =
     (case Client_Write v of
        (calls, Inl IndexOutOfRange) \<Rightarrow> calls
      | (calls, _) \<Rightarrow> calls @ relay_calls vs)"

lemma modbus_subscribe_values:
  "modbus_subscribe (unmarshal_into tc parse) raw inputs =
     relay_calls (List.map_filter (message_value tc parse) inputs)"
proof (induction inputs arbitrary: raw)
  case Nil
  then show ?case by (simp add: List.map_filter_simps)
next
  case (Cons input inputs)
  show ?case
  proof (cases input)
    case (RecvError err)
    with Cons show ?thesis by (simp add: message_value_def List.map_filter_simps)
  next
    case (Received b)
    show ?thesis
      using unmarshal_into_independent [of tc parse b raw "NewRaw 0 zero_time"] Cons.IH
      by (cases "unmarshal_into tc parse b raw"; cases "unmarshal_into tc parse b (NewRaw 0 zero_time)")
         (auto simp: Received message_value_def List.map_filter_simps split: bool.split)
  qed
qed

text \<open>Messages as they leave \<open>process\<close>: the text of the JSON form.\<close>

definition json_marshal :: "text_codecs \<Rightarrow> (json \<Rightarrow> byte list) \<Rightarrow> raw \<Rightarrow> string + byte list" where
  "json_marshal tc print r = Inr (print (Raw_MarshalJSON tc r))"

lemma message_value_print:
  assumes "faithful_codecs tc" "\<And>r. parse (print (Raw_MarshalJSON tc r)) = Some (Raw_MarshalJSON tc r)" "rfc3339_time (raw_Timestamp r)"
  shows "message_value tc parse (Received (print (Raw_MarshalJSON tc r))) = Some (raw_Value r)"
  using Raw_Unmarshal_Marshal [OF assms(1,3)] by (simp add: message_value_def unmarshal_into_def assms(2))

lemma process_values:
  assumes "faithful_codecs tc" "\<And>r. parse (print (Raw_MarshalJSON tc r)) = Some (Raw_MarshalJSON tc r)" "\<forall>(u, t, v)\<in>set stream. rfc3339_time t"
  shows "map (message_value tc parse)
      (map Received (process (json_marshal tc print) (\<lambda>_. True) connector protocol stream)) =
    map (\<lambda>(u, t, v). Some v) stream"
  using assms(3)
proof (induction stream)
  case Nil
  then show ?case by (simp add: process_def List.map_filter_simps)
next
  case (Cons x stream)
  obtain u t v where x: "x = (u, t, v)" by (metis prod.exhaust)
  let ?m = "WithRawType protocol (WithRawValue v (WithConnector connector (NewRaw u t)))"
  have "message_value tc parse (Received (print (Raw_MarshalJSON tc ?m))) = Some v"
    using message_value_print [OF assms(1,2), of ?m] Cons.prems
    by (simp add: x builder_defs NewRaw_def WithConnector_def WithRawValue_def WithRawType_def)
  moreover have "process (json_marshal tc print) (\<lambda>_. True) connector protocol (x # stream) =
      print (Raw_MarshalJSON tc ?m) # process (json_marshal tc print) (\<lambda>_. True) connector protocol stream"
    by (simp add: process_def x process_value_def json_marshal_def Let_def List.map_filter_simps)
  ultimately show ?case using Cons by (simp add: x List.map_filter_simps)
qed

lemma map_filter_all: "map f xs = map Some ys \<Longrightarrow> List.map_filter f xs = ys"
  by (induction xs arbitrary: ys) (auto simp: List.map_filter_simps Cons_eq_map_conv)

text \<open>What the receiving line connector writes.\<close>

lemma line_subscribe_writes:
  assumes "faithful_codecs tc" "\<And>r. parse (print (Raw_MarshalJSON tc r)) = Some (Raw_MarshalJSON tc r)" "\<forall>(u, t, v)\<in>set stream. rfc3339_time t"
  shows "machine_outputs (line_subscribe_step (unmarshal_into tc parse)) raw
      (map Received (process (json_marshal tc print) (\<lambda>_. True) connector protocol stream)) =
        map (\<lambda>(u, t, v). Some (v @ [13, 10])) stream"
proof -
  let ?in = "map Received (process (json_marshal tc print) (\<lambda>_. True) connector protocol stream)"
  have vals: "map (message_value tc parse) ?in = map (\<lambda>(u, t, v). Some v) stream"
    by (rule process_values [OF assms])
  have "machine_outputs (line_subscribe_step (unmarshal_into tc parse)) raw ins =
      map (map_option (\<lambda>v. v @ [13, 10])) (map (message_value tc parse) ins)" for ins raw
    by (induction ins arbitrary: raw) (simp_all add: line_subscribe_value)
  from this [of raw ?in] show ?thesis unfolding vals by (simp add: split_beta comp_def)
qed

section \<open>Properties\<close>

text \<open>C21: A connection is the one of the first attempt that does not fail. For the schemes the
  connector knows, \<open>createConnection\<close> keeps trying exactly as long as attempts end in an error; it
  returns the outcome of the first other attempt and never returns an error.\<close>

theorem connection_first_success:
  assumes "cc_URL c = Some u" "url_Scheme u \<in> set dialled"
  shows "case createConnection os c of
      None \<Rightarrow> \<forall>k. failed (attempt (os k) c u)
    | Some r \<Rightarrow> \<exists>k. r = attempt (os k) c u \<and> \<not> failed r \<and> (\<forall>i<k. failed (attempt (os i) c u))"
proof (cases "\<forall>k. failed (attempt (os k) c u)")
  case True
  then have "create_attempts os c 0 = None"
    using create_attempts_returns [of os c 0 _ u] assms by (cases "create_attempts os c 0") auto
  with True show ?thesis by (simp add: createConnection_def)
next
  case False
  define n where "n = (LEAST k. \<not> failed (attempt (os k) c u))"
  have n: "\<not> failed (attempt (os n) c u)" unfolding n_def by (rule LeastI_ex) (use False in blast)
  have less: "\<forall>i<n. failed (attempt (os i) c u)" using not_less_Least unfolding n_def by blast
  show ?thesis
    using create_attempts_first [OF assms n less, of 0] n less by (auto simp: createConnection_def)
qed

text \<open>An encoding of the JSON forms of raw messages: their five strings, character by character.\<close>

fun put_string :: "string \<Rightarrow> byte list" where
  "put_string [] = [0]"
| "put_string (c # cs) = 1 # of_nat (of_char c) # put_string cs"

fun get_string :: "byte list \<Rightarrow> string \<times> byte list" where
  "get_string (t # b # bs) =
     (if t = 1 then (case get_string bs of (s, rest) \<Rightarrow> (char_of (unat b) # s, rest)) else ([], b # bs))"
| "get_string _ = ([], [])"

lemma get_put_string: "rest \<noteq> [] \<Longrightarrow> get_string (put_string s @ rest) = (s, rest)"
proof (induction s)
  case (Cons c s)
  have "of_char c < (256::nat)" using nat_of_char_less_256 by simp
  then show ?case using Cons by (simp add: unat_of_nat take_bit_nat_eq_self)
qed (cases rest; simp)

definition sample_print :: "json \<Rightarrow> byte list" where
  "sample_print j =
     (case j of
        JObj ms \<Rightarrow> concat (map (\<lambda>(k, v). case v of JStr s \<Rightarrow> put_string s | _ \<Rightarrow> []) ms) @ [0]
      | _ \<Rightarrow> [])"

definition sample_parse :: "byte list \<Rightarrow> json option" where
  "sample_parse bs =
     (case get_string bs of (c, bs) \<Rightarrow> case get_string bs of (t, bs) \<Rightarrow> case get_string bs of (y, bs) \<Rightarrow>
      case get_string bs of (u, bs) \<Rightarrow> case get_string bs of (v, bs) \<Rightarrow>
        Some (JObj [(''connector'', JStr c), (''timestamp'', JStr t), (''type'', JStr y), (''uuid'', JStr u),
                    (''value'', JStr v)]))"

lemma sample_parse_print: "sample_parse (sample_print (Raw_MarshalJSON tc r)) = Some (Raw_MarshalJSON tc r)"
  by (simp add: sample_parse_def sample_print_def Raw_MarshalJSON_def get_put_string)

definition sample_url :: "string \<Rightarrow> url" where
  "sample_url scheme =
     \<lparr>url_Scheme = scheme, url_Host = ''h:1'', url_Path = ''/dev/tty'', url_Hostname = ''h'', url_Port = ''1'',
      url_String = scheme @ ''://h:1/dev/tty''\<rparr>"

text \<open>A host that accepts from the third attempt on, and a character device.\<close>

definition sample_os :: "nat \<Rightarrow> nat os" where
  "sample_os k =
     \<lparr>os_Listen = (\<lambda>s a. Inl ''in use''), os_Accept = (\<lambda>l. Inl ''closed''),
      os_ListenPacket = (\<lambda>s a. Inl ''in use''),
      os_Dial = (\<lambda>s a. if k < 2 then Inl ''refused'' else Inr k),
      os_StatCharDevice = (\<lambda>p. Inr True), os_OpenSerial = (\<lambda>c. Inr 0), os_OpenFile = (\<lambda>p. Inl ''denied'')\<rparr>"

theorem connection_first_success_witness:
  "\<exists>k. createConnection sample_os (default_connector_config\<lparr>cc_URL := Some (sample_url ''tcp'')\<rparr>) =
     Some (Opened (Some (Stream k))) \<and> 2 \<le> k"
proof -
  let ?c = "default_connector_config\<lparr>cc_URL := Some (sample_url ''tcp'')\<rparr>"
  have a: "attempt (sample_os k) ?c (sample_url ''tcp'') =
      (if k < 2 then OpenError (DialFailed ''refused'') else Opened (Some (Stream k)))" for k
    by (simp add: attempt_def createNetworkConnection_def sample_url_def sample_os_def
        default_connector_config_def)
  have "url_Scheme (sample_url ''tcp'') \<in> set dialled" by (simp add: sample_url_def dialled_def)
  from connection_first_success [OF _ this, of ?c sample_os] show ?thesis
    by (cases "createConnection sample_os ?c") (auto simp: a failed_def split: if_splits)
qed

text \<open>Which parity a serial port is opened with. With a configuration as it is read from the
  file, opening a character device panics exactly when the parity setting is no substring of
  \<open>NOE\<close>; otherwise the port is opened with the first character of the setting (\<open>N\<close> when it is
  empty) and the other settings as they are.\<close>

theorem serial_parity:
  assumes "NewConnectorConfig read parse = Inr c" "os_StatCharDevice os (url_Path u) = Inr True"
  shows "if sublist (cc_ParityString c) ParityMap then
      createFileConnection os c u =
        (case os_OpenSerial os
            \<lparr>ser_Address = url_Path u, ser_BaudRate = cc_BaudRate c, ser_DataBits = cc_DataBits c,
             ser_StopBits = cc_StopBits c,
             ser_Parity = take 1 (if cc_ParityString c = [] then ParityMap else cc_ParityString c)\<rparr> of
           Inl err \<Rightarrow> OpenError (PortFailed err) | Inr conn \<Rightarrow> Opened (Some (Stream conn)))
    else createFileConnection os c u = OpenPanic (Panic ''index out of range'')"
proof -
  have parity: "cc_Parity c = strings_Index ParityMap (cc_ParityString c)"
    using assms(1) by (auto simp: NewConnectorConfig_def Let_def split: sum.splits)
  show ?thesis
  proof (cases "sublist (cc_ParityString c) ParityMap")
    case True
    from parity_first_char [OF this] obtain n where n:
      "strings_Index ParityMap (cc_ParityString c) = int n" "n < length ParityMap"
      "[ParityMap ! n] = take 1 (if cc_ParityString c = [] then ParityMap else cc_ParityString c)" .
    then have "parity_string c = Inr (take 1 (if cc_ParityString c = [] then ParityMap else cc_ParityString c))"
      by (simp only: parity_string_def parity n nat_int of_nat_less_iff of_nat_0_le_iff simp_thms if_True)
    with True assms(2) show ?thesis by (simp add: createFileConnection_def)
  next
    case False
    then have "parity_string c = Inl (Panic ''index out of range'')"
      by (simp add: parity_string_def parity strings_Index_none)
    with False assms(2) show ?thesis by (simp add: createFileConnection_def)
  qed
qed

theorem serial_parity_witness:
  "\<exists>c. NewConnectorConfig (\<lambda>d _. Inr (d\<lparr>cc_ParityString := ''even''\<rparr>)) (\<lambda>_. None) = Inr c \<and>
     createFileConnection (sample_os 0) c (sample_url ''file'') = OpenPanic (Panic ''index out of range'')"
proof -
  obtain c where c: "NewConnectorConfig (\<lambda>d _. Inr (d\<lparr>cc_ParityString := ''even''\<rparr>)) (\<lambda>_. None) = Inr c"
    and p: "cc_ParityString c = ''even''"
    by (auto simp: NewConnectorConfig_def Let_def)
  have "\<not> sublist ''even'' ParityMap" by (simp add: ParityMap_def sublist_Cons_right)
  with serial_parity [OF c, of "sample_os 0" "sample_url ''file''"] c p show ?thesis
    by (simp add: sample_os_def)
qed

text \<open>C18: From one connector to another. What a connector publishes of its stream is, when another
  connector receives it, exactly what was read: a line connector writes every value once, in order,
  followed by carriage return and line feed, and a Modbus connector makes the calls of these values
  (up to the first that panics), whatever the reused message held before.\<close>

theorem relay_exact:
  assumes "faithful_codecs tc" "\<And>r. parse (print (Raw_MarshalJSON tc r)) = Some (Raw_MarshalJSON tc r)" "\<forall>(u, t, v)\<in>set stream. rfc3339_time t"
  shows "machine_outputs (line_subscribe_step (unmarshal_into tc parse)) raw
      (map Received (process (json_marshal tc print) (\<lambda>_. True) connector protocol stream)) =
        map (\<lambda>(u, t, v). Some (v @ [13, 10])) stream \<and>
    modbus_subscribe (unmarshal_into tc parse) raw
      (map Received (process (json_marshal tc print) (\<lambda>_. True) connector protocol stream)) =
        relay_calls (map (\<lambda>(u, t, v). v) stream)"
proof
  note vals = process_values [OF assms, of connector protocol]
  show "machine_outputs (line_subscribe_step (unmarshal_into tc parse)) raw
      (map Received (process (json_marshal tc print) (\<lambda>_. True) connector protocol stream)) =
        map (\<lambda>(u, t, v). Some (v @ [13, 10])) stream"
    by (rule line_subscribe_writes [OF assms])
  have "List.map_filter (message_value tc parse)
      (map Received (process (json_marshal tc print) (\<lambda>_. True) connector protocol stream)) = map (\<lambda>(u, t, v). v) stream"
    by (rule map_filter_all) (use vals in \<open>simp add: split_beta comp_def\<close>)
  then show "modbus_subscribe (unmarshal_into tc parse) raw
      (map Received (process (json_marshal tc print) (\<lambda>_. True) connector protocol stream)) =
        relay_calls (map (\<lambda>(u, t, v). v) stream)"
    by (simp add: modbus_subscribe_values)
qed

theorem relay_exact_witness:
  "modbus_subscribe (unmarshal_into tally_codecs sample_parse) (NewRaw 0 0)
     (map Received (process (json_marshal tally_codecs sample_print) (\<lambda>_. True) ''c'' ''modbus''
       [(1, 2, InjectModbusHeader (sample_header\<lparr>mh_FunctionCode := WRITE_MULTIPLE_COILS\<rparr>) [255, 0, 0, 0])])) =
   [SetUnitId 1, WriteCoils 51440 [True, False]]"
proof -
  have "relay_calls [InjectModbusHeader (sample_header\<lparr>mh_FunctionCode := WRITE_MULTIPLE_COILS\<rparr>) [255, 0, 0, 0]] =
      [SetUnitId 1, WriteCoils 51440 [True, False]]"
    by code_simp
  with relay_exact [OF tally_faithful sample_parse_print,
      of "[(1, 2, InjectModbusHeader (sample_header\<lparr>mh_FunctionCode := WRITE_MULTIPLE_COILS\<rparr>) [255, 0, 0, 0])]"
        "NewRaw 0 0" "''c''" "''modbus''"]
  show ?thesis by (simp add: rfc3339_time_def)
qed

end
