(* ===== verification/PollGroups.thy ===== *)
theory PollGroups
  imports Connector
begin

text \<open>
  The goroutines of \<open>receive\<close> in \<open>connector/modbus.go\<close> and \<open>connector/http.go\<close>: one per
  register group or URL group, and the caller, which waits until all are done or one reports an
  error on an unbuffered channel. Both are step relations; what a poll reads is in the theories
  \<open>PollStream\<close> and, for a URL, \<open>http_poll\<close> below.
\<close>

section \<open>Modbus: the error channel\<close>

text \<open>
  A poller that has an error is blocked in \<open>errors <- err\<close> until the caller takes the error; sending
  on the channel when it is closed panics. The caller is \<open>Waiting\<close> in the select, \<open>Closing\<close> after it
  took an error, and then returns the error.
\<close>

datatype poller = Polling | Reporting modbus_error | Finished

datatype caller = Waiting | Closing modbus_error | Returned "modbus_error option"

record group_state =
  rv_pollers :: "poller list"
  rv_caller :: caller
  rv_closed :: bool
  rv_panic :: bool

definition group_start :: "modbus_header list \<Rightarrow> group_state" where
  "group_start rgcs =
     \<lparr>rv_pollers = map (\<lambda>_. Polling) rgcs, rv_caller = Waiting, rv_closed = False, rv_panic = False\<rparr>"

inductive group_step :: "group_state \<Rightarrow> group_state \<Rightarrow> bool" where
  fails: "\<not> rv_panic s \<Longrightarrow> i < length (rv_pollers s) \<Longrightarrow> rv_pollers s ! i = Polling \<Longrightarrow>
     group_step s (s\<lparr>rv_pollers := (rv_pollers s)[i := Reporting err]\<rparr>)"
| takes: "\<not> rv_panic s \<Longrightarrow> rv_caller s = Waiting \<Longrightarrow> i < length (rv_pollers s) \<Longrightarrow>
     rv_pollers s ! i = Reporting err \<Longrightarrow>
     group_step s (s\<lparr>rv_pollers := (rv_pollers s)[i := Finished], rv_caller := Closing err\<rparr>)"
| closes: "\<not> rv_panic s \<Longrightarrow> rv_caller s = Closing err \<Longrightarrow>
     group_step s (s\<lparr>rv_closed := True, rv_caller := Returned (Some err)\<rparr>)"
| all_done: "\<not> rv_panic s \<Longrightarrow> rv_caller s = Waiting \<Longrightarrow> list_all (\<lambda>p. p = Finished) (rv_pollers s) \<Longrightarrow>
     group_step s (s\<lparr>rv_caller := Returned None\<rparr>)"
| panics: "\<not> rv_panic s \<Longrightarrow> rv_closed s \<Longrightarrow> i < length (rv_pollers s) \<Longrightarrow> rv_pollers s ! i = Reporting err \<Longrightarrow>
     group_step s (s\<lparr>rv_panic := True\<rparr>)"

section \<open>Modbus: the unit id\<close>





section \<open>HTTP: a poller that ends\<close>

text \<open>
  One URL is polled at every tick until a request or the reading of its body fails; the error is the
  result of \<open>poll\<close>, which nobody looks at.
\<close>

fun http_poll :: "(string + (string + byte list)) list \<Rightarrow> byte list list \<times> string option" where
  "http_poll [] = ([], None)"
| "http_poll (Inl err # ticks) = ([], Some err)"
| "http_poll (Inr (Inl err) # ticks) = ([], Some err)"
| "http_poll (Inr (Inr bytes) # ticks) = (case http_poll ticks of (sent, r) \<Rightarrow> (bytes # sent, r))"

text \<open>\<open>wg.Done\<close> is never called: the counter of the wait group keeps the number of groups.\<close>

record http_state =
  hr_polling :: "bool list"
  hr_wg :: nat
  hr_done :: bool
  hr_returned :: bool

definition http_start :: "url_group_config list \<Rightarrow> http_state" where
  "http_start ugcs =
     \<lparr>hr_polling = map (\<lambda>_. True) ugcs, hr_wg = length ugcs, hr_done = False, hr_returned = False\<rparr>"

inductive http_step :: "http_state \<Rightarrow> http_state \<Rightarrow> bool" where
  poll_ends: "i < length (hr_polling s) \<Longrightarrow> hr_polling s ! i \<Longrightarrow>
     http_step s (s\<lparr>hr_polling := (hr_polling s)[i := False]\<rparr>)"
| wg_done: "hr_wg s = 0 \<Longrightarrow> \<not> hr_done s \<Longrightarrow> http_step s (s\<lparr>hr_done := True\<rparr>)"
| returns: "hr_done s \<Longrightarrow> \<not> hr_returned s \<Longrightarrow> http_step s (s\<lparr>hr_returned := True\<rparr>)"

inductive_simps http_step_iff: "http_step s s'"

section \<open>Invariants\<close>

definition failures :: "poller list \<Rightarrow> nat" where
  "failures ps = length (filter (\<lambda>p. p \<noteq> Polling) ps)"

definition finished :: "poller list \<Rightarrow> nat" where
  "finished ps = length (filter (\<lambda>p. p = Finished) ps)"

lemma filter_update:
  "i < length ps \<Longrightarrow>
     length (filter P (ps[i := p])) + (if P (ps ! i) then 1 else 0) =
       length (filter P ps) + (if P p then 1 else 0)"
proof (induction ps arbitrary: i)
  case (Cons q ps)
  then show ?case by (cases i) auto
qed simp

lemma reporting_counts:
  assumes "i < length ps" "ps ! i = Reporting err"
  shows "finished ps < failures ps"
  using assms
proof (induction ps arbitrary: i)
  case (Cons q ps)
  have le: "finished ps \<le> failures ps" unfolding finished_def failures_def
    by (induction ps) auto
  show ?case
  proof (cases i)
    case 0
    with Cons.prems le show ?thesis by (simp add: finished_def failures_def)
  next
    case (Suc j)
    with Cons.IH [of j] Cons.prems show ?thesis by (auto simp: finished_def failures_def)
  qed
qed simp

text \<open>
  A poller is finished once the caller has taken its error, and the caller takes one error. The
  channel is closed once the caller has returned it.
\<close>

definition group_inv :: "nat \<Rightarrow> group_state \<Rightarrow> bool" where
  "group_inv n s \<longleftrightarrow>
     length (rv_pollers s) = n \<and>
     finished (rv_pollers s) = (case rv_caller s of Waiting \<Rightarrow> 0 | Closing e \<Rightarrow> 1 | Returned r \<Rightarrow> if r = None then 0 else 1) \<and>
     (rv_closed s \<longleftrightarrow> (\<exists>err. rv_caller s = Returned (Some err))) \<and>
     (rv_caller s = Returned None \<longrightarrow> n = 0) \<and>
     (rv_panic s \<longrightarrow> 2 \<le> failures (rv_pollers s) \<and> rv_closed s)"

lemma group_inv_start: "group_inv (length rgcs) (group_start rgcs)"
  by (simp add: group_inv_def group_start_def finished_def)

lemma group_inv_step: "group_step s s' \<Longrightarrow> group_inv n s \<Longrightarrow> group_inv n s'"
proof (induction rule: group_step.induct)
  case (fails s i err)
  then have "finished ((rv_pollers s)[i := Reporting err]) = finished (rv_pollers s)"
    using filter_update [of i "rv_pollers s" "\<lambda>p. p = Finished" "Reporting err"] by (simp add: finished_def)
  with fails show ?case by (simp add: group_inv_def)
next
  case (takes s i err)
  then have "finished ((rv_pollers s)[i := Finished]) = finished (rv_pollers s) + 1"
    using filter_update [of i "rv_pollers s" "\<lambda>p. p = Finished" Finished] by (simp add: finished_def)
  with takes show ?case by (simp add: group_inv_def)
next
  case (closes s err)
  then show ?case by (simp add: group_inv_def)
next
  case (all_done s)
  then have "finished (rv_pollers s) = length (rv_pollers s)"
    by (simp add: finished_def list_all_iff filter_id_conv [THEN iffD2])
  with all_done show ?case by (auto simp: group_inv_def)
next
  case (panics s i err)
  then have "finished (rv_pollers s) < failures (rv_pollers s)" "finished (rv_pollers s) = 1"
    using reporting_counts [OF panics(3,4)] by (auto simp: group_inv_def)
  with panics show ?case by (simp add: group_inv_def)
qed

lemma group_inv_reachable: "group_step\<^sup>*\<^sup>* (group_start rgcs) s \<Longrightarrow> group_inv (length rgcs) s"
  by (induction rule: rtranclp_induct) (auto intro: group_inv_start group_inv_step)

lemma http_wg: "http_step\<^sup>*\<^sup>* (http_start ugcs) s \<Longrightarrow>
    hr_wg s = length ugcs \<and> length (hr_polling s) = length ugcs \<and> (hr_done s \<longrightarrow> ugcs = []) \<and> (hr_returned s \<longrightarrow> ugcs = [])"
  by (induction rule: rtranclp_induct) (auto simp: http_start_def http_step_iff)








section \<open>Properties\<close>

text \<open>C27: The second poll that fails ends the process. In every interleaving of the pollers and the
  caller, a panic happens only after polls of two register groups failed; and once \<open>receive\<close> has
  returned an error, any further poll that fails can do nothing but panic.\<close>

theorem second_failure_panics:
  assumes "group_step\<^sup>*\<^sup>* (group_start rgcs) s"
  shows "(rv_panic s \<longrightarrow> 2 \<le> failures (rv_pollers s)) \<and>
    (rv_caller s = Returned None \<longrightarrow> rgcs = []) \<and>
    (rv_caller s = Returned (Some e) \<and> i < length (rv_pollers s) \<and> rv_pollers s ! i = Reporting err \<and> \<not> rv_panic s \<longrightarrow>
      (\<exists>s'. group_step s s' \<and> rv_panic s') \<and>
      (\<forall>s'. group_step s s' \<longrightarrow> rv_panic s' \<or> rv_pollers s' ! i = Reporting err))"
proof (intro conjI impI)
  have inv: "group_inv (length rgcs) s" by (rule group_inv_reachable [OF assms])
  then show "rv_panic s \<Longrightarrow> 2 \<le> failures (rv_pollers s)" "rv_caller s = Returned None \<Longrightarrow> rgcs = []"
    by (simp_all add: group_inv_def)
  assume s: "rv_caller s = Returned (Some e) \<and> i < length (rv_pollers s) \<and> rv_pollers s ! i = Reporting err \<and> \<not> rv_panic s"
  then have "rv_closed s" using inv by (simp add: group_inv_def)
  with s panics [of s i err] show "\<exists>s'. group_step s s' \<and> rv_panic s'" by fastforce
  show "\<forall>s'. group_step s s' \<longrightarrow> rv_panic s' \<or> rv_pollers s' ! i = Reporting err"
    using s by (auto elim!: group_step.cases simp: nth_list_update split: if_splits)
qed

definition two_groups :: "poller \<Rightarrow> poller \<Rightarrow> caller \<Rightarrow> bool \<Rightarrow> group_state" where
  "two_groups p q c chan_closed = \<lparr>rv_pollers = [p, q], rv_caller = c, rv_closed = chan_closed, rv_panic = False\<rparr>"

theorem second_failure_panics_witness:
  "\<exists>s. group_step\<^sup>*\<^sup>* (group_start [sample_header, sample_header]) s \<and> rv_panic s"
proof -
  let ?e = "UnsupportedFunctionCode 9"
  have "group_step (group_start [sample_header, sample_header]) (two_groups (Reporting ?e) Polling Waiting False)"
    using fails [of "group_start [sample_header, sample_header]" 0 ?e] by (simp add: group_start_def two_groups_def)
  moreover have "group_step (two_groups (Reporting ?e) Polling Waiting False) (two_groups Finished Polling (Closing ?e) False)"
    using takes [of "two_groups (Reporting ?e) Polling Waiting False" 0 ?e] by (simp add: two_groups_def)
  moreover have "group_step (two_groups Finished Polling (Closing ?e) False) (two_groups Finished Polling (Returned (Some ?e)) True)"
    using closes [of "two_groups Finished Polling (Closing ?e) False" ?e] by (simp add: two_groups_def)
  moreover have "group_step (two_groups Finished Polling (Returned (Some ?e)) True)
      (two_groups Finished (Reporting ?e) (Returned (Some ?e)) True)"
    using fails [of "two_groups Finished Polling (Returned (Some ?e)) True" 1 ?e] by (simp add: two_groups_def)
  ultimately have r: "group_step\<^sup>*\<^sup>* (group_start [sample_header, sample_header])
      (two_groups Finished (Reporting ?e) (Returned (Some ?e)) True)"
    by (meson r_into_rtranclp rtranclp_trans)
  from second_failure_panics [OF this, of ?e 1 ?e] r show ?thesis
    by (auto simp: two_groups_def intro: rtranclp.rtrancl_into_rtrancl)
qed

text \<open>The HTTP connector never notices that its polls have ended. With at least one URL,
  \<open>receive\<close> returns in no run; after all polls have ended nothing can happen any more, so the
  connector, which would start them again, stays silent.\<close>

theorem http_receive_stuck:
  assumes "http_step\<^sup>*\<^sup>* (http_start ugcs) s" "ugcs \<noteq> []"
  shows "\<not> hr_returned s \<and> ((\<exists>s'. http_step s s') \<longleftrightarrow> (\<exists>i<length ugcs. hr_polling s ! i))"
  using http_wg [OF assms(1)] assms(2) by (auto simp: http_step_iff)

theorem http_receive_stuck_witness:
  "\<exists>s. http_step\<^sup>*\<^sup>* (http_start [\<lparr>ugc_Url = ''u'', ugc_PollingInterval = 1\<rparr>]) s \<and> (\<nexists>s'. http_step s s') \<and> \<not> hr_returned s"
proof -
  let ?u = "[\<lparr>ugc_Url = ''u'', ugc_PollingInterval = 1\<rparr>]"
  let ?s = "(http_start ?u)\<lparr>hr_polling := [False]\<rparr>"
  have "http_step (http_start ?u) ?s" using poll_ends [of 0 "http_start ?u"] by (simp add: http_start_def)
  then have r: "http_step\<^sup>*\<^sup>* (http_start ?u) ?s" by (rule r_into_rtranclp)
  from http_receive_stuck [OF r] r show ?thesis by (intro exI [of _ ?s]) auto
qed


end
