(* ===== verification/Commands.thy ===== *)
theory Commands
  imports ModbusMapper TextMappers CanBus Nmea DeltaMappers RateLimit PollGroups
begin

text \<open>
  \<open>cmd/\<close>: the commands that put the components together. \<open>map\<close> and \<open>connect\<close> choose the component by the
  configured protocol, \<open>filter\<close> and \<open>rateLimit\<close> run the filters, \<open>testdata\<close> generates deltas. What the
  configuration file yields for each type, and the libraries, are parameters. \<open>logger.Fatal\<close> ends the
  process: it is the \<open>Inl\<close> of a result, as is the failure to subscribe.
\<close>

definition and_then :: "'e + 'a \<Rightarrow> ('a \<Rightarrow> 'e + 'b) \<Rightarrow> 'e + 'b" where
  "and_then r f = (case r of Inl err \<Rightarrow> Inl err | Inr x \<Rightarrow> f x)"

lemma and_then_simps [simp]: "and_then (Inl err) f = Inl err" "and_then (Inr x) f = f x"
  by (simp_all add: and_then_def)

lemma and_then_Inr [simp]: "and_then r f = Inr y \<longleftrightarrow> (\<exists>x. r = Inr x \<and> f x = Inr y)"
  by (cases r) simp_all

section \<open>The configuration file\<close>

record 'p config_file =
  cf_mapper :: "mapper_config \<Rightarrow> string list \<Rightarrow> string + mapper_config"
  cf_csv_mapper :: "csv_mapper_config \<Rightarrow> string list \<Rightarrow> string + csv_mapper_config"
  cf_canbus_mapper :: "canbus_mapper_config \<Rightarrow> string list \<Rightarrow> string + canbus_mapper_config"
  cf_modbus_mappings :: "'p modbus_mapping list \<Rightarrow> string list \<Rightarrow> string + 'p modbus_mapping list"
  cf_csv_mappings :: "'p csv_mapping list \<Rightarrow> string list \<Rightarrow> string + 'p csv_mapping list"
  cf_json_mappings :: "'p mapping_config list \<Rightarrow> string list \<Rightarrow> string + 'p mapping_config list"
  cf_canbus_mappings :: "'p canbus_mapping list \<Rightarrow> string list \<Rightarrow> string + 'p canbus_mapping list"
  cf_expression_mappings :: "'p expression_mapping list \<Rightarrow> string list \<Rightarrow> string + 'p expression_mapping list"
  cf_rate_limits :: "rate_limit_filter_config \<Rightarrow> string list \<Rightarrow> string + rate_limit_filter_config"
  cf_connector :: "connector_config \<Rightarrow> string list \<Rightarrow> string + connector_config"
  cf_register_groups :: "register_group_config list \<Rightarrow> string list \<Rightarrow> string + register_group_config list"
  cf_url_groups :: "url_group_config list \<Rightarrow> string list \<Rightarrow> string + url_group_config list"

definition NewModbusMappingsConfig ::
    "('p modbus_mapping list \<Rightarrow> string list \<Rightarrow> string + 'p modbus_mapping list) \<Rightarrow>
     string + 'p modbus_mapping list \<times> mapping_warning list" where
  "NewModbusMappingsConfig read = verify_all read"

definition NewCSVMappingConfig ::
    "('p csv_mapping list \<Rightarrow> string list \<Rightarrow> string + 'p csv_mapping list) \<Rightarrow>
     string + 'p csv_mapping list \<times> mapping_warning list" where
  "NewCSVMappingConfig read = verify_all read"

definition NewJSONMappingConfig ::
    "('p mapping_config list \<Rightarrow> string list \<Rightarrow> string + 'p mapping_config list) \<Rightarrow>
     string + 'p mapping_config list \<times> mapping_warning list" where
  "NewJSONMappingConfig read = verify_all read"

definition NewExpressionMappingConfig ::
    "('p expression_mapping list \<Rightarrow> string list \<Rightarrow> string + 'p expression_mapping list) \<Rightarrow>
     string + 'p expression_mapping list \<times> mapping_warning list" where
  "NewExpressionMappingConfig read = verify_all read"

definition NewCanBusMappingConfig ::
    "('p canbus_mapping list \<Rightarrow> string list \<Rightarrow> string + 'p canbus_mapping list) \<Rightarrow>
     string + 'p canbus_mapping list \<times> mapping_warning list" where
  "NewCanBusMappingConfig read = verify_all read"

section \<open>The map command\<close>

text \<open>
  The libraries of the mappers and the sockets: \<open>lb_Subscribe\<close> and \<open>lb_Listen\<close> are the errors of
  subscribing and of opening the publisher, if any. What runs is the
  loop of the mapper, a function from what is received to what is handed to the publisher.
\<close>

record 'p libraries =
  lb_expr :: "'p expr_lib"
  lb_structs :: mapstructure
  lb_text :: go_text
  lb_json :: "byte list \<Rightarrow> string + (string, gval) gomap"
  lb_dbc :: "string \<Rightarrow> dbc_def list"
  lb_unicode :: unicode_tables
  lb_nmea :: "string \<Rightarrow> string list \<Rightarrow> string + sentence"
  lb_unmarshal_raw :: "byte list \<Rightarrow> raw \<Rightarrow> raw \<times> bool"
  lb_unmarshal_mapped :: "byte list \<Rightarrow> mapped \<Rightarrow> mapped \<times> bool"
  lb_marshal :: "mapped \<Rightarrow> string + byte list"
  lb_Subscribe :: "string option"
  lb_Listen :: "string option"

type_synonym loop = "received list \<Rightarrow> byte list option list"

definition Map_raw :: "'p libraries \<Rightarrow> ('s \<Rightarrow> raw \<Rightarrow> 's \<times> (map_error + mapped)) \<Rightarrow> 's \<Rightarrow> loop" where
  "Map_raw lb DoMap m = machine_outputs (process_step (lb_unmarshal_raw lb) (lb_marshal lb) DoMap) (Some (zero_raw, m))"

definition zero_mapped :: mapped where
  "zero_mapped = \<lparr>m_Context = [], m_Origin = [], m_Updates = []\<rparr>"

definition Map_mapped :: "'p libraries \<Rightarrow> ('s \<Rightarrow> mapped \<Rightarrow> 's \<times> (map_error + mapped)) \<Rightarrow> 's \<Rightarrow> loop" where
  "Map_mapped lb DoMap m =
     machine_outputs (processMapped_step (lb_unmarshal_mapped lb) (lb_marshal lb) DoMap) (Some (zero_mapped, m))"

definition NewSub :: "'p libraries \<Rightarrow> string + unit" where
  "NewSub lb = (case lb_Subscribe lb of Some err \<Rightarrow> Inl ''Could not subscribe'' | None \<Rightarrow> Inr ())"

definition NewPub :: "'p libraries \<Rightarrow> string + unit" where
  "NewPub lb = (case lb_Listen lb of Some err \<Rightarrow> Inl ''Could not listen on the URL'' | None \<Rightarrow> Inr ())"

definition doMap :: "'p config_file \<Rightarrow> 'p libraries \<Rightarrow> string + loop" where
  "doMap f lb =
     and_then (NewSub lb) (\<lambda>_.
     and_then (NewPub lb) (\<lambda>_.
     and_then (NewMapperConfig (cf_mapper f)) (\<lambda>c.
       if mpc_Protocol c = CSVType then
         and_then (NewCSVMapperConfig (cf_csv_mapper f)) (\<lambda>c2.
         and_then (NewCSVMappingConfig (cf_csv_mappings f)) (\<lambda>(cmc, _).
           Inr (Map_raw lb (CSV_DoMap (lb_expr lb) (lb_structs lb) (lb_text lb))
             (NewCSVMapper (mpc_Context c2) (csc_Separator c2) (csc_SplitLines c2) cmc))))
       else if mpc_Protocol c = JSONType then
         and_then (NewJSONMappingConfig (cf_json_mappings f)) (\<lambda>(jmc, _).
           Inr (Map_raw lb (JSON_DoMap (lb_expr lb) (lb_structs lb) (lb_json lb)) (NewJSONMapper (mpc_Context c) jmc)))
       else if mpc_Protocol c = ModbusType then
         and_then (NewModbusMappingsConfig (cf_modbus_mappings f)) (\<lambda>(rmc, _).
           Inr (Map_raw lb (Modbus_DoMap (lb_expr lb) (lb_structs lb)) (NewModbusMapper (mpc_Context c) rmc)))
       else if mpc_Protocol c = NMEA0183Type then
         Inr (Map_raw lb (Nmea_DoMap (lb_unicode lb) (lb_nmea lb)) (NewNmea0183Mapper (mpc_Context c) (mpc_ProtocolOptions c)))
       else if mpc_Protocol c = CanBusType then
         and_then (NewCanBusMapperConfig (cf_canbus_mapper f)) (\<lambda>c2.
         and_then (NewCanBusMappingConfig (cf_canbus_mappings f)) (\<lambda>(cmc, _).
           Inr (Map_raw lb (CanBus_DoMap (lb_expr lb) (lb_structs lb))
             (NewCanBusMapper (mpc_Context c2) (readDBC (lb_dbc lb (cbc_DbcFile c2))) cmc))))
       else if mpc_Protocol c = SignalKType then
         and_then (NewExpressionMappingConfig (cf_expression_mappings f)) (\<lambda>(amc, _).
           Inr (Map_mapped lb (Aggregate_DoMap (lb_expr lb) (lb_structs lb)) (NewAggregateMapper amc)))
       else Inl ''Not a supported protocol'')))"

definition doFilter :: "'p config_file \<Rightarrow> 'p libraries \<Rightarrow> string + loop" where
  "doFilter f lb =
     and_then (NewSub lb) (\<lambda>_.
     and_then (NewPub lb) (\<lambda>_.
     and_then (NewExpressionMappingConfig (cf_expression_mappings f)) (\<lambda>(emc, _).
       Inr (Map_mapped lb (ExpressionFilter_DoMap (lb_expr lb) (lb_structs lb)) (NewExpressionFilter emc)))))"

definition doRateLimit :: "'p config_file \<Rightarrow> 'p libraries \<Rightarrow> string + loop" where
  "doRateLimit f lb =
     and_then (NewSub lb) (\<lambda>_.
     and_then (NewPub lb) (\<lambda>_.
     and_then (NewRateLimitConfig (cf_rate_limits f)) (\<lambda>c.
       Inr (Map_mapped lb RateLimit_DoMap
         (NewRateLimitFilter (rfc_DefaultInterval c) (map (\<lambda>l. (rlc_Path l, rlc_Interval l)) (rfc_Ratelimits c)))))))"

section \<open>The connect command\<close>

text \<open>A constructor of a connector returns, reports an error, panics or never returns.\<close>

datatype ('c, 'dev) any_connector =
    LineConnector connector_config "'c connection option"
  | ModbusConnector connector_config "register_group_config list" 'dev
  | CanBusConnector connector_config
  | HttpConnector connector_config "url_group_config list"

datatype 'a outcome = Runs 'a | Fatal string | Panics panic | Hangs

definition constructed :: "('a \<Rightarrow> 'b) \<Rightarrow> 'a open_result option \<Rightarrow> 'b outcome" where
  "constructed f r =
     (case r of
        None \<Rightarrow> Hangs
      | Some (Opened x) \<Rightarrow> Runs (f x)
      | Some (OpenError err) \<Rightarrow> Fatal ''Error while creating the connector''
      | Some (OpenPanic p) \<Rightarrow> Panics p)"

definition NewLineConnector :: "(nat \<Rightarrow> 'c os) \<Rightarrow> connector_config \<Rightarrow> ('c, 'dev) any_connector outcome" where
  "NewLineConnector os c = constructed (LineConnector c) (createConnection os c)"

definition HttpType :: string where
  "HttpType = ''http''"

definition doConnect ::
    "'p config_file \<Rightarrow> (string \<Rightarrow> url option) \<Rightarrow> (nat \<Rightarrow> 'c os) \<Rightarrow> (modbus_client_config \<Rightarrow> string + 'dev) \<Rightarrow>
     ('dev \<Rightarrow> string option) \<Rightarrow> ('c, 'dev) any_connector outcome" where
  "doConnect f parse os NewClient Open =
     (case NewConnectorConfig (cf_connector f) parse of
        Inl err \<Rightarrow> Fatal err
      | Inr c \<Rightarrow>
          if cc_Protocol c = CSVType \<or> cc_Protocol c = NMEA0183Type \<or> cc_Protocol c = JSONType then NewLineConnector os c
          else if cc_Protocol c = ModbusType then
            (case NewRegisterGroupsConfig (cf_register_groups f) of
               Inl err \<Rightarrow> Fatal err
             | Inr rgc \<Rightarrow> constructed (ModbusConnector c rgc) (Some (NewModbusConnector NewClient Open c rgc)))
          else if cc_Protocol c = CanBusType then Runs (CanBusConnector c)
          else if cc_Protocol c = HttpType then
            (case NewUrlGroupsConfig (cf_url_groups f) of Inl err \<Rightarrow> Fatal err | Inr ugc \<Rightarrow> Runs (HttpConnector c ugc))
          else Fatal ''Not a supported protocol'')"

fun connector_config_of :: "('c, 'dev) any_connector \<Rightarrow> connector_config" where
  "connector_config_of (LineConnector c connection) = c"
| "connector_config_of (ModbusConnector c rgc dev) = c"
| "connector_config_of (CanBusConnector c) = c"
| "connector_config_of (HttpConnector c ugc) = c"

text \<open>What a connector publishes of its stream.\<close>

definition Publish ::
    "(raw \<Rightarrow> string + byte list) \<Rightarrow> (byte list \<Rightarrow> bool) \<Rightarrow> ('c, 'dev) any_connector \<Rightarrow>
     (uuid \<times> time \<times> byte list) list \<Rightarrow> byte list list" where
  "Publish marshal send conn frames =
     process marshal send (cc_Name (connector_config_of conn)) (cc_Protocol (connector_config_of conn)) frames"

section \<open>Generated test data\<close>

text \<open>
  The evaluation of \<open>cmd/test.go\<close> is that of the mappers without the merging of environments. One tick of
  \<open>doTest\<close> makes a delta of the values of the paths for the counter \<open>i\<close>; \<open>u\<close>, \<open>now\<close> and \<open>now'\<close> are the uuid and the
  clock; the counter goes on when the delta cannot be encoded or sent.
\<close>

definition test_runExpr ::
    "'p expr_lib \<Rightarrow> mapstructure \<Rightarrow> environment \<Rightarrow> 'p mapping_config \<Rightarrow> expr_error + gval" where
  "test_runExpr lib ms env mappingConfig =
     (case (case mc_CompiledExpression mappingConfig of
              None \<Rightarrow> (case ex_Compile lib (mc_Expression mappingConfig) env of
                        Inl err \<Rightarrow> Inl (CompileError err) | Inr program \<Rightarrow> Inr program)
            | Some program \<Rightarrow> Inr program) of
        Inl err \<Rightarrow> Inl err
      | Inr program \<Rightarrow>
         (case ex_Run lib program env of
            Inl err \<Rightarrow> Inl (RunError err)
          | Inr output \<Rightarrow> Inr (decode_output ms output)))"

fun test_values :: "'p expr_lib \<Rightarrow> mapstructure \<Rightarrow> int \<Rightarrow> 'p mapping_config list \<Rightarrow> upd \<Rightarrow> upd" where
  "test_values lib ms i [] u = u"
| "test_values lib ms i (path # paths) u =
     (case test_runExpr lib ms [(''value'', GInt KInt i)] path of
        Inr output \<Rightarrow> test_values lib ms i paths (AddValue (WithValue output (WithPath (mc_Path path) NewValue)) u)
      | Inl err \<Rightarrow> test_values lib ms i paths u)"

definition test_tick ::
    "'p expr_lib \<Rightarrow> mapstructure \<Rightarrow> (mapped \<Rightarrow> string + byte list) \<Rightarrow> (byte list \<Rightarrow> bool) \<Rightarrow> 'p test_data_config \<Rightarrow>
     int \<Rightarrow> uuid \<times> time \<times> time \<Rightarrow> int \<times> byte list option" where
  "test_tick lib ms marshal send c i input =
     (case input of (u, now, now') \<Rightarrow>
        (let result = WithOrigin (tdc_Context c) (WithContext (tdc_Context c) NewMapped);
             s = WithUuid u (WithType ''sampleData'' (WithLabel ''sampleData'' NewSource));
             upd = test_values lib ms i (tdc_Paths c) (WithTimestamp now' (WithSource s (NewUpdate now)));
             result = AddUpdate upd result
         in (i + 1, case marshal result of
                      Inl err \<Rightarrow> None
                    | Inr bytes \<Rightarrow> if send bytes then Some bytes else None)))"

section \<open>Lemmas\<close>

lemma protocols_distinct:
  "distinct [CSVType, JSONType, ModbusType, NMEA0183Type, CanBusType, SignalKType, HttpType]"
  by (simp add: CSVType_def JSONType_def ModbusType_def NMEA0183Type_def CanBusType_def SignalKType_def HttpType_def)

lemma doMap_publishes:
  assumes "doMap f lb = Inr run" "NewMapperConfig (cf_mapper f) = Inr c" "mpc_Protocol c \<noteq> SignalKType"
  shows "list_all2 (published (mpc_Protocol c) (lb_unmarshal_raw lb) (lb_marshal lb)) inputs (run inputs)"
  using assms unfolding doMap_def
  by (auto simp: Map_raw_def split: if_splits prod.splits
      intro: csv.process_publishes json.process_publishes modbus.process_publishes nmea.process_publishes
        canbus.process_publishes)

lemma doMap_protocol:
  assumes "doMap f lb = Inr run" "NewMapperConfig (cf_mapper f) = Inr c"
  shows "mpc_Protocol c \<in> {CSVType, JSONType, ModbusType, NMEA0183Type, CanBusType, SignalKType}"
  using assms by (auto simp: doMap_def split: if_splits)

lemma constructed_config:
  "constructed (LineConnector c) r = Runs conn \<Longrightarrow> connector_config_of conn = c"
  "constructed (ModbusConnector c rgc) r' = Runs conn \<Longrightarrow> connector_config_of conn = c"
  by (auto simp: constructed_def split: option.splits open_result.splits)

lemma doConnect_protocol:
  assumes "doConnect f parse os NewClient Open = Runs conn"
  shows "cc_Protocol (connector_config_of conn) \<in> {CSVType, JSONType, ModbusType, NMEA0183Type, CanBusType, HttpType}"
  using assms
  by (auto simp: doConnect_def NewLineConnector_def dest!: constructed_config split: sum.splits if_splits)

lemma Publish_message:
  "Publish (json_marshal tc print) (\<lambda>_. True) conn frames =
     map (\<lambda>(u, t, v). print (Raw_MarshalJSON tc
       \<lparr>raw_Connector = cc_Name (connector_config_of conn), raw_Timestamp = t,
        raw_Type = cc_Protocol (connector_config_of conn), raw_Uuid = u, raw_Value = v\<rparr>)) frames"
  unfolding Publish_def process_def
  by (rule map_filter_all)
    (auto simp: process_value_def json_marshal_def Let_def NewRaw_def WithConnector_def WithRawValue_def WithRawType_def)

lemma published_print:
  assumes "faithful_codecs tc" "parse (print (Raw_MarshalJSON tc r)) = Some (Raw_MarshalJSON tc r)" "rfc3339_time (raw_Timestamp r)"
    and "published protocol (unmarshal_into tc parse) marshal (Received (print (Raw_MarshalJSON tc r))) (Some bytes)"
  shows "\<exists>m. marshal m = Inr bytes \<and>
    (\<forall>x\<in>set (m_Updates m). upd_Source x = raw_source protocol r \<and> upd_Timestamp x = raw_Timestamp r)"
  using assms(4) Raw_Unmarshal_Marshal [OF assms(1,3)] assms(2)
  by (auto simp: published_def unmarshal_into_def)

section \<open>Properties\<close>

text \<open>C15: From the device to the delta. When a connector and a mapper run with configurations of the same
  protocol, then whatever the connector publishes of the frames it receives, the mapper publishes at most
  one message for each frame, a delta all of whose updates carry the connector's name, the protocol,
  and the uuid and instant the frame was given.\<close>

theorem pipeline_provenance:
  assumes "faithful_codecs tc" "\<And>r. parse (print (Raw_MarshalJSON tc r)) = Some (Raw_MarshalJSON tc r)"
    and "\<forall>(u, t, v)\<in>set frames. rfc3339_time t"
    and "doConnect f url os NewClient Open = Runs conn"
    and "doMap g lb = Inr run" "NewMapperConfig (cf_mapper g) = Inr c"
    and "mpc_Protocol c = cc_Protocol (connector_config_of conn)" "lb_unmarshal_raw lb = unmarshal_into tc parse"
  shows "list_all2 (\<lambda>(u, t, v) out. \<forall>bytes. out = Some bytes \<longrightarrow>
      (\<exists>m. lb_marshal lb m = Inr bytes \<and>
         (\<forall>x\<in>set (m_Updates m). upd_Timestamp x = t \<and>
            upd_Source x = \<lparr>src_Label = cc_Name (connector_config_of conn), src_Type = mpc_Protocol c,
                            src_Uuid = u, src_TransferUuid = 0\<rparr>)))
    frames (run (map Received (Publish (json_marshal tc print) (\<lambda>_. True) conn frames)))"
    (is "list_all2 ?carried _ _")
proof -
  have "mpc_Protocol c \<noteq> SignalKType"
    using doConnect_protocol [OF assms(4)] protocols_distinct assms(7) by auto
  then have "list_all2 (published (mpc_Protocol c) (unmarshal_into tc parse) (lb_marshal lb))
      (map Received (Publish (json_marshal tc print) (\<lambda>_. True) conn frames))
      (run (map Received (Publish (json_marshal tc print) (\<lambda>_. True) conn frames)))"
    using doMap_publishes [OF assms(5,6)] unfolding assms(8) by blast
  then show ?thesis
    unfolding Publish_message list_all2_map1
  proof (rule list.rel_mono_strong)
    fix x :: "uuid \<times> time \<times> byte list" and out
    let ?r = "\<lambda>u t v. \<lparr>raw_Connector = cc_Name (connector_config_of conn), raw_Timestamp = t,
      raw_Type = cc_Protocol (connector_config_of conn), raw_Uuid = u, raw_Value = v\<rparr>"
    obtain u t v where x: "x = (u, t, v)" by (metis prod.exhaust)
    assume "x \<in> set frames" and pub: "published (mpc_Protocol c) (unmarshal_into tc parse) (lb_marshal lb)
      (Received ((\<lambda>(u, t, v). print (Raw_MarshalJSON tc (?r u t v))) x)) out"
    then have "rfc3339_time (raw_Timestamp (?r u t v))" using assms(3) x by auto
    then have p: "\<exists>m. lb_marshal lb m = Inr bytes \<and> (\<forall>x\<in>set (m_Updates m).
        upd_Source x = raw_source (mpc_Protocol c) (?r u t v) \<and> upd_Timestamp x = raw_Timestamp (?r u t v))"
      if "out = Some bytes" for bytes
      using published_print [of tc parse print "?r u t v", OF assms(1) assms(2)] pub that by (simp add: x)
    show "?carried x out"
      using p by (simp add: x raw_source_def conj_commute)
  qed
qed

text \<open>The generated test data. The delta of the i-th tick, counted from zero, has one update with the values
  of the paths whose expression can be evaluated for \<open>i\<close>, whatever became of the earlier deltas.\<close>

definition test_delta :: "'p expr_lib \<Rightarrow> mapstructure \<Rightarrow> 'p test_data_config \<Rightarrow> int \<Rightarrow> uuid \<Rightarrow> time \<Rightarrow> mapped" where
  "test_delta lib ms c i u t =
     \<lparr>m_Context = tdc_Context c, m_Origin = tdc_Context c, m_Updates =
        [\<lparr>upd_Source = \<lparr>src_Label = ''sampleData'', src_Type = ''sampleData'', src_Uuid = u, src_TransferUuid = 0\<rparr>,
          upd_Timestamp = t,
          upd_Values = List.map_filter (\<lambda>p. case test_runExpr lib ms [(''value'', GInt KInt i)] p of
              Inl err \<Rightarrow> None | Inr output \<Rightarrow> Some \<lparr>val_Path = mc_Path p, val_Value = output\<rparr>) (tdc_Paths c)\<rparr>]\<rparr>"

lemma test_values_eq:
  "test_values lib ms i paths u = u\<lparr>upd_Values := upd_Values u @
     List.map_filter (\<lambda>p. case test_runExpr lib ms [(''value'', GInt KInt i)] p of
        Inl err \<Rightarrow> None | Inr output \<Rightarrow> Some \<lparr>val_Path = mc_Path p, val_Value = output\<rparr>) paths\<rparr>"
  by (induction lib ms i paths u rule: test_values.induct)
    (auto simp: List.map_filter_simps builder_defs NewValue_def split: sum.split)

lemma test_tick_delta:
  "test_tick lib ms marshal send c i (u, now, t) =
     (i + 1, case marshal (test_delta lib ms c i u t) of
        Inl err \<Rightarrow> None | Inr bytes \<Rightarrow> if send bytes then Some bytes else None)"
  by (simp add: test_tick_def test_delta_def test_values_eq Let_def builder_defs NewUpdate_def NewMapped_def NewSource_def)

lemma test_counter: "machine_state (test_tick lib ms marshal send c) i inputs = i + int (length inputs)"
  by (induction inputs arbitrary: i) (auto simp: test_tick_delta)

theorem test_data_counts:
  assumes "i < length inputs" "inputs ! i = (u, now, t)"
  shows "machine_outputs (test_tick lib ms marshal send c) 0 inputs ! i =
    (case marshal (test_delta lib ms c (int i) u t) of
       Inl err \<Rightarrow> None | Inr bytes \<Rightarrow> if send bytes then Some bytes else None)"
  using assms by (simp add: machine_outputs_nth test_counter test_tick_delta)

definition sample_file :: "string config_file" where
  "sample_file =
     \<lparr>cf_mapper = (\<lambda>c _. Inr (c\<lparr>mpc_Context := ''x'', mpc_Protocol := CanBusType\<rparr>)), cf_csv_mapper = (\<lambda>c _. Inr c),
      cf_canbus_mapper = (\<lambda>c _. Inr (c\<lparr>mpc_Context := ''x'', mpc_Protocol := CanBusType\<rparr>)),
      cf_modbus_mappings = (\<lambda>c _. Inr c), cf_csv_mappings = (\<lambda>c _. Inr c), cf_json_mappings = (\<lambda>c _. Inr c),
      cf_canbus_mappings = (\<lambda>c _. Inr c), cf_expression_mappings = (\<lambda>c _. Inr c), cf_rate_limits = (\<lambda>c _. Inr c),
      cf_connector = (\<lambda>c _. Inr (c\<lparr>cc_Name := ''can0'', cc_Protocol := CanBusType\<rparr>)),
      cf_register_groups = (\<lambda>c _. Inr c), cf_url_groups = (\<lambda>c _. Inr c)\<rparr>"

definition sample_libraries :: "string libraries" where
  "sample_libraries =
     \<lparr>lb_expr = variables, lb_structs = no_structs, lb_text = \<lparr>tx_Regexp = (\<lambda>_. None), tx_ParseFloat = (\<lambda>_. None)\<rparr>,
      lb_json = (\<lambda>_. Inl ''no json''), lb_dbc = (\<lambda>_. []), lb_unicode = \<lparr>uc_IsLetter = (\<lambda>_. False), uc_IsNumber = (\<lambda>_. False)\<rparr>,
      lb_nmea = (\<lambda>_ _. Inl ''no sentence''),
      lb_unmarshal_raw = unmarshal_into tally_codecs sample_parse, lb_unmarshal_mapped = (\<lambda>b m. (m, False)),
      lb_marshal = (\<lambda>m. Inr [word_of_nat (length (m_Updates m))]), lb_Subscribe = None, lb_Listen = None\<rparr>"

theorem pipeline_provenance_witness:
  "\<exists>run bytes m. doMap sample_file sample_libraries = Inr run \<and>
     run (map Received (Publish (json_marshal tally_codecs sample_print) (\<lambda>_. True)
       (CanBusConnector (default_connector_config\<lparr>cc_Name := ''can0'', cc_Protocol := CanBusType, cc_Parity := 0\<rparr>)
          :: (nat, nat) any_connector)
       [(7, 5, replicate 16 0)])) = [Some bytes] \<and>
     lb_marshal sample_libraries m = Inr bytes \<and>
     (\<forall>x\<in>set (m_Updates m). upd_Timestamp x = 5 \<and> src_Uuid (upd_Source x) = 7)"
proof -
  let ?conn = "CanBusConnector (default_connector_config\<lparr>cc_Name := ''can0'', cc_Protocol := CanBusType, cc_Parity := 0\<rparr>)
    :: (nat, nat) any_connector"
  have conn: "doConnect sample_file (\<lambda>_. None) sample_os (\<lambda>_. Inl []) (\<lambda>_. None) = Runs ?conn"
    using protocols_distinct
    by (simp add: doConnect_def NewConnectorConfig_def sample_file_def default_connector_config_def Let_def) code_simp
  let ?run = "Map_raw sample_libraries (CanBus_DoMap variables no_structs) (NewCanBusMapper ''x'' [] [])"
  have run: "doMap sample_file sample_libraries = Inr ?run"
    by (simp add: CSVType_def JSONType_def ModbusType_def NMEA0183Type_def CanBusType_def doMap_def NewSub_def NewPub_def sample_libraries_def sample_file_def NewMapperConfig_def NewCanBusMapperConfig_def
        NewCanBusMappingConfig_def verify_all_def readDBC_def)
  let ?r = "\<lparr>raw_Connector = ''can0'', raw_Timestamp = 5, raw_Type = CanBusType, raw_Uuid = 7,
    raw_Value = replicate 16 (0 :: byte)\<rparr>"
  have "unmarshal_into tally_codecs sample_parse (sample_print (Raw_MarshalJSON tally_codecs ?r)) zero_raw = (?r, True)"
    using Raw_Unmarshal_Marshal [OF tally_faithful, of ?r]
    by (simp add: unmarshal_into_def sample_parse_print rfc3339_time_def)
  then have out: "?run (map Received (Publish (json_marshal tally_codecs sample_print) (\<lambda>_. True) ?conn
      [(7, 5, replicate 16 0)])) = [Some [1]]"
    by (simp add: Map_raw_def Publish_message sample_libraries_def CanBus_DoMap_def createFrame_def NewCanBusMapper_def Let_def)
  have "lb_unmarshal_raw sample_libraries = unmarshal_into tally_codecs sample_parse"
    by (simp add: sample_libraries_def)
  from pipeline_provenance [OF tally_faithful sample_parse_print _ conn run _ _ this, of "[(7, 5, replicate 16 0)]"] out
  obtain m where "lb_marshal sample_libraries m = Inr [1]"
    "\<forall>x\<in>set (m_Updates m). upd_Timestamp x = 5 \<and> src_Uuid (upd_Source x) = 7"
    by (auto simp: sample_file_def NewMapperConfig_def rfc3339_time_def)
  with run out show ?thesis by blast
qed

end
