(* ===== verification/SignalK.thy ===== *)
theory SignalK
  imports BigCache Database TextMappers
begin

text \<open>
  \<open>writer/signalk.go\<close>, \<open>writer/signalk_http.go\<close> and \<open>writer/signalk_ws.go\<close>: the SignalK
  server with its cache of the latest values, the endpoints and the full data model it serves, and the
  deltas it sends to WebSocket clients. The JSON container (\<open>gabs\<close>), the HTTP server and the
  connections are parameters. The goroutines that send deltas to clients are a step relation.
\<close>

section \<open>Endpoints\<close>

definition SignalKHTTPPath :: string where
  "SignalKHTTPPath = ''/signalk/v1/api/''"

definition SignalKWSPath :: string where
  "SignalKWSPath = ''/signalk/v1/stream''"

record endpoint =
  ep_Version :: string
  ep_SignalKHTTP :: string
  ep_SignalKWS :: string

record endpoints =
  eps_Endpoints :: "(string, endpoint) gomap"
  eps_Id :: string
  eps_Version :: string

definition serveEndpoints :: "string \<Rightarrow> string \<Rightarrow> endpoints" where
  "serveEndpoints version host =
     \<lparr>eps_Endpoints = [(''v1'', \<lparr>ep_Version = version, ep_SignalKHTTP = ''http://'' @ host @ SignalKHTTPPath,
                                ep_SignalKWS = ''ws://'' @ host @ SignalKWSPath\<rparr>)],
      eps_Id = ''gosk'', eps_Version = version\<rparr>"

record hello =
  he_Name :: string
  he_Version :: string
  he_Timestamp :: time
  he_Self :: string
  he_Roles :: "string list"

definition createHello :: "string \<Rightarrow> string \<Rightarrow> time \<Rightarrow> hello" where
  "createHello version selfContext now =
     \<lparr>he_Name = ''gosk'', he_Version = version, he_Timestamp = now, he_Self = selfContext,
      he_Roles = [''master'', ''main'']\<rparr>"

section \<open>The full data model\<close>

text \<open>
  \<open>gabs\<close>: an empty container, setting the value at a path (an error leaves the container as it is
  and is not looked at), the lookup of a JSON pointer, and the text.
\<close>

datatype leaf = LValue gval | LString string | LTime time | LUuid uuid

record 'o gabs =
  gb_New :: 'o
  gb_Set :: "leaf \<Rightarrow> string list \<Rightarrow> 'o \<Rightarrow> 'o"
  gb_JSONPointer :: "string \<Rightarrow> 'o \<Rightarrow> 'o option"
  gb_String :: "'o \<Rightarrow> string"

text \<open>\<open>strings.SplitN(s, ".", 2)\<close>: cut at the first dot.\<close>

definition split_first_dot :: "string \<Rightarrow> string list" where
  "split_first_dot s =
     (if CHR ''.'' \<in> set s
      then [takeWhile (\<lambda>c. c \<noteq> CHR ''.'') s, drop 1 (dropWhile (\<lambda>c. c \<noteq> CHR ''.'') s)]
      else [s])"

definition location :: "svm \<Rightarrow> string list" where
  "location sm = split_first_dot (svm_Context sm) @ split (svm_Path sm) ''.''"

definition set_single :: "'o gabs \<Rightarrow> 'o \<Rightarrow> svm \<Rightarrow> 'o" where
  "set_single gb jsonObj sm =
     (let jsonPath = split_first_dot (svm_Context sm) in
      if svm_Path sm = [] then
        (case svm_Value sm of
           GMerger (VesselInfo vesselInfo) \<Rightarrow>
             (let jsonObj = (case vi_MMSI vesselInfo of
                               None \<Rightarrow> jsonObj
                             | Some mmsi \<Rightarrow> gb_Set gb (LString mmsi) (jsonPath @ [''mmsi'']) jsonObj)
              in case vi_Name vesselInfo of
                   None \<Rightarrow> jsonObj
                 | Some name \<Rightarrow> gb_Set gb (LString name) (jsonPath @ [''name'']) jsonObj)
         | _ \<Rightarrow> jsonObj)
      else
        (let jsonPath = jsonPath @ split (svm_Path sm) ''.'';
             jsonObj = gb_Set gb (LValue (svm_Value sm)) (jsonPath @ [''value'']) jsonObj;
             jsonObj = gb_Set gb (LTime (svm_Timestamp sm)) (jsonPath @ [''timestamp'']) jsonObj;
             jsonObj = gb_Set gb (LString (src_Label (svm_Source sm))) (jsonPath @ [''source'', ''label'']) jsonObj;
             jsonObj = gb_Set gb (LString (src_Type (svm_Source sm))) (jsonPath @ [''source'', ''type'']) jsonObj
         in gb_Set gb (LUuid (src_Uuid (svm_Source sm))) (jsonPath @ [''source'', ''uuid'']) jsonObj))"

definition data_model :: "'o gabs \<Rightarrow> string \<Rightarrow> string \<Rightarrow> mapped list \<Rightarrow> 'o" where
  "data_model gb version selfContext deltas =
     (let jsonObj = gb_New gb;
          jsonObj = gb_Set gb (LString version) [''version''] jsonObj;
          jsonObj = gb_Set gb (LString selfContext) [''self''] jsonObj
      in foldl (\<lambda>jsonObj m. foldl (set_single gb) jsonObj (ToSingleValueMapped m)) jsonObj deltas)"

text \<open>\<open>strings.Replace(s, old, "", 1)\<close>.\<close>

fun remove_first :: "string \<Rightarrow> string \<Rightarrow> string" where
  "remove_first old [] = []"
| "remove_first old (c # cs) =
     (if prefix old (c # cs) then drop (length old) (c # cs) else c # remove_first old cs)"

section \<open>The writer\<close>

text \<open>\<open>sk_wg\<close> is the counter of the wait group: one until the database has been read.\<close>

record signalk_writer =
  sk_Version :: string
  sk_SelfContext :: string
  sk_cache :: big_cache
  sk_wg :: nat

definition NewSignalKWriter :: "string \<Rightarrow> string \<Rightarrow> signalk_writer" where
  "NewSignalKWriter version selfContext =
     \<lparr>sk_Version = version, sk_SelfContext = selfContext, sk_cache = NewBigCache, sk_wg = 0\<rparr>"

text \<open>\<open>WriteMapped\<close> starts the goroutines and serves; before, it adds one to the wait group.\<close>

definition start_writing :: "signalk_writer \<Rightarrow> signalk_writer" where
  "start_writing w = w\<lparr>sk_wg := sk_wg w + 1\<rparr>"

definition readFromDatabase ::
    "text_codecs \<Rightarrow> mapstructure \<Rightarrow> (query_error + mapped list) \<Rightarrow> signalk_writer \<Rightarrow> signalk_writer" where
  "readFromDatabase tc ms answer w =
     (case answer of
        Inl err \<Rightarrow> w
      | Inr deltas \<Rightarrow> w\<lparr>sk_cache := fst (WriteMapped tc ms deltas (sk_cache w)), sk_wg := sk_wg w - 1\<rparr>)"

definition updateFullDataModel :: "text_codecs \<Rightarrow> mapstructure \<Rightarrow> mapped \<Rightarrow> signalk_writer \<Rightarrow> signalk_writer" where
  "updateFullDataModel tc ms m w = w\<lparr>sk_cache := fst (WriteMapped tc ms [m] (sk_cache w))\<rparr>"

text \<open>
  A request waits for the wait group (\<open>Blocked\<close>: it is still waiting). \<open>printed\<close> is what
  \<open>fmt.Fprintf\<close> writes when its format is the given text.
\<close>

datatype response = Blocked | NotFoundResponse | JsonResponse string

definition serveFullDataModel ::
    "text_codecs \<Rightarrow> mapstructure \<Rightarrow> 'o gabs \<Rightarrow> (string \<Rightarrow> string) \<Rightarrow> string \<Rightarrow> signalk_writer \<Rightarrow> response" where
  "serveFullDataModel tc ms gb printed url w =
     (if sk_wg w > 0 then Blocked
      else case Cache_ReadMapped tc ms (sk_cache w) of
             Inl err \<Rightarrow> NotFoundResponse
           | Inr deltas \<Rightarrow>
               (let jsonObj = data_model gb (sk_Version w) (sk_SelfContext w) deltas;
                    searchPath = remove_first SignalKHTTPPath url
                in if searchPath = [] then JsonResponse (printed (gb_String gb jsonObj))
                   else case gb_JSONPointer gb (''/'' @ searchPath) jsonObj of
                          None \<Rightarrow> NotFoundResponse
                        | Some jsonObj \<Rightarrow> JsonResponse (printed (gb_String gb jsonObj))))"

text \<open>The events of the writer, one after another; the database is read once. \<open>CacheRace\<close> interleaves them.\<close>

datatype signalk_event = DatabaseRead "query_error + mapped list" | DeltaReceived mapped | DataRequested string

fun signalk_step ::
    "text_codecs \<Rightarrow> mapstructure \<Rightarrow> 'o gabs \<Rightarrow> (string \<Rightarrow> string) \<Rightarrow> signalk_writer \<Rightarrow> signalk_event \<Rightarrow>
     signalk_writer \<times> response option" where
  "signalk_step tc ms gb printed w (DatabaseRead answer) = (readFromDatabase tc ms answer w, None)"
| "signalk_step tc ms gb printed w (DeltaReceived m) = (updateFullDataModel tc ms m w, None)"
| "signalk_step tc ms gb printed w (DataRequested url) = (w, Some (serveFullDataModel tc ms gb printed url w))"

section \<open>WebSocket clients\<close>

text \<open>
  Every connection has an unbuffered channel (a number); \<open>wc_serving\<close> are the channels whose
  connection still takes deltas, with its remote address. A connection takes a delta and writes it to
  the client; when that fails it stops taking deltas (\<open>wc_closing\<close>) and then removes its client.
  \<open>updateWebsocket\<close> runs in a goroutine per delta: it copies the clients, in any order, and sends to
  one after another; \<open>wc_updates\<close> are the goroutines with the channels they have still to send to.
\<close>

record ws_clients =
  wc_clients :: "(string, nat) gomap"
  wc_next :: nat
  wc_serving :: "(nat \<times> string) list"
  wc_closing :: "string list"
  wc_updates :: "(mapped \<times> nat list) list"
  wc_delivered :: "(nat \<times> mapped) list"

definition ws_start :: ws_clients where
  "ws_start = \<lparr>wc_clients = [], wc_next = 0, wc_serving = [], wc_closing = [], wc_updates = [],
     wc_delivered = []\<rparr>"

definition addClient :: "string \<Rightarrow> ws_clients \<Rightarrow> ws_clients" where
  "addClient host s =
     s\<lparr>wc_clients := AList.update host (wc_next s) (wc_clients s), wc_next := wc_next s + 1,
       wc_serving := wc_serving s @ [(wc_next s, host)]\<rparr>"

definition removeClient :: "string \<Rightarrow> ws_clients \<Rightarrow> ws_clients" where
  "removeClient host s = s\<lparr>wc_clients := AList.delete host (wc_clients s)\<rparr>"

definition getClients :: "ws_clients \<Rightarrow> nat list" where
  "getClients s = map snd (wc_clients s)"

inductive signalk_ws_step :: "ws_clients \<Rightarrow> ws_clients \<Rightarrow> bool" where
  connects: "signalk_ws_step s (addClient host s)"
| leaves: "wc_closing s = hs @ host # hs' \<Longrightarrow>
     signalk_ws_step s (removeClient host (s\<lparr>wc_closing := hs @ hs'\<rparr>))"
| updates: "mset cs = mset (getClients s) \<Longrightarrow>
     signalk_ws_step s (s\<lparr>wc_updates := wc_updates s @ [(m, cs)]\<rparr>)"
| delivers: "wc_updates s = us @ (m, c # cs) # us' \<Longrightarrow> (c, host) \<in> set (wc_serving s) \<Longrightarrow>
     signalk_ws_step s (s\<lparr>wc_updates := us @ (m, cs) # us', wc_delivered := wc_delivered s @ [(c, m)]\<rparr>)"
| loses: "wc_updates s = us @ (m, c # cs) # us' \<Longrightarrow> (c, host) \<in> set (wc_serving s) \<Longrightarrow>
     signalk_ws_step s (s\<lparr>wc_updates := us @ (m, cs) # us', wc_serving := removeAll (c, host) (wc_serving s),
                          wc_closing := wc_closing s @ [host]\<rparr>)"
| finishes: "wc_updates s = us @ (m, []) # us' \<Longrightarrow> signalk_ws_step s (s\<lparr>wc_updates := us @ us'\<rparr>)"

section \<open>Lemmas: the full data model\<close>

definition loads :: "signalk_event \<Rightarrow> bool" where
  "loads e = (case e of DatabaseRead (Inr deltas) \<Rightarrow> True | _ \<Rightarrow> False)"

lemma signalk_wg:
  "sk_wg (machine_state (signalk_step tc ms gb printed) w es) = sk_wg w - length (filter loads es)"
proof (induction es arbitrary: w)
  case (Cons e es)
  have "sk_wg (fst (signalk_step tc ms gb printed w e)) = sk_wg w - (if loads e then 1 else 0)"
    by (cases e) (auto simp: loads_def readFromDatabase_def updateFullDataModel_def split: sum.split)
  then show ?case by (simp add: Cons.IH)
qed simp

lemma split_first_dot_join:
  "CHR ''.'' \<in> set s \<Longrightarrow>
     \<exists>a b. split_first_dot s = [a, b] \<and> s = a @ ''.'' @ b \<and> CHR ''.'' \<notin> set a"
proof -
  assume dot: "CHR ''.'' \<in> set s"
  let ?a = "takeWhile (\<lambda>c. c \<noteq> CHR ''.'') s" and ?d = "dropWhile (\<lambda>c. c \<noteq> CHR ''.'') s"
  have ne: "?d \<noteq> []" using dot by auto
  then have "hd ?d = CHR ''.''" using hd_dropWhile [of "\<lambda>c. c \<noteq> CHR ''.''" s] by simp
  with ne obtain b where b: "?d = CHR ''.'' # b" by (cases ?d) auto
  have "s = ?a @ ?d" by simp
  then have "s = ?a @ ''.'' @ b" unfolding b by simp
  moreover have "CHR ''.'' \<notin> set ?a" by (auto dest: set_takeWhileD)
  ultimately show ?thesis using dot b by (simp add: split_first_dot_def)
qed

lemma join_split: "join sep (split s sep) = s"
  by (simp add: split_def join_split_sep join_singletons)

text \<open>One entry that cannot be read makes the whole cache unreadable.\<close>

lemma read_all_fails: "j \<in> set js \<Longrightarrow> f j = Inl err \<Longrightarrow> \<exists>e. read_all f js = Inl e"
proof (induction js)
  case (Cons k js)
  then show ?case by (cases "f k") auto
qed simp

definition unreadable :: "text_codecs \<Rightarrow> mapstructure \<Rightarrow> string \<Rightarrow> big_cache \<Rightarrow> bool" where
  "unreadable tc ms k c \<longleftrightarrow>
     (case map_of (bc_mappedCache c) k of None \<Rightarrow> False | Some j \<Rightarrow> \<not> is_ok (unmarshal_svm tc ms j))"

lemma unreadable_fails: "unreadable tc ms k c \<Longrightarrow> \<exists>e. Cache_ReadMapped tc ms c = Inl e"
  using read_all_fails [of _ "map snd (bc_mappedCache c)" "unmarshal_svm tc ms"]
  by (force simp: unreadable_def Cache_ReadMapped_def is_ok_def dest: map_of_SomeD split: option.splits sum.splits)

lemma write_values_other_key:
  "k \<notin> cache_key ` set svms \<Longrightarrow> map_of (fst (write_values tc ms svms cache changes)) k = map_of cache k"
proof (induction svms arbitrary: cache changes)
  case (Cons m svms)
  have same: "cache_key m' = cache_key m" if "changed_value tc ms c m = Some m'" for c m'
    using that by (auto simp: changed_value_def cache_key_def split: option.splits sum.splits if_splits)
  show ?case
  proof (cases "changed_value tc ms (map_of cache (cache_key m)) m")
    case None
    with Cons show ?thesis by simp
  next
    case (Some m')
    with Cons same [OF Some] show ?thesis
      by (auto simp: Let_def update_conv' split: sum.split)
  qed
qed simp

lemma unreadable_kept:
  assumes "unreadable tc ms k c" "k \<notin> cache_key ` set (ToSingleValueMapped m)"
  shows "unreadable tc ms k (fst (WriteMapped tc ms [m] c))"
  using assms write_values_other_key [of k "ToSingleValueMapped m" tc ms "bc_mappedCache c" "[]"]
  by (auto simp: unreadable_def WriteMapped_def split: prod.splits)

lemma unreadable_updates:
  "unreadable tc ms k (sk_cache w) \<Longrightarrow> list_all (\<lambda>m. k \<notin> cache_key ` set (ToSingleValueMapped m)) later \<Longrightarrow>
     unreadable tc ms k (sk_cache (fold (updateFullDataModel tc ms) later w))"
  by (induction later arbitrary: w) (simp_all add: updateFullDataModel_def unreadable_kept)

section \<open>Lemmas: WebSocket clients\<close>

definition ws_inv :: "ws_clients \<Rightarrow> bool" where
  "ws_inv s \<longleftrightarrow>
     (\<forall>c\<in>set (getClients s) \<union> fst ` set (wc_serving s) \<union> fst ` set (wc_delivered s). c < wc_next s) \<and>
     (\<forall>(m, cs)\<in>set (wc_updates s). \<forall>c\<in>set cs. c < wc_next s)"

lemma values_alist_update: "snd ` set (AList.update k v xs) \<subseteq> insert v (snd ` set xs)"
  by (induction xs) auto

lemma ws_inv_step: "signalk_ws_step s s' \<Longrightarrow> ws_inv s \<Longrightarrow> ws_inv s'"
proof (induction rule: signalk_ws_step.induct)
  case (connects s host)
  have old: "\<forall>c\<in>snd ` set (wc_clients s). c < wc_next s" using connects by (simp add: ws_inv_def getClients_def)
  have "\<forall>c\<in>snd ` set (AList.update host (wc_next s) (wc_clients s)). c < wc_next s + 1"
  proof
    fix c assume "c \<in> snd ` set (AList.update host (wc_next s) (wc_clients s))"
    then have "c \<in> insert (wc_next s) (snd ` set (wc_clients s))"
      by (rule subsetD [OF values_alist_update])
    then consider "c = wc_next s" | "c \<in> snd ` set (wc_clients s)" by (elim insertE) simp_all
    then show "c < wc_next s + 1"
    proof cases
      case 2
      then have "c < wc_next s" by (rule bspec [OF old])
      then show ?thesis by simp
    qed simp
  qed
  then show ?case
    using connects unfolding ws_inv_def addClient_def getClients_def
    by (simp add: ball_Un) (fastforce simp: less_SucI)
next
  case (leaves s hs host hs')
  then show ?case by (auto simp: ws_inv_def removeClient_def getClients_def AList.delete_eq)
next
  case (updates cs s m)
  then have "set cs = set (getClients s)" by (metis set_mset_mset)
  with updates show ?case by (auto simp: ws_inv_def getClients_def)
next
  case (delivers s us m c cs us' host)
  then show ?case by (auto simp: ws_inv_def getClients_def)
next
  case (loses s us m c cs us' host)
  then show ?case by (auto simp: ws_inv_def getClients_def)
next
  case (finishes s us m us')
  then show ?case by (auto simp: ws_inv_def getClients_def)
qed

lemma ws_inv_reachable: "signalk_ws_step\<^sup>*\<^sup>* ws_start s \<Longrightarrow> ws_inv s"
  by (induction rule: rtranclp_induct) (auto simp: ws_inv_step, simp add: ws_inv_def ws_start_def getClients_def)

text \<open>A channel that nobody serves is never served again, and an update waiting for it stays.\<close>

lemma stuck_step:
  assumes "signalk_ws_step s s'" "ws_inv s" "(m, c # cs) \<in> set (wc_updates s)" "c \<notin> fst ` set (wc_serving s)"
  shows "(m, c # cs) \<in> set (wc_updates s') \<and> c \<notin> fst ` set (wc_serving s')"
  using assms
proof (induction rule: signalk_ws_step.induct)
  case (connects s host)
  then have "c \<noteq> wc_next s" by (auto simp: ws_inv_def)
  with connects show ?case by (auto simp: addClient_def)
next
  case (leaves s hs host hs')
  then show ?case by (auto simp: removeClient_def)
next
  case (delivers s us m' c' cs' us' host)
  then have "(m, c # cs) \<noteq> (m', c' # cs')" by force
  with delivers show ?case by auto
next
  case (loses s us m' c' cs' us' host)
  then have "(m, c # cs) \<noteq> (m', c' # cs')" by force
  with loses show ?case by auto
qed auto

lemma stuck_reachable:
  assumes "signalk_ws_step\<^sup>*\<^sup>* s s'" "ws_inv s" "(m, c # cs) \<in> set (wc_updates s)" "c \<notin> fst ` set (wc_serving s)"
  shows "(m, c # cs) \<in> set (wc_updates s') \<and> c \<notin> fst ` set (wc_serving s') \<and> ws_inv s'"
  using assms(1)
proof (induction rule: rtranclp_induct)
  case (step s1 s2)
  then show ?case using stuck_step ws_inv_step by blast
qed (use assms in auto)

section \<open>Properties\<close>

text \<open>When the data model is served. A request for the data model waits exactly as long as the
  database has not been read successfully; if the one attempt to read it fails, every later request
  waits for ever, whatever deltas are received.\<close>

theorem data_model_waits:
  "serveFullDataModel tc ms gb printed url
     (machine_state (signalk_step tc ms gb printed) (start_writing (NewSignalKWriter version selfContext)) es) = Blocked \<longleftrightarrow>
   filter loads es = []"
  using signalk_wg [of tc ms gb printed "start_writing (NewSignalKWriter version selfContext)" es]
  by (cases "filter loads es")
     (auto simp: serveFullDataModel_def start_writing_def NewSignalKWriter_def Let_def split: sum.split option.split)

text \<open>No value hides another one in the data model. Values of different paths or different contexts
  have different locations, for contexts with a dot in them.\<close>

theorem location_injective:
  assumes "CHR ''.'' \<in> set (svm_Context a)" "CHR ''.'' \<in> set (svm_Context b)"
  shows "location a = location b \<longleftrightarrow> svm_Context a = svm_Context b \<and> svm_Path a = svm_Path b"
proof
  assume eq: "location a = location b"
  obtain a1 a2 b1 b2 where ab:
    "split_first_dot (svm_Context a) = [a1, a2]" "svm_Context a = a1 @ ''.'' @ a2"
    "split_first_dot (svm_Context b) = [b1, b2]" "svm_Context b = b1 @ ''.'' @ b2"
    using split_first_dot_join [OF assms(1)] split_first_dot_join [OF assms(2)] by blast
  with eq have "a1 = b1" "a2 = b2" "split (svm_Path a) ''.'' = split (svm_Path b) ''.''"
    by (simp_all add: location_def)
  with ab show "svm_Context a = svm_Context b \<and> svm_Path a = svm_Path b" using join_split by metis
qed (simp add: location_def)

theorem location_injective_witness:
  "location (NewSingleValueMapped\<lparr>svm_Context := ''vessels.a.b'', svm_Path := ''c''\<rparr>) \<noteq>
   location (NewSingleValueMapped\<lparr>svm_Context := ''vessels.a'', svm_Path := ''b.c''\<rparr>)"
  using location_injective [of "NewSingleValueMapped\<lparr>svm_Context := ''vessels.a.b'', svm_Path := ''c''\<rparr>"
      "NewSingleValueMapped\<lparr>svm_Context := ''vessels.a'', svm_Path := ''b.c''\<rparr>"]
  by simp

text \<open>One boolean takes the data model away. After a delta with a boolean value of a new key has been
  stored, and whatever is received later for other keys, every request for the data model that does
  not wait is answered with not found: the cached boolean cannot be read back and ends the reading.\<close>

theorem boolean_hides_data_model:
  assumes "faithful_codecs tc" "rfc3339_time (svm_Timestamp s)" "svm_Value s = GBool b"
    and "\<And>v. (\<forall>m. v \<noteq> GMap m) \<Longrightarrow> ms_Position ms v = None \<and> ms_VesselInfo ms v = None \<and>
           ms_Length ms v = None \<and> ms_Alarm ms v = None \<and> ms_Draft ms v = None"
    and "ToSingleValueMapped m = [s]" "map_of (bc_mappedCache (sk_cache w)) (cache_key s) = None"
    and "list_all (\<lambda>m. cache_key s \<notin> cache_key ` set (ToSingleValueMapped m)) later"
  shows "serveFullDataModel tc ms gb printed url
      (fold (updateFullDataModel tc ms) later (updateFullDataModel tc ms m w)) \<in> {Blocked, NotFoundResponse}"
proof -
  obtain j where j: "Svm_Marshal tc s = Inr j" using assms(3) by (simp add: Svm_Marshal_def marshal_value_def)
  have "Decode ms (GBool b) = (GBool b, Some (CannotDecode (GBool b)))"
    using assms(4) [of "GBool b"] by (simp add: decode_struct_def fully_decoded_def)
  then have "Svm_UnmarshalJSON tc ms j = Inl DontKnowHow"
    using Svm_Unmarshal_Marshal [OF assms(1,2) j] assms(3) j by (simp add: marshal_value_def)
  then have "unreadable tc ms (cache_key s) (sk_cache (updateFullDataModel tc ms m w))"
    using assms(5,6) j
    by (simp add: updateFullDataModel_def WriteMapped_def unreadable_def changed_value_def unmarshal_svm_def update_conv')
  from unreadable_fails [OF unreadable_updates [OF this assms(7)]] show ?thesis
    by (auto simp: serveFullDataModel_def)
qed

definition sample_gabs :: "(leaf \<times> string list) list gabs" where
  "sample_gabs =
     \<lparr>gb_New = [], gb_Set = (\<lambda>v p jsonObj. jsonObj @ [(v, p)]), gb_JSONPointer = (\<lambda>p jsonObj. None), gb_String = (\<lambda>_. [])\<rparr>"

theorem boolean_hides_data_model_witness:
  "serveFullDataModel tally_codecs no_structs sample_gabs id SignalKHTTPPath
     (updateFullDataModel tally_codecs no_structs (ToMapped 0 (sample_svm (GBool True))) (NewSignalKWriter ''1'' ''x'')) =
   NotFoundResponse"
proof -
  have "sk_wg (updateFullDataModel tally_codecs no_structs (ToMapped 0 (sample_svm (GBool True))) (NewSignalKWriter ''1'' ''x'')) = 0"
    by (simp add: updateFullDataModel_def NewSignalKWriter_def)
  then have "serveFullDataModel tally_codecs no_structs sample_gabs id SignalKHTTPPath
     (updateFullDataModel tally_codecs no_structs (ToMapped 0 (sample_svm (GBool True))) (NewSignalKWriter ''1'' ''x'')) \<noteq> Blocked"
    by (simp add: serveFullDataModel_def Let_def split: sum.split option.split)
  moreover have "map_of (bc_mappedCache (sk_cache (NewSignalKWriter ''1'' ''x''))) k = None" for k
    by (simp add: NewSignalKWriter_def NewBigCache_def)
  moreover have "rfc3339_time (svm_Timestamp (sample_svm (GBool True)))" "svm_Value (sample_svm (GBool True)) = GBool True"
    by (simp_all add: sample_svm_def rfc3339_time_def)
  ultimately show ?thesis
    using boolean_hides_data_model [OF tally_faithful, of "sample_svm (GBool True)" True no_structs
        "ToMapped 0 (sample_svm (GBool True))" "NewSignalKWriter ''1'' ''x''" "[]" sample_gabs id SignalKHTTPPath]
    by (simp add: no_structs_def)
qed

text \<open>A client that leaves too early blocks an update for good. If the goroutine of a delta is about to
  send to a client whose connection has ended, then in every continuation it is still there, with all the
  clients it has still to serve.\<close>

theorem update_stuck_forever:
  assumes "signalk_ws_step\<^sup>*\<^sup>* ws_start s" "(m, c # cs) \<in> set (wc_updates s)" "c \<notin> fst ` set (wc_serving s)"
    and "signalk_ws_step\<^sup>*\<^sup>* s s'"
  shows "(m, c # cs) \<in> set (wc_updates s')"
  using stuck_reachable [OF assms(4) ws_inv_reachable [OF assms(1)] assms(2,3)] by blast

theorem update_stuck_forever_witness:
  "\<exists>s. signalk_ws_step\<^sup>*\<^sup>* ws_start s \<and> 1 \<in> fst ` set (wc_serving s) \<and>
     (\<forall>s'. signalk_ws_step\<^sup>*\<^sup>* s s' \<longrightarrow> (NewMapped, [0, 1]) \<in> set (wc_updates s'))"
proof -
  let ?s2 = "addClient ''b'' (addClient ''a'' ws_start)"
  let ?s3 = "?s2\<lparr>wc_updates := wc_updates ?s2 @ [(NewMapped, [0, 1])]\<rparr>"
  let ?s4 = "?s3\<lparr>wc_updates := wc_updates ?s3 @ [(NewMapped, [0, 1])]\<rparr>"
  let ?s5 = "?s4\<lparr>wc_updates := [] @ (NewMapped, [1]) # [(NewMapped, [0, 1])],
                 wc_serving := removeAll (0, ''a'') (wc_serving ?s4), wc_closing := wc_closing ?s4 @ [''a'']\<rparr>"
  let ?s = "removeClient ''a'' (?s5\<lparr>wc_closing := [] @ []\<rparr>)"
  have "signalk_ws_step\<^sup>*\<^sup>* ws_start (addClient ''a'' ws_start)" by (rule r_into_rtranclp) (rule connects)
  also have "signalk_ws_step (addClient ''a'' ws_start) ?s2" by (rule connects)
  also have "signalk_ws_step ?s2 ?s3" by (rule updates) (simp add: getClients_def addClient_def ws_start_def)
  also have "signalk_ws_step ?s3 ?s4" by (rule updates) (simp add: getClients_def addClient_def ws_start_def)
  also have "signalk_ws_step ?s4 ?s5"
    by (rule loses [where us = "[]" and c = 0]) (simp_all add: addClient_def ws_start_def)
  also have "signalk_ws_step ?s5 ?s" by (rule leaves) (simp add: addClient_def ws_start_def)
  finally have r: "signalk_ws_step\<^sup>*\<^sup>* ws_start ?s" .
  have "(NewMapped, [0, 1]) \<in> set (wc_updates ?s)" "0 \<notin> fst ` set (wc_serving ?s)" "1 \<in> fst ` set (wc_serving ?s)"
    by (simp_all add: removeClient_def addClient_def ws_start_def)
  with update_stuck_forever [OF r] r show ?thesis by (intro exI [of _ ?s]) blast
qed

end
