(* ===== verification/Sockets.thy ===== *)
theory Sockets
  imports Config Wire
begin

text \<open>
  \<open>nanomsg/proxy.go\<close> with \<open>cmd/proxy.go\<close>, \<open>writer/stdout.go\<close> and \<open>mqtt/main.go\<close>: the forwarding of messages
  between sockets, the printing of messages, and the options and subscriptions of the MQTT client.
\<close>

section \<open>The proxy\<close>

text \<open>
  Every subscription has a goroutine, which looks at its stop channel, receives a message or an error,
  and sends the message. \<open>px_received\<close> and \<open>px_published\<close> are what was received and published, each with the
  subscription it came through. \<open>px_wg\<close> is the counter of the wait group that \<open>doProxy\<close> waits for
  before it closes the proxy.
\<close>

datatype forwarder_state = Selecting | Receiving | Sending "byte list" | Stopped

record forwarder =
  fw_state :: forwarder_state
  fw_stop :: bool

record proxy =
  px_open :: bool
  px_stopChannels :: "nat list"
  px_forwarders :: "forwarder list"
  px_wg :: nat
  px_received :: "(nat \<times> byte list) list"
  px_published :: "(nat \<times> byte list) list"

definition NewProxy :: proxy where
  "NewProxy = \<lparr>px_open = True, px_stopChannels = [], px_forwarders = [], px_wg = 0, px_received = [], px_published = []\<rparr>"

definition SubscribeTo :: "proxy \<Rightarrow> proxy" where
  "SubscribeTo p =
     p\<lparr>px_stopChannels := px_stopChannels p @ [length (px_forwarders p)],
       px_forwarders := px_forwarders p @ [\<lparr>fw_state = Selecting, fw_stop = False\<rparr>]\<rparr>"

definition Proxy_Close :: "proxy \<Rightarrow> proxy" where
  "Proxy_Close p =
     p\<lparr>px_forwarders := foldl (\<lambda>fs i. fs[i := (fs ! i)\<lparr>fw_stop := True\<rparr>]) (px_forwarders p) (px_stopChannels p),
       px_stopChannels := [], px_open := False\<rparr>"

text \<open>\<open>doProxy\<close>: as many subscriptions as addresses, then waiting for all of them.\<close>

definition doProxy :: "string list \<Rightarrow> proxy" where
  "doProxy urls = foldl (\<lambda>p url. SubscribeTo p) (NewProxy\<lparr>px_wg := length urls\<rparr>) urls"

definition set_forwarder :: "nat \<Rightarrow> forwarder_state \<Rightarrow> proxy \<Rightarrow> proxy" where
  "set_forwarder i st p = p\<lparr>px_forwarders := (px_forwarders p)[i := (px_forwarders p ! i)\<lparr>fw_state := st\<rparr>]\<rparr>"

definition forwarder_at :: "proxy \<Rightarrow> nat \<Rightarrow> forwarder_state \<Rightarrow> bool" where
  "forwarder_at p i st \<longleftrightarrow> i < length (px_forwarders p) \<and> fw_state (px_forwarders p ! i) = st"

inductive proxy_step :: "proxy \<Rightarrow> proxy \<Rightarrow> bool" where
  proceeds: "forwarder_at p i Selecting \<Longrightarrow> \<not> fw_stop (px_forwarders p ! i) \<Longrightarrow> proxy_step p (set_forwarder i Receiving p)"
| stops: "forwarder_at p i Selecting \<Longrightarrow> fw_stop (px_forwarders p ! i) \<Longrightarrow>
     proxy_step p (set_forwarder i Stopped p\<lparr>px_wg := px_wg p - 1\<rparr>)"
| receives: "forwarder_at p i Receiving \<Longrightarrow>
     proxy_step p (set_forwarder i (Sending m) p\<lparr>px_received := px_received p @ [(i, m)]\<rparr>)"
| recv_fails: "forwarder_at p i Receiving \<Longrightarrow> proxy_step p (set_forwarder i Selecting p)"
| sends: "forwarder_at p i (Sending m) \<Longrightarrow> px_open p \<Longrightarrow>
     proxy_step p (set_forwarder i Selecting p\<lparr>px_published := px_published p @ [(i, m)]\<rparr>)"
| send_fails: "forwarder_at p i (Sending m) \<Longrightarrow> proxy_step p (set_forwarder i Selecting p)"
| closes: "px_wg p = 0 \<Longrightarrow> proxy_step p (Proxy_Close p)"

section \<open>Printing\<close>

text \<open>
  The loops of \<open>writer/stdout.go\<close>: what is printed, and whether the loop has returned. A fresh message is
  unmarshalled every time.
\<close>

fun print_mapped :: "(byte list \<Rightarrow> string + mapped) \<Rightarrow> received list \<Rightarrow> mapped list \<times> bool" where
  "print_mapped unmarshal [] = ([], False)"
| "print_mapped unmarshal (RecvError err # inputs) = print_mapped unmarshal inputs"
| "print_mapped unmarshal (Received data # inputs) =
     (case unmarshal data of
        Inl err \<Rightarrow> ([], True)
      | Inr m \<Rightarrow> (case print_mapped unmarshal inputs of (ms, returned) \<Rightarrow> (m # ms, returned)))"

fun print_raw :: "(byte list \<Rightarrow> string + raw) \<Rightarrow> received list \<Rightarrow> raw list \<times> bool" where
  "print_raw unmarshal [] = ([], False)"
| "print_raw unmarshal (RecvError err # inputs) = print_raw unmarshal inputs"
| "print_raw unmarshal (Received data # inputs) =
     (case unmarshal data of
        Inl err \<Rightarrow> print_raw unmarshal inputs
      | Inr m \<Rightarrow> (case print_raw unmarshal inputs of (ms, returned) \<Rightarrow> (m # ms, returned)))"

section \<open>The MQTT client\<close>

text \<open>The options that the client sets, over the defaults of the library.\<close>

record client_options =
  co_Broker :: string
  co_Username :: string
  co_Password :: string
  co_OrderMatters :: bool
  co_KeepAlive :: duration
  co_AutoReconnect :: bool

definition keepAlive :: duration where
  "keepAlive = 30 * 1000000000"

definition createClientOptions :: "mqtt_config \<Rightarrow> client_options \<Rightarrow> client_options" where
  "createClientOptions c defaults =
     defaults\<lparr>co_Broker := mq_URLString c, co_Username := mq_Username c, co_Password := mq_Password c,
              co_OrderMatters := False, co_KeepAlive := keepAlive, co_AutoReconnect := True\<rparr>"

datatype connected = NotSubscribing | SubscribedTo string | FatalError

definition onConnectHandler :: "(string \<Rightarrow> bool) \<Rightarrow> string \<Rightarrow> connected" where
  "onConnectHandler subscribe topic =
     (if topic = [] then NotSubscribing else if subscribe topic then SubscribedTo topic else FatalError)"

section \<open>Lemmas: the proxy\<close>

definition through :: "nat \<Rightarrow> (nat \<times> byte list) list \<Rightarrow> byte list list" where
  "through i xs = map snd (filter (\<lambda>(j, m). j = i) xs)"

definition pending :: "forwarder_state \<Rightarrow> byte list list" where
  "pending st = (case st of Sending m \<Rightarrow> [m] | _ \<Rightarrow> [])"

definition proxy_inv :: "nat \<Rightarrow> proxy \<Rightarrow> bool" where
  "proxy_inv n p \<longleftrightarrow> length (px_forwarders p) = n \<and> px_wg p = n \<and>
     (\<forall>i<n. subseq (through i (px_published p) @ pending (fw_state (px_forwarders p ! i))) (through i (px_received p)) \<and>
        (fw_state (px_forwarders p ! i) \<noteq> Stopped \<and> \<not> fw_stop (px_forwarders p ! i) \<and> px_open p)) \<and>
     (\<forall>(j, m)\<in>set (px_published p). j < n)"

lemma through_simps [simp]:
  "through i [] = []" "through i (xs @ ys) = through i xs @ through i ys"
  "through i [(j, m)] = (if j = i then [m] else [])"
  by (simp_all add: through_def)

lemma pending_simps [simp]:
  "pending Selecting = []" "pending Receiving = []" "pending Stopped = []" "pending (Sending m) = [m]"
  by (simp_all add: pending_def)

lemma set_forwarder_simps [simp]:
  "length (px_forwarders (set_forwarder i st p)) = length (px_forwarders p)"
  "i < length (px_forwarders p) \<Longrightarrow> px_forwarders (set_forwarder i st p) ! j =
     (if j = i then (px_forwarders p ! i)\<lparr>fw_state := st\<rparr> else px_forwarders p ! j)"
  "px_open (set_forwarder i st p) = px_open p" "px_wg (set_forwarder i st p) = px_wg p"
  "px_received (set_forwarder i st p) = px_received p" "px_published (set_forwarder i st p) = px_published p"
  by (simp_all add: set_forwarder_def nth_list_update)

lemma subseq_append_left: "subseq (xs @ ys) zs \<Longrightarrow> subseq xs zs"
  by (rule subseq_order.trans [OF prefix_imp_subseq]) auto

lemma subseq_snoc: "subseq xs ys \<Longrightarrow> subseq (xs @ zs) (ys @ zs)"
  by (simp add: list_emb_append_mono)

lemma length_close: "length (foldl (\<lambda>fs i. fs[i := f (fs ! i)]) fs is) = length fs"
  by (induction "is" arbitrary: fs) simp_all

lemma proxy_inv_step: "proxy_step p p' \<Longrightarrow> proxy_inv n p \<Longrightarrow> proxy_inv n p'"
proof (induction rule: proxy_step.induct)
  case (proceeds p i)
  then show ?case by (auto simp: proxy_inv_def forwarder_at_def)
next
  case (stops p i)
  then show ?case by (auto simp: proxy_inv_def forwarder_at_def)
next
  case (receives p i m)
  then show ?case by (auto simp: proxy_inv_def forwarder_at_def dest: subseq_append_left intro: subseq_snoc)
next
  case (recv_fails p i)
  then show ?case by (auto simp: proxy_inv_def forwarder_at_def)
next
  case (sends p i m)
  then show ?case by (force simp: proxy_inv_def forwarder_at_def)
next
  case (send_fails p i m)
  then show ?case by (force simp: proxy_inv_def forwarder_at_def dest: subseq_append_left)
next
  case (closes p)
  then show ?case by (auto simp: proxy_inv_def Proxy_Close_def length_close)
qed

lemma doProxy_forwarders:
  "px_forwarders (foldl (\<lambda>p url. SubscribeTo p) p urls) =
     px_forwarders p @ replicate (length urls) \<lparr>fw_state = Selecting, fw_stop = False\<rparr> \<and>
   px_open (foldl (\<lambda>p url. SubscribeTo p) p urls) = px_open p \<and>
   px_wg (foldl (\<lambda>p url. SubscribeTo p) p urls) = px_wg p \<and>
   px_received (foldl (\<lambda>p url. SubscribeTo p) p urls) = px_received p \<and>
   px_published (foldl (\<lambda>p url. SubscribeTo p) p urls) = px_published p"
  by (induction urls arbitrary: p) (simp_all add: SubscribeTo_def)

lemma proxy_inv_start: "proxy_inv (length urls) (doProxy urls)"
  using doProxy_forwarders [of "NewProxy\<lparr>px_wg := length urls\<rparr>" urls]
  by (simp add: proxy_inv_def doProxy_def NewProxy_def)

lemma proxy_inv_reachable: "proxy_step\<^sup>*\<^sup>* (doProxy urls) p \<Longrightarrow> proxy_inv (length urls) p"
  by (induction rule: rtranclp_induct) (simp_all add: proxy_inv_start proxy_inv_step)

section \<open>Properties\<close>

text \<open>The proxy neither reorders, repeats nor invents messages. In every interleaving the messages
  published for a subscription are, in order, among those received from it, every message published
  belongs to a subscription, and a proxy with a subscription never closes its publisher.\<close>

theorem proxy_relays:
  assumes "proxy_step\<^sup>*\<^sup>* (doProxy urls) p"
  shows "subseq (through i (px_published p)) (through i (px_received p)) \<and>
    fst ` set (px_published p) \<subseteq> {..<length urls} \<and> (urls \<noteq> [] \<longrightarrow> px_open p \<and> px_wg p = length urls)"
proof -
  have inv: "proxy_inv (length urls) p" by (rule proxy_inv_reachable [OF assms])
  have "through i (px_published p) = []" if "\<not> i < length urls"
    using inv that by (auto simp: proxy_inv_def through_def filter_empty_conv)
  then have "subseq (through i (px_published p)) (through i (px_received p))"
    using inv by (cases "i < length urls") (auto simp: proxy_inv_def dest: subseq_append_left)
  with inv show ?thesis by (auto simp: proxy_inv_def)
qed

theorem proxy_relays_witness:
  "\<exists>p. proxy_step\<^sup>*\<^sup>* (doProxy [''a'']) p \<and> px_published p = [(0, [7])] \<and> px_open p"
proof -
  let ?p0 = "doProxy [''a'']"
  let ?p1 = "set_forwarder 0 Receiving ?p0"
  let ?p2 = "set_forwarder 0 (Sending [7]) ?p1\<lparr>px_received := px_received ?p1 @ [(0, [7])]\<rparr>"
  let ?p3 = "set_forwarder 0 Selecting ?p2\<lparr>px_published := px_published ?p2 @ [(0, [7])]\<rparr>"
  note defs = forwarder_at_def doProxy_def SubscribeTo_def NewProxy_def
  have "proxy_step\<^sup>*\<^sup>* ?p0 ?p1" by (intro r_into_rtranclp proceeds) (simp_all add: defs)
  also have "proxy_step ?p1 ?p2" by (rule receives) (simp add: defs)
  also have "proxy_step ?p2 ?p3" by (rule sends) (simp_all add: defs)
  finally have r: "proxy_step\<^sup>*\<^sup>* ?p0 ?p3" .
  have "px_published ?p3 = [(0, [7])]" by (simp add: defs)
  with r proxy_relays [OF r] show ?thesis by (intro exI [of _ ?p3]) simp
qed

text \<open>What is printed. Raw messages that cannot be decoded are skipped; the first such delta ends the
  printing, so what is printed are the deltas before it.\<close>

definition data_of :: "received list \<Rightarrow> byte list list" where
  "data_of inputs = List.map_filter (\<lambda>x. case x of RecvError err \<Rightarrow> None | Received data \<Rightarrow> Some data) inputs"

theorem printing_stops:
  "fst (print_raw unmarshal_raw inputs) = map projr (filter is_ok (map unmarshal_raw (data_of inputs))) \<and>
   \<not> snd (print_raw unmarshal_raw inputs) \<and>
   fst (print_mapped unmarshal inputs) = map projr (takeWhile is_ok (map unmarshal (data_of inputs))) \<and>
   (snd (print_mapped unmarshal inputs) \<longleftrightarrow> \<not> list_all is_ok (map unmarshal (data_of inputs)))"
proof (intro conjI)
  have raw: "print_raw unmarshal_raw inputs = (map projr (filter is_ok (map unmarshal_raw (data_of inputs))), False)"
    by (induction unmarshal_raw inputs rule: print_raw.induct)
      (simp_all add: data_of_def List.map_filter_simps is_ok_def split: sum.split)
  show "fst (print_raw unmarshal_raw inputs) = map projr (filter is_ok (map unmarshal_raw (data_of inputs)))"
    "\<not> snd (print_raw unmarshal_raw inputs)" by (simp_all add: raw)
  have mapped: "print_mapped unmarshal inputs =
      (map projr (takeWhile is_ok (map unmarshal (data_of inputs))), \<not> list_all is_ok (map unmarshal (data_of inputs)))"
    by (induction unmarshal inputs rule: print_mapped.induct)
      (simp_all add: data_of_def List.map_filter_simps is_ok_def split: sum.split)
  show "fst (print_mapped unmarshal inputs) = map projr (takeWhile is_ok (map unmarshal (data_of inputs)))"
    "snd (print_mapped unmarshal inputs) \<longleftrightarrow> \<not> list_all is_ok (map unmarshal (data_of inputs))"
    by (simp_all add: mapped)
qed

end
