(* ===== verification/WriterPool.thy ===== *)
theory WriterPool
  imports Postgres
begin

text \<open>
  The goroutines of \<open>writer/postgresql.go\<close>: the receiver of \<open>WriteRaw\<close> and \<open>WriteMapped\<close>, the channel of
  \<open>BufferSize\<close> messages and the workers of \<open>StartRawWorkers\<close> and \<open>StartMappedWorkers\<close> that write them to the
  database. Both kinds of messages are handled alike; the message is a type parameter.
\<close>

section \<open>The goroutines\<close>

text \<open>
  \<open>wp_sending\<close> is the message the receiver is putting on the channel; a worker waits for a message, is writing
  one, or has written it and not yet counted it. \<open>wp_received\<close> are the messages unmarshalled, \<open>wp_written\<close> those
  written, in the order in which the writing ended. Nothing ever closes the channel.
\<close>

datatype 'm worker = Idle | Writing 'm | Counting

record 'm writer_pool =
  wp_counters :: pg_counters
  wp_messagesWritten :: nat
  wp_sending :: "'m option"
  wp_channel :: "'m list"
  wp_workers :: "'m worker list"
  wp_received :: "'m list"
  wp_written :: "'m list"

definition NewPostgresqlWriter :: "nat \<Rightarrow> 'm writer_pool" where
  "NewPostgresqlWriter numberOfWorkers =
     \<lparr>wp_counters = \<lparr>pw_messagesReceived = 0, pw_messagesUnmarshalled = 0\<rparr>, wp_messagesWritten = 0,
      wp_sending = None, wp_channel = [], wp_workers = replicate numberOfWorkers Idle, wp_received = [],
      wp_written = []\<rparr>"

text \<open>
  A message goes to the channel when there is room, or directly to an idle worker when the channel is
  empty.
\<close>

inductive pool_step :: "(byte list \<Rightarrow> string + 'm) \<Rightarrow> nat \<Rightarrow> 'm writer_pool \<Rightarrow> 'm writer_pool \<Rightarrow> bool"
  for unmarshal bufferSize where
  receives: "wp_sending w = None \<Longrightarrow> pg_receive_step unmarshal (wp_counters w) input = (counters, out) \<Longrightarrow>
     pool_step unmarshal bufferSize w
       (w\<lparr>wp_counters := counters, wp_sending := out,
          wp_received := wp_received w @ (case out of None \<Rightarrow> [] | Some m \<Rightarrow> [m])\<rparr>)"
| sends: "wp_sending w = Some m \<Longrightarrow> length (wp_channel w) < bufferSize \<Longrightarrow>
     pool_step unmarshal bufferSize w (w\<lparr>wp_sending := None, wp_channel := wp_channel w @ [m]\<rparr>)"
| hands: "wp_sending w = Some m \<Longrightarrow> wp_channel w = [] \<Longrightarrow> i < length (wp_workers w) \<Longrightarrow> wp_workers w ! i = Idle \<Longrightarrow>
     pool_step unmarshal bufferSize w (w\<lparr>wp_sending := None, wp_workers := (wp_workers w)[i := Writing m]\<rparr>)"
| takes: "wp_channel w = m # ms \<Longrightarrow> i < length (wp_workers w) \<Longrightarrow> wp_workers w ! i = Idle \<Longrightarrow>
     pool_step unmarshal bufferSize w (w\<lparr>wp_channel := ms, wp_workers := (wp_workers w)[i := Writing m]\<rparr>)"
| writes: "i < length (wp_workers w) \<Longrightarrow> wp_workers w ! i = Writing m \<Longrightarrow>
     pool_step unmarshal bufferSize w
       (w\<lparr>wp_workers := (wp_workers w)[i := Counting], wp_written := wp_written w @ [m]\<rparr>)"
| counts: "i < length (wp_workers w) \<Longrightarrow> wp_workers w ! i = Counting \<Longrightarrow>
     pool_step unmarshal bufferSize w
       (w\<lparr>wp_workers := (wp_workers w)[i := Idle], wp_messagesWritten := wp_messagesWritten w + 1\<rparr>)"

text \<open>The receiver of raw messages, as it is written; it is the step of \<open>WriteMapped\<close> but for the type.\<close>

definition raw_receive_step :: "(byte list \<Rightarrow> string + raw) \<Rightarrow> pg_counters \<Rightarrow> received \<Rightarrow> pg_counters \<times> raw option" where
  "raw_receive_step unmarshal w r =
     (case r of
        RecvError err \<Rightarrow> (w, None)
      | Received received \<Rightarrow>
          (let w = w\<lparr>pw_messagesReceived := pw_messagesReceived w + 1\<rparr>
           in case unmarshal received of
                Inl err \<Rightarrow> (w, None)
              | Inr m \<Rightarrow> (w\<lparr>pw_messagesUnmarshalled := pw_messagesUnmarshalled w + 1\<rparr>, Some m)))"

lemma raw_receive_step_eq: "raw_receive_step = pg_receive_step"
  by (intro ext) (simp add: raw_receive_step_def pg_receive_step_def)

section \<open>Lemmas\<close>

definition one :: "'m option \<Rightarrow> 'm list" where
  "one x = (case x of None \<Rightarrow> [] | Some m \<Rightarrow> [m])"

lemma one_simps [simp]: "one None = []" "one (Some m) = [m]"
  by (simp_all add: one_def)

fun hand :: "'m worker \<Rightarrow> 'm list" where
  "hand (Writing m) = [m]"
| "hand w = []"

definition in_hand :: "'m worker list \<Rightarrow> 'm list" where
  "in_hand ws = concat (map hand ws)"

definition uncounted :: "'m worker list \<Rightarrow> nat" where
  "uncounted ws = count_list ws Counting"

lemma in_hand_update:
  "i < length ws \<Longrightarrow> mset (in_hand (ws[i := w])) + mset (hand (ws ! i)) = mset (in_hand ws) + mset (hand w)"
  by (induction ws arbitrary: i) (auto simp: in_hand_def nth_Cons split: nat.splits)

lemma uncounted_update:
  "i < length ws \<Longrightarrow>
     uncounted (ws[i := w]) + (if ws ! i = Counting then 1 else 0) = uncounted ws + (if w = Counting then 1 else 0)"
proof (induction ws arbitrary: i)
  case (Cons x ws)
  then show ?case
  proof (cases i)
    case (Suc j)
    then show ?thesis using Cons.IH [of j] Cons.prems by (auto simp: uncounted_def split: if_splits)
  qed (simp add: uncounted_def)
qed simp

definition pool_inv :: "nat \<Rightarrow> nat \<Rightarrow> 'm writer_pool \<Rightarrow> bool" where
  "pool_inv numberOfWorkers bufferSize w \<longleftrightarrow>
     mset (wp_received w) = mset (wp_written w) + mset (in_hand (wp_workers w)) + mset (wp_channel w) + mset (one (wp_sending w)) \<and>
     length (wp_channel w) \<le> bufferSize \<and> length (wp_workers w) = numberOfWorkers \<and>
     pw_messagesUnmarshalled (wp_counters w) = length (wp_received w) \<and>
     wp_messagesWritten w + uncounted (wp_workers w) = length (wp_written w) \<and>
     (numberOfWorkers \<le> 1 \<longrightarrow>
        wp_received w = wp_written w @ in_hand (wp_workers w) @ wp_channel w @ one (wp_sending w))"

lemma single_worker:
  "length ws \<le> 1 \<Longrightarrow> i < length ws \<Longrightarrow> in_hand ws = hand (ws ! i) \<and> in_hand (ws[i := w]) = hand w"
  by (cases ws; simp add: in_hand_def)

lemma pool_inv_step: "pool_step unmarshal bufferSize w w' \<Longrightarrow> pool_inv n bufferSize w \<Longrightarrow> pool_inv n bufferSize w'"
proof (induction rule: pool_step.induct)
  case (receives w input counters out)
  then show ?case
    by (auto simp: pool_inv_def pg_receive_step_def one_def Let_def split: received.splits sum.splits option.splits)
next
  case (sends w m)
  then show ?case by (auto simp: pool_inv_def)
next
  case (hands w m i)
  then show ?case
    using single_worker [of "wp_workers w" i "Writing m"] in_hand_update [of i "wp_workers w" "Writing m"]
      uncounted_update [of i "wp_workers w" "Writing m"]
    by (auto simp: pool_inv_def)
next
  case (takes w m ms i)
  then show ?case
    using single_worker [of "wp_workers w" i "Writing m"] in_hand_update [of i "wp_workers w" "Writing m"]
      uncounted_update [of i "wp_workers w" "Writing m"]
    by (auto simp: pool_inv_def)
next
  case (writes i w m)
  then show ?case
    using single_worker [of "wp_workers w" i Counting] in_hand_update [of i "wp_workers w" Counting]
      uncounted_update [of i "wp_workers w" Counting]
    by (auto simp: pool_inv_def)
next
  case (counts i w)
  then show ?case
    using single_worker [of "wp_workers w" i Idle] in_hand_update [of i "wp_workers w" Idle]
      uncounted_update [of i "wp_workers w" Idle]
    by (auto simp: pool_inv_def)
qed

lemma in_hand_idle [simp]: "in_hand (replicate n Idle) = []" "uncounted (replicate n Idle) = 0"
  by (induction n) (simp_all add: in_hand_def uncounted_def)

lemma pool_inv_new: "pool_inv n bufferSize (NewPostgresqlWriter n)"
  by (simp add: pool_inv_def NewPostgresqlWriter_def)

lemma pool_inv_reachable:
  "(pool_step unmarshal bufferSize)\<^sup>*\<^sup>* (NewPostgresqlWriter n) w \<Longrightarrow> pool_inv n bufferSize w"
  by (induction rule: rtranclp_induct) (simp_all add: pool_inv_new pool_inv_step)

lemma length_in_hand: "length (in_hand ws) \<le> length ws"
proof (induction ws)
  case (Cons w ws)
  then show ?case by (cases w) (simp_all add: in_hand_def)
qed (simp add: in_hand_def)

lemma received_accounted:
  assumes "pool_inv n bufferSize w"
  shows "mset (wp_written w) \<subseteq># mset (wp_received w)"
    and "length (wp_received w) \<le> length (wp_written w) + bufferSize + n + 1"
proof -
  have all: "mset (wp_received w) =
      mset (wp_written w) + (mset (in_hand (wp_workers w)) + mset (wp_channel w) + mset (one (wp_sending w)))"
    using assms by (simp add: pool_inv_def)
  then show "mset (wp_written w) \<subseteq># mset (wp_received w)" by simp
  have "length (one (wp_sending w)) \<le> 1" by (cases "wp_sending w") simp_all
  moreover have "size (mset (wp_received w)) = length (wp_written w) + length (in_hand (wp_workers w)) +
      length (wp_channel w) + length (one (wp_sending w))"
    unfolding all by simp
  ultimately show "length (wp_received w) \<le> length (wp_written w) + bufferSize + n + 1"
    using assms length_in_hand [of "wp_workers w"] by (simp add: pool_inv_def)
qed

section \<open>Properties\<close>

text \<open>C39: Every message is written at most once, and none is lost on the way. In every interleaving of the
  receiver and the workers the messages written are, as a multiset, among those unmarshalled, and at most as
  many are under way as the channel, the workers and the receiver can hold. The counter of unmarshalled messages counts
  them, and that of written messages lags by the workers that have written a message and not counted it yet;
  a single worker writes the messages in the order they were received.\<close>

theorem writer_writes_once:
  assumes "(pool_step unmarshal bufferSize)\<^sup>*\<^sup>* (NewPostgresqlWriter n) w"
  shows "mset (wp_written w) \<subseteq># mset (wp_received w) \<and>
    length (wp_received w) \<le> length (wp_written w) + bufferSize + n + 1 \<and>
    pw_messagesUnmarshalled (wp_counters w) = length (wp_received w) \<and>
    wp_messagesWritten w + count_list (wp_workers w) Counting = length (wp_written w) \<and>
    (n = 1 \<longrightarrow> prefix (wp_written w) (wp_received w))"
proof -
  have inv: "pool_inv n bufferSize w" by (rule pool_inv_reachable [OF assms])
  with received_accounted [OF inv] show ?thesis by (auto simp: pool_inv_def uncounted_def)
qed

theorem writer_writes_once_witness:
  "\<exists>w. (pool_step (\<lambda>b. Inr (length b)) 0)\<^sup>*\<^sup>* (NewPostgresqlWriter 1) w \<and> wp_written w = [3] \<and>
     prefix (wp_written w) (wp_received w)"
proof -
  let ?u = "\<lambda>b :: byte list. Inr (length b) :: string + nat"
  let ?w0 = "NewPostgresqlWriter 1 :: nat writer_pool"
  let ?w1 = "?w0\<lparr>wp_counters := \<lparr>pw_messagesReceived = 1, pw_messagesUnmarshalled = 1\<rparr>, wp_sending := Some 3,
    wp_received := wp_received ?w0 @ (case Some 3 of None \<Rightarrow> [] | Some m \<Rightarrow> [m])\<rparr>"
  let ?w2 = "?w1\<lparr>wp_sending := None, wp_workers := (wp_workers ?w1)[0 := Writing 3]\<rparr>"
  let ?w3 = "?w2\<lparr>wp_workers := (wp_workers ?w2)[0 := Counting], wp_written := wp_written ?w2 @ [3]\<rparr>"
  have "(pool_step ?u 0)\<^sup>*\<^sup>* ?w0 ?w1"
    by (intro r_into_rtranclp receives [where input = "Received [1, 2, 3]"])
      (simp_all add: NewPostgresqlWriter_def pg_receive_step_def Let_def)
  also have "pool_step ?u 0 ?w1 ?w2" by (rule hands) (simp_all add: NewPostgresqlWriter_def)
  also have "pool_step ?u 0 ?w2 ?w3" by (rule writes) (simp_all add: NewPostgresqlWriter_def)
  finally have r: "(pool_step ?u 0)\<^sup>*\<^sup>* ?w0 ?w3" .
  have "wp_written ?w3 = [3]" by (simp add: NewPostgresqlWriter_def)
  with r writer_writes_once [OF r] show ?thesis by (intro exI [of _ ?w3]) simp
qed

text \<open>Without workers nothing is written: the receiver fills the channel and then waits for ever.\<close>

theorem no_workers_nothing_written:
  "(pool_step unmarshal bufferSize)\<^sup>*\<^sup>* (NewPostgresqlWriter 0) w \<Longrightarrow>
     wp_written w = [] \<and> length (wp_received w) \<le> bufferSize + 1"
proof (induction rule: rtranclp_induct)
  case (step w w')
  have "wp_workers w = []" using pool_inv_reachable [OF step.hyps(1)] by (simp add: pool_inv_def)
  with step.hyps(2) have "wp_written w' = wp_written w" by (cases rule: pool_step.cases) auto
  moreover have "pool_inv 0 bufferSize w'"
    using pool_inv_reachable [OF step.hyps(1)] step.hyps(2) by (rule pool_inv_step [rotated])
  ultimately show ?case using step.IH received_accounted(2) by fastforce
qed (simp add: NewPostgresqlWriter_def)

end
