(* ===== verification/LineStream.thy ===== *)
theory LineStream
  imports Connector TextMappers Lwe
begin

text \<open>
  The reading half of \<open>connector/line.go\<close>: the lines of a connection. The scanner of the standard library is
  the one of \<open>TextMappers\<close>; the connection is the bytes that can be read from it until its end.
\<close>

section \<open>Scanning\<close>

text \<open>
  The lines that \<open>scan\<close> puts on the stream, and its error: a line that does not fit the scanner's buffer
  ends it, as does an error of the connection.
\<close>

datatype scan_error = TokenTooLong | ReadError string

definition scan :: "byte list \<Rightarrow> string option \<Rightarrow> byte list list \<times> scan_error option" where
  "scan bs read_err =
     (map bytes_of_string (scan_lines (string_of_bytes bs)),
      if list_all (\<lambda>l. length l < 65536) (split_lines [] (string_of_bytes bs)) then map_option ReadError read_err
      else Some TokenTooLong)"

section \<open>Lemmas\<close>

lemma of_char_byte [simp]: "of_char (char_of (unat (b :: byte))) = b"
proof -
  have "unat b mod 256 = unat b" using unsigned_less [of b] by simp
  then have "of_char (char_of (unat b)) = unat b" by (simp add: of_char_of)
  then have "of_nat (of_char (char_of (unat b))) = b" by simp
  then show ?thesis by (metis of_nat_of_char)
qed

lemma bytes_string_bytes [simp]: "bytes_of_string (string_of_bytes bs) = bs"
  by (induction bs) (simp_all add: bytes_of_string_def string_of_bytes_def)

lemma split_lines_run:
  "CHR 0x0A \<notin> set l \<Longrightarrow> split_lines cur (l @ CHR 0x0A # s) = (rev cur @ l) # split_lines [] s"
  by (induction l arbitrary: cur) auto

lemma split_lines_terminated:
  "\<forall>l\<in>set ls. CHR 0x0A \<notin> set l \<Longrightarrow> split_lines [] (concat (map (\<lambda>l. l @ [CHR 0x0A]) ls)) = ls"
  by (induction ls) (simp_all add: split_lines_run)

lemma control_chars: "char_of (13 :: nat) = CHR 0x0D" "char_of (10 :: nat) = CHR 0x0A"
  by (simp_all add: char_of_eq_iff)

lemma newline_byte: "CHR 0x0A \<in> set (string_of_bytes v) \<longleftrightarrow> 10 \<in> set v"
proof
  assume "CHR 0x0A \<in> set (string_of_bytes v)"
  then obtain b where b: "b \<in> set v" "CHR 0x0A = char_of (unat b)" by (auto simp: string_of_bytes_def)
  then have "b = of_char (CHR 0x0A)" by simp
  with b(1) show "10 \<in> set v" by simp
next
  assume "10 \<in> set v"
  then show "CHR 0x0A \<in> set (string_of_bytes v)" by (force simp: string_of_bytes_def control_chars)
qed

lemma string_of_bytes_simps [simp]:
  "string_of_bytes [] = []" "string_of_bytes (xs @ ys) = string_of_bytes xs @ string_of_bytes ys"
  "length (string_of_bytes xs) = length xs"
  "string_of_bytes (13 # 10 # xs) = CHR 0x0D # CHR 0x0A # string_of_bytes xs"
  by (simp_all add: string_of_bytes_def control_chars)

lemma string_of_lines:
  "string_of_bytes (concat (map (\<lambda>v. v @ [13, 10]) vs)) =
     concat (map (\<lambda>l. l @ [CHR 0x0A]) (map (\<lambda>v. string_of_bytes v @ [CHR 0x0D]) vs))"
  by (induction vs) simp_all

section \<open>Properties\<close>

text \<open>Lines survive the wire. What is written as values followed by CR LF is scanned as exactly these values,
  when no value has a line feed and each fits the scanner's buffer with its carriage return.\<close>

lemma scan_lines_written:
  assumes "\<forall>v\<in>set vs. 10 \<notin> set v \<and> length v < 65535"
  shows "scan (concat (map (\<lambda>v. v @ [13, 10]) vs)) None = (vs, None)"
proof -
  let ?ls = "map (\<lambda>v. string_of_bytes v @ [CHR 0x0D]) vs"
  have split: "split_lines [] (string_of_bytes (concat (map (\<lambda>v. v @ [13, 10]) vs))) = ?ls"
    unfolding string_of_lines using assms by (intro split_lines_terminated) (auto simp: newline_byte)
  have fit: "list_all (\<lambda>l. length l < 65536) ?ls" using assms by (auto simp: list_all_iff)
  then have "takeWhile (\<lambda>l. length l < 65536) ?ls = ?ls" unfolding takeWhile_eq_all_conv list_all_iff .
  then have "scan_lines (string_of_bytes (concat (map (\<lambda>v. v @ [13, 10]) vs))) = map drop_cr ?ls"
    unfolding scan_lines_def split by (rule arg_cong)
  also have "\<dots> = map string_of_bytes vs" by (simp add: drop_cr_def)
  finally have "scan_lines (string_of_bytes (concat (map (\<lambda>v. v @ [13, 10]) vs))) = map string_of_bytes vs" .
  then show ?thesis using fit by (simp add: scan_def split o_def)
qed

text \<open>C40: A line connector repeats the stream of another, for frames that are lines. Let no frame contain a line feed,
  every frame be shorter than 65535 bytes (so that with its line end it fits the scanner's buffer) and every instant be in RFC 3339's range.
  Then, when no message is lost on the way, what a connector publishes of the frames, a second one
  writes to its connection, and what is scanned from there are the frames again, each once and in order,
  whatever the reused message held.\<close>

theorem line_repeater:
  assumes "faithful_codecs tc" "\<And>r. parse (print (Raw_MarshalJSON tc r)) = Some (Raw_MarshalJSON tc r)"
    and "\<forall>(u, t, v)\<in>set frames. rfc3339_time t \<and> 10 \<notin> set v \<and> length v < 65535"
    and "written = machine_outputs (line_subscribe_step (unmarshal_into tc parse)) raw
      (map Received (process (json_marshal tc print) (\<lambda>_. True) connector protocol frames))"
  shows "scan (concat (List.map_filter id written)) None = (map (\<lambda>(u, t, v). v) frames, None)"
proof -
  have "\<forall>(u, t, v)\<in>set frames. rfc3339_time t" using assms(3) by auto
  from line_subscribe_writes [OF assms(1,2) this]
  have "written = map (\<lambda>(u, t, v). Some (v @ [13, 10])) frames" unfolding assms(4) by blast
  then have "List.map_filter id written = map (\<lambda>v. v @ [13, 10]) (map (\<lambda>(u, t, v). v) frames)"
    by (induction frames arbitrary: written) (auto simp: List.map_filter_simps)
  moreover have "\<forall>v\<in>set (map (\<lambda>(u, t, v). v) frames). 10 \<notin> set v \<and> length v < 65535" using assms(3) by auto
  ultimately show ?thesis by (simp only: scan_lines_written)
qed

theorem line_repeater_witness:
  "\<exists>written. written = machine_outputs (line_subscribe_step (unmarshal_into tally_codecs sample_parse)) zero_raw
      (map Received (process (json_marshal tally_codecs sample_print) (\<lambda>_. True) ''c'' ''csv''
         [(1, 2, [65, 13]), (3, 4, [])])) \<and>
     scan (concat (List.map_filter id written)) None = ([[65, 13], []], None)"
  using line_repeater [OF tally_faithful sample_parse_print _ refl, of "[(1, 2, [65, 13]), (3, 4, [])]" zero_raw "''c''" "''csv''"]
  by (simp add: rfc3339_time_def)

end
