(* ===== verification/StreamConnection.thy ===== *)
theory StreamConnection
  imports Websocket "HOL-Library.Sublist"
begin

text \<open>
  The connections of \<open>writer/websocket.go\<close>: accepting a request, the read pump with its deadline, and the
  write pump, whose frames are added to the steps of the hub. The connection is a parameter: what arrives
  from the peer and when, and whether a frame can be written. The library answers pings of the peer itself.
\<close>

section \<open>Accepting a connection\<close>

text \<open>The server is its address and the hub; of the paths it serves, one is the stream.\<close>

record websocket_writer =
  sw_url :: string
  sw_hub :: hub

definition new_websocket_writer :: websocket_writer where
  "new_websocket_writer = \<lparr>sw_url = [], sw_hub = NewWebsocketWriter []\<rparr>"

definition WithURL :: "string \<Rightarrow> websocket_writer \<Rightarrow> websocket_writer" where
  "WithURL u w = w\<lparr>sw_url := u\<rparr>"

definition WitSelf :: "string \<Rightarrow> websocket_writer \<Rightarrow> websocket_writer" where
  "WitSelf self w = w\<lparr>sw_hub := (sw_hub w)\<lparr>hub_self := self\<rparr>\<rparr>"

datatype stream_handler = ServesStream | UnknownRequest

definition stream_handler_of :: "string \<Rightarrow> stream_handler" where
  "stream_handler_of path = (if path = ''/signalk/v1/stream'' then ServesStream else UnknownRequest)"

definition maxMessageSize :: nat where
  "maxMessageSize = 512"

definition pongWait :: int where
  "pongWait = 60 * 1000000000"

definition pingPeriod :: int where
  "pingPeriod = trunc_div (pongWait * 9) 10"

text \<open>The request is upgraded to a connection; when that fails no client is made.\<close>

definition serve_request :: "string option \<Rightarrow> string \<Rightarrow> string \<Rightarrow> hub \<Rightarrow> nat option \<times> hub" where
  "serve_request upgrade_err subscribeParam sendCachedValues h =
     (case upgrade_err of
        Some err \<Rightarrow> (None, h)
      | None \<Rightarrow> (case serveWs subscribeParam sendCachedValues h of (i, h) \<Rightarrow> (Some i, h)))"

section \<open>The read pump\<close>

text \<open>
  What arrives from the peer, with its instant. A read fails when the deadline has passed, when a message
  exceeds the limit, and when the connection is closed. Only a pong moves the deadline.
\<close>

datatype peer_event = PeerPong | PeerMessage "byte list" | PeerClosed

datatype read_end = TimedOut | LimitExceeded | ConnectionClosed

datatype reading = Reading time client | ReadEnded read_end client

fun read_loop :: "(byte list \<Rightarrow> string + subscribe_message) \<Rightarrow> time \<Rightarrow> client \<Rightarrow> (time \<times> peer_event) list \<Rightarrow> reading" where
  "read_loop unmarshal deadline c [] = Reading deadline c"
| "read_loop unmarshal deadline c ((now, event) # events) =
     (if deadline < now then ReadEnded TimedOut c
      else case event of
        PeerPong \<Rightarrow> read_loop unmarshal (now + pongWait) c events
      | PeerMessage message \<Rightarrow>
          if maxMessageSize < length message then ReadEnded LimitExceeded c
          else (case unmarshal message of
                  Inl err \<Rightarrow> read_loop unmarshal deadline c events
                | Inr m \<Rightarrow> read_loop unmarshal deadline (handleSubscribeMessages c m) events)
      | PeerClosed \<Rightarrow> ReadEnded ConnectionClosed c)"

definition readPump :: "(byte list \<Rightarrow> string + subscribe_message) \<Rightarrow> time \<Rightarrow> client \<Rightarrow> (time \<times> peer_event) list \<Rightarrow> reading" where
  "readPump unmarshal now c events = read_loop unmarshal (now + pongWait) c events"

section \<open>The write pump\<close>

text \<open>The instant of the \<open>k\<close>-th tick, at which a ping is written, of a pump that started at \<open>now\<close>.\<close>

definition ping_tick :: "time \<Rightarrow> nat \<Rightarrow> time" where
  "ping_tick now k = now + int k * pingPeriod"

datatype ws_frame = TextFrame "byte list" | PingFrame | CloseFrame

text \<open>
  A connection is the frames written and whether writing a message failed. \<open>wi_due\<close> is a ghost: the
  messages that the client should get. They are the hello message and the cached deltas when it registers,
  and from then on every delta it is subscribed to, while it is registered.
\<close>

record wire =
  wi_frames :: "ws_frame list"
  wi_failed :: bool
  wi_due :: "byte list list"

record stream_server =
  ss_hub :: hub
  ss_wires :: "nat \<Rightarrow> wire"

definition stream_start :: "string \<Rightarrow> stream_server" where
  "stream_start self =
     \<lparr>ss_hub = NewWebsocketWriter self, ss_wires = (\<lambda>_. \<lparr>wi_frames = [], wi_failed = False, wi_due = []\<rparr>)\<rparr>"

definition due_after :: "(mapped \<Rightarrow> string + byte list) \<Rightarrow> mapped \<Rightarrow> hub \<Rightarrow> nat \<Rightarrow> wire \<Rightarrow> wire" where
  "due_after marshal delta h i w =
     (case (map_of (hub_clients h) i, map_of (hub_objects h) i) of
        (Some _, Some c) \<Rightarrow> if isSubscribedTo c delta then w\<lparr>wi_due := wi_due w @ [payload marshal delta]\<rparr> else w
      | _ \<Rightarrow> w)"

definition write_text :: "bool \<Rightarrow> byte list \<Rightarrow> wire \<Rightarrow> wire" where
  "write_text ok m w = (if ok then w\<lparr>wi_frames := wi_frames w @ [TextFrame m]\<rparr> else w\<lparr>wi_failed := True\<rparr>)"

definition write_control :: "bool \<Rightarrow> ws_frame \<Rightarrow> wire \<Rightarrow> wire" where
  "write_control ok f w = (if ok then w\<lparr>wi_frames := wi_frames w @ [f]\<rparr> else w)"

text \<open>
  The hub's own steps, the effect of the read pump on the subscriptions, and the write pump: it writes a
  message, and goes on when that fails; it writes a close frame and returns when the channel is closed and
  drained; it pings and returns when that fails. \<open>ok\<close> is whether the frame could be written.
\<close>

inductive stream_step :: "(mapped \<Rightarrow> string + byte list) \<Rightarrow> stream_server \<Rightarrow> stream_server \<Rightarrow> bool" for marshal where
  accepts: "\<not> hub_panicked (ss_hub s) \<Longrightarrow> hub_sending (ss_hub s) = [] \<Longrightarrow>
     serve_request None q sc (ss_hub s) = (Some i, h') \<Longrightarrow>
     stream_step marshal s
       (s\<lparr>ss_hub := hub_register marshal hello i h',
          ss_wires := (ss_wires s)(i := \<lparr>wi_frames = [], wi_failed = False,
            wi_due = hello # map (payload marshal) (retrieveAll (hub_cache (ss_hub s)))\<rparr>)\<rparr>)"
| sends: "\<not> hub_panicked (ss_hub s) \<Longrightarrow> hub_send (ss_hub s) = Some h' \<Longrightarrow> stream_step marshal s (s\<lparr>ss_hub := h'\<rparr>)"
| unregisters: "\<not> hub_panicked (ss_hub s) \<Longrightarrow> hub_sending (ss_hub s) = [] \<Longrightarrow>
     stream_step marshal s (s\<lparr>ss_hub := hub_unregister i (ss_hub s)\<rparr>)"
| broadcasts: "\<not> hub_panicked (ss_hub s) \<Longrightarrow> hub_sending (ss_hub s) = [] \<Longrightarrow>
     stream_step marshal s
       (s\<lparr>ss_hub := hub_broadcast marshal delta (ss_hub s),
          ss_wires := (\<lambda>i. due_after marshal delta (ss_hub s) i (ss_wires s i))\<rparr>)"
| subscribes: "\<not> hub_panicked (ss_hub s) \<Longrightarrow> stream_step marshal s (s\<lparr>ss_hub := pump_subscribe i m (ss_hub s)\<rparr>)"
| writes: "\<not> hub_panicked (ss_hub s) \<Longrightarrow> map_of (hub_objects (ss_hub s)) i = Some c \<Longrightarrow> cl_send c = m # ms \<Longrightarrow>
     pump_message i (ss_hub s) = Some h' \<Longrightarrow>
     stream_step marshal s (s\<lparr>ss_hub := h', ss_wires := (ss_wires s)(i := write_text ok m (ss_wires s i))\<rparr>)"
| closes: "\<not> hub_panicked (ss_hub s) \<Longrightarrow> map_of (hub_objects (ss_hub s)) i = Some c \<Longrightarrow> cl_pumping c \<Longrightarrow>
     cl_closed c \<Longrightarrow> cl_send c = [] \<Longrightarrow>
     stream_step marshal s
       (s\<lparr>ss_hub := pump_stop i (ss_hub s),
          ss_wires := (ss_wires s)(i := write_control ok CloseFrame (ss_wires s i))\<rparr>)"
| pings: "\<not> hub_panicked (ss_hub s) \<Longrightarrow> map_of (hub_objects (ss_hub s)) i = Some c \<Longrightarrow> cl_pumping c \<Longrightarrow>
     stream_step marshal s
       (s\<lparr>ss_hub := (if ok then ss_hub s else pump_stop i (ss_hub s)),
          ss_wires := (ss_wires s)(i := write_control ok PingFrame (ss_wires s i))\<rparr>)"

section \<open>Lemmas: the read pump\<close>

fun last_pong :: "time \<Rightarrow> (time \<times> peer_event) list \<Rightarrow> time" where
  "last_pong t [] = t"
| "last_pong t ((now, event) # events) = last_pong (if event = PeerPong then now else t) events"

text \<open>A read that ends because of the time ends at an event later than the deadline that the last pong before it set.\<close>

lemma read_loop_timed_out:
  "read_loop unmarshal (t + pongWait) c events = ReadEnded TimedOut c' \<Longrightarrow>
     \<exists>before now event later. events = before @ (now, event) # later \<and> last_pong t before + pongWait < now"
proof (induction t events arbitrary: c rule: last_pong.induct)
  case (2 t now event events)
  show ?case
  proof (cases "t + pongWait < now")
    case True
    then show ?thesis by (intro exI [of _ "[]"]) simp
  next
    case False
    from 2(2) False obtain c2 where
      "read_loop unmarshal ((if event = PeerPong then now else t) + pongWait) c2 events = ReadEnded TimedOut c'"
      by (cases event) (auto split: if_splits sum.splits)
    from 2(1) [OF this] obtain before now' event' later where
      "events = before @ (now', event') # later" "last_pong (if event = PeerPong then now else t) before + pongWait < now'"
      by blast
    then show ?thesis by (intro exI [of _ "(now, event) # before"]) auto
  qed
qed simp

lemma last_pong_ge:
  "sorted (map fst events) \<Longrightarrow> list_all (\<lambda>(now, event). t \<le> now) events \<Longrightarrow>
     t \<le> last_pong t events \<and> ((p, PeerPong) \<in> set events \<longrightarrow> p \<le> last_pong t events)"
proof (induction t events rule: last_pong.induct)
  case (2 t now event events)
  have later: "list_all (\<lambda>(x, event). now \<le> x) events" using 2(2) by (auto simp: list_all_iff)
  have "list_all (\<lambda>(x, event). (if event = PeerPong then now else t) \<le> x) events"
    using 2(3) later by (auto simp: list_all_iff)
  then have later': "list_all (\<lambda>(x, ev). (if event = PeerPong then now else t) \<le> x) events"
    using 2(3) later by (auto simp: list_all_iff)
  from 2(1) [OF _ later'] 2(2,3) show ?case by (auto simp: list_all_iff)
qed simp


lemma read_loop_silent:
  "PeerPong \<notin> snd ` set events \<Longrightarrow> deadline < now \<Longrightarrow>
     \<exists>e c'. read_loop unmarshal deadline c (events @ [(now, event)]) = ReadEnded e c'"
proof (induction unmarshal deadline c events rule: read_loop.induct)
  case (2 unmarshal deadline c now' event' events)
  then show ?case by (cases event') (auto split: sum.split)
qed simp

lemma slack: "pongWait - pingPeriod = 6 * 1000000000" "0 < pingPeriod"
  by (simp_all add: pongWait_def pingPeriod_def trunc_div_def)

section \<open>Lemmas: the write pump\<close>

definition texts :: "ws_frame list \<Rightarrow> byte list list" where
  "texts fs = List.map_filter (\<lambda>f. case f of TextFrame m \<Rightarrow> Some m | _ \<Rightarrow> None) fs"

lemma texts_simps [simp]:
  "texts [] = []" "texts (fs @ gs) = texts fs @ texts gs" "texts [TextFrame m] = [m]"
  "texts [PingFrame] = []" "texts [CloseFrame] = []"
  by (simp_all add: texts_def List.map_filter_def)

lemma write_text_simps [simp]:
  "wi_due (write_text ok m w) = wi_due w"
  "texts (wi_frames (write_text ok m w)) = texts (wi_frames w) @ (if ok then [m] else [])"
  "wi_failed (write_text ok m w) \<longleftrightarrow> \<not> ok \<or> wi_failed w"
  "CloseFrame \<in> set (wi_frames (write_text ok m w)) \<longleftrightarrow> CloseFrame \<in> set (wi_frames w)"
  by (simp_all add: write_text_def)

lemma write_control_simps [simp]:
  "wi_due (write_control ok f w) = wi_due w" "wi_failed (write_control ok f w) = wi_failed w"
  "CloseFrame \<in> set (wi_frames (write_control ok f w)) \<longleftrightarrow> CloseFrame \<in> set (wi_frames w) \<or> (ok \<and> f = CloseFrame)"
  by (auto simp: write_control_def)

lemma texts_write_control [simp]:
  "texts (wi_frames (write_control ok PingFrame w)) = texts (wi_frames w)"
  "texts (wi_frames (write_control ok CloseFrame w)) = texts (wi_frames w)"
  by (simp_all add: write_control_def)

lemma due_after_simps [simp]:
  "wi_frames (due_after marshal delta h i w) = wi_frames w"
  "wi_failed (due_after marshal delta h i w) = wi_failed w"
  by (simp_all add: due_after_def split: option.split)

text \<open>Every step is a step of the hub, or leaves the hub alone.\<close>

lemma stream_hub_step:
  "stream_step marshal s s' \<Longrightarrow> hub_step marshal (ss_hub s) (ss_hub s') \<or> ss_hub s' = ss_hub s"
proof (induction rule: stream_step.induct)
  case (accepts s q sc i h' hello)
  then have "serveWs q sc (ss_hub s) = (i, h')" by (simp add: serve_request_def split: prod.splits)
  then show ?case using step_register [OF accepts(1,2)] by simp
qed (auto intro: hub_step.intros)

lemma stream_hub_inv:
  "(stream_step marshal)\<^sup>*\<^sup>* (stream_start self) s \<Longrightarrow> hub_inv (ss_hub s)"
proof (induction rule: rtranclp_induct)
  case base
  show ?case by (simp add: stream_start_def hub_inv_new)
next
  case (step s s')
  from stream_hub_step [OF step.hyps(2)] step.IH show ?case by (auto intro: hub_inv_step)
qed

text \<open>What has been written, is queued and is being sent to a client.\<close>

definition queued :: "hub \<Rightarrow> nat \<Rightarrow> client \<Rightarrow> byte list list" where
  "queued h i c = cl_send c @ map snd (filter (\<lambda>(j, m). j = i) (hub_sending h))"

definition wire_ok :: "hub \<Rightarrow> nat \<Rightarrow> client \<Rightarrow> wire \<Rightarrow> bool" where
  "wire_ok h i c w \<longleftrightarrow>
     subseq (texts (wi_frames w) @ queued h i c) (wi_due w) \<and>
     (\<not> wi_failed w \<longrightarrow> prefix (texts (wi_frames w) @ queued h i c) (wi_due w) \<and>
        (map_of (hub_clients h) i \<noteq> None \<longrightarrow> texts (wi_frames w) @ queued h i c = wi_due w)) \<and>
     (CloseFrame \<in> set (wi_frames w) \<longrightarrow>
        cl_closed c \<and> \<not> cl_pumping c \<and> cl_send c = [] \<and> last (wi_frames w) = CloseFrame)"

definition stream_inv :: "stream_server \<Rightarrow> bool" where
  "stream_inv s \<longleftrightarrow>
     (\<forall>i c. map_of (hub_objects (ss_hub s)) i = Some c \<longrightarrow> wire_ok (ss_hub s) i c (ss_wires s i))"


lemma wire_ok_mono:
  assumes "wire_ok h i c w" "queued h' i c' = queued h i c"
    and "map_of (hub_clients h') i \<noteq> None \<Longrightarrow> map_of (hub_clients h) i \<noteq> None"
    and "cl_closed c \<Longrightarrow> cl_closed c' \<and> cl_send c' = cl_send c" "cl_pumping c' \<Longrightarrow> cl_pumping c"
  shows "wire_ok h' i c' w"
  using assms unfolding wire_ok_def by auto

lemma stream_accepts:
  assumes "stream_inv s" "hub_inv (ss_hub s)" "hub_sending (ss_hub s) = []"
    and "serve_request None q sc (ss_hub s) = (Some i, h')"
  shows "stream_inv (s\<lparr>ss_hub := hub_register marshal hello i h',
    ss_wires := (ss_wires s)(i := \<lparr>wi_frames = [], wi_failed = False,
      wi_due = hello # map (payload marshal) (retrieveAll (hub_cache (ss_hub s)))\<rparr>)\<rparr>)"
proof -
  let ?h = "ss_hub s"
  let ?h2 = "hub_register marshal hello i h'"
  have i: "i = hub_next ?h"
    and h': "h' = snd (serveWs q sc ?h)" using assms(4) by (auto simp: serve_request_def serveWs_def Let_def)
  have obj: "map_of (hub_objects ?h2) j = (if j = i then Some (initial_subscription q ?h
      (NewClient\<lparr>cl_sendCachedValues := sc \<noteq> ''false''\<rparr>)\<lparr>cl_pumping := True\<rparr>) else map_of (hub_objects ?h) j)" for j
    by (simp add: hub_register_def h' serveWs_def Let_def i update_conv')
  have reg: "map_of (hub_clients ?h2) j = (if j = i then Some True else map_of (hub_clients ?h) j)" for j
    by (simp add: hub_register_def h' serveWs_def Let_def update_conv')
  have pend: "hub_sending ?h2 = map (Pair i) (hello # map (payload marshal) (retrieveAll (hub_cache ?h)))"
    by (simp add: hub_register_def h' serveWs_def Let_def)
  have old: "wire_ok ?h2 j c (ss_wires s j)" if "map_of (hub_objects ?h) j = Some c" "j \<noteq> i" for j c
  proof (rule wire_ok_mono)
    show "wire_ok ?h j c (ss_wires s j)" using assms(1) that(1) by (simp add: stream_inv_def)
    show "queued ?h2 j c = queued ?h j c" using that(2) assms(3) unfolding queued_def pend by (simp add: filter_empty_conv)
  qed (use that reg in auto)
  have new: "queued ?h2 i c = hello # map (payload marshal) (retrieveAll (hub_cache ?h))" if "cl_send c = []" for c
    using that unfolding queued_def pend by (simp add: comp_def filter_True)
  show ?thesis
    unfolding stream_inv_def using old by (auto simp: obj wire_ok_def new)
qed

lemma stream_sends:
  assumes "stream_inv s" "hub_inv (ss_hub s)" "hub_send (ss_hub s) = Some h'"
  shows "stream_inv (s\<lparr>ss_hub := h'\<rparr>)"
proof -
  let ?h = "ss_hub s"
  obtain i m rest where snd: "hub_sending ?h = (i, m) # rest"
    using assms(3) by (auto simp: hub_send_def split: list.splits)
  then have "map_of (hub_clients ?h) i \<noteq> None" using assms(2) by (auto simp: hub_inv_def)
  then obtain c where c: "map_of (hub_objects ?h) i = Some c" "\<not> cl_closed c"
    using assms(2) by (auto simp: hub_inv_def)
  then have h': "h' = (push_send i c m ?h)\<lparr>hub_sending := rest\<rparr>"
    using assms(3) snd by (auto simp: hub_send_def split: if_splits)
  have "wire_ok h' j c' (ss_wires s j)" if "map_of (hub_objects h') j = Some c'" for j c'
  proof (cases "j = i")
    case True
    then have c': "c' = c\<lparr>cl_send := cl_send c @ [m]\<rparr>"
      using that c(2) by (simp add: h' push_send_def update_conv')
    show ?thesis unfolding True
    proof (rule wire_ok_mono)
      show "wire_ok ?h i c (ss_wires s i)" using assms(1) c(1) by (simp add: stream_inv_def)
    qed (use c(2) in \<open>auto simp: c' h' push_send_def queued_def snd\<close>)
  next
    case False
    then have "map_of (hub_objects ?h) j = Some c'" using that c(2) by (simp add: h' push_send_def update_conv')
    then have "wire_ok ?h j c' (ss_wires s j)" using assms(1) by (simp add: stream_inv_def)
    then show ?thesis by (rule wire_ok_mono) (use False c(2) in \<open>auto simp: h' push_send_def queued_def snd\<close>)
  qed
  then show ?thesis by (simp add: stream_inv_def)
qed

text \<open>Steps that concern the client \<open>i\<close> only.\<close>

lemma stream_inv_client:
  assumes "stream_inv s" "map_of (hub_objects h') = (map_of (hub_objects (ss_hub s)))(i \<mapsto> c')"
    and "hub_sending h' = hub_sending (ss_hub s)"
    and "\<And>j. map_of (hub_clients h') j \<noteq> None \<Longrightarrow> map_of (hub_clients (ss_hub s)) j \<noteq> None"
    and "wire_ok h' i c' w'"
  shows "stream_inv (s\<lparr>ss_hub := h', ss_wires := (ss_wires s)(i := w')\<rparr>)"
proof -
  have "wire_ok h' j c (ss_wires s j)" if "map_of (hub_objects (ss_hub s)) j = Some c" for j c
  proof (rule wire_ok_mono)
    show "wire_ok (ss_hub s) j c (ss_wires s j)" using assms(1) that by (simp add: stream_inv_def)
  qed (use assms(3,4) in \<open>auto simp: queued_def\<close>)
  then show ?thesis using assms(2,5) by (auto simp: stream_inv_def)
qed

lemma stream_unregisters:
  assumes "stream_inv s" "hub_inv (ss_hub s)"
  shows "stream_inv (s\<lparr>ss_hub := hub_unregister i (ss_hub s)\<rparr>)"
proof (cases "map_of (hub_clients (ss_hub s)) i")
  case None
  then show ?thesis using assms(1) by (simp add: hub_unregister_def)
next
  case (Some b)
  then obtain c where c: "map_of (hub_objects (ss_hub s)) i = Some c" "\<not> cl_closed c"
    using assms(2) by (auto simp: hub_inv_def)
  let ?h = "hub_unregister i (ss_hub s)"
  have h: "map_of (hub_objects ?h) = (map_of (hub_objects (ss_hub s)))(i \<mapsto> c\<lparr>cl_closed := True\<rparr>)"
    "hub_sending ?h = hub_sending (ss_hub s)"
    "map_of (hub_clients ?h) j = (if j = i then None else map_of (hub_clients (ss_hub s)) j)" for j
    using Some c by (simp_all add: hub_unregister_def close_send_def update_conv' delete_conv')
  have ok: "wire_ok ?h i (c\<lparr>cl_closed := True\<rparr>) (ss_wires s i)"
  proof (rule wire_ok_mono)
    show "wire_ok (ss_hub s) i c (ss_wires s i)" using assms(1) c(1) by (simp add: stream_inv_def)
  qed (simp_all add: queued_def h split: if_splits)
  have reg: "map_of (hub_clients ?h) j \<noteq> None \<Longrightarrow> map_of (hub_clients (ss_hub s)) j \<noteq> None" for j
    unfolding h(3) by (simp split: if_splits)
  from stream_inv_client [OF assms(1) h(1,2) reg ok] show ?thesis by simp
qed

lemma subseq_snoc3: "subseq (xs @ ys) zs \<Longrightarrow> subseq (xs @ ys @ [m]) (zs @ [m])"
  by (subst append_assoc [symmetric], rule list_emb_append_mono) simp_all

lemma stream_broadcasts:
  assumes "stream_inv s" "hub_inv (ss_hub s)" "hub_sending (ss_hub s) = []"
  shows "stream_inv (s\<lparr>ss_hub := hub_broadcast marshal delta (ss_hub s),
    ss_wires := (\<lambda>i. due_after marshal delta (ss_hub s) i (ss_wires s i))\<rparr>)"
proof -
  let ?h = "ss_hub s"
  let ?h2 = "hub_broadcast marshal delta ?h"
  note eff = hub_broadcast_effect [OF assms(2) refl, of marshal delta]
  have "wire_ok ?h2 i c' (due_after marshal delta ?h i (ss_wires s i))" if c': "map_of (hub_objects ?h2) i = Some c'" for i c'
  proof -
    obtain c where c: "map_of (hub_objects ?h) i = Some c" using c' by (auto simp: eff split: if_splits)
    have ok: "wire_ok ?h i c (ss_wires s i)" using assms(1) c by (simp add: stream_inv_def)
    have q: "queued ?h2 i x = cl_send x" "queued ?h i x = cl_send x" for x
      by (simp_all add: queued_def eff assms(3))
    have reg: "map_of (hub_clients ?h2) i = (if overflows delta c then None else map_of (hub_clients ?h) i)"
      by (simp add: eff c)
    show ?thesis
    proof (cases "map_of (hub_clients ?h) i")
      case None
      then have "c' = c" using c c' by (simp add: eff)
      with ok None reg show ?thesis by (auto simp: wire_ok_def q due_after_def split: if_splits)
    next
      case (Some b)
      then have "\<not> cl_closed c" using assms(2) c by (auto simp: hub_inv_def)
      moreover have "c' = delivered (payload marshal delta) delta c" using c c' Some by (simp add: eff)
      ultimately show ?thesis
        using ok Some reg c
        by (auto simp: wire_ok_def q due_after_def delivered_def overflows_def
            intro: subseq_snoc3 list_emb_append2 subseq_rev_drop_many prefix_order.trans)
    qed
  qed
  then show ?thesis by (simp add: stream_inv_def)
qed

lemma stream_subscribes:
  assumes "stream_inv s"
  shows "stream_inv (s\<lparr>ss_hub := pump_subscribe i m (ss_hub s)\<rparr>)"
proof (cases "map_of (hub_objects (ss_hub s)) i")
  case None
  then show ?thesis using assms by (simp add: pump_subscribe_def)
next
  case (Some c)
  let ?h = "pump_subscribe i m (ss_hub s)"
  have h: "map_of (hub_objects ?h) = (map_of (hub_objects (ss_hub s)))(i \<mapsto> handleSubscribeMessages c m)"
    "hub_sending ?h = hub_sending (ss_hub s)" "hub_clients ?h = hub_clients (ss_hub s)"
    using Some by (simp_all add: pump_subscribe_def update_conv')
  have "wire_ok ?h i (handleSubscribeMessages c m) (ss_wires s i)"
  proof (rule wire_ok_mono)
    show "wire_ok (ss_hub s) i c (ss_wires s i)" using assms Some by (simp add: stream_inv_def)
  qed (simp_all add: queued_def h handleSubscribeMessages_def Let_def)
  from stream_inv_client [OF assms h(1,2) _ this] h(3) show ?thesis by simp
qed

lemma stream_writes:
  assumes "stream_inv s" "map_of (hub_objects (ss_hub s)) i = Some c" "cl_send c = m # ms"
    and "pump_message i (ss_hub s) = Some h'"
  shows "stream_inv (s\<lparr>ss_hub := h', ss_wires := (ss_wires s)(i := write_text ok m (ss_wires s i))\<rparr>)"
proof (rule stream_inv_client [OF assms(1), where c' = "c\<lparr>cl_send := ms\<rparr>"])
  have w: "wire_ok (ss_hub s) i c (ss_wires s i)" using assms(1,2) by (simp add: stream_inv_def)
  have h': "h' = ss_hub s\<lparr>hub_objects := AList.update i (c\<lparr>cl_send := ms\<rparr>) (hub_objects (ss_hub s))\<rparr>"
    using assms(2-4) by (auto simp: pump_message_def split: if_splits)
  show "map_of (hub_objects h') = (map_of (hub_objects (ss_hub s)))(i \<mapsto> c\<lparr>cl_send := ms\<rparr>)"
    "hub_sending h' = hub_sending (ss_hub s)" by (simp_all add: h' update_conv')
  have q: "queued (ss_hub s) i c = m # queued h' i (c\<lparr>cl_send := ms\<rparr>)" by (simp add: queued_def h' assms(3))
  have lost: "subseq (xs @ ys) due" if "subseq (xs @ m # ys) due" for xs ys due
    using that by (meson list_emb_append_mono subseq_Cons' subseq_order.order_refl subseq_order.order_trans)
  show "wire_ok h' i (c\<lparr>cl_send := ms\<rparr>) (write_text ok m (ss_wires s i))"
    using w assms(3) by (auto simp: wire_ok_def q h' intro: lost)
qed (use assms(2-4) in \<open>auto simp: pump_message_def split: if_splits\<close>)


lemma stream_stops:
  assumes "stream_inv s" "map_of (hub_objects (ss_hub s)) i = Some c"
    and "wire_ok (pump_stop i (ss_hub s)) i (c\<lparr>cl_pumping := False\<rparr>) w'"
  shows "stream_inv (s\<lparr>ss_hub := pump_stop i (ss_hub s), ss_wires := (ss_wires s)(i := w')\<rparr>)"
  by (rule stream_inv_client [OF assms(1) _ _ _ assms(3)]) (simp_all add: pump_stop_def assms(2) update_conv')

lemma stream_inv_step:
  assumes "stream_step marshal s s'" "stream_inv s" "hub_inv (ss_hub s)"
  shows "stream_inv s'"
  using assms
proof (induction rule: stream_step.induct)
  case (closes s i c ok)
  then have "wire_ok (ss_hub s) i c (ss_wires s i)" by (simp add: stream_inv_def)
  with closes have "wire_ok (pump_stop i (ss_hub s)) i (c\<lparr>cl_pumping := False\<rparr>) (write_control ok CloseFrame (ss_wires s i))"
    by (auto simp: wire_ok_def queued_def pump_stop_def write_control_def)
  from stream_stops [OF closes.prems(1) closes.hyps(2) this] show ?case .
next
  case (pings s i c ok)
  then have w: "wire_ok (ss_hub s) i c (ss_wires s i)" by (simp add: stream_inv_def)
  show ?case
  proof (cases ok)
    case True
    have "wire_ok (ss_hub s) i c (write_control ok PingFrame (ss_wires s i))"
      using w pings.hyps(3) by (auto simp: wire_ok_def)
    with True show ?thesis
      using stream_inv_client [OF pings.prems(1), of "ss_hub s" i c] pings.hyps(2) by (simp add: fun_upd_idem)
  next
    case False
    have "wire_ok (pump_stop i (ss_hub s)) i (c\<lparr>cl_pumping := False\<rparr>) (write_control ok PingFrame (ss_wires s i))"
      using w False pings.hyps(2) by (auto simp: wire_ok_def queued_def pump_stop_def write_control_def)
    from stream_stops [OF pings.prems(1) pings.hyps(2) this] False show ?thesis by simp
  qed
qed (auto intro: stream_accepts stream_sends stream_unregisters stream_broadcasts stream_subscribes stream_writes)

lemma stream_inv_reachable: "(stream_step marshal)\<^sup>*\<^sup>* (stream_start self) s \<Longrightarrow> stream_inv s"
proof (induction rule: rtranclp_induct)
  case base
  show ?case by (simp add: stream_inv_def stream_start_def NewWebsocketWriter_def)
next
  case (step s s')
  from stream_inv_step [OF step.hyps(2) step.IH stream_hub_inv [OF step.hyps(1)]] show ?case .
qed

section \<open>Properties\<close>

text \<open>C4: A client gets what it is subscribed to. In every interleaving of the hub, the read pumps and the
  write pumps, the messages written to a client are, in order, among those due to it: the hello message,
  the cached deltas, and the deltas broadcast while it is registered and subscribed. When no write failed
  they are with its queue a beginning of these, and all of them with what is still being sent to it
  while it is registered. A close frame is the last frame, written when the channel is closed and drained.\<close>

theorem stream_delivers:
  assumes "(stream_step marshal)\<^sup>*\<^sup>* (stream_start self) s"
    and "map_of (hub_objects (ss_hub s)) i = Some c" "w = ss_wires s i"
  shows "subseq (texts (wi_frames w)) (wi_due w) \<and>
    (wi_failed w \<or> prefix (texts (wi_frames w) @ cl_send c) (wi_due w)) \<and>
    (wi_failed w \<or> map_of (hub_clients (ss_hub s)) i = None \<or>
       texts (wi_frames w) @ cl_send c @ map snd (filter (\<lambda>(j, m). j = i) (hub_sending (ss_hub s))) = wi_due w) \<and>
    (CloseFrame \<notin> set (wi_frames w) \<or> (last (wi_frames w) = CloseFrame \<and> cl_closed c \<and> cl_send c = []))"
proof -
  have ok: "wire_ok (ss_hub s) i c w"
    using stream_inv_reachable [OF assms(1)] assms(2,3) by (simp add: stream_inv_def)
  then have "subseq (texts (wi_frames w) @ queued (ss_hub s) i c) (wi_due w)" by (simp add: wire_ok_def)
  then have "subseq (texts (wi_frames w)) (wi_due w)"
    by (rule subseq_order.trans [OF prefix_imp_subseq, rotated]) simp
  moreover have "wi_failed w \<or> prefix (texts (wi_frames w) @ cl_send c) (wi_due w)"
    using ok append_prefixD [of "texts (wi_frames w) @ cl_send c"] by (auto simp: wire_ok_def queued_def)
  ultimately show ?thesis using ok by (auto simp: wire_ok_def queued_def)
qed


theorem stream_delivers_witness:
  "\<exists>s c. (stream_step (\<lambda>_. Inr [7]))\<^sup>*\<^sup>* (stream_start ''s'') s \<and> map_of (hub_objects (ss_hub s)) 0 = Some c \<and>
     map_of (hub_clients (ss_hub s)) 0 \<noteq> None \<and> wi_due (ss_wires s 0) = [[1], [7]] \<and>
     texts (wi_frames (ss_wires s 0)) = [[1]] \<and> cl_send c = [[7]]"
proof -
  let ?m = "\<lambda>_ :: mapped. Inr [7] :: string + byte list"
  let ?c = "(initial_subscription ''all'' (NewWebsocketWriter ''s'') (NewClient\<lparr>cl_sendCachedValues := True\<rparr>))\<lparr>cl_pumping := True\<rparr>"
  let ?hub = "\<lambda>c q cache. \<lparr>hub_self = ''s'', hub_clients = [(0, True)], hub_objects = [(0, c)], hub_next = 1,
    hub_sending = q, hub_cache = cache, hub_panicked = False\<rparr>"
  let ?wire = "\<lambda>fs due. (ss_wires (stream_start ''s''))(0 := \<lparr>wi_frames = fs, wi_failed = False, wi_due = due\<rparr>)"
  let ?cache = "injectOrUpdate None own_delta"
  have sub: "isSubscribedTo (?c\<lparr>cl_send := q\<rparr>) own_delta" for q
    by (simp add: initial_subscription_def handleSubscribeMessages_def message_context_def subscribe_path_def
        NewClient_def isSubscribedTo_def own_delta_def isPatternMatch_def Let_def)
  have acc: "serve_request None ''all'' [] (ss_hub (stream_start ''s'')) =
      (Some 0, snd (serveWs ''all'' [] (NewWebsocketWriter ''s'')))"
    by (simp add: stream_start_def serve_request_def serveWs_def NewWebsocketWriter_def Let_def)
  have "(stream_step ?m)\<^sup>*\<^sup>* (stream_start ''s'') \<lparr>ss_hub = ?hub ?c [(0, [1])] None, ss_wires = ?wire [] [[1]]\<rparr>"
    using accepts [OF _ _ acc, of ?m "[1]"]
    by (intro r_into_rtranclp)
      (simp add: stream_start_def NewWebsocketWriter_def serveWs_def Let_def hub_register_def retrieveAll_def)
  also have "stream_step ?m \<lparr>ss_hub = ?hub ?c [(0, [1])] None, ss_wires = ?wire [] [[1]]\<rparr>
      \<lparr>ss_hub = ?hub (?c\<lparr>cl_send := [[1]]\<rparr>) [] None, ss_wires = ?wire [] [[1]]\<rparr>"
    using sends [of "\<lparr>ss_hub = ?hub ?c [(0, [1])] None, ss_wires = ?wire [] [[1]]\<rparr>" _ ?m]
    by (simp add: hub_send_def push_send_def send_capacity_def)
  also have "stream_step ?m \<lparr>ss_hub = ?hub (?c\<lparr>cl_send := [[1]]\<rparr>) [] None, ss_wires = ?wire [] [[1]]\<rparr>
      \<lparr>ss_hub = ?hub (?c\<lparr>cl_send := [[1], [7]]\<rparr>) [] ?cache, ss_wires = ?wire [] [[1], [7]]\<rparr>"
    using broadcasts [of "\<lparr>ss_hub = ?hub (?c\<lparr>cl_send := [[1]]\<rparr>) [] None, ss_wires = ?wire [] [[1]]\<rparr>" ?m own_delta] sub
    by (simp add: hub_broadcast_def broadcast_client_def push_send_def send_capacity_def payload_def due_after_def
        fun_upd_def if_distrib cong: if_cong)
  also have "stream_step ?m \<lparr>ss_hub = ?hub (?c\<lparr>cl_send := [[1], [7]]\<rparr>) [] ?cache, ss_wires = ?wire [] [[1], [7]]\<rparr>
      \<lparr>ss_hub = ?hub (?c\<lparr>cl_send := [[7]]\<rparr>) [] ?cache, ss_wires = ?wire [TextFrame [1]] [[1], [7]]\<rparr>"
    using writes [of "\<lparr>ss_hub = ?hub (?c\<lparr>cl_send := [[1], [7]]\<rparr>) [] ?cache, ss_wires = ?wire [] [[1], [7]]\<rparr>" 0
        "?c\<lparr>cl_send := [[1], [7]]\<rparr>" "[1]" "[[7]]" _ ?m True]
    by (simp add: pump_message_def write_text_def)
  finally have r: "(stream_step ?m)\<^sup>*\<^sup>* (stream_start ''s'')
      \<lparr>ss_hub = ?hub (?c\<lparr>cl_send := [[7]]\<rparr>) [] ?cache, ss_wires = ?wire [TextFrame [1]] [[1], [7]]\<rparr>" .
  show ?thesis
    using r stream_delivers [OF r, of 0 "?c\<lparr>cl_send := [[7]]\<rparr>"]
    by (intro exI [of _ "\<lparr>ss_hub = ?hub (?c\<lparr>cl_send := [[7]]\<rparr>) [] ?cache, ss_wires = ?wire [TextFrame [1]] [[1], [7]]\<rparr>"]
        exI [of _ "?c\<lparr>cl_send := [[7]]\<rparr>"]) (simp add: texts_def List.map_filter_simps)
qed

text \<open>A connection whose peer answers lives on.\<close>

theorem pongs_keep_alive:
  assumes "sorted (map fst events)" "list_all (\<lambda>(now, event). start \<le> now) events"
    and "d \<le> pongWait - pingPeriod" "ticker + d \<le> start + (pongWait - pingPeriod)"
    and "\<And>before now event later k. events = before @ (now, event) # later \<Longrightarrow> 0 < k \<Longrightarrow>
      ping_tick ticker k + d < now \<Longrightarrow> \<exists>p. (p, PeerPong) \<in> set before \<and> ping_tick ticker k \<le> p"
  shows "readPump unmarshal start c events \<noteq> ReadEnded TimedOut c'"
proof
  assume "readPump unmarshal start c events = ReadEnded TimedOut c'"
  then obtain before now event later where ev: "events = before @ (now, event) # later"
    and late: "last_pong start before + pongWait < now"
    using read_loop_timed_out [of unmarshal start c events c'] unfolding readPump_def by blast
  have "sorted (map fst before)" "list_all (\<lambda>(now, event). start \<le> now) before"
    using assms(1,2) by (simp_all add: ev sorted_append)
  note pong = last_pong_ge [OF this]
  show False
  proof -
    define m where "m = now - ticker - d - 1"
    define q where "q = m div pingPeriod"
    have m: "m = q * pingPeriod + m mod pingPeriod" "0 \<le> m mod pingPeriod" "m mod pingPeriod < pingPeriod"
      using slack(2) by (simp_all add: q_def)
    show False
    proof (cases "q \<le> 0")
      case True
      then have "q * pingPeriod \<le> 0" using slack(2) by (simp add: mult_nonpos_nonneg)
      with m have "m < pingPeriod" by linarith
      moreover have "start \<le> last_pong start before" using pong by blast
      ultimately show False using late assms(4) unfolding m_def by linarith
    next
      case False
      then have k: "int (nat q) = q" "0 < nat q" by simp_all
      have "ping_tick ticker (nat q) + d < now" using m unfolding ping_tick_def k(1) m_def by linarith
      from assms(5) [OF ev k(2) this] obtain p where p: "(p, PeerPong) \<in> set before" "ticker + q * pingPeriod \<le> p"
        unfolding ping_tick_def k(1) by blast
      then have "p \<le> last_pong start before" using pong by blast
      then show False using m p(2) late assms(3) unfolding m_def by linarith
    qed
  qed
qed

theorem pongs_keep_alive_witness:
  "readPump (\<lambda>_. Inl []) 0 NewClient [(55 * 1000000000, PeerPong), (61 * 1000000000, PeerMessage [])]
     \<noteq> ReadEnded TimedOut NewClient"
proof (rule pongs_keep_alive [where ticker = 0 and d = "pongWait - pingPeriod"])
  fix before now event later k
  assume split: "[(55 * 1000000000, PeerPong), (61 * 1000000000, PeerMessage [])] = before @ (now, event) # later"
    and k: "0 < k" and late: "ping_tick 0 k + (pongWait - pingPeriod) < now"
  have tick: "ping_tick 0 k = int k * (54 * 1000000000)"
    by (simp add: ping_tick_def pingPeriod_def pongWait_def trunc_div_def)
  consider "before = []" "now = 55 * 1000000000" | "before = [(55 * 1000000000, PeerPong)]" "now = 61 * 1000000000"
    using split by (cases before) (auto simp: Cons_eq_append_conv)
  then show "\<exists>p. (p, PeerPong) \<in> set before \<and> ping_tick 0 k \<le> p"
  proof cases
    case 1
    then show ?thesis using k late unfolding tick slack(1) by simp
  next
    case 2
    then have "k = 1" using k late unfolding tick slack(1) by simp
    then have "ping_tick 0 k \<le> 55 * 1000000000" unfolding tick by simp
    with 2(1) show ?thesis by simp
  qed
qed (simp_all add: slack)

text \<open>The connection of a peer that never answers ends: nothing is read from it later than \<open>pongWait\<close> after the start.\<close>

theorem silent_peer_dropped:
  "PeerPong \<notin> snd ` set events \<Longrightarrow> start + pongWait < now \<Longrightarrow>
     \<exists>e c'. readPump unmarshal start c (events @ [(now, event)]) = ReadEnded e c'"
  unfolding readPump_def by (rule read_loop_silent)

theorem silent_peer_dropped_witness:
  "\<exists>e c'. readPump (\<lambda>_. Inl []) 0 NewClient ([(1, PeerMessage [])] @ [(61 * 1000000000, PeerPong)]) = ReadEnded e c'"
  by (rule silent_peer_dropped) (simp_all add: pongWait_def)

end
