(* ===== verification/MqttLink.thy ===== *)
theory MqttLink
  imports Sockets "HOL-Library.Multiset"
begin

text \<open>
  The MQTT client of \<open>mqtt/main.go\<close>, the goroutines of \<open>sendMQTT\<close> in \<open>writer/mqtt.go\<close> and those of
  \<open>messageReceived\<close> in \<open>reader/mqtt.go\<close>, with the broker between them. The MQTT library and the broker are
  parameters: publishing can fail, and what was handed to the library can arrive later, never or, being retained, several times.
\<close>

section \<open>The MQTT client\<close>

text \<open>
  \<open>New\<close> connects, and ends the program when that fails. The library calls the handlers whenever a connection
  is established or lost, and connects again by itself.
\<close>

record mqtt_client =
  mc_options :: client_options
  mc_topic :: string

definition New :: "client_options \<Rightarrow> (client_options \<Rightarrow> string option) \<Rightarrow> mqtt_config \<Rightarrow> string \<Rightarrow> string + mqtt_client" where
  "New defaults connect c topic =
     (let options = createClientOptions c defaults
      in case connect options of
           Some err \<Rightarrow> Inl ''Could not connect to the MQTT broker''
         | None \<Rightarrow> Inr \<lparr>mc_options = options, mc_topic = topic\<rparr>)"

datatype session = Offline | Online "string option" | Ended

inductive session_step :: "mqtt_client \<Rightarrow> session \<Rightarrow> session \<Rightarrow> bool" for client where
  connects: "session_step client Offline
     (case onConnectHandler subscribe (mc_topic client) of
        NotSubscribing \<Rightarrow> Online None | SubscribedTo t \<Rightarrow> Online (Some t) | FatalError \<Rightarrow> Ended)"
| loses: "session_step client (Online t) Offline"

text \<open>The warning that is logged when the connection is lost.\<close>

definition connectionLostHandler :: "string option \<Rightarrow> string list" where
  "connectionLostHandler e = (case e of None \<Rightarrow> [] | Some err \<Rightarrow> [''MQTT connection lost''])"

text \<open>\<open>Publish\<close> waits for the library; a failure is logged, and the message is lost. The quality of service is 0.\<close>

record publication =
  pb_topic :: string
  pb_qos :: nat
  pb_retained :: bool
  pb_payload :: "byte list"

definition Publish_message :: "(publication \<Rightarrow> string option) \<Rightarrow> string \<Rightarrow> nat \<Rightarrow> bool \<Rightarrow> byte list \<Rightarrow> publication option" where
  "Publish_message broker topic qos retained bytes =
     (let p = \<lparr>pb_topic = topic, pb_qos = qos, pb_retained = retained, pb_payload = bytes\<rparr>
      in case broker p of Some err \<Rightarrow> None | None \<Rightarrow> Some p)"

definition disconnectWait :: int where
  "disconnectWait = 5 * 1000000000"

text \<open>The milliseconds the library may take to finish its work when it disconnects.\<close>

definition Disconnect_quiesce :: nat where
  "Disconnect_quiesce = nat (disconnectWait div 1000000)"

section \<open>The goroutines of the writer\<close>

text \<open>
  Every batch is compressed and published by a goroutine of its own, so batches overtake each other, and are
  lost when publishing fails. \<open>sh_inputs\<close> are what the writer received, \<open>sh_started\<close> the batches (topics and
  JSON) for which it started goroutines; those of \<open>sh_sending\<close> still run.
\<close>

record ship =
  sh_inputs :: "(time \<times> time \<times> received) list"
  sh_writer :: mqtt_writer
  sh_started :: "(string \<times> byte list) list"
  sh_sending :: "(string \<times> byte list) list"
  sh_published :: "publication list"
  sh_lost :: "(string \<times> byte list) list"

definition ship_start :: "time \<Rightarrow> ship" where
  "ship_start now =
     \<lparr>sh_inputs = [], sh_writer = NewMqttWriter now, sh_started = [], sh_sending = [], sh_published = [], sh_lost = []\<rparr>"

inductive ship_step :: "mqtt_lib \<Rightarrow> mqtt_config \<Rightarrow> ship \<Rightarrow> ship \<Rightarrow> bool" for lib c where
  receives: "mqtt_write_step lib c (sh_writer s) input = (w, None) \<Longrightarrow>
     ship_step lib c s (s\<lparr>sh_inputs := sh_inputs s @ [input], sh_writer := w\<rparr>)"
| starts: "mqtt_write_step lib c (sh_writer s) input = (w, Some p) \<Longrightarrow>
     ship_step lib c s
       (s\<lparr>sh_inputs := sh_inputs s @ [input], sh_writer := w, sh_started := sh_started s @ [p], sh_sending := sh_sending s @ [p]\<rparr>)"
| publishes: "sh_sending s = xs @ p # ys \<Longrightarrow>
     Publish_message broker (fst (compress_batch lib p)) 0 True (snd (compress_batch lib p)) = Some m \<Longrightarrow>
     ship_step lib c s (s\<lparr>sh_sending := xs @ ys, sh_published := sh_published s @ [m]\<rparr>)"
| fails: "sh_sending s = xs @ p # ys \<Longrightarrow>
     Publish_message broker (fst (compress_batch lib p)) 0 True (snd (compress_batch lib p)) = None \<Longrightarrow>
     ship_step lib c s (s\<lparr>sh_sending := xs @ ys, sh_lost := sh_lost s @ [p]\<rparr>)"

section \<open>The handlers of the reader\<close>

text \<open>
  The library calls \<open>messageReceived\<close> for every payload that arrives, in a goroutine of its own
  (\<open>SetOrderMatters(false)\<close>), so the handlers run concurrently and share the publisher. A handler has a payload and, once it
  has decoded it, the deltas it has not sent yet. \<open>lk_log\<close> are the attempts to send, each with the
  number of the handler and whether the publisher accepted. The counters are in \<open>messageReceived\<close> and not repeated here.
\<close>

record reader_handler =
  ha_payload :: "byte list"
  ha_deltas :: "mapped list option"

record mqtt_link =
  lk_ship :: ship
  lk_handlers :: "reader_handler list"
  lk_log :: "(nat \<times> bool \<times> byte list) list"

definition link_start :: "time \<Rightarrow> mqtt_link" where
  "link_start now = \<lparr>lk_ship = ship_start now, lk_handlers = [], lk_log = []\<rparr>"

inductive link_step :: "mqtt_lib \<Rightarrow> mqtt_config \<Rightarrow> mqtt_link \<Rightarrow> mqtt_link \<Rightarrow> bool" for lib c where
  ships: "ship_step lib c (lk_ship k) s \<Longrightarrow> link_step lib c k (k\<lparr>lk_ship := s\<rparr>)"
| arrives: "p \<in> set (sh_started (lk_ship k)) \<Longrightarrow>
     link_step lib c k
       (k\<lparr>lk_handlers := lk_handlers k @ [\<lparr>ha_payload = snd (compress_batch lib p), ha_deltas = None\<rparr>]\<rparr>)"
| decodes: "i < length (lk_handlers k) \<Longrightarrow> lk_handlers k ! i = \<lparr>ha_payload = payload, ha_deltas = None\<rparr> \<Longrightarrow>
     link_step lib c k
       (k\<lparr>lk_handlers := (lk_handlers k)[i := \<lparr>ha_payload = payload, ha_deltas = Some (batch lib payload)\<rparr>]\<rparr>)"
| skips: "i < length (lk_handlers k) \<Longrightarrow> lk_handlers k ! i = \<lparr>ha_payload = payload, ha_deltas = Some (d # ds)\<rparr> \<Longrightarrow>
     ml_Marshal lib d = Inl err \<Longrightarrow>
     link_step lib c k (k\<lparr>lk_handlers := (lk_handlers k)[i := \<lparr>ha_payload = payload, ha_deltas = Some ds\<rparr>]\<rparr>)"
| sends: "i < length (lk_handlers k) \<Longrightarrow> lk_handlers k ! i = \<lparr>ha_payload = payload, ha_deltas = Some (d # ds)\<rparr> \<Longrightarrow>
     ml_Marshal lib d = Inr bytes \<Longrightarrow>
     link_step lib c k
       (k\<lparr>lk_handlers := (lk_handlers k)[i := \<lparr>ha_payload = payload, ha_deltas = Some ds\<rparr>],
          lk_log := lk_log k @ [(i, accepted, bytes)]\<rparr>)"

text \<open>What a handler still has to send, and what it has tried to send.\<close>

definition left_of :: "mqtt_lib \<Rightarrow> reader_handler \<Rightarrow> mapped list" where
  "left_of lib ha = (case ha_deltas ha of None \<Rightarrow> batch lib (ha_payload ha) | Some ds \<Rightarrow> ds)"

definition attempts_of :: "nat \<Rightarrow> (nat \<times> bool \<times> byte list) list \<Rightarrow> byte list list" where
  "attempts_of i tried = map (\<lambda>a. snd (snd a)) (filter (\<lambda>a. fst a = i) tried)"

definition accepted_messages :: "(nat \<times> bool \<times> byte list) list \<Rightarrow> byte list list" where
  "accepted_messages tried = map (\<lambda>a. snd (snd a)) (filter (\<lambda>a. fst (snd a)) tried)"

section \<open>Lemmas\<close>

lemma session_subscribed:
  "(session_step client)\<^sup>*\<^sup>* Offline st \<Longrightarrow>
     st = Offline \<or> st = Ended \<or> st = Online (if mc_topic client = [] then None else Some (mc_topic client))"
proof (induction rule: rtranclp_induct)
  case (step st st')
  from step.hyps(2) show ?case
    by (cases rule: session_step.cases) (simp_all add: onConnectHandler_def)
qed simp

lemma attempts_of_append [simp]: "attempts_of i (tried @ tried') = attempts_of i tried @ attempts_of i tried'"
  "attempts_of i [] = []" "attempts_of i [(j, a, b)] = (if j = i then [b] else [])"
  by (simp_all add: attempts_of_def)

text \<open>A handler that runs alone sends what \<open>messageReceived\<close> sends.\<close>

lemma handler_alone: "snd (messageReceived lib send r payload) = filter send (encodings lib (batch lib payload))"
  by (simp add: messageReceived_forwards forwards_accepted)

text \<open>The writer's goroutine and those of its batches.\<close>

definition sent_batches :: "ship \<Rightarrow> mqtt_lib \<Rightarrow> (string \<times> byte list) multiset" where
  "sent_batches s lib =
     mset (map (compress_batch lib) (sh_sending s)) + mset (map (compress_batch lib) (sh_lost s)) +
     mset (map (\<lambda>m. (pb_topic m, pb_payload m)) (sh_published s))"

definition ship_inv :: "mqtt_lib \<Rightarrow> mqtt_config \<Rightarrow> time \<Rightarrow> ship \<Rightarrow> bool" where
  "ship_inv lib c now s \<longleftrightarrow>
     sh_writer s = machine_state (mqtt_write_step lib c) (NewMqttWriter now) (sh_inputs s) \<and>
     map snd (sh_started s) = payloads (machine_outputs (mqtt_write_step lib c) (NewMqttWriter now) (sh_inputs s)) \<and>
     sent_batches s lib = mset (map (compress_batch lib) (sh_started s)) \<and>
     (\<forall>m\<in>set (sh_published s). pb_qos m = 0 \<and> pb_retained m)"

lemma payloads_append: "payloads (xs @ ys) = payloads xs @ payloads ys"
  by (simp add: payloads_def)

lemma payloads_Some [simp]: "payloads [Some p] = [snd p]"
  by (simp add: payloads_def split_beta)

lemma ship_inv_step: "ship_step lib c s s' \<Longrightarrow> ship_inv lib c now s \<Longrightarrow> ship_inv lib c now s'"
proof (induction rule: ship_step.induct)
  case (receives s input w)
  then show ?case by (simp add: ship_inv_def sent_batches_def machine_outputs_append payloads_append)
next
  case (starts s input w p)
  then show ?case by (simp add: ship_inv_def sent_batches_def machine_outputs_append payloads_append)
next
  case (publishes s xs p ys broker m)
  then show ?case
    by (auto simp: ship_inv_def sent_batches_def Publish_message_def Let_def split: option.splits)
next
  case (fails s xs p ys broker)
  then show ?case by (auto simp: ship_inv_def sent_batches_def)
qed

lemma ship_started_step: "ship_step lib c s s' \<Longrightarrow> set (sh_started s) \<subseteq> set (sh_started s')"
  by (induction rule: ship_step.induct) auto

definition handler_ok :: "mqtt_lib \<Rightarrow> mqtt_link \<Rightarrow> nat \<Rightarrow> bool" where
  "handler_ok lib k i \<longleftrightarrow>
     (\<exists>p\<in>set (sh_started (lk_ship k)). ha_payload (lk_handlers k ! i) = ml_EncodeAll lib (snd p)) \<and>
     attempts_of i (lk_log k) @ encodings lib (left_of lib (lk_handlers k ! i)) =
       encodings lib (batch lib (ha_payload (lk_handlers k ! i)))"

definition link_inv :: "mqtt_lib \<Rightarrow> mqtt_config \<Rightarrow> time \<Rightarrow> mqtt_link \<Rightarrow> bool" where
  "link_inv lib c now k \<longleftrightarrow> ship_inv lib c now (lk_ship k) \<and>
     (\<forall>i<length (lk_handlers k). handler_ok lib k i) \<and> (\<forall>a\<in>set (lk_log k). fst a < length (lk_handlers k))"

lemma link_inv_step: "link_step lib c k k' \<Longrightarrow> link_inv lib c now k \<Longrightarrow> link_inv lib c now k'"
proof (induction rule: link_step.induct)
  case (ships k s)
  then show ?case
    using ship_inv_step [OF ships.hyps] ship_started_step [OF ships.hyps] by (fastforce simp: link_inv_def handler_ok_def)
next
  case (arrives p k)
  then have "attempts_of (length (lk_handlers k)) (lk_log k) = []"
    by (auto simp: link_inv_def attempts_of_def filter_empty_conv)
  with arrives show ?case
    by (fastforce simp: link_inv_def handler_ok_def nth_append less_Suc_eq left_of_def compress_batch_def)
next
  case (decodes i k payload)
  then have "handler_ok lib k i" by (simp add: link_inv_def)
  with decodes show ?case by (auto simp: link_inv_def handler_ok_def nth_list_update left_of_def)
next
  case (skips i k payload d ds err)
  then have "handler_ok lib k i" by (simp add: link_inv_def)
  with skips show ?case by (fastforce simp: link_inv_def handler_ok_def nth_list_update left_of_def)
next
  case (sends i k payload d ds bytes accepted)
  then have "handler_ok lib k i" by (simp add: link_inv_def)
  with sends show ?case by (fastforce simp: link_inv_def handler_ok_def nth_list_update left_of_def)
qed

lemma link_inv_reachable: "(link_step lib c)\<^sup>*\<^sup>* (link_start now) k \<Longrightarrow> link_inv lib c now k"
proof (induction rule: rtranclp_induct)
  case base
  show ?case by (simp add: link_inv_def link_start_def ship_inv_def ship_start_def sent_batches_def)
next
  case (step k k')
  then show ?case by (simp add: link_inv_step)
qed

text \<open>The batches of a ship, when deltas and batches can be decoded.\<close>

lemma started_batches:
  assumes "ship_inv lib c now s" "list_all (decodes lib) (received_data (sh_inputs s))"
    and "faithful_batches lib (decoded lib ` set (received_data (sh_inputs s)))"
  shows "concat (map (\<lambda>p. json_batch lib (snd p)) (sh_started s)) @ map (decoded lib) (active (sh_writer s)) =
      map (decoded lib) (received_data (sh_inputs s))"
    and "p \<in> set (sh_started s) \<Longrightarrow> batch lib (ml_EncodeAll lib (snd p)) = json_batch lib (snd p)"
proof -
  let ?w = "NewMqttWriter now"
  have new: "active ?w = []" "idle ?w = []" by (simp_all add: active_def idle_def NewMqttWriter_def)
  have started: "payloads (machine_outputs (mqtt_write_step lib c) ?w (sh_inputs s)) = map snd (sh_started s)"
    using assms(1) by (simp add: ship_inv_def)
  note w = writer_delivers [OF assms(3) new(2), of "sh_inputs s" c, unfolded new(1) append_Nil, OF assms(2) order_refl, unfolded started]
  then show "concat (map (\<lambda>p. json_batch lib (snd p)) (sh_started s)) @ map (decoded lib) (active (sh_writer s)) =
      map (decoded lib) (received_data (sh_inputs s))"
    using assms(1) by (simp add: ship_inv_def comp_def)
  show "batch lib (ml_EncodeAll lib (snd p)) = json_batch lib (snd p)" if "p \<in> set (sh_started s)"
    using w that by (auto simp: list_all_iff faithful_payload_def)
qed

section \<open>Properties\<close>

text \<open>C7: How deltas cross MQTT. Let every message the writer received be a delta, and let batches of these deltas be decodable
  after encoding. In every interleaving of the writer, the goroutines of its batches and
  the reader's handlers: the batches for which goroutines were started, one after the other, followed by what is
  in the buffer, are all deltas received, each once and in their order; every such batch is being sent, published
  or lost, exactly once; and each handler tries to send exactly the messages of one of these batches, in order. So order
  holds within a batch; batches overtake each other, are lost, or are handled again when they arrive again.\<close>

theorem mqtt_delivery:
  assumes "(link_step lib c)\<^sup>*\<^sup>* (link_start now) k" "s = lk_ship k"
    and "list_all (decodes lib) (received_data (sh_inputs s))"
    and "faithful_batches lib (decoded lib ` set (received_data (sh_inputs s)))"
  shows "concat (map (\<lambda>p. json_batch lib (snd p)) (sh_started s)) @ map (decoded lib) (active (sh_writer s)) =
      map (decoded lib) (received_data (sh_inputs s)) \<and>
    mset (map (compress_batch lib) (sh_started s)) =
      mset (map (compress_batch lib) (sh_sending s)) + mset (map (compress_batch lib) (sh_lost s)) +
      mset (map (\<lambda>m. (pb_topic m, pb_payload m)) (sh_published s)) \<and>
    (\<forall>i<length (lk_handlers k). \<exists>p\<in>set (sh_started s).
       ha_payload (lk_handlers k ! i) = ml_EncodeAll lib (snd p) \<and>
       attempts_of i (lk_log k) @ encodings lib (left_of lib (lk_handlers k ! i)) = encodings lib (json_batch lib (snd p)))"
proof -
  have inv: "link_inv lib c now k" by (rule link_inv_reachable [OF assms(1)])
  then have ship: "ship_inv lib c now s" by (simp add: link_inv_def assms(2))
  have "\<exists>p\<in>set (sh_started s). ha_payload (lk_handlers k ! i) = ml_EncodeAll lib (snd p) \<and>
       attempts_of i (lk_log k) @ encodings lib (left_of lib (lk_handlers k ! i)) = encodings lib (json_batch lib (snd p))"
    if "i < length (lk_handlers k)" for i
  proof -
    have "handler_ok lib k i" using inv that by (simp add: link_inv_def)
    then show ?thesis
      using started_batches(2) [OF ship assms(3,4)] by (fastforce simp: handler_ok_def assms(2))
  qed
  then show ?thesis using started_batches(1) [OF ship assms(3,4)] ship by (simp add: ship_inv_def sent_batches_def)
qed

text \<open>
  A run for the witnesses: every message is flushed at once; the batch of the first one is published, arrives and is handled.
\<close>

definition flushing_config :: mqtt_config where
  "flushing_config = default_mqtt_config\<lparr>mq_BufferSize := 0\<rparr>"

definition one_input :: "time \<times> time \<times> received" where
  "one_input = (0, 0, Received [1])"

definition flushed_ship :: ship where
  "flushed_ship =
     \<lparr>sh_inputs = [one_input], sh_writer = (NewMqttWriter 0)\<lparr>mw_useA := False\<rparr>,
      sh_started = [(write_topic flushing_config, [1])], sh_sending = [],
      sh_published = [\<lparr>pb_topic = write_topic flushing_config, pb_qos = 0, pb_retained = True, pb_payload = [0, 1]\<rparr>], sh_lost = []\<rparr>"

definition handled_link :: mqtt_link where
  "handled_link = \<lparr>lk_ship = flushed_ship, lk_handlers = [\<lparr>ha_payload = [0, 1], ha_deltas = Some []\<rparr>], lk_log = [(0, True, [1])]\<rparr>"

lemma link_run_ship:
  "(ship_step lib c)\<^sup>*\<^sup>* (lk_ship k) s \<Longrightarrow> (link_step lib c)\<^sup>*\<^sup>* k (k\<lparr>lk_ship := s\<rparr>)"
proof (induction rule: rtranclp_induct)
  case (step s s')
  have "link_step lib c (k\<lparr>lk_ship := s\<rparr>) (k\<lparr>lk_ship := s'\<rparr>)"
    using link_step.ships [of lib c "k\<lparr>lk_ship := s\<rparr>" s'] step.hyps(2) by simp
  with step.IH show ?case by (rule rtranclp.rtrancl_into_rtrancl)
qed simp

lemma flushed_ship_reachable:
  assumes "ml_Unmarshal lib [1] = Inr d" "ml_MarshalList lib [d] = Inr [1]" "ml_EncodeAll lib [1] = [0, 1]"
  shows "(ship_step lib flushing_config)\<^sup>*\<^sup>* (ship_start 0) flushed_ship"
proof -
  let ?c = flushing_config
  let ?s1 = "flushed_ship\<lparr>sh_sending := [(write_topic ?c, [1])], sh_published := []\<rparr>"
  have out: "mqtt_write_step lib ?c (NewMqttWriter 0) one_input = ((NewMqttWriter 0)\<lparr>mw_useA := False\<rparr>, Some (write_topic ?c, [1]))"
    using assms(1,2)
    by (simp add: mqtt_write_step_def appendToCache_def NewMqttWriter_def lenCache_def flushCache_def Let_def
        sendMQTT_def one_input_def flushing_config_def)
  have "ship_step lib ?c (ship_start 0) ?s1"
    using ship_step.starts [of lib ?c "ship_start 0" one_input] out by (simp add: ship_start_def flushed_ship_def)
  moreover have "ship_step lib ?c ?s1 flushed_ship"
    using ship_step.publishes [of ?s1 "[]" "(write_topic ?c, [1])" "[]" "\<lambda>_. None" lib _ ?c] assms(3)
    by (simp add: Publish_message_def compress_batch_def flushed_ship_def)
  ultimately show ?thesis by (meson converse_rtranclp_into_rtranclp r_into_rtranclp)
qed

lemma handled_link_reachable:
  assumes "ml_Unmarshal lib [1] = Inr d" "ml_MarshalList lib [d] = Inr [1]" "ml_EncodeAll lib [1] = [0, 1]"
    and "batch lib [0, 1] = [d]" "ml_Marshal lib d = Inr [1]"
  shows "(link_step lib flushing_config)\<^sup>*\<^sup>* (link_start 0) handled_link"
proof -
  let ?step = "link_step lib flushing_config"
  let ?k1 = "(link_start 0)\<lparr>lk_ship := flushed_ship\<rparr>"
  let ?k2 = "?k1\<lparr>lk_handlers := [\<lparr>ha_payload = [0, 1], ha_deltas = None\<rparr>]\<rparr>"
  let ?k3 = "?k1\<lparr>lk_handlers := [\<lparr>ha_payload = [0, 1], ha_deltas = Some [d]\<rparr>]\<rparr>"
  have "?step\<^sup>*\<^sup>* (link_start 0) ?k1"
    using flushed_ship_reachable [OF assms(1-3)] by (intro link_run_ship) (simp add: link_start_def)
  also have "?step ?k1 ?k2"
    using link_step.arrives [of "(write_topic flushing_config, [1])" ?k1 lib flushing_config] assms(3)
    by (simp add: link_start_def flushed_ship_def compress_batch_def)
  also have "?step ?k2 ?k3" using link_step.decodes [of 0 ?k2 "[0, 1]" lib flushing_config] assms(4) by simp
  also have "?step ?k3 handled_link"
    using link_step.sends [of 0 ?k3 "[0, 1]" d "[]" lib "[1]" flushing_config True] assms(5)
    by (simp add: handled_link_def link_start_def)
  finally show ?thesis .
qed

theorem mqtt_delivery_witness:
  "(link_step unary_lib flushing_config)\<^sup>*\<^sup>* (link_start 0) handled_link \<and>
   attempts_of 0 (lk_log handled_link) = encodings unary_lib [NewMapped]"
proof -
  have run: "(link_step unary_lib flushing_config)\<^sup>*\<^sup>* (link_start 0) handled_link"
    by (rule handled_link_reachable [where d = NewMapped]) (simp_all add: unary_lib_def batch_def)
  have data: "received_data (sh_inputs flushed_ship) = [[1]]" by (simp add: flushed_ship_def one_input_def)
  have "ds = replicate (length ds) NewMapped" if "set ds \<subseteq> {NewMapped}" for ds :: "mapped list"
    using that by (induction ds) auto
  then have faithful: "faithful_batches unary_lib (decoded unary_lib ` set [[1]])"
    by (auto simp: faithful_batches_def decoded_def unary_lib_def)
  have "\<forall>i<length (lk_handlers handled_link). \<exists>p\<in>set (sh_started flushed_ship).
       ha_payload (lk_handlers handled_link ! i) = ml_EncodeAll unary_lib (snd p) \<and>
       attempts_of i (lk_log handled_link) @ encodings unary_lib (left_of unary_lib (lk_handlers handled_link ! i)) =
         encodings unary_lib (json_batch unary_lib (snd p))"
    using mqtt_delivery [OF run, of flushed_ship] faithful
    by (simp add: handled_link_def data decodes_def unary_lib_def)
  then have "attempts_of 0 (lk_log handled_link) = encodings unary_lib (json_batch unary_lib [1])"
    by (simp add: handled_link_def flushed_ship_def left_of_def)
  also have "json_batch unary_lib [1] = [NewMapped]" by (simp add: json_batch_def unary_lib_def)
  finally show ?thesis using run by blast
qed

text \<open>While the client is connected it is subscribed to its topic, if it has one, after every reconnection.\<close>

theorem client_resubscribes:
  assumes "(session_step client)\<^sup>*\<^sup>* Offline (Online t)"
  shows "t = (if mc_topic client = [] then None else Some (mc_topic client))"
  using session_subscribed [OF assms] by simp

end
