(* ===== verification/ShipToShore.thy ===== *)
theory ShipToShore
  imports MqttLink WriterPool
begin

text \<open>
  The way of a delta from a ship to the database on shore: \<open>write mqtt\<close>, the broker and \<open>read mqtt\<close> (\<open>MqttLink\<close>), and
  \<open>write database mapped\<close>, whose workers (\<open>WriterPool\<close>) queue statements on the batch that they share with the
  flushes (\<open>shared_step\<close> of \<open>Postgres\<close>, with its races).
\<close>

section \<open>The writer on shore\<close>

text \<open>
  A worker that writes a message queues its statements one after another: \<open>so_todo\<close> are, for each worker, those it has
  not begun to queue. It has written the message when none is left. The database's own goroutines take their steps in
  between; a worker may here begin to queue a statement before the one before it is on the batch, which allows more orders than the code.
\<close>

record shore =
  so_pool :: "mapped writer_pool"
  so_todo :: "statement list list"
  so_db :: shared

definition shore_start :: "nat \<Rightarrow> shore" where
  "shore_start n = \<lparr>so_pool = NewPostgresqlWriter n, so_todo = replicate n [], so_db = shared_init\<rparr>"

definition delta_statements :: "mapped \<Rightarrow> statement list" where
  "delta_statements m = statements (WritesMapped m)"

definition todo_of :: "mapped worker list \<Rightarrow> mapped worker list \<Rightarrow> statement list list \<Rightarrow> statement list list" where
  "todo_of ws ws' todo =
     map (\<lambda>(w, w', t). case w' of Writing m \<Rightarrow> (if w = Idle then delta_statements m else t) | _ \<Rightarrow> t) (zip ws (zip ws' todo))"

inductive shore_step :: "(byte list \<Rightarrow> string + mapped) \<Rightarrow> nat \<Rightarrow> shore \<Rightarrow> shore \<Rightarrow> bool" for unmarshal bufferSize where
  pool: "pool_step unmarshal bufferSize (so_pool z) w \<Longrightarrow> wp_written w = wp_written (so_pool z) \<Longrightarrow>
     shore_step unmarshal bufferSize z
       (z\<lparr>so_pool := w, so_todo := todo_of (wp_workers (so_pool z)) (wp_workers w) (so_todo z)\<rparr>)"
| loads: "i < length (so_todo z) \<Longrightarrow> so_todo z ! i = st # sts \<Longrightarrow>
     shore_step unmarshal bufferSize z (z\<lparr>so_todo := (so_todo z)[i := sts], so_db := shared_load st (so_db z)\<rparr>)"
| finishes: "i < length (wp_workers (so_pool z)) \<Longrightarrow> wp_workers (so_pool z) ! i = Writing m \<Longrightarrow> so_todo z ! i = [] \<Longrightarrow>
     shore_step unmarshal bufferSize z
       (z\<lparr>so_pool := (so_pool z)\<lparr>wp_workers := (wp_workers (so_pool z))[i := Counting], wp_written := wp_written (so_pool z) @ [m]\<rparr>\<rparr>)"
| database: "shared_step (so_db z) h \<Longrightarrow> sh_submitted h = sh_submitted (so_db z) \<Longrightarrow>
     shore_step unmarshal bufferSize z (z\<lparr>so_db := h\<rparr>)"

text \<open>Nothing is under way, and nothing was lost or is left on the way.\<close>

definition all_arrived :: "mqtt_lib \<Rightarrow> (byte list \<Rightarrow> string + mapped) \<Rightarrow> mqtt_link \<Rightarrow> shore \<Rightarrow> bool" where
  "all_arrived lib unmarshal k z \<longleftrightarrow>
     active (sh_writer (lk_ship k)) = [] \<and>
     mset (map ha_payload (lk_handlers k)) = mset (map (snd \<circ> compress_batch lib) (sh_started (lk_ship k))) \<and>
     list_all (\<lambda>ha. left_of lib ha = []) (lk_handlers k) \<and> list_all (\<lambda>a. fst (snd a)) (lk_log k) \<and>
     mset (map Inr (wp_received (so_pool z))) = mset (map unmarshal (accepted_messages (lk_log k))) \<and>
     wp_sending (so_pool z) = None \<and> wp_channel (so_pool z) = [] \<and> list_all (\<lambda>w. w = Idle) (wp_workers (so_pool z)) \<and>
     sh_writing (so_db z) = []"

section \<open>Lemmas: counting\<close>

definition all_of :: "('a \<Rightarrow> 'b list) \<Rightarrow> 'a list \<Rightarrow> 'b multiset" where
  "all_of f xs = mset (concat (map f xs))"

lemma all_of_simps [simp]:
  "all_of f [] = {#}" "all_of f (x # xs) = mset (f x) + all_of f xs" "all_of f (xs @ ys) = all_of f xs + all_of f ys"
  by (simp_all add: all_of_def)

lemma all_of_map: "all_of f (map g xs) = all_of (\<lambda>x. f (g x)) xs"
  by (simp add: all_of_def comp_def)

lemma all_of_sum: "all_of f xs = (\<Sum>x\<in>#mset xs. mset (f x))"
  by (induction xs) simp_all

lemma all_of_cong: "mset xs = mset ys \<Longrightarrow> all_of f xs = all_of f ys"
  by (simp add: all_of_sum)

lemma all_of_mono: "mset xs \<subseteq># mset ys \<Longrightarrow> all_of f xs \<subseteq># all_of f ys"
proof -
  assume "mset xs \<subseteq># mset ys"
  then obtain zs where "mset ys = mset (xs @ zs)" by (metis ex_mset mset_append mset_subset_eq_exists_conv)
  then have "all_of f ys = all_of f xs + all_of f zs" using all_of_cong [of ys "xs @ zs" f] by simp
  then show ?thesis by simp
qed

lemma all_of_update:
  "i < length xs \<Longrightarrow> all_of f (xs[i := x]) + mset (f (xs ! i)) = all_of f xs + mset (f x)"
proof (induction xs arbitrary: i)
  case (Cons y xs)
  show ?case
  proof (cases i)
    case (Suc j)
    then have "all_of f (xs[j := x]) + mset (f (xs ! j)) = all_of f xs + mset (f x)" using Cons by simp
    then show ?thesis using Suc by (simp add: add.assoc)
  qed (simp add: ac_simps)
qed simp

lemma image_mono: "mset xs \<subseteq># mset ys \<Longrightarrow> mset (map f xs) \<subseteq># mset (map f ys)"
  by (simp add: image_mset_subseteq_mono)

section \<open>Lemmas: the reader's messages\<close>

text \<open>The attempts of all handlers, with what is left to send, are the messages of the payloads that arrived.\<close>

lemma log_by_handler:
  "\<forall>a\<in>set tried. fst a < n \<Longrightarrow> mset (map (\<lambda>a. snd (snd a)) tried) = all_of (\<lambda>i. attempts_of i tried) [0..<n]"
proof (induction tried)
  case Nil
  have "all_of (\<lambda>i. []) [0..<n] = {#}" by (induction n) simp_all
  then show ?case by simp
next
  case (Cons a tried)
  obtain j b c where a: "a = (j, b, c)" by (cases a)
  have at: "attempts_of i ((j, b, c) # tried) = (if i = j then [c] else []) @ attempts_of i tried" for i
    by (simp add: attempts_of_def)
  have "all_of (\<lambda>i. (if i = j then [c] else []) @ attempts_of i tried) js =
      all_of (\<lambda>i. if i = j then [c] else []) js + all_of (\<lambda>i. attempts_of i tried) js" for js
    by (induction js) (simp_all add: ac_simps)
  moreover have "all_of (\<lambda>i. if i = j then [c] else []) [0..<m] = (if j < m then {#c#} else {#})" for m
    by (induction m) auto
  ultimately show ?case using Cons a by (simp add: at)
qed

lemma handlers_accounted:
  assumes "link_inv lib c now k"
  shows "mset (map (\<lambda>a. snd (snd a)) (lk_log k)) + all_of (\<lambda>ha. encodings lib (left_of lib ha)) (lk_handlers k) =
    all_of (\<lambda>pl. encodings lib (batch lib pl)) (map ha_payload (lk_handlers k))"
proof -
  let ?hs = "lk_handlers k" and ?n = "length (lk_handlers k)"
  have log: "mset (map (\<lambda>a. snd (snd a)) (lk_log k)) = all_of (\<lambda>i. attempts_of i (lk_log k)) [0..<?n]"
    using assms by (intro log_by_handler) (simp add: link_inv_def)
  have nths: "all_of f xs = all_of (\<lambda>i. f (xs ! i)) [0..<length xs]" for f :: "'a \<Rightarrow> 'b list" and xs
    unfolding all_of_def by (metis map_map map_nth comp_apply map_cong)
  have "all_of (\<lambda>i. attempts_of i (lk_log k)) js + all_of (\<lambda>i. encodings lib (left_of lib (?hs ! i))) js =
      all_of (\<lambda>i. encodings lib (batch lib (ha_payload (?hs ! i)))) js" if "set js \<subseteq> {..<?n}" for js
    using that
  proof (induction js)
    case (Cons i js)
    then have "handler_ok lib k i" using assms by (simp add: link_inv_def)
    then have "mset (attempts_of i (lk_log k)) + mset (encodings lib (left_of lib (?hs ! i))) =
        mset (encodings lib (batch lib (ha_payload (?hs ! i))))"
      unfolding handler_ok_def by (metis mset_append)
    with Cons show ?case by (simp add: ac_simps)
  qed simp
  from this [of "[0..<?n]"] show ?thesis
    unfolding log all_of_map nths [of _ "?hs"] by (simp add: subset_eq)
qed

lemma encodings_map: "\<forall>d\<in>set ds. ml_Marshal lib d = Inr (enc d) \<Longrightarrow> encodings lib ds = map enc ds"
  by (induction ds) auto

lemma accepted_subset: "mset (accepted_messages tried) \<subseteq># mset (map (\<lambda>a. snd (snd a)) tried)"
  by (simp add: accepted_messages_def image_mset_subseteq_mono)

text \<open>The messages of all batches for which goroutines were started, as they arrive.\<close>

lemma started_messages:
  assumes "ship_inv lib c now s" "list_all (decodes lib) (received_data (sh_inputs s))"
    and "faithful_batches lib (decoded lib ` set (received_data (sh_inputs s)))"
    and "\<And>d. d \<in> decoded lib ` set (received_data (sh_inputs s)) \<Longrightarrow> ml_Marshal lib d = Inr (enc d)"
  obtains ds where "ds @ map (decoded lib) (active (sh_writer s)) = map (decoded lib) (received_data (sh_inputs s))"
    "all_of (\<lambda>pl. encodings lib (batch lib pl)) (map (snd \<circ> compress_batch lib) (sh_started s)) = mset (map enc ds)"
proof -
  let ?ds = "concat (map (\<lambda>p. json_batch lib (snd p)) (sh_started s))"
  have ds: "?ds @ map (decoded lib) (active (sh_writer s)) = map (decoded lib) (received_data (sh_inputs s))"
    by (rule started_batches(1) [OF assms(1-3)])
  then have "set ?ds \<subseteq> decoded lib ` set (received_data (sh_inputs s))" by (metis Un_upper1 list.set_map set_append)
  then have "\<forall>d\<in>set ?ds. ml_Marshal lib d = Inr (enc d)" using assms(4) by blast
  then have "map enc ?ds = encodings lib ?ds" by (simp only: encodings_map)
  also have "mset \<dots> = all_of (\<lambda>p. encodings lib (json_batch lib (snd p))) (sh_started s)"
  proof -
    have "mset (encodings lib (concat (map f ps))) = all_of (\<lambda>p. encodings lib (f p)) ps" for f :: "string \<times> byte list \<Rightarrow> mapped list" and ps
      by (induction ps) simp_all
    then show ?thesis .
  qed
  also have "\<dots> = all_of (\<lambda>p. encodings lib (batch lib (ml_EncodeAll lib (snd p)))) (sh_started s)"
  proof -
    have "map (\<lambda>p. encodings lib (json_batch lib (snd p))) (sh_started s) =
        map (\<lambda>p. encodings lib (batch lib (ml_EncodeAll lib (snd p)))) (sh_started s)"
      using started_batches(2) [OF assms(1-3)] by simp
    then show ?thesis by (simp only: all_of_def)
  qed
  finally show thesis using ds by (intro that [of ?ds]) (simp_all add: all_of_map compress_batch_def)
qed

section \<open>Lemmas: the writer on shore\<close>

lemma hand_cases: "hand w = (case w of Writing m \<Rightarrow> [m] | _ \<Rightarrow> [])"
  by (cases w) simp_all

definition todo_ok :: "mapped worker list \<Rightarrow> statement list list \<Rightarrow> bool" where
  "todo_ok ws todo \<longleftrightarrow> list_all2 (\<lambda>w t. (\<forall>m. w \<noteq> Writing m) \<longrightarrow> t = []) ws todo"

lemma todo_of_same: "length ws = length todo \<Longrightarrow> todo_of ws ws todo = todo"
  by (induction ws todo rule: list_induct2) (auto simp: todo_of_def split: worker.split)

lemma todo_of_gives:
  "length ws = length todo \<Longrightarrow> i < length ws \<Longrightarrow> ws ! i = Idle \<Longrightarrow>
     todo_of ws (ws[i := Writing m]) todo = todo[i := delta_statements m]"
proof (induction ws todo arbitrary: i rule: list_induct2)
  case (Cons w ws t todo)
  then show ?case
    using todo_of_same [of ws todo] by (cases i) (auto simp: todo_of_def split: worker.split)
qed simp

lemma todo_of_rests:
  "length ws = length todo \<Longrightarrow> i < length ws \<Longrightarrow> ws ! i = Counting \<Longrightarrow> todo_of ws (ws[i := Idle]) todo = todo"
proof (induction ws todo arbitrary: i rule: list_induct2)
  case (Cons w ws t todo)
  then show ?case
    using todo_of_same [of ws todo] by (cases i) (auto simp: todo_of_def split: worker.split)
qed simp

definition shore_inv :: "(byte list \<Rightarrow> string + mapped) \<Rightarrow> nat \<Rightarrow> nat \<Rightarrow> shore \<Rightarrow> bool" where
  "shore_inv unmarshal bufferSize n z \<longleftrightarrow>
     pool_inv n bufferSize (so_pool z) \<and> shared_inv (so_db z) \<and>
     todo_ok (wp_workers (so_pool z)) (so_todo z) \<and>
     mset (sh_submitted (so_db z)) + all_of id (so_todo z) =
       all_of delta_statements (wp_written (so_pool z)) + all_of delta_statements (in_hand (wp_workers (so_pool z)))"

lemma todo_given:
  assumes "todo_ok ws todo" "i < length ws" "ws ! i = Idle"
  shows "todo_of ws (ws[i := Writing m]) todo = todo[i := delta_statements m] \<and>
    todo_ok (ws[i := Writing m]) (todo[i := delta_statements m]) \<and>
    all_of id (todo[i := delta_statements m]) = all_of id todo + mset (delta_statements m) \<and>
    all_of delta_statements (in_hand (ws[i := Writing m])) = all_of delta_statements (in_hand ws) + mset (delta_statements m)"
proof -
  have len: "length ws = length todo" using assms(1) by (simp add: todo_ok_def list_all2_lengthD)
  have "todo ! i = []" using assms by (simp add: todo_ok_def list_all2_conv_all_nth)
  moreover have "todo_ok (ws[i := Writing m]) (todo[i := delta_statements m])"
    using assms(1) unfolding todo_ok_def by (intro list_all2_update_cong) simp_all
  moreover have "all_of delta_statements (in_hand (ws[i := Writing m])) = all_of delta_statements (in_hand ws @ [m])"
    using in_hand_update [OF assms(2), of "Writing m"] assms(3) by (intro all_of_cong) simp
  ultimately show ?thesis
    using all_of_update [of i todo id "delta_statements m"] assms(2,3) len todo_of_gives [OF len assms(2,3)] by simp
qed

lemma shore_pool_step:
  assumes "shore_inv unmarshal bufferSize n z" "pool_step unmarshal bufferSize (so_pool z) w" "wp_written w = wp_written (so_pool z)"
  shows "shore_inv unmarshal bufferSize n (z\<lparr>so_pool := w, so_todo := todo_of (wp_workers (so_pool z)) (wp_workers w) (so_todo z)\<rparr>)"
proof -
  have inv: "pool_inv n bufferSize w" using assms(1,2) pool_inv_step by (auto simp: shore_inv_def)
  have ok: "todo_ok (wp_workers (so_pool z)) (so_todo z)" using assms(1) by (simp add: shore_inv_def)
  then have len: "length (wp_workers (so_pool z)) = length (so_todo z)" by (simp add: todo_ok_def list_all2_lengthD)
  from assms(2) show ?thesis
  proof (cases rule: pool_step.cases)
    case (receives input counters out)
    then show ?thesis using assms(1) inv by (simp add: shore_inv_def todo_of_same [OF len])
  next
    case (sends m)
    then show ?thesis using assms(1) inv by (simp add: shore_inv_def todo_of_same [OF len])
  next
    case (hands m i)
    then show ?thesis using assms(1) inv todo_given [OF ok, of i m] by (simp add: shore_inv_def add.assoc [symmetric])
  next
    case (takes m ms i)
    then show ?thesis using assms(1) inv todo_given [OF ok, of i m] by (simp add: shore_inv_def add.assoc [symmetric])
  next
    case (writes i m)
    then show ?thesis using assms(3) by simp
  next
    case (counts i)
    have "mset (in_hand ((wp_workers (so_pool z))[i := Idle])) = mset (in_hand (wp_workers (so_pool z)))"
      using in_hand_update [OF counts(2), of Idle] counts(3) by simp
    then have "all_of delta_statements (in_hand ((wp_workers (so_pool z))[i := Idle])) =
        all_of delta_statements (in_hand (wp_workers (so_pool z)))" by (rule all_of_cong)
    moreover have "todo_ok ((wp_workers (so_pool z))[i := Idle]) (so_todo z)"
      using ok counts(2,3) unfolding todo_ok_def list_all2_conv_all_nth by (auto simp: nth_list_update)
    ultimately show ?thesis
      using assms(1) inv counts todo_of_rests [OF len counts(2,3)] by (simp add: shore_inv_def)
  qed
qed

lemma shore_inv_step:
  "shore_step unmarshal bufferSize z z' \<Longrightarrow> shore_inv unmarshal bufferSize n z \<Longrightarrow> shore_inv unmarshal bufferSize n z'"
proof (induction rule: shore_step.induct)
  case (pool z w)
  then show ?case by (intro shore_pool_step)
next
  case (loads i z st sts)
  have "shared_step (so_db z) (shared_load st (so_db z))" unfolding shared_load_def by (rule shared_step.load)
  then have "shared_inv (shared_load st (so_db z))" using loads.prems shared_inv_step by (auto simp: shore_inv_def)
  moreover have "todo_ok (wp_workers (so_pool z)) ((so_todo z)[i := sts])"
    using loads unfolding shore_inv_def todo_ok_def list_all2_conv_all_nth by (auto simp: nth_list_update)
  moreover have "all_of id (so_todo z) = add_mset st (all_of id ((so_todo z)[i := sts]))"
    using all_of_update [OF loads.hyps(1), of id sts] loads.hyps(2) by simp
  ultimately show ?case
    using loads.prems by (simp add: shore_inv_def shared_load_def)
next
  case (finishes i z m)
  let ?ws = "wp_workers (so_pool z)"
  have "pool_step unmarshal bufferSize (so_pool z)
      ((so_pool z)\<lparr>wp_workers := ?ws[i := Counting], wp_written := wp_written (so_pool z) @ [m]\<rparr>)"
    using finishes.hyps(1,2) by (rule pool_step.writes)
  then have "pool_inv n bufferSize
      ((so_pool z)\<lparr>wp_workers := ?ws[i := Counting], wp_written := wp_written (so_pool z) @ [m]\<rparr>)"
    using finishes.prems pool_inv_step by (auto simp: shore_inv_def)
  moreover have "todo_ok (?ws[i := Counting]) (so_todo z)"
    using finishes unfolding shore_inv_def todo_ok_def list_all2_conv_all_nth by (auto simp: nth_list_update)
  moreover have "all_of delta_statements (in_hand (?ws[i := Counting]) @ [m]) = all_of delta_statements (in_hand ?ws)"
    using in_hand_update [OF finishes.hyps(1), of Counting] finishes.hyps(2) by (intro all_of_cong) simp
  ultimately show ?case using finishes.prems by (simp add: shore_inv_def ac_simps)
next
  case (database z h)
  then show ?case using shared_inv_step by (auto simp: shore_inv_def)
qed

lemma shore_inv_start: "shore_inv unmarshal bufferSize n (shore_start n)"
proof -
  have "shared_inv shared_init" using shared_inv_reachable [OF rtranclp.rtrancl_refl] .
  moreover have "todo_ok (replicate n Idle) (replicate n [])" by (simp add: todo_ok_def list_all2_conv_all_nth)
  moreover have "all_of id (replicate n ([] :: statement list)) = {#}" by (induction n) simp_all
  ultimately show ?thesis
    using pool_inv_new by (simp add: shore_inv_def shore_start_def NewPostgresqlWriter_def shared_init_def)
qed

lemma shore_inv_reachable:
  "(shore_step unmarshal bufferSize)\<^sup>*\<^sup>* (shore_start n) z \<Longrightarrow> shore_inv unmarshal bufferSize n z"
  by (induction rule: rtranclp_induct) (simp_all add: shore_inv_start shore_inv_step)

text \<open>What is queued is of messages received, and all of it when the writer is idle.\<close>

lemma shore_accounted:
  assumes "shore_inv unmarshal bufferSize n z"
  shows "all_objects (so_db z) \<subseteq># all_of delta_statements (wp_received (so_pool z))"
    and "wp_sending (so_pool z) = None \<Longrightarrow> wp_channel (so_pool z) = [] \<Longrightarrow>
      list_all (\<lambda>w. w = Idle) (wp_workers (so_pool z)) \<Longrightarrow> sh_writing (so_db z) = [] \<Longrightarrow>
      all_objects (so_db z) = all_of delta_statements (wp_received (so_pool z))"
proof -
  let ?p = "so_pool z"
  have pool: "mset (wp_received ?p) =
      mset (wp_written ?p) + mset (in_hand (wp_workers ?p)) + mset (wp_channel ?p) + mset (one (wp_sending ?p))"
    using assms by (simp add: shore_inv_def pool_inv_def)
  have queued: "mset (sh_submitted (so_db z)) = mset (map snd (sh_writing (so_db z))) + all_objects (so_db z)"
    using assms by (simp add: shore_inv_def shared_inv_def)
  have sub: "mset (sh_submitted (so_db z)) + all_of id (so_todo z) = all_of delta_statements (wp_written ?p @ in_hand (wp_workers ?p))"
    using assms by (simp add: shore_inv_def)
  have "all_objects (so_db z) \<subseteq># all_of delta_statements (wp_written ?p @ in_hand (wp_workers ?p))"
    unfolding sub [symmetric] queued by simp
  also have "\<dots> \<subseteq># all_of delta_statements (wp_received ?p)" by (rule all_of_mono) (simp add: pool)
  finally show "all_objects (so_db z) \<subseteq># all_of delta_statements (wp_received ?p)" .
  assume idle: "wp_sending ?p = None" "wp_channel ?p = []" "list_all (\<lambda>w. w = Idle) (wp_workers ?p)" "sh_writing (so_db z) = []"
  have "in_hand (wp_workers ?p) = []" using idle(3) by (auto simp: in_hand_def list_all_iff)
  then have w: "mset (wp_received ?p) = mset (wp_written ?p @ in_hand (wp_workers ?p))" using pool idle by simp
  have "\<forall>t\<in>set (so_todo z). t = []"
    using assms idle(3) by (auto simp: shore_inv_def todo_ok_def list_all2_conv_all_nth list_all_length in_set_conv_nth)
  then have "all_of id (so_todo z) = {#}" by (simp add: all_of_def)
  then show "all_objects (so_db z) = all_of delta_statements (wp_received ?p)"
    using sub queued idle(4) all_of_cong [OF w, of delta_statements] by simp
qed

section \<open>Properties\<close>

text \<open>C6: From the ship's hub to the database on shore. Let every message the ship's writer received be a delta, let
  deltas and batches of them be decodable after encoding, let each batch arrive at most once, and let
  the writer on shore receive each message that the reader's publisher accepted at most once. Then in every interleaving of the goroutines on the
  ship and on shore, with the races of the batch, the statements sent to the database are, each at most as often, statements of
  the deltas the ship received: nothing is made up and nothing is stored twice. And when all batches have arrived
  and been handed on, and the writer on shore has received all of it and is idle, every statement of
  these deltas has been put on exactly one batch object, once. What an object holds when it is sent is sent; what a racing
  write adds later is lost (\<open>db_write_lost\<close>).\<close>

theorem ship_to_shore:
  assumes "(link_step lib c)\<^sup>*\<^sup>* (link_start now) k" "s = lk_ship k"
    and "list_all (decodes lib) (received_data (sh_inputs s))"
    and "faithful_batches lib (decoded lib ` set (received_data (sh_inputs s)))"
    and "\<And>d. d \<in> decoded lib ` set (received_data (sh_inputs s)) \<Longrightarrow> ml_Marshal lib d = Inr (enc d) \<and> unmarshal (enc d) = Inr d"
    and "(shore_step unmarshal bufferSize)\<^sup>*\<^sup>* (shore_start n) z"
    and "mset (map ha_payload (lk_handlers k)) \<subseteq># mset (map (snd \<circ> compress_batch lib) (sh_started s))"
    and "mset (map Inr (wp_received (so_pool z))) \<subseteq># mset (map unmarshal (accepted_messages (lk_log k)))"
  shows "mset (concat (map snd (sh_sent (so_db z)))) \<subseteq>#
      mset (concat (map (\<lambda>b. statements (WritesMapped (decoded lib b))) (received_data (sh_inputs s)))) \<and>
    (all_arrived lib unmarshal k z \<longrightarrow>
      all_objects (so_db z) = mset (concat (map (\<lambda>b. statements (WritesMapped (decoded lib b))) (received_data (sh_inputs s)))))"
proof -
  let ?all = "map (decoded lib) (received_data (sh_inputs s))" and ?msgs = "\<lambda>pl. encodings lib (batch lib pl)"
  let ?tried = "map (\<lambda>a. snd (snd a)) (lk_log k)"
  have goal: "mset (concat (map (\<lambda>b. statements (WritesMapped (decoded lib b))) (received_data (sh_inputs s)))) =
      all_of delta_statements ?all" by (simp add: all_of_def delta_statements_def comp_def)
  have link: "link_inv lib c now k" by (rule link_inv_reachable [OF assms(1)])
  then have ship: "ship_inv lib c now s" by (simp add: link_inv_def assms(2))
  from started_messages [OF ship assms(3,4), of enc] assms(5)
  obtain ds where ds: "ds @ map (decoded lib) (active (sh_writer s)) = ?all"
    "all_of ?msgs (map (snd \<circ> compress_batch lib) (sh_started s)) = mset (map enc ds)" by blast
  have "set ds \<subseteq> set ?all" unfolding ds(1) [symmetric] by simp
  then have "map unmarshal (map enc ds) = map Inr ds" using assms(5) by fastforce
  then have un: "mset (map unmarshal (map enc ds)) = mset (map Inr ds)" by (rule arg_cong)
  have tried: "mset ?tried + all_of (\<lambda>ha. encodings lib (left_of lib ha)) (lk_handlers k) = all_of ?msgs (map ha_payload (lk_handlers k))"
    by (rule handlers_accounted [OF link])
  have right: "image_mset projr (mset (map Inr xs :: (string + mapped) list)) = mset xs" for xs
    by (simp add: multiset.map_comp comp_def)
  have shore: "shore_inv unmarshal bufferSize n z" by (rule shore_inv_reachable [OF assms(6)])
  have "mset ?tried \<subseteq># all_of ?msgs (map ha_payload (lk_handlers k))" unfolding tried [symmetric] by simp
  also have "\<dots> \<subseteq># mset (map enc ds)" unfolding ds(2) [symmetric] by (rule all_of_mono [OF assms(7)])
  finally have "mset (accepted_messages (lk_log k)) \<subseteq># mset (map enc ds)"
    using accepted_subset by (rule subset_mset.order_trans [rotated])
  then have "mset (map unmarshal (accepted_messages (lk_log k))) \<subseteq># mset (map Inr ds)"
    unfolding un [symmetric] by (rule image_mono)
  with assms(8) have "mset (map Inr (wp_received (so_pool z)) :: (string + mapped) list) \<subseteq># mset (map Inr ds)"
    by (rule subset_mset.order_trans)
  then have "mset (wp_received (so_pool z)) \<subseteq># mset ds"
    using image_mset_subseteq_mono [of _ _ projr] unfolding right [symmetric] by blast
  then have "all_of delta_statements (wp_received (so_pool z)) \<subseteq># all_of delta_statements ?all"
    unfolding ds(1) [symmetric] by (intro all_of_mono) (simp add: subset_mset.add_increasing2)
  moreover have "mset (concat (map snd (sh_sent (so_db z)))) \<subseteq># all_objects (so_db z)"
    using shore by (intro sent_subset_objects) (simp add: shore_inv_def)
  ultimately have safe: "mset (concat (map snd (sh_sent (so_db z)))) \<subseteq># all_of delta_statements ?all"
    using shore_accounted(1) [OF shore] by (meson subset_mset.order_trans)
  have "all_objects (so_db z) = all_of delta_statements ?all" if a: "all_arrived lib unmarshal k z"
  proof -
    note a = a [unfolded all_arrived_def, folded assms(2)]
    have "all_of (\<lambda>ha. encodings lib (left_of lib ha)) (lk_handlers k) = {#}"
      using a by (simp add: all_of_def list_all_iff)
    moreover have "all_of ?msgs (map ha_payload (lk_handlers k)) = mset (map enc ds)"
      unfolding ds(2) [symmetric] using a by (intro all_of_cong) blast
    moreover have "accepted_messages (lk_log k) = ?tried"
      using a by (simp add: accepted_messages_def list_all_iff filter_id_conv [THEN iffD2])
    ultimately have "mset (accepted_messages (lk_log k)) = mset (map enc ds)" using tried by simp
    then have "mset (map unmarshal (accepted_messages (lk_log k))) = mset (map Inr ds)"
      unfolding un [symmetric] by (metis mset_map)
    then have "mset (map Inr (wp_received (so_pool z)) :: (string + mapped) list) = mset (map Inr ds)" using a by simp
    then have "mset (wp_received (so_pool z)) = mset ds" by (metis right)
    moreover have "ds = ?all" using ds(1) a by simp
    moreover have "all_objects (so_db z) = all_of delta_statements (wp_received (so_pool z))"
      using a by (intro shore_accounted(2) [OF shore]) simp_all
    ultimately show ?thesis using all_of_cong [of "wp_received (so_pool z)" ds delta_statements] by simp
  qed
  with safe show ?thesis unfolding goal by blast
qed

text \<open>A run for the witness: one delta, which crosses and is stored.\<close>

definition ship_delta :: mapped where
  "ship_delta =
     \<lparr>m_Context = ''vessels.urn:mrn:imo:mmsi:1'', m_Origin = ''vessels.urn:mrn:imo:mmsi:1'',
      m_Updates = [\<lparr>upd_Source = NewSource, upd_Timestamp = 0,
        upd_Values = [\<lparr>val_Path = ''p'', val_Value = GInt KInt 5\<rparr>]\<rparr>]\<rparr>"

definition ship_lib :: mqtt_lib where
  "ship_lib =
     \<lparr>ml_Unmarshal = (\<lambda>b. Inr ship_delta), ml_Marshal = (\<lambda>m. Inr [1]),
      ml_MarshalList = (\<lambda>ds. Inr (replicate (length ds) 1)),
      ml_UnmarshalList = (\<lambda>bs. Inr (replicate (length bs) ship_delta)),
      ml_EncodeAll = (\<lambda>bs. 0 # bs), ml_DecodeAll = (\<lambda>bs. Inr (tl bs))\<rparr>"

definition ship_statement :: statement where
  "ship_statement = hd (delta_statements ship_delta)"

lemma ship_statements: "delta_statements ship_delta = [ship_statement]"
  by (simp add: ship_statement_def delta_statements_def ship_delta_def ToSingleValueMapped_def)

definition stored_pool :: "mapped writer_pool" where
  "stored_pool =
     \<lparr>wp_counters = \<lparr>pw_messagesReceived = 1, pw_messagesUnmarshalled = 1\<rparr>, wp_messagesWritten = 1, wp_sending = None,
      wp_channel = [], wp_workers = [Idle], wp_received = [ship_delta], wp_written = [ship_delta]\<rparr>"

definition queued_db :: shared where
  "queued_db = shared_init\<lparr>sh_objects := (\<lambda>_. [])(0 := [ship_statement]), sh_submitted := [ship_statement]\<rparr>"

definition stored_shore :: shore where
  "stored_shore = \<lparr>so_pool = stored_pool, so_todo = [[]],
     so_db = queued_db\<lparr>sh_batch := 1, sh_next := 2, sh_sent := [(0, [ship_statement])]\<rparr>\<rparr>"

lemma shore_run_db:
  "shared_step (so_db z) h \<Longrightarrow> sh_submitted h = sh_submitted (so_db z) \<Longrightarrow> z' = z\<lparr>so_db := h\<rparr> \<Longrightarrow> shore_step u b z z'"
  using shore_step.database by simp

lemma shore_run_pool:
  "pool_step u b (so_pool z) w \<Longrightarrow> wp_written w = wp_written (so_pool z) \<Longrightarrow>
     z' = z\<lparr>so_pool := w, so_todo := todo_of (wp_workers (so_pool z)) (wp_workers w) (so_todo z)\<rparr> \<Longrightarrow> shore_step u b z z'"
  using shore_step.pool by simp

lemma stored_reachable: "(shore_step (\<lambda>_. Inr ship_delta) 0)\<^sup>*\<^sup>* (shore_start 1) stored_shore"
proof -
  let ?u = "\<lambda>_ :: byte list. Inr ship_delta :: string + mapped"
  let ?step = "shore_step ?u 0"
  let ?p1 = "stored_pool\<lparr>wp_messagesWritten := 0, wp_sending := Some ship_delta, wp_written := []\<rparr>"
  let ?p2 = "stored_pool\<lparr>wp_messagesWritten := 0, wp_workers := [Writing ship_delta], wp_written := []\<rparr>"
  let ?p3 = "stored_pool\<lparr>wp_messagesWritten := 0, wp_workers := [Counting]\<rparr>"
  let ?z0 = "shore_start 1"
  let ?z1 = "\<lparr>so_pool = ?p1, so_todo = [[]], so_db = shared_init\<rparr>"
  let ?z2 = "\<lparr>so_pool = ?p2, so_todo = [[ship_statement]], so_db = shared_init\<rparr>"
  let ?z3 = "\<lparr>so_pool = ?p2, so_todo = [[]], so_db = shared_load ship_statement shared_init\<rparr>"
  let ?z4 = "\<lparr>so_pool = ?p2, so_todo = [[]], so_db = queued_db\<rparr>"
  let ?z5 = "\<lparr>so_pool = ?p3, so_todo = [[]], so_db = queued_db\<rparr>"
  let ?z6 = "\<lparr>so_pool = stored_pool, so_todo = [[]], so_db = queued_db\<rparr>"
  let ?z7 = "\<lparr>so_pool = stored_pool, so_todo = [[]], so_db = queued_db\<lparr>sh_flushing := 1\<rparr>\<rparr>"
  let ?z8 = "\<lparr>so_pool = stored_pool, so_todo = [[]], so_db = queued_db\<lparr>sh_taken := [0], sh_batch := 1, sh_next := 2\<rparr>\<rparr>"
  note defs = stored_pool_def shore_start_def NewPostgresqlWriter_def todo_of_def ship_statements shared_load_def queued_db_def shared_init_def
  have 1: "?step ?z0 ?z1"
    using pool_step.receives [of "so_pool ?z0" ?u "Received [1]" _ "Some ship_delta" 0]
    by (rule shore_run_pool) (simp_all add: defs pg_receive_step_def Let_def)
  have 2: "?step ?z1 ?z2"
    using pool_step.hands [of ?p1 ship_delta 0 ?u 0] by (intro shore_run_pool [where w = ?p2]) (simp_all add: defs)
  have 3: "?step ?z2 ?z3" using shore_step.loads [of 0 ?z2 ship_statement "[]" ?u 0] by simp
  have 4: "?step ?z3 ?z4"
    using shared_step.queue [of "so_db ?z3" "[]" 0 ship_statement "[]"]
    by (intro shore_run_db [where h = queued_db]) (simp_all add: defs)
  have 5: "?step ?z4 ?z5" using shore_step.finishes [of 0 ?z4 ship_delta ?u 0] by (simp add: defs)
  have 6: "?step ?z5 ?z6"
    using pool_step.counts [of 0 ?p3 ?u 0] by (intro shore_run_pool [where w = stored_pool]) (simp_all add: defs)
  have 7: "?step ?z6 ?z7"
    using shared_step.check [of queued_db] by (intro shore_run_db [where h = "queued_db\<lparr>sh_flushing := 1\<rparr>"]) (simp_all add: defs)
  have 8: "?step ?z7 ?z8"
    using shared_step.takes [of "so_db ?z7" 0] by (intro shore_run_db [where h = "so_db ?z8"]) (simp_all add: defs numeral_2_eq_2)
  have 9: "?step ?z8 stored_shore"
    using shared_step.sends [of "so_db ?z8" "[]" 0 "[]"]
    by (intro shore_run_db [where h = "so_db stored_shore"]) (simp_all add: defs stored_shore_def)
  show ?thesis
    using 1 2 3 4 5 6 7 8 9 by (meson converse_rtranclp_into_rtranclp r_into_rtranclp)
qed

theorem ship_to_shore_witness:
  "(shore_step (\<lambda>_. Inr ship_delta) 0)\<^sup>*\<^sup>* (shore_start 1) stored_shore \<and>
   concat (map snd (sh_sent (so_db stored_shore))) = [ship_statement] \<and> all_objects (so_db stored_shore) = {#ship_statement#}"
proof -
  have link: "(link_step ship_lib flushing_config)\<^sup>*\<^sup>* (link_start 0) handled_link"
    by (rule handled_link_reachable [where d = ship_delta]) (simp_all add: ship_lib_def batch_def)
  have data: "received_data (sh_inputs (lk_ship handled_link)) = [[1]]"
    by (simp add: handled_link_def flushed_ship_def one_input_def)
  have dec: "decoded ship_lib b = ship_delta" for b by (simp add: decoded_def ship_lib_def)
  have "ds = replicate (length ds) ship_delta" if "set ds \<subseteq> {ship_delta}" for ds :: "mapped list"
    using that by (induction ds) auto
  then have faithful: "faithful_batches ship_lib (decoded ship_lib ` set (received_data (sh_inputs (lk_ship handled_link))))"
    unfolding data by (auto simp: faithful_batches_def dec) (auto simp: ship_lib_def)
  have arrived: "all_arrived ship_lib (\<lambda>_. Inr ship_delta) handled_link stored_shore"
    by (simp add: all_arrived_def handled_link_def flushed_ship_def stored_shore_def stored_pool_def queued_db_def shared_init_def
        active_def NewMqttWriter_def compress_batch_def left_of_def accepted_messages_def ship_lib_def)
  have "all_objects (so_db stored_shore) =
      mset (concat (map (\<lambda>b. statements (WritesMapped (decoded ship_lib b))) (received_data (sh_inputs (lk_ship handled_link)))))"
  proof (rule ship_to_shore [where enc = "\<lambda>_. [1]", OF link refl _ faithful _ stored_reachable, THEN conjunct2, THEN mp, OF _ _ _ _ arrived])
    show "list_all (decodes ship_lib) (received_data (sh_inputs (lk_ship handled_link)))"
      unfolding data by (simp add: decodes_def ship_lib_def)
    show "ml_Marshal ship_lib d = Inr [1] \<and> Inr ship_delta = (Inr d :: string + mapped)"
      if "d \<in> decoded ship_lib ` set (received_data (sh_inputs (lk_ship handled_link)))" for d
      using that unfolding data by (auto simp: dec) (simp add: ship_lib_def)
  qed (use arrived in \<open>simp_all add: all_arrived_def\<close>)
  also have "\<dots> = {#ship_statement#}"
    unfolding data using ship_statements by (simp add: dec delta_statements_def)
  finally show ?thesis using stored_reachable by (simp add: stored_shore_def)
qed

end
