(* ===== verification/TransferRun.thy ===== *)
theory TransferRun
  imports DataTransfer Config ShipToShore
begin

text \<open>
  The goroutines of \<open>TransferRequester.Run\<close> in \<open>transfer/request.go\<close> that ask for the data of incomplete
  periods: the loop around \<open>sendDataRequests\<close>, the goroutine it starts for every origin, the channel and the
  workers; and the constructors and the subscriptions of the requester and of the responder.
\<close>

section \<open>Requester and responder\<close>

record transfer_requester =
  trq_mqttConfig :: mqtt_config
  trq_sleepBetweenCountRequests :: duration
  trq_sleepBetweenDataRequests :: duration
  trq_numberOfRequestWorkers :: nat
  trq_maxPeriodsToRequest :: int

text \<open>
  \<open>None\<close>: \<open>make\<close> panics for a negative number of workers. The channel has as many places as there are workers.
\<close>

definition NewTransferRequester :: "transfer_config \<Rightarrow> transfer_requester option" where
  "NewTransferRequester c =
     (let workers = (if trc_NumberOfRequestWorkers c = 0 then 5 else trc_NumberOfRequestWorkers c)
      in if workers < 0 then None
         else Some \<lparr>trq_mqttConfig = trc_MQTTConfig c,
                    trq_sleepBetweenCountRequests = trc_SleepBetweenCountRequests c,
                    trq_sleepBetweenDataRequests = trc_SleepBetweenDataRequests c,
                    trq_numberOfRequestWorkers = nat workers,
                    trq_maxPeriodsToRequest = trc_MaxPeriodsToRequest c\<rparr>)"

definition TransferRequester_Run ::
    "client_options \<Rightarrow> (client_options \<Rightarrow> string option) \<Rightarrow> transfer_requester \<Rightarrow> string + mqtt_client" where
  "TransferRequester_Run defaults connect t = New defaults connect (trq_mqttConfig t) (respondTopic ''#'')"

definition TransferResponder_Run ::
    "client_options \<Rightarrow> (client_options \<Rightarrow> string option) \<Rightarrow> transfer_config \<Rightarrow> string + mqtt_client" where
  "TransferResponder_Run defaults connect c = New defaults connect (trc_MQTTConfig c) (requestTopic (trc_Origin c))"

text \<open>
  The time a goroutine of \<open>sendCountRequests\<close> waits before it starts; \<open>rand.Intn\<close>, a parameter, panics
  (\<open>None\<close>) unless its argument is positive.
\<close>

definition spread_delay :: "(int \<Rightarrow> int) \<Rightarrow> duration \<Rightarrow> duration option" where
  "spread_delay intn sleepBetweenCountRequests =
     (if sint sleepBetweenCountRequests \<le> 0 then None
      else Some (word_of_int (intn (sint sleepBetweenCountRequests))))"

section \<open>The goroutines\<close>

text \<open>
  The goroutine of an origin has the periods of the origin, and the index of the one it handles next. A
  worker waits for a period, queries the database for one, or has returned.
\<close>

record producer =
  po_origin :: string
  po_periods :: "time list"
  po_next :: nat

datatype data_worker = Waiting | Querying string time | Returned

record gauges =
  gg_dataMissingPeriods :: "(string, nat) gomap"
  gg_firstPeriodRequested :: "(string, time) gomap"
  gg_lastPeriodRequested :: "(string, time) gomap"

text \<open>
  \<open>rr_requests\<close> are the requests that were made and \<open>rr_messages\<close> what was published for them; \<open>rr_failed\<close>
  the periods whose query failed; \<open>rr_asked\<close> the periods that \<open>sendDataRequests\<close> selects, of all rounds.
\<close>

record request_run =
  rr_db :: postgresql
  rr_log :: "(string \<times> request_message) list"
  rr_producers :: "producer list"
  rr_channel :: "(string \<times> time) list"
  rr_workers :: "data_worker list"
  rr_gauges :: gauges
  rr_requests :: "(string \<times> request_message) list"
  rr_messages :: "(string \<times> byte list) list"
  rr_failed :: "(string \<times> time) list"
  rr_asked :: "(string \<times> time) list"

definition request_start :: "nat \<Rightarrow> postgresql \<Rightarrow> request_run" where
  "request_start n db =
     \<lparr>rr_db = db, rr_log = [], rr_producers = [], rr_channel = [], rr_workers = replicate n Waiting,
      rr_gauges = \<lparr>gg_dataMissingPeriods = [], gg_firstPeriodRequested = [], gg_lastPeriodRequested = []\<rparr>,
      rr_requests = [], rr_messages = [], rr_failed = [], rr_asked = []\<rparr>"

text \<open>The goroutines of a round, one for each origin, and the gauge each sets first.\<close>

definition start_producers :: "(string, time list) gomap \<Rightarrow> producer list" where
  "start_producers origins =
     map (\<lambda>(origin, periods). \<lparr>po_origin = origin, po_periods = periods, po_next = 0\<rparr>) origins"

definition set_missing :: "(string, time list) gomap \<Rightarrow> gauges \<Rightarrow> gauges" where
  "set_missing origins g =
     g\<lparr>gg_dataMissingPeriods :=
         foldl (\<lambda>m (origin, periods). AList.update origin (length periods) m) (gg_dataMissingPeriods g) origins\<rparr>"

text \<open>
  How the goroutine of an origin ends: after the last period, or at the first one beyond the maximum. No
  origin has an empty list of periods, whose first element is read.
\<close>

definition producer_finished :: "int \<Rightarrow> producer \<Rightarrow> bool" where
  "producer_finished maxPeriods p \<longleftrightarrow> length (po_periods p) \<le> po_next p \<or> int (po_next p) > maxPeriods"

definition set_requested :: "producer \<Rightarrow> gauges \<Rightarrow> gauges" where
  "set_requested p g =
     (let g = (if po_next p < length (po_periods p)
               then g\<lparr>gg_firstPeriodRequested :=
                        AList.update (po_origin p) (po_periods p ! po_next p) (gg_firstPeriodRequested g)\<rparr>
               else g)
      in g\<lparr>gg_lastPeriodRequested := AList.update (po_origin p) (hd (po_periods p)) (gg_lastPeriodRequested g)\<rparr>)"

inductive request_step ::
    "(request_message \<Rightarrow> string + byte list) \<Rightarrow> nat \<Rightarrow> int \<Rightarrow> request_run \<Rightarrow> request_run \<Rightarrow> bool"
  for marshal capacity maxPeriods where
  round: "SelectIncompletePeriods ans (rr_db s) = (db, Inr origins) \<Longrightarrow>
     request_step marshal capacity maxPeriods s
       (s\<lparr>rr_db := db, rr_producers := rr_producers s @ start_producers origins,
          rr_gauges := set_missing origins (rr_gauges s),
          rr_asked := rr_asked s @ the (snd (sendDataRequests maxPeriods ans (rr_db s)))\<rparr>)"
| no_round: "SelectIncompletePeriods ans (rr_db s) = (db, Inl err) \<Longrightarrow>
     request_step marshal capacity maxPeriods s (s\<lparr>rr_db := db\<rparr>)"
| puts: "rr_producers s = ps @ p # qs \<Longrightarrow> \<not> producer_finished maxPeriods p \<Longrightarrow> length (rr_channel s) < capacity \<Longrightarrow>
     request_step marshal capacity maxPeriods s
       (s\<lparr>rr_producers := ps @ p\<lparr>po_next := po_next p + 1\<rparr> # qs,
          rr_channel := rr_channel s @ [(po_origin p, po_periods p ! po_next p)]\<rparr>)"
| ends: "rr_producers s = ps @ p # qs \<Longrightarrow> producer_finished maxPeriods p \<Longrightarrow>
     request_step marshal capacity maxPeriods s
       (s\<lparr>rr_producers := ps @ qs, rr_gauges := set_requested p (rr_gauges s)\<rparr>)"
| takes: "rr_channel s = (origin, period) # rest \<Longrightarrow> i < length (rr_workers s) \<Longrightarrow> rr_workers s ! i = Waiting \<Longrightarrow>
     request_step marshal capacity maxPeriods s
       (s\<lparr>rr_channel := rest, rr_workers := (rr_workers s)[i := Querying origin period]\<rparr>)"
| requests: "i < length (rr_workers s) \<Longrightarrow> rr_workers s ! i = Querying origin period \<Longrightarrow>
     SelectCountPerUuid ans (rr_db s) = (db, Inr counts) \<Longrightarrow>
     send_request marshal log_ans origin (data_request u period counts) (db, rr_log s) = ((db', entries), out) \<Longrightarrow>
     request_step marshal capacity maxPeriods s
       (s\<lparr>rr_db := db', rr_log := entries, rr_workers := (rr_workers s)[i := Waiting],
          rr_requests := rr_requests s @ [(origin, data_request u period counts)],
          rr_messages := rr_messages s @ out\<rparr>)"
| returns: "i < length (rr_workers s) \<Longrightarrow> rr_workers s ! i = Querying origin period \<Longrightarrow>
     SelectCountPerUuid ans (rr_db s) = (db, Inl err) \<Longrightarrow>
     request_step marshal capacity maxPeriods s
       (s\<lparr>rr_db := db, rr_workers := (rr_workers s)[i := Returned], rr_failed := rr_failed s @ [(origin, period)]\<rparr>)"

section \<open>Lemmas\<close>

definition worker_periods :: "data_worker \<Rightarrow> (string \<times> time) list" where
  "worker_periods w = (case w of Querying origin period \<Rightarrow> [(origin, period)] | _ \<Rightarrow> [])"

lemma worker_periods_simps [simp]:
  "worker_periods Waiting = []" "worker_periods Returned = []"
  "worker_periods (Querying origin period) = [(origin, period)]"
  by (simp_all add: worker_periods_def)

definition producer_periods :: "int \<Rightarrow> producer \<Rightarrow> (string \<times> time) list" where
  "producer_periods maxPeriods p =
     map (Pair (po_origin p)) (drop (po_next p) (data_periods maxPeriods 0 (po_periods p)))"

definition request_period :: "string \<times> request_message \<Rightarrow> string \<times> time" where
  "request_period r = (fst r, rq_PeriodStart (snd r))"

definition accounted :: "int \<Rightarrow> request_run \<Rightarrow> (string \<times> time) multiset" where
  "accounted maxPeriods s =
     mset (map request_period (rr_requests s)) + mset (rr_failed s) +
     mset (concat (map worker_periods (rr_workers s))) + mset (rr_channel s) +
     mset (concat (map (producer_periods maxPeriods) (rr_producers s)))"

definition returned_workers :: "data_worker list \<Rightarrow> nat" where
  "returned_workers ws = length (filter (\<lambda>w. w = Returned) ws)"

lemma producer_periods_put:
  "\<not> producer_finished maxPeriods p \<Longrightarrow>
     producer_periods maxPeriods p =
       (po_origin p, po_periods p ! po_next p) # producer_periods maxPeriods (p\<lparr>po_next := po_next p + 1\<rparr>)"
proof -
  assume "\<not> producer_finished maxPeriods p"
  then have n: "po_next p < length (po_periods p)" "int (po_next p) \<le> maxPeriods" by (simp_all add: producer_finished_def)
  then have k: "po_next p < nat (maxPeriods + 1)" by linarith
  then have "drop (po_next p) (take (nat (maxPeriods + 1)) (po_periods p)) =
      (po_periods p ! po_next p) # drop (Suc (po_next p)) (take (nat (maxPeriods + 1)) (po_periods p))"
    using n by (subst Cons_nth_drop_Suc [symmetric]) simp_all
  then show ?thesis by (simp add: producer_periods_def data_periods_take)
qed

lemma producer_periods_finished: "producer_finished maxPeriods p \<Longrightarrow> producer_periods maxPeriods p = []"
proof -
  assume "producer_finished maxPeriods p"
  then have "length (po_periods p) \<le> po_next p \<or> nat (maxPeriods + 1) \<le> po_next p"
    by (auto simp: producer_finished_def)
  then show ?thesis by (auto simp: producer_periods_def data_periods_take)
qed

lemma producer_periods_start:
  "concat (map (producer_periods maxPeriods) (start_producers origins)) =
     concat (map (\<lambda>(origin, periods). map (Pair origin) (data_periods maxPeriods 0 periods)) origins)"
  by (simp add: start_producers_def producer_periods_def comp_def case_prod_unfold)

text \<open>What a step of one worker does to what all workers have, and to the number of those that returned.\<close>

lemma mset_concat_update:
  "i < length ws \<Longrightarrow> mset (concat (map f (ws[i := w]))) + mset (f (ws ! i)) =
     mset (concat (map f ws)) + mset (f w)"
proof (induction ws arbitrary: i)
  case (Cons x ws)
  then show ?case by (cases i) (auto simp: ac_simps)
qed simp

lemma returned_workers_simps [simp]:
  "returned_workers [] = 0"
  "returned_workers (w # ws) = (if w = Returned then 1 else 0) + returned_workers ws"
  by (simp_all add: returned_workers_def)

lemma returned_workers_update:
  "i < length ws \<Longrightarrow> returned_workers (ws[i := w]) + (if ws ! i = Returned then 1 else 0) =
     returned_workers ws + (if w = Returned then 1 else 0)"
proof (induction ws arbitrary: i)
  case (Cons x ws)
  show ?case
  proof (cases i)
    case 0
    then show ?thesis by simp
  next
    case (Suc j)
    then have "j < length ws" using Cons.prems by simp
    from Cons.IH [OF this] Suc show ?thesis by simp
  qed
qed simp

lemma returned_workers_le: "returned_workers ws \<le> length ws"
  by (simp add: returned_workers_def)

lemma all_returned: "returned_workers ws = length ws \<Longrightarrow> \<forall>w\<in>set ws. w = Returned"
proof (induction ws)
  case (Cons w ws)
  then show ?case using returned_workers_le [of ws] by (cases "w = Returned") simp_all
qed simp

definition request_messages ::
    "(request_message \<Rightarrow> string + byte list) \<Rightarrow> (string \<times> request_message) list \<Rightarrow> (string \<times> byte list) list" where
  "request_messages marshal requests = concat (map (\<lambda>(origin, r). sendMQTTCommand marshal origin r) requests)"

definition request_inv ::
    "(request_message \<Rightarrow> string + byte list) \<Rightarrow> nat \<Rightarrow> nat \<Rightarrow> int \<Rightarrow> request_run \<Rightarrow> bool" where
  "request_inv marshal n capacity maxPeriods s \<longleftrightarrow>
     accounted maxPeriods s = mset (rr_asked s) \<and>
     length (rr_channel s) \<le> capacity \<and>
     length (rr_workers s) = n \<and> returned_workers (rr_workers s) = length (rr_failed s) \<and>
     rr_messages s = request_messages marshal (rr_requests s) \<and>
     (\<forall>r\<in>set (rr_requests s). rq_Command (snd r) = dataCmd)"

lemma request_inv_start: "request_inv marshal n capacity maxPeriods (request_start n db)"
proof -
  have "concat (map worker_periods (replicate n Waiting)) = []" by (induction n) simp_all
  then show ?thesis
    by (simp add: request_inv_def accounted_def request_start_def returned_workers_def request_messages_def)
qed

lemma request_inv_step:
  "request_step marshal capacity maxPeriods s s' \<Longrightarrow> request_inv marshal n capacity maxPeriods s \<Longrightarrow>
     request_inv marshal n capacity maxPeriods s'"
proof (induction rule: request_step.induct)
  case (round ans s db origins)
  then have "the (snd (sendDataRequests maxPeriods ans (rr_db s))) =
      concat (map (producer_periods maxPeriods) (start_producers origins))"
    by (simp add: sendDataRequests_def producer_periods_start)
  with round.prems show ?case by (simp add: request_inv_def accounted_def ac_simps)
next
  case (no_round ans s db err)
  then show ?case by (simp add: request_inv_def accounted_def)
next
  case (puts s ps p qs)
  then show ?case by (simp add: request_inv_def accounted_def producer_periods_put [of maxPeriods p])
next
  case (ends s ps p qs)
  then show ?case by (simp add: request_inv_def accounted_def producer_periods_finished)
next
  case (takes s origin period rest i)
  with mset_concat_update [of i "rr_workers s" worker_periods "Querying origin period"]
    returned_workers_update [of i "rr_workers s" "Querying origin period"]
  show ?case by (simp add: request_inv_def accounted_def)
next
  case (requests i s origin period ans db counts log_ans u db' entries out)
  then have "out = sendMQTTCommand marshal origin (data_request u period counts)"
    by (simp add: send_request_def Let_def)
  with requests mset_concat_update [of i "rr_workers s" worker_periods Waiting, symmetric]
    returned_workers_update [of i "rr_workers s" Waiting]
  show ?case
    by (simp add: request_inv_def accounted_def request_messages_def request_period_def data_request_def)
next
  case (returns i s origin period ans db err)
  with mset_concat_update [of i "rr_workers s" worker_periods Returned, symmetric]
    returned_workers_update [of i "rr_workers s" Returned]
  show ?case by (simp add: request_inv_def accounted_def)
qed

lemma request_inv_reachable:
  "(request_step marshal capacity maxPeriods)\<^sup>*\<^sup>* (request_start n db) s \<Longrightarrow> request_inv marshal n capacity maxPeriods s"
  by (induction rule: rtranclp_induct) (auto intro: request_inv_start request_inv_step)

text \<open>Without workers nothing changes but what waits.\<close>

lemma no_workers_step:
  "request_step marshal capacity maxPeriods s s' \<Longrightarrow> \<forall>w\<in>set (rr_workers s). w = Returned \<Longrightarrow>
     rr_workers s' = rr_workers s \<and> rr_requests s' = rr_requests s \<and> rr_messages s' = rr_messages s"
proof (induction rule: request_step.induct)
  case (takes s origin period rest i)
  then have "rr_workers s ! i = Returned" using nth_mem [of i "rr_workers s"] by fastforce
  with takes.hyps show ?case by simp
next
  case (requests i s origin period ans db counts log_ans u db' entries out)
  then have "rr_workers s ! i = Returned" using nth_mem [of i "rr_workers s"] by fastforce
  with requests.hyps show ?case by simp
next
  case (returns i s origin period ans db err)
  then have "rr_workers s ! i = Returned" using nth_mem [of i "rr_workers s"] by fastforce
  with returns.hyps show ?case by simp
qed simp_all

lemma no_workers_run:
  "(request_step marshal capacity maxPeriods)\<^sup>*\<^sup>* s s' \<Longrightarrow> \<forall>w\<in>set (rr_workers s). w = Returned \<Longrightarrow>
     rr_workers s' = rr_workers s \<and> rr_requests s' = rr_requests s \<and> rr_messages s' = rr_messages s"
proof (induction rule: rtranclp_induct)
  case (step s' s'')
  then show ?case using no_workers_step [of marshal capacity maxPeriods s' s''] by simp
qed simp

section \<open>Theorems\<close>

text \<open>C10: Every period that \<open>sendDataRequests\<close> selects is requested at most once for its selection. Whatever the
  goroutines do, the periods selected so far are those requested, those whose query failed, and those that still wait
  with a worker, in the channel or with the goroutine of their origin; what is published is one message for every
  request that could be marshalled, on the topic of the origin of the period; and the channel never
  holds more than its capacity. But every failed query costs a worker: after as many failures as there
  are workers, nothing is requested or published any more, however long the program runs.\<close>

theorem data_requests_accounted:
  assumes "(request_step marshal n maxPeriods)\<^sup>*\<^sup>* (request_start n db) s"
  shows "mset (map request_period (rr_requests s)) + mset (rr_failed s) +
         mset (concat (map worker_periods (rr_workers s))) + mset (rr_channel s) +
         mset (concat (map (producer_periods maxPeriods) (rr_producers s))) = mset (rr_asked s) \<and>
     length (rr_channel s) \<le> n \<and>
     rr_messages s = concat (map (\<lambda>(origin, r). sendMQTTCommand marshal origin r) (rr_requests s)) \<and>
     length (rr_failed s) \<le> n \<and>
     (\<forall>s'. length (rr_failed s) = n \<longrightarrow> (request_step marshal n maxPeriods)\<^sup>*\<^sup>* s s' \<longrightarrow>
        rr_requests s' = rr_requests s \<and> rr_messages s' = rr_messages s)"
proof -
  have inv: "request_inv marshal n n maxPeriods s" using assms by (rule request_inv_reachable)
  have n: "length (rr_workers s) = n" "returned_workers (rr_workers s) = length (rr_failed s)"
    using inv by (simp_all add: request_inv_def)
  have stopped: "rr_requests s' = rr_requests s \<and> rr_messages s' = rr_messages s"
    if "length (rr_failed s) = n" "(request_step marshal n maxPeriods)\<^sup>*\<^sup>* s s'" for s'
    using no_workers_run [OF that(2)] all_returned [of "rr_workers s"] n that(1) by simp
  have failed: "length (rr_failed s) \<le> n" using returned_workers_le [of "rr_workers s"] n by simp
  from inv show ?thesis
    unfolding request_inv_def accounted_def request_messages_def by (intro conjI failed allI impI stopped) blast+
qed

theorem data_requests_accounted_witness:
  "\<exists>s. (request_step (\<lambda>_. Inr [1]) 1 500)\<^sup>*\<^sup>* (request_start 1 (NewPostgresqlDatabase 1 0)) s \<and>
     rr_failed s = [(''o'', 7)] \<and>
     (\<forall>s'. (request_step (\<lambda>_. Inr [1]) 1 500)\<^sup>*\<^sup>* s s' \<longrightarrow> rr_messages s' = rr_messages s)"
proof -
  let ?step = "request_step (\<lambda>_. Inr [1]) 1 500"
  let ?db = "NewPostgresqlDatabase 1 0"
  let ?s0 = "request_start 1 ?db"
  let ?ans = "QueryRows [Inr (''o'', 7)] None"
  let ?s1 = "?s0\<lparr>rr_db := ?db, rr_producers := rr_producers ?s0 @ start_producers [(''o'', [7])],
    rr_gauges := set_missing [(''o'', [7])] (rr_gauges ?s0),
    rr_asked := rr_asked ?s0 @ the (snd (sendDataRequests 500 ?ans (rr_db ?s0)))\<rparr>"
  let ?p = "\<lparr>po_origin = ''o'', po_periods = [7], po_next = 0\<rparr>"
  let ?s2 = "?s1\<lparr>rr_producers := [] @ ?p\<lparr>po_next := po_next ?p + 1\<rparr> # [],
    rr_channel := rr_channel ?s1 @ [(po_origin ?p, po_periods ?p ! po_next ?p)]\<rparr>"
  let ?s3 = "?s2\<lparr>rr_channel := [], rr_workers := (rr_workers ?s2)[0 := Querying ''o'' 7]\<rparr>"
  let ?s4 = "?s3\<lparr>rr_db := fst (SelectCountPerUuid QueryTimeout (rr_db ?s3)),
    rr_workers := (rr_workers ?s3)[0 := Returned], rr_failed := rr_failed ?s3 @ [(''o'', 7)]\<rparr>"
  have 1: "?step ?s0 ?s1"
    using SelectIncompletePeriods_rows [of "[(''o'', 7)]" ?db]
    by (intro request_step.round) (simp add: request_start_def group_row_def)
  have 2: "?step ?s1 ?s2"
    by (rule request_step.puts) (simp_all add: request_start_def start_producers_def producer_finished_def)
  have 3: "?step ?s2 ?s3"
    by (rule request_step.takes) (simp_all add: request_start_def)
  have 4: "?step ?s3 ?s4"
  proof (rule request_step.returns)
    show "SelectCountPerUuid QueryTimeout (rr_db ?s3) =
        (fst (SelectCountPerUuid QueryTimeout (rr_db ?s3)), Inl DeadlineExceeded)"
      by (simp add: SelectCountPerUuid_def read_answer_def)
  qed (simp_all add: request_start_def)
  have run: "?step\<^sup>*\<^sup>* ?s0 ?s4"
    by (rule converse_rtranclp_into_rtranclp [where r = ?step, OF 1 converse_rtranclp_into_rtranclp [where r = ?step,
      OF 2 converse_rtranclp_into_rtranclp [where r = ?step, OF 3 r_into_rtranclp [where r = ?step, OF 4]]]])
  have failed: "rr_failed ?s4 = [(''o'', 7)]" by (simp add: request_start_def)
  have "rr_messages s' = rr_messages ?s4" if "?step\<^sup>*\<^sup>* ?s4 s'" for s'
    using data_requests_accounted [OF run] failed that by simp
  with run failed show ?thesis by blast
qed

text \<open>The gauge of the first period requested shows a period that is not requested, when there are more
  periods than are requested at a time; otherwise it is not set at all.\<close>

theorem gauge_not_requested:
  assumes "producer_finished maxPeriods p" "po_next p < length (po_periods p)" "distinct (po_periods p)"
  shows "\<exists>q. map_of (gg_firstPeriodRequested (set_requested p g)) (po_origin p) = Some q \<and>
    q \<notin> set (data_periods maxPeriods 0 (po_periods p))"
proof -
  let ?q = "po_periods p ! po_next p"
  have "nat (maxPeriods + 1) \<le> po_next p" using assms(1,2) by (auto simp: producer_finished_def)
  then have "?q \<in> set (drop (nat (maxPeriods + 1)) (po_periods p))"
    using assms(2) nth_mem [of "po_next p - nat (maxPeriods + 1)" "drop (nat (maxPeriods + 1)) (po_periods p)"]
    by simp
  moreover have "set (take n (po_periods p)) \<inter> set (drop n (po_periods p)) = {}" for n
    using assms(3) by (simp only: set_take_disj_set_drop_if_distinct le_refl)
  ultimately have "?q \<notin> set (data_periods maxPeriods 0 (po_periods p))"
    by (auto simp: data_periods_take)
  moreover have "map_of (gg_firstPeriodRequested (set_requested p g)) (po_origin p) = Some ?q"
    using assms(2) by (simp add: set_requested_def Let_def update_conv')
  ultimately show ?thesis by blast
qed

text \<open>The constructor: five workers unless the configuration says otherwise, and a panic for a negative number.\<close>

theorem requester_workers:
  "NewTransferRequester c = None \<longleftrightarrow> trc_NumberOfRequestWorkers c < 0"
  "NewTransferRequester c = Some t \<Longrightarrow> 0 < trq_numberOfRequestWorkers t"
  "map_option trq_numberOfRequestWorkers (NewTransferRequester default_transfer_config) = Some 5"
  by (auto simp: NewTransferRequester_def Let_def default_transfer_config_def split: if_splits)

text \<open>A response on the topic of the responder is attributed to the responder's origin.\<close>

lemma respond_origin: "trim_prefix (respondTopic origin) (respondTopic []) = origin"
  by (simp add: trim_prefix_def respondTopic_def)

end
