(* ===== verification/CommandLine.thy ===== *)
theory CommandLine
  imports Commands Sockets StreamConnection LineStream WriterPool TransferRun
begin

text \<open>
  \<open>cmd/\<close> and \<open>main.go\<close>: the commands with their flags, what each of them starts, and the signals that end
  the program. The command library (\<open>cobra\<close>) is told of subcommands, of flags that set variables, and of
  flags that are required; reading a command line is the library's. What the configuration files hold, the
  sockets and the other libraries are parameters.
\<close>

section \<open>Commands and flags\<close>

datatype variable =
    CfgFile | ProfilingAndMetricsPort | SubscribeURL | PublishURL | ProxySubscribeURLs | WebsocketURL | SelfContext

datatype handler =
    HandleConnect | HandleFilter | HandleMap | HandleProxy | HandleRateLimit | HandleMQTTRead | HandleSignalKWS
  | HandleTest | HandleTransferRequest | HandleTransferRespond | HandleWriteDatabaseRaw | HandleWriteDatabaseMapped
  | HandleWriteMQTT | HandleWriteSignalK | HandleWriteStdOutRaw | HandleWriteStdOutMapped | HandleWriteLWE

datatype command_id =
    RootCmd | ConnectCmd | FilterCmd | MapCmd | ProxyCmd | RateLimitCmd | ReadCmd | MqttReadCmd | SignalKWSCmd | TestCmd
  | TransferCmd | TransferRequestCmd | TransferRespondCmd | WriteCmd | WriteDatabaseCmd | WriteDatabaseRawCmd
  | WriteDatabaseMappedCmd | WriteMQTTCmd | WriteSignalKCmd | WriteStdOutCmd | WriteStdOutRawCmd | WriteStdOutMappedCmd
  | WriteLWECmd

record command =
  cmd_Use :: string
  cmd_Run :: "handler option"

text \<open>What the initialisation of the package tells the library, in order.\<close>

datatype registration =
    AddCommand command_id command_id
  | StringVarP command_id variable string string
  | StringSliceVarP command_id variable string string
  | PersistentStringVar command_id variable string
  | MarkFlagRequired command_id string

definition rootCmd :: command where
  "rootCmd = \<lparr>cmd_Use = ''gosk'', cmd_Run = None\<rparr>"

definition init_root :: "registration list" where
  "init_root = [PersistentStringVar RootCmd CfgFile ''config'', PersistentStringVar RootCmd ProfilingAndMetricsPort ''pmport'']"

definition connectCmd :: command where
  "connectCmd = \<lparr>cmd_Use = ''connect'', cmd_Run = Some HandleConnect\<rparr>"

definition init_connect :: "registration list" where
  "init_connect =
     [AddCommand RootCmd ConnectCmd,
      StringVarP ConnectCmd SubscribeURL ''subscribeURL'' ''s'',
      StringVarP ConnectCmd PublishURL ''publishURL'' ''p'', MarkFlagRequired ConnectCmd ''publishURL'']"

definition filterCmd :: command where
  "filterCmd = \<lparr>cmd_Use = ''filter'', cmd_Run = Some HandleFilter\<rparr>"

definition init_filter :: "registration list" where
  "init_filter =
     [AddCommand RootCmd FilterCmd,
      StringVarP FilterCmd SubscribeURL ''subscribeURL'' ''s'', MarkFlagRequired FilterCmd ''subscribeURL'',
      StringVarP FilterCmd PublishURL ''publishURL'' ''p'', MarkFlagRequired FilterCmd ''publishURL'']"

definition mapCmd :: command where
  "mapCmd = \<lparr>cmd_Use = ''map'', cmd_Run = Some HandleMap\<rparr>"

definition init_map :: "registration list" where
  "init_map =
     [AddCommand RootCmd MapCmd,
      StringVarP MapCmd SubscribeURL ''subscribeURL'' ''s'', MarkFlagRequired MapCmd ''subscribeURL'',
      StringVarP MapCmd PublishURL ''publishURL'' ''p'', MarkFlagRequired MapCmd ''publishURL'']"

definition proxyCmd :: command where
  "proxyCmd = \<lparr>cmd_Use = ''proxy'', cmd_Run = Some HandleProxy\<rparr>"

definition init_proxy :: "registration list" where
  "init_proxy =
     [AddCommand RootCmd ProxyCmd,
      StringVarP ProxyCmd PublishURL ''publishURL'' ''p'', MarkFlagRequired ProxyCmd ''publishURL'',
      StringSliceVarP ProxyCmd ProxySubscribeURLs ''subscribeURL'' ''s'']"

definition rateLimitCmd :: command where
  "rateLimitCmd = \<lparr>cmd_Use = ''rateLimit'', cmd_Run = Some HandleRateLimit\<rparr>"

definition init_rate_limit :: "registration list" where
  "init_rate_limit =
     [AddCommand RootCmd RateLimitCmd,
      StringVarP RateLimitCmd SubscribeURL ''subscribeURL'' ''s'', MarkFlagRequired RateLimitCmd ''subscribeURL'',
      StringVarP RateLimitCmd PublishURL ''publishURL'' ''p'', MarkFlagRequired RateLimitCmd ''publishURL'']"

definition read_commands :: "(command_id \<times> command) list" where
  "read_commands =
     [(ReadCmd, \<lparr>cmd_Use = ''read'', cmd_Run = None\<rparr>),
      (MqttReadCmd, \<lparr>cmd_Use = ''mqtt'', cmd_Run = Some HandleMQTTRead\<rparr>)]"

definition init_read :: "registration list" where
  "init_read =
     [AddCommand RootCmd ReadCmd,
      AddCommand ReadCmd MqttReadCmd,
      StringVarP MqttReadCmd PublishURL ''publishURL'' ''p'', MarkFlagRequired MqttReadCmd ''publishURL'']"

text \<open>The command \<open>ws\<close> is not added to any other.\<close>

definition signalKWSCmd :: command where
  "signalKWSCmd = \<lparr>cmd_Use = ''ws'', cmd_Run = Some HandleSignalKWS\<rparr>"

definition init_signalkws :: "registration list" where
  "init_signalkws = []"

definition testCmd :: command where
  "testCmd = \<lparr>cmd_Use = ''testdata'', cmd_Run = Some HandleTest\<rparr>"

definition init_test :: "registration list" where
  "init_test =
     [AddCommand RootCmd TestCmd,
      StringVarP TestCmd PublishURL ''publishURL'' ''p'', MarkFlagRequired TestCmd ''publishURL'']"

definition transfer_commands :: "(command_id \<times> command) list" where
  "transfer_commands =
     [(TransferCmd, \<lparr>cmd_Use = ''transfer'', cmd_Run = None\<rparr>),
      (TransferRequestCmd, \<lparr>cmd_Use = ''request'', cmd_Run = Some HandleTransferRequest\<rparr>),
      (TransferRespondCmd, \<lparr>cmd_Use = ''respond'', cmd_Run = Some HandleTransferRespond\<rparr>)]"

definition init_transfer :: "registration list" where
  "init_transfer =
     [AddCommand RootCmd TransferCmd,
      AddCommand TransferCmd TransferRequestCmd,
      AddCommand TransferCmd TransferRespondCmd,
      StringVarP TransferRespondCmd PublishURL ''publishURL'' ''p'', MarkFlagRequired TransferRespondCmd ''publishURL'']"

definition write_commands :: "(command_id \<times> command) list" where
  "write_commands =
     [(WriteCmd, \<lparr>cmd_Use = ''write'', cmd_Run = None\<rparr>),
      (WriteDatabaseCmd, \<lparr>cmd_Use = ''database'', cmd_Run = None\<rparr>),
      (WriteDatabaseRawCmd, \<lparr>cmd_Use = ''raw'', cmd_Run = Some HandleWriteDatabaseRaw\<rparr>),
      (WriteDatabaseMappedCmd, \<lparr>cmd_Use = ''mapped'', cmd_Run = Some HandleWriteDatabaseMapped\<rparr>),
      (WriteMQTTCmd, \<lparr>cmd_Use = ''mqtt'', cmd_Run = Some HandleWriteMQTT\<rparr>),
      (WriteSignalKCmd, \<lparr>cmd_Use = ''signalk'', cmd_Run = Some HandleWriteSignalK\<rparr>),
      (WriteStdOutCmd, \<lparr>cmd_Use = ''stdout'', cmd_Run = None\<rparr>),
      (WriteStdOutRawCmd, \<lparr>cmd_Use = ''raw'', cmd_Run = Some HandleWriteStdOutRaw\<rparr>),
      (WriteStdOutMappedCmd, \<lparr>cmd_Use = ''mapped'', cmd_Run = Some HandleWriteStdOutMapped\<rparr>),
      (WriteLWECmd, \<lparr>cmd_Use = ''lwe'', cmd_Run = Some HandleWriteLWE\<rparr>)]"

definition init_write :: "registration list" where
  "init_write =
     [AddCommand RootCmd WriteCmd,
      AddCommand WriteCmd WriteDatabaseCmd,
      AddCommand WriteDatabaseCmd WriteDatabaseRawCmd,
      StringVarP WriteDatabaseRawCmd SubscribeURL ''subscribeURL'' ''s'', MarkFlagRequired WriteDatabaseRawCmd ''subscribeURL'',
      AddCommand WriteDatabaseCmd WriteDatabaseMappedCmd,
      StringVarP WriteDatabaseMappedCmd SubscribeURL ''subscribeURL'' ''s'', MarkFlagRequired WriteDatabaseMappedCmd ''subscribeURL'',
      AddCommand WriteCmd WriteMQTTCmd,
      StringVarP WriteMQTTCmd SubscribeURL ''subscribeURL'' ''s'', MarkFlagRequired WriteMQTTCmd ''subscribeURL'',
      AddCommand WriteCmd WriteSignalKCmd,
      StringVarP WriteSignalKCmd SubscribeURL ''subscribeURL'' ''s'', MarkFlagRequired WriteSignalKCmd ''subscribeURL'',
      AddCommand WriteCmd WriteStdOutCmd,
      AddCommand WriteStdOutCmd WriteStdOutRawCmd,
      StringVarP WriteStdOutRawCmd SubscribeURL ''subscribeURL'' ''s'', MarkFlagRequired WriteStdOutRawCmd ''subscribeURL'',
      AddCommand WriteStdOutCmd WriteStdOutMappedCmd,
      StringVarP WriteStdOutMappedCmd SubscribeURL ''subscribeURL'' ''s'', MarkFlagRequired WriteStdOutMappedCmd ''subscribeURL'',
      AddCommand WriteCmd WriteLWECmd,
      StringVarP WriteLWECmd SubscribeURL ''subscribeURL'' ''s'', MarkFlagRequired WriteLWECmd ''subscribeURL'']"

text \<open>The files are initialised in the order of their names.\<close>

definition commands :: "(command_id \<times> command) list" where
  "commands =
     [(RootCmd, rootCmd), (ConnectCmd, connectCmd), (FilterCmd, filterCmd), (MapCmd, mapCmd), (ProxyCmd, proxyCmd),
      (RateLimitCmd, rateLimitCmd), (SignalKWSCmd, signalKWSCmd), (TestCmd, testCmd)] @
     read_commands @ transfer_commands @ write_commands"

definition registrations :: "registration list" where
  "registrations =
     init_connect @ init_filter @ init_map @ init_proxy @ init_rate_limit @ init_read @ init_root @ init_signalkws @
     init_test @ init_transfer @ init_write"

definition handler_of :: "command_id \<Rightarrow> handler option" where
  "handler_of c = (case map_of commands c of None \<Rightarrow> None | Some cmd \<Rightarrow> cmd_Run cmd)"

text \<open>The commands that can be given: the root and what is added to a command that can be given.\<close>

inductive offered :: "command_id \<Rightarrow> bool" where
  offered_root: "offered RootCmd"
| offered_added: "offered p \<Longrightarrow> AddCommand p c \<in> set registrations \<Longrightarrow> offered c"

text \<open>The variables that the flags of a command set; those of the root's persistent flags are of every command.\<close>

fun sets_variable :: "command_id \<Rightarrow> registration \<Rightarrow> variable option" where
  "sets_variable c (StringVarP c' v name shorthand) = (if c' = c then Some v else None)"
| "sets_variable c (StringSliceVarP c' v name shorthand) = (if c' = c then Some v else None)"
| "sets_variable c (PersistentStringVar c' v name) = (if c' = c \<or> c' = RootCmd then Some v else None)"
| "sets_variable c r = None"

definition flag_variables :: "command_id \<Rightarrow> variable list" where
  "flag_variables c = List.map_filter (sets_variable c) registrations"

section \<open>What the commands start\<close>

text \<open>The variables that the flags set; \<open>websocketURL\<close> and \<open>selfContext\<close> have no flag.\<close>

record vars =
  va_cfgFile :: string
  va_profilingAndMetricsPort :: string
  va_subscribeURL :: string
  va_publishURL :: string
  va_proxySubscribeURLs :: "string list"
  va_websocketURL :: string
  va_selfContext :: string

record 'p full_config =
  fc_base :: "'p config_file"
  fc_mqtt :: "mqtt_config \<Rightarrow> string list \<Rightarrow> string + mqtt_config"
  fc_postgresql :: "postgresql_config \<Rightarrow> string list \<Rightarrow> string + postgresql_config"
  fc_signalk :: "signalk_config \<Rightarrow> string list \<Rightarrow> string + signalk_config"
  fc_lwe :: "Config.lwe_config \<Rightarrow> string list \<Rightarrow> string + Config.lwe_config"
  fc_transfer :: "transfer_config \<Rightarrow> string list \<Rightarrow> string + transfer_config"
  fc_test_data :: "'p test_data_config \<Rightarrow> string list \<Rightarrow> string + 'p test_data_config"

text \<open>
  The world a command runs in: the configuration files, the parser of addresses, the errors of the sockets
  by address, the devices, the libraries and the version of the program.
\<close>

record ('p, 'c, 'dev) world =
  wo_file :: "string \<Rightarrow> 'p full_config"
  wo_url :: "string \<Rightarrow> url option"
  wo_Dial :: "string \<Rightarrow> string option"
  wo_Listen :: "string \<Rightarrow> string option"
  wo_os :: "nat \<Rightarrow> 'c os"
  wo_NewClient :: "modbus_client_config \<Rightarrow> string + 'dev"
  wo_Open :: "'dev \<Rightarrow> string option"
  wo_libraries :: "'p libraries"
  wo_version :: string

text \<open>What runs, with the addresses it receives from and publishes on; it runs as the theory of its component says.\<close>

datatype ('p, 'c, 'dev) service =
    Connecting "('c, 'dev) any_connector" string string
  | Looping loop string string
  | Proxying proxy "string list" string
  | Testing "'p test_data_config" string
  | ReadingMQTT mqtt_config string
  | Requesting transfer_requester
  | Responding transfer_config string
  | WritingRaw "raw writer_pool" postgresql_config string
  | WritingMapped "mapped writer_pool" postgresql_config string
  | WritingMQTT mqtt_config string
  | WritingSignalK signalk_config string
  | WritingLWE lwe_writer string
  | PrintingRaw string
  | PrintingMapped string
  | Streaming websocket_writer string

definition fatal :: "string + 'a \<Rightarrow> ('a \<Rightarrow> 'b outcome) \<Rightarrow> 'b outcome" where
  "fatal r f = (case r of Inl err \<Rightarrow> Fatal err | Inr x \<Rightarrow> f x)"

definition run_on :: "'a outcome \<Rightarrow> ('a \<Rightarrow> 'b outcome) \<Rightarrow> 'b outcome" where
  "run_on r f = (case r of Runs x \<Rightarrow> f x | Fatal err \<Rightarrow> Fatal err | Panics p \<Rightarrow> Panics p | Hangs \<Rightarrow> Hangs)"

definition subscriber_at :: "('p, 'c, 'dev) world \<Rightarrow> string \<Rightarrow> string + unit" where
  "subscriber_at w u = (case wo_Dial w u of Some err \<Rightarrow> Inl ''Could not subscribe to the URL'' | None \<Rightarrow> Inr ())"

definition publisher_at :: "('p, 'c, 'dev) world \<Rightarrow> string \<Rightarrow> string + unit" where
  "publisher_at w u = (case wo_Listen w u of Some err \<Rightarrow> Inl ''Could not listen on the URL'' | None \<Rightarrow> Inr ())"

definition libraries_for :: "('p, 'c, 'dev) world \<Rightarrow> vars \<Rightarrow> 'p libraries" where
  "libraries_for w v =
     (wo_libraries w)\<lparr>lb_Subscribe := wo_Dial w (va_subscribeURL v), lb_Listen := wo_Listen w (va_publishURL v)\<rparr>"

definition configured :: "('p, 'c, 'dev) world \<Rightarrow> vars \<Rightarrow> 'p full_config" where
  "configured w v = wo_file w (va_cfgFile v)"

definition run_connect :: "('p, 'c, 'dev) world \<Rightarrow> vars \<Rightarrow> ('p, 'c, 'dev) service outcome" where
  "run_connect w v =
     run_on (doConnect (fc_base (configured w v)) (wo_url w) (wo_os w) (wo_NewClient w) (wo_Open w)) (\<lambda>conn.
     fatal (publisher_at w (va_publishURL v)) (\<lambda>_.
       Runs (Connecting conn (va_subscribeURL v) (va_publishURL v))))"

text \<open>
  The goroutine of \<open>doConnect\<close> that subscribes: without an address it does nothing; otherwise it tries
  until it succeeds, sleeping in between. \<open>dial k\<close> is the error of attempt \<open>k\<close>, if any.
\<close>

definition RETRY_SUBSCRIPTION_SLEEP :: int where
  "RETRY_SUBSCRIPTION_SLEEP = 5"

partial_function (option) retry_subscription :: "(nat \<Rightarrow> string option) \<Rightarrow> nat \<Rightarrow> nat option" where
  "retry_subscription dial k =
     (case dial k of None \<Rightarrow> Some k | Some err \<Rightarrow> retry_subscription dial (Suc k))"

definition connect_subscription :: "(string \<Rightarrow> nat \<Rightarrow> string option) \<Rightarrow> string \<Rightarrow> nat option option" where
  "connect_subscription dial u =
     (if u = [] then Some None else map_option Some (retry_subscription (dial u) 0))"

text \<open>\<open>make\<close> panics for a negative capacity, and so does \<open>wg.Add\<close> for a negative number of workers.\<close>

definition start_writer :: "postgresql_config \<Rightarrow> 'm writer_pool outcome" where
  "start_writer c =
     (if pgc_BufferSize c < 0 then Panics (Panic ''makechan: size out of range'')
      else if pgc_NumberOfWorkers c < 0 then Panics (Panic ''sync: negative WaitGroup counter'')
      else Runs (NewPostgresqlWriter (nat (pgc_NumberOfWorkers c))))"

definition doWriteDatabaseRaw :: "('p, 'c, 'dev) world \<Rightarrow> vars \<Rightarrow> ('p, 'c, 'dev) service outcome" where
  "doWriteDatabaseRaw w v =
     fatal (subscriber_at w (va_subscribeURL v)) (\<lambda>_.
     fatal (NewPostgresqlConfig (fc_postgresql (configured w v))) (\<lambda>c.
     run_on (start_writer c) (\<lambda>pool. Runs (WritingRaw pool c (va_subscribeURL v)))))"

definition doWriteDatabaseMapped :: "('p, 'c, 'dev) world \<Rightarrow> vars \<Rightarrow> ('p, 'c, 'dev) service outcome" where
  "doWriteDatabaseMapped w v =
     fatal (subscriber_at w (va_subscribeURL v)) (\<lambda>_.
     fatal (NewPostgresqlConfig (fc_postgresql (configured w v))) (\<lambda>c.
     run_on (start_writer c) (\<lambda>pool. Runs (WritingMapped pool c (va_subscribeURL v)))))"

definition doWriteMQTT :: "('p, 'c, 'dev) world \<Rightarrow> vars \<Rightarrow> ('p, 'c, 'dev) service outcome" where
  "doWriteMQTT w v =
     fatal (subscriber_at w (va_subscribeURL v)) (\<lambda>_.
     fatal (NewMQTTConfig (fc_mqtt (configured w v))) (\<lambda>c. Runs (WritingMQTT c (va_subscribeURL v))))"

definition doWriteSignalK :: "('p, 'c, 'dev) world \<Rightarrow> vars \<Rightarrow> ('p, 'c, 'dev) service outcome" where
  "doWriteSignalK w v =
     fatal (subscriber_at w (va_subscribeURL v)) (\<lambda>_.
     fatal (NewSignalKConfig (fc_signalk (configured w v)) (wo_url w)) (\<lambda>c.
       Runs (WritingSignalK (WithVersion (wo_version w) c) (va_subscribeURL v))))"

definition doWriteLWE :: "('p, 'c, 'dev) world \<Rightarrow> vars \<Rightarrow> ('p, 'c, 'dev) service outcome" where
  "doWriteLWE w v =
     fatal (subscriber_at w (va_subscribeURL v)) (\<lambda>_.
     fatal (NewLWEConfig (fc_lwe (configured w v))) (\<lambda>c.
       Runs (WritingLWE (NewLWEWriter (lwc_DestinationIdentification c) (lwc_SourceIdentification c)
         (lwc_IncludeTimestamp c) (lwc_IncludeLineCount c)) (va_subscribeURL v))))"

definition doWriteStdOutMapped :: "('p, 'c, 'dev) world \<Rightarrow> vars \<Rightarrow> ('p, 'c, 'dev) service outcome" where
  "doWriteStdOutMapped w v =
     fatal (subscriber_at w (va_subscribeURL v)) (\<lambda>_. Runs (PrintingMapped (va_subscribeURL v)))"

definition doWriteStdOutRaw :: "('p, 'c, 'dev) world \<Rightarrow> vars \<Rightarrow> ('p, 'c, 'dev) service outcome" where
  "doWriteStdOutRaw w v =
     fatal (subscriber_at w (va_subscribeURL v)) (\<lambda>_. Runs (PrintingRaw (va_subscribeURL v)))"

definition serveSignalKWS :: "('p, 'c, 'dev) world \<Rightarrow> vars \<Rightarrow> ('p, 'c, 'dev) service outcome" where
  "serveSignalKWS w v =
     fatal (subscriber_at w (va_subscribeURL v)) (\<lambda>_.
       Runs (Streaming (WithURL (va_websocketURL v) (WitSelf (va_selfContext v) new_websocket_writer)) (va_subscribeURL v)))"

definition doMQTTRead :: "('p, 'c, 'dev) world \<Rightarrow> vars \<Rightarrow> ('p, 'c, 'dev) service outcome" where
  "doMQTTRead w v =
     fatal (NewMQTTConfig (fc_mqtt (configured w v))) (\<lambda>c.
     fatal (publisher_at w (va_publishURL v)) (\<lambda>_. Runs (ReadingMQTT c (va_publishURL v))))"

definition doTransferRequest :: "('p, 'c, 'dev) world \<Rightarrow> vars \<Rightarrow> ('p, 'c, 'dev) service outcome" where
  "doTransferRequest w v = fatal (NewTransferConfig (fc_transfer (configured w v))) (\<lambda>c.
       case NewTransferRequester c of None \<Rightarrow> Panics (Panic ''makechan: size out of range'') | Some t \<Rightarrow> Runs (Requesting t))"

definition doTransferRespond :: "('p, 'c, 'dev) world \<Rightarrow> vars \<Rightarrow> ('p, 'c, 'dev) service outcome" where
  "doTransferRespond w v =
     fatal (NewTransferConfig (fc_transfer (configured w v))) (\<lambda>c.
     fatal (publisher_at w (va_publishURL v)) (\<lambda>_. Runs (Responding c (va_publishURL v))))"

text \<open>The ticker of the test data panics when its interval is not positive.\<close>

definition run_test :: "('p, 'c, 'dev) world \<Rightarrow> vars \<Rightarrow> ('p, 'c, 'dev) service outcome" where
  "run_test w v =
     fatal (NewTestDataConfig (fc_test_data (configured w v))) (\<lambda>c.
     fatal (publisher_at w (va_publishURL v)) (\<lambda>_.
       if sint (tdc_Delay c) \<le> 0 then Panics (Panic ''non-positive interval for NewTicker'')
       else Runs (Testing c (va_publishURL v))))"

text \<open>The proxy opens its publisher and then its subscriptions, one after another.\<close>

definition run_proxy :: "('p, 'c, 'dev) world \<Rightarrow> vars \<Rightarrow> ('p, 'c, 'dev) service outcome" where
  "run_proxy w v =
     fatal (publisher_at w (va_publishURL v)) (\<lambda>_.
       if list_ex (\<lambda>u. wo_Dial w u \<noteq> None) (va_proxySubscribeURLs v) then Fatal ''Could not subscribe''
       else Runs (Proxying (doProxy (va_proxySubscribeURLs v)) (va_proxySubscribeURLs v) (va_publishURL v)))"

fun run_handler :: "('p, 'c, 'dev) world \<Rightarrow> handler \<Rightarrow> vars \<Rightarrow> ('p, 'c, 'dev) service outcome" where
  "run_handler w HandleConnect v = run_connect w v"
| "run_handler w HandleFilter v =
     fatal (doFilter (fc_base (configured w v)) (libraries_for w v)) (\<lambda>run. Runs (Looping run (va_subscribeURL v) (va_publishURL v)))"
| "run_handler w HandleMap v =
     fatal (doMap (fc_base (configured w v)) (libraries_for w v)) (\<lambda>run. Runs (Looping run (va_subscribeURL v) (va_publishURL v)))"
| "run_handler w HandleProxy v = run_proxy w v"
| "run_handler w HandleRateLimit v =
     fatal (doRateLimit (fc_base (configured w v)) (libraries_for w v)) (\<lambda>run. Runs (Looping run (va_subscribeURL v) (va_publishURL v)))"
| "run_handler w HandleMQTTRead v = doMQTTRead w v"
| "run_handler w HandleSignalKWS v = serveSignalKWS w v"
| "run_handler w HandleTest v = run_test w v"
| "run_handler w HandleTransferRequest v = doTransferRequest w v"
| "run_handler w HandleTransferRespond v = doTransferRespond w v"
| "run_handler w HandleWriteDatabaseRaw v = doWriteDatabaseRaw w v"
| "run_handler w HandleWriteDatabaseMapped v = doWriteDatabaseMapped w v"
| "run_handler w HandleWriteMQTT v = doWriteMQTT w v"
| "run_handler w HandleWriteSignalK v = doWriteSignalK w v"
| "run_handler w HandleWriteStdOutRaw v = doWriteStdOutRaw w v"
| "run_handler w HandleWriteStdOutMapped v = doWriteStdOutMapped w v"
| "run_handler w HandleWriteLWE v = doWriteLWE w v"

section \<open>Starting and stopping the program\<close>

text \<open>The file that is logged as used; an error of reading it is not looked at.\<close>

definition initConfig :: "(string \<Rightarrow> bool) \<Rightarrow> vars \<Rightarrow> string option" where
  "initConfig readable v = (if va_cfgFile v \<noteq> [] \<and> readable (va_cfgFile v) then Some (va_cfgFile v) else None)"

datatype metrics = NoMetrics | MetricsOn string | MetricsFatal string

definition initProfilingAndMetrics :: "(string \<Rightarrow> string option) \<Rightarrow> vars \<Rightarrow> metrics" where
  "initProfilingAndMetrics serve v =
     (if va_profilingAndMetricsPort v = [] then NoMetrics
      else case serve (va_profilingAndMetricsPort v) of
             None \<Rightarrow> MetricsOn (va_profilingAndMetricsPort v)
           | Some err \<Rightarrow> MetricsFatal ''Could not start profiling and metrics'')"

text \<open>The goroutine of \<open>main\<close>: the code with which the program exits, if it does.\<close>

datatype os_signal = SIGQUIT | SIGTERM | SIGINT | OtherSignal nat

fun handle_signals :: "os_signal list \<Rightarrow> int option" where
  "handle_signals [] = None"
| "handle_signals (s # ss) = (if s = SIGQUIT \<or> s = SIGTERM \<or> s = SIGINT then Some 0 else handle_signals ss)"

section \<open>Lemmas: the commands\<close>

lemmas init_defs = registrations_def init_root_def init_connect_def init_filter_def init_map_def init_proxy_def
  init_rate_limit_def init_read_def init_signalkws_def init_test_def init_transfer_def init_write_def

lemmas command_defs = commands_def rootCmd_def connectCmd_def filterCmd_def mapCmd_def proxyCmd_def rateLimitCmd_def
  signalKWSCmd_def testCmd_def read_commands_def transfer_commands_def write_commands_def

definition added :: "(command_id \<times> command_id) list" where
  "added = List.map_filter (\<lambda>r. case r of AddCommand p c \<Rightarrow> Some (p, c) | _ \<Rightarrow> None) registrations"

lemma added_iff: "AddCommand p c \<in> set registrations \<longleftrightarrow> (p, c) \<in> set added"
  by (auto simp: added_def List.map_filter_def intro!: image_eqI [of _ _ "AddCommand p c"] split: registration.splits)

lemma added_eq:
  "added =
     [(RootCmd, ConnectCmd), (RootCmd, FilterCmd), (RootCmd, MapCmd), (RootCmd, ProxyCmd), (RootCmd, RateLimitCmd),
      (RootCmd, ReadCmd), (ReadCmd, MqttReadCmd), (RootCmd, TestCmd), (RootCmd, TransferCmd),
      (TransferCmd, TransferRequestCmd), (TransferCmd, TransferRespondCmd), (RootCmd, WriteCmd),
      (WriteCmd, WriteDatabaseCmd), (WriteDatabaseCmd, WriteDatabaseRawCmd), (WriteDatabaseCmd, WriteDatabaseMappedCmd),
      (WriteCmd, WriteMQTTCmd), (WriteCmd, WriteSignalKCmd), (WriteCmd, WriteStdOutCmd),
      (WriteStdOutCmd, WriteStdOutRawCmd), (WriteStdOutCmd, WriteStdOutMappedCmd), (WriteCmd, WriteLWECmd)]"
  by (simp add: added_def init_defs List.map_filter_simps)

lemma offered_not_ws: "offered c \<Longrightarrow> c \<noteq> SignalKWSCmd"
  by (induction rule: offered.induct) (auto simp: added_iff added_eq)

lemma handler_of_simps [simp]:
  "handler_of RootCmd = None" "handler_of ConnectCmd = Some HandleConnect" "handler_of FilterCmd = Some HandleFilter"
  "handler_of MapCmd = Some HandleMap" "handler_of ProxyCmd = Some HandleProxy"
  "handler_of RateLimitCmd = Some HandleRateLimit" "handler_of ReadCmd = None"
  "handler_of MqttReadCmd = Some HandleMQTTRead" "handler_of SignalKWSCmd = Some HandleSignalKWS"
  "handler_of TestCmd = Some HandleTest" "handler_of TransferCmd = None"
  "handler_of TransferRequestCmd = Some HandleTransferRequest" "handler_of TransferRespondCmd = Some HandleTransferRespond"
  "handler_of WriteCmd = None" "handler_of WriteDatabaseCmd = None"
  "handler_of WriteDatabaseRawCmd = Some HandleWriteDatabaseRaw"
  "handler_of WriteDatabaseMappedCmd = Some HandleWriteDatabaseMapped" "handler_of WriteMQTTCmd = Some HandleWriteMQTT"
  "handler_of WriteSignalKCmd = Some HandleWriteSignalK" "handler_of WriteStdOutCmd = None"
  "handler_of WriteStdOutRawCmd = Some HandleWriteStdOutRaw" "handler_of WriteStdOutMappedCmd = Some HandleWriteStdOutMapped"
  "handler_of WriteLWECmd = Some HandleWriteLWE"
  by (simp_all add: handler_of_def command_defs)

lemma flag_variables_set:
  "set (flag_variables c) = {CfgFile, ProfilingAndMetricsPort} \<union>
     (if c \<in> {ConnectCmd, FilterCmd, MapCmd, RateLimitCmd} then {SubscribeURL, PublishURL}
      else if c = ProxyCmd then {PublishURL, ProxySubscribeURLs}
      else if c \<in> {MqttReadCmd, TestCmd, TransferRespondCmd} then {PublishURL}
      else if c \<in> {WriteDatabaseRawCmd, WriteDatabaseMappedCmd, WriteMQTTCmd, WriteSignalKCmd, WriteStdOutRawCmd,
          WriteStdOutMappedCmd, WriteLWECmd} then {SubscribeURL}
      else {})"
  by (cases c) (auto simp: flag_variables_def init_defs List.map_filter_simps)

text \<open>Two settings agree on a variable.\<close>

fun agree_on :: "vars \<Rightarrow> vars \<Rightarrow> variable \<Rightarrow> bool" where
  "agree_on v v' CfgFile \<longleftrightarrow> va_cfgFile v = va_cfgFile v'"
| "agree_on v v' ProfilingAndMetricsPort \<longleftrightarrow> va_profilingAndMetricsPort v = va_profilingAndMetricsPort v'"
| "agree_on v v' SubscribeURL \<longleftrightarrow> va_subscribeURL v = va_subscribeURL v'"
| "agree_on v v' PublishURL \<longleftrightarrow> va_publishURL v = va_publishURL v'"
| "agree_on v v' ProxySubscribeURLs \<longleftrightarrow> va_proxySubscribeURLs v = va_proxySubscribeURLs v'"
| "agree_on v v' WebsocketURL \<longleftrightarrow> va_websocketURL v = va_websocketURL v'"
| "agree_on v v' SelfContext \<longleftrightarrow> va_selfContext v = va_selfContext v'"

lemmas run_defs = run_connect_def run_proxy_def run_test_def doMQTTRead_def serveSignalKWS_def doTransferRequest_def
  doTransferRespond_def doWriteDatabaseRaw_def doWriteDatabaseMapped_def doWriteMQTT_def doWriteSignalK_def
  doWriteStdOutRaw_def doWriteStdOutMapped_def doWriteLWE_def configured_def libraries_for_def

lemma optional_flags:
  "{(c, x, n). (\<exists>s. StringVarP c x n s \<in> set registrations \<or> StringSliceVarP c x n s \<in> set registrations) \<and>
      MarkFlagRequired c n \<notin> set registrations} =
    {(ConnectCmd, SubscribeURL, ''subscribeURL''), (ProxyCmd, ProxySubscribeURLs, ''subscribeURL'')}"
proof -
  have "(\<exists>s. StringVarP c x n s \<in> set registrations \<or> StringSliceVarP c x n s \<in> set registrations) \<and>
      MarkFlagRequired c n \<notin> set registrations \<longleftrightarrow>
      c = ConnectCmd \<and> x = SubscribeURL \<and> n = ''subscribeURL'' \<or> c = ProxyCmd \<and> x = ProxySubscribeURLs \<and> n = ''subscribeURL''"
    for c x n
    by (cases c) (auto simp: init_defs)
  then show ?thesis by auto
qed

section \<open>Properties\<close>

text \<open>C19: A command is run by its own flags. What a command that can be given starts, and whether it starts at
  all, depends only on the variables its own flags set and on the configuration: settings that agree on
  these give the same result, whatever the flags of other commands left in the shared variables. Of all
  flags that set the addresses of commands, exactly two need not be given: the subscription of a connector, which
  can do without, and the subscriptions of the proxy.\<close>

theorem flags_suffice:
  assumes "offered c" "handler_of c = Some h" "list_all (agree_on v v') (flag_variables c)"
  shows "run_handler w h v = run_handler w h v' \<and>
    {(c, x, n). (\<exists>s. StringVarP c x n s \<in> set registrations \<or> StringSliceVarP c x n s \<in> set registrations) \<and>
       MarkFlagRequired c n \<notin> set registrations} =
      {(ConnectCmd, SubscribeURL, ''subscribeURL''), (ProxyCmd, ProxySubscribeURLs, ''subscribeURL'')}"
proof -
  have agree: "x \<in> set (flag_variables c) \<Longrightarrow> agree_on v v' x" for x
    using assms(3) by (simp add: list_all_iff)
  have "va_cfgFile v = va_cfgFile v'" using agree [of CfgFile] by (simp add: flag_variables_set)
  moreover have "SubscribeURL \<in> set (flag_variables c) \<Longrightarrow> va_subscribeURL v = va_subscribeURL v'"
    "PublishURL \<in> set (flag_variables c) \<Longrightarrow> va_publishURL v = va_publishURL v'"
    "ProxySubscribeURLs \<in> set (flag_variables c) \<Longrightarrow> va_proxySubscribeURLs v = va_proxySubscribeURLs v'"
    using agree by fastforce+
  ultimately have "run_handler w h v = run_handler w h v'"
    using offered_not_ws [OF assms(1)] assms(2)
    by (cases c) (auto simp: flag_variables_set run_defs cong: if_cong)
  then show ?thesis using optional_flags by (rule conjI)
qed

definition sample_config :: "string full_config" where
  "sample_config =
     \<lparr>fc_base = sample_file, fc_mqtt = (\<lambda>c _. Inr c), fc_postgresql = (\<lambda>c _. Inr c), fc_signalk = (\<lambda>c _. Inr c),
      fc_lwe = (\<lambda>c _. Inr c), fc_transfer = (\<lambda>c _. Inr c), fc_test_data = (\<lambda>c _. Inr c)\<rparr>"

definition sample_world :: "(string, nat, nat) world" where
  "sample_world =
     \<lparr>wo_file = (\<lambda>_. sample_config), wo_url = (\<lambda>_. None), wo_Dial = (\<lambda>_. None), wo_Listen = (\<lambda>_. None),
      wo_os = sample_os, wo_NewClient = (\<lambda>_. Inl []), wo_Open = (\<lambda>_. None), wo_libraries = sample_libraries,
      wo_version = ''1''\<rparr>"

definition no_vars :: vars where
  "no_vars =
     \<lparr>va_cfgFile = [], va_profilingAndMetricsPort = [], va_subscribeURL = [], va_publishURL = [],
      va_proxySubscribeURLs = [], va_websocketURL = [], va_selfContext = []\<rparr>"

theorem flags_suffice_witness:
  "run_handler sample_world HandleWriteDatabaseMapped (no_vars\<lparr>va_subscribeURL := ''s'', va_publishURL := ''p''\<rparr>) =
     Runs (WritingMapped (NewPostgresqlWriter 10) defaultPostgresqlConfig ''s'')"
proof -
  have o: "offered WriteDatabaseMappedCmd"
  proof -
    have "offered WriteCmd" by (rule offered_added [OF offered_root]) (simp add: added_iff added_eq)
    then have "offered WriteDatabaseCmd" by (rule offered_added) (simp add: added_iff added_eq)
    then show ?thesis by (rule offered_added) (simp add: added_iff added_eq)
  qed
  have "run_handler sample_world HandleWriteDatabaseMapped (no_vars\<lparr>va_subscribeURL := ''s'', va_publishURL := ''p''\<rparr>) =
      run_handler sample_world HandleWriteDatabaseMapped (no_vars\<lparr>va_subscribeURL := ''s''\<rparr>)"
    using flags_suffice [OF o, of HandleWriteDatabaseMapped "no_vars\<lparr>va_subscribeURL := ''s'', va_publishURL := ''p''\<rparr>"
        "no_vars\<lparr>va_subscribeURL := ''s''\<rparr>" sample_world]
    by (auto simp: list_all_iff flag_variables_set)
  also have "\<dots> = Runs (WritingMapped (NewPostgresqlWriter 10) defaultPostgresqlConfig ''s'')"
    by (simp add: doWriteDatabaseMapped_def subscriber_at_def sample_world_def sample_config_def configured_def fatal_def
        run_on_def start_writer_def NewPostgresqlConfig_def defaultPostgresqlConfig_def)
  finally show ?thesis .
qed

text \<open>The WebSocket server cannot be started: its command is not offered.\<close>

theorem ws_not_offered: "\<not> offered SignalKWSCmd"
  using offered_not_ws by blast

text \<open>Test data without a configured interval: the program panics.\<close>

theorem test_data_needs_delay:
  "NewTestDataConfig (fc_test_data (configured w v)) = Inr c \<Longrightarrow> tdc_Delay c = 0 \<Longrightarrow> wo_Listen w (va_publishURL v) = None \<Longrightarrow>
     run_handler w HandleTest v = Panics (Panic ''non-positive interval for NewTicker'')"
  by (simp add: run_test_def publisher_at_def fatal_def)

text \<open>The goroutine that subscribes gets through at its first attempt without an error, and never returns when there is none.\<close>

lemma retry_subscription_gets:
  "k \<le> n \<Longrightarrow> dial n = None \<Longrightarrow> \<forall>m. k \<le> m \<and> m < n \<longrightarrow> dial m \<noteq> None \<Longrightarrow> retry_subscription dial k = Some n"
proof (induction "n - k" arbitrary: k)
  case 0
  then show ?case by (subst retry_subscription.simps) simp
next
  case (Suc i)
  then have "dial k \<noteq> None" "retry_subscription dial (Suc k) = Some n" by auto
  then show ?case by (subst retry_subscription.simps) auto
qed

lemma retry_subscription_result:
  "retry_subscription dial k = Some n \<Longrightarrow> k \<le> n \<and> dial n = None \<and> (\<forall>m. k \<le> m \<and> m < n \<longrightarrow> dial m \<noteq> None)"
proof (induction rule: retry_subscription.raw_induct [rotated, consumes 1])
  case (1 rec dial k n)
  show ?case
  proof (cases "dial k")
    case None
    with 1(2) show ?thesis by auto
  next
    case (Some err)
    with 1(2) have "rec dial (Suc k) = Some n" by simp
    from 1(1) [OF this] Some show ?thesis by (auto simp: Suc_le_eq) (metis le_neq_implies_less option.discI)
  qed
qed

theorem subscription_first_success:
  "connect_subscription dial u =
     (if u = [] then Some None
      else if \<exists>n. dial u n = None then Some (Some (LEAST n. dial u n = None)) else None)"
proof (cases "\<exists>n. dial u n = None")
  case True
  define n where "n = (LEAST n. dial u n = None)"
  have "dial u n = None" unfolding n_def using True by (rule LeastI_ex)
  moreover have "dial u m \<noteq> None" if "m < n" for m
    using that unfolding n_def by (rule not_less_Least)
  ultimately have "retry_subscription (dial u) 0 = Some n" by (simp add: retry_subscription_gets)
  with True show ?thesis by (simp add: connect_subscription_def n_def)
next
  case False
  then have "retry_subscription (dial u) 0 = None"
    by (metis (no_types) not_Some_eq retry_subscription_result)
  then show ?thesis by (simp add: connect_subscription_def) (use False in blast)
qed

text \<open>The first of the three signals ends the program, with success; all others are ignored.\<close>

theorem signals_stop: "handle_signals ss = (if list_ex (\<lambda>s. s \<in> {SIGQUIT, SIGTERM, SIGINT}) ss then Some 0 else None)"
  by (induction ss) auto

end
