(* ===== verification/SignalKStream.thy ===== *)
theory SignalKStream
  imports SignalK
begin

text \<open>
  The HTTP side of \<open>writer/signalk.go\<close> and one connection of \<open>writer/signalk_ws.go\<close>: the routes of the
  server, and the life of a WebSocket client with its context. The router and the WebSocket library are
  parameters; \<open>write d now m\<close> is whether a message is written at \<open>now\<close> under a context with deadline \<open>d\<close>.
\<close>

section \<open>Routes\<close>

definition SignalKEndpointsPath :: string where
  "SignalKEndpointsPath = ''/signalk''"

datatype signalk_handler = ServeFullDataModel | ServeEndpoints | ServeWebsocket

text \<open>A route that ends with an asterisk is for all paths that begin with what is before it.\<close>

definition routes :: "(string \<times> signalk_handler) list" where
  "routes =
     [(SignalKHTTPPath @ ''*'', ServeFullDataModel), (SignalKEndpointsPath, ServeEndpoints), (SignalKWSPath, ServeWebsocket)]"

definition route_matches :: "string \<Rightarrow> string \<Rightarrow> bool" where
  "route_matches path pattern =
     (if pattern \<noteq> [] \<and> last pattern = CHR ''*'' then prefix (butlast pattern) path else path = pattern)"

definition route :: "string \<Rightarrow> signalk_handler option" where
  "route path = map_option snd (find (\<lambda>(pattern, h). route_matches path pattern) routes)"

section \<open>A connection\<close>

definition connectionTimeout :: int where
  "connectionTimeout = 60 * 1000000000"

datatype served =
    NotAccepted
  | HelloNotWritten
  | Served "(time \<times> mapped) list" bool

text \<open>
  The loop takes a delta from the client's channel and writes it; when that fails it closes the connection,
  removes the client and returns. The result is what was written, with its instant, and whether the loop
  has returned.
\<close>

fun write_deltas :: "(time \<Rightarrow> mapped \<Rightarrow> bool) \<Rightarrow> (time \<times> mapped) list \<Rightarrow> (time \<times> mapped) list \<times> bool" where
  "write_deltas write [] = ([], False)"
| "write_deltas write ((now, m) # deltas) =
     (if write now m then (case write_deltas write deltas of (ms, ended) \<Rightarrow> ((now, m) # ms, ended)) else ([], True))"

definition serveWebsocket ::
    "(time \<Rightarrow> time \<Rightarrow> hello \<Rightarrow> bool) \<Rightarrow> (time \<Rightarrow> time \<Rightarrow> mapped \<Rightarrow> bool) \<Rightarrow> string \<Rightarrow> string \<Rightarrow> string option \<Rightarrow>
     time \<Rightarrow> time \<Rightarrow> (time \<times> mapped) list \<Rightarrow> served" where
  "serveWebsocket write_hello write version selfContext accept_err start hello_now deltas =
     (case accept_err of
        Some err \<Rightarrow> NotAccepted
      | None \<Rightarrow>
          (let deadline = start + connectionTimeout
           in if \<not> write_hello deadline hello_now (createHello version selfContext hello_now) then HelloNotWritten
              else (case write_deltas (write deadline) deltas of (ms, ended) \<Rightarrow> Served ms ended)))"

section \<open>Lemmas\<close>

lemma write_deltas_eq:
  "write_deltas write deltas =
     (takeWhile (\<lambda>(now, m). write now m) deltas, \<not> list_all (\<lambda>(now, m). write now m) deltas)"
  by (induction deltas) (auto split: prod.split)

lemma route_simps:
  "route path =
     (if prefix SignalKHTTPPath path then Some ServeFullDataModel
      else if path = SignalKEndpointsPath then Some ServeEndpoints
      else if path = SignalKWSPath then Some ServeWebsocket else None)"
  by (simp add: route_def routes_def route_matches_def butlast_append SignalKEndpointsPath_def SignalKWSPath_def)

section \<open>Properties\<close>

text \<open>The endpoints that are announced are served: behind the address of the host they have the paths of the data model and
  of the stream.\<close>

theorem endpoints_served:
  assumes "map_of (eps_Endpoints (serveEndpoints version host)) v = Some e"
  shows "\<exists>path. ep_SignalKHTTP e = ''http://'' @ host @ path \<and> route path = Some ServeFullDataModel"
    and "\<exists>path. ep_SignalKWS e = ''ws://'' @ host @ path \<and> route path = Some ServeWebsocket"
proof -
  have e: "e = \<lparr>ep_Version = version, ep_SignalKHTTP = ''http://'' @ host @ SignalKHTTPPath,
      ep_SignalKWS = ''ws://'' @ host @ SignalKWSPath\<rparr>"
    using assms by (simp add: serveEndpoints_def split: if_splits)
  have "route SignalKHTTPPath = Some ServeFullDataModel" by (simp add: route_simps)
  then show "\<exists>path. ep_SignalKHTTP e = ''http://'' @ host @ path \<and> route path = Some ServeFullDataModel"
    unfolding e by (intro exI [of _ SignalKHTTPPath]) simp
  have "route SignalKWSPath = Some ServeWebsocket"
    by (simp add: route_simps SignalKHTTPPath_def SignalKWSPath_def SignalKEndpointsPath_def)
  then show "\<exists>path. ep_SignalKWS e = ''ws://'' @ host @ path \<and> route path = Some ServeWebsocket"
    unfolding e by (intro exI [of _ SignalKWSPath]) simp
qed

text \<open>C17: A stream lasts at most a minute. The context of a connection has a deadline, and nothing is written under an
  expired context; so every delta a client gets was written less than 60 seconds after it connected,
  exactly the deltas before the first one that is not written, and the connection is closed by the first
  delta that comes a minute after the start or later.\<close>

theorem stream_lasts_a_minute:
  assumes "\<And>d now m. d \<le> now \<Longrightarrow> \<not> write d now m"
    and "serveWebsocket write_hello write version selfContext accept_err start hello_now deltas = Served ms ended"
  shows "(\<forall>now m. (now, m) \<in> set ms \<longrightarrow> now < start + connectionTimeout) \<and>
    ms = takeWhile (\<lambda>(now, m). write (start + connectionTimeout) now m) deltas \<and>
    (list_ex (\<lambda>(now, m). start + connectionTimeout \<le> now) deltas \<longrightarrow> ended)"
proof -
  have r: "ms = takeWhile (\<lambda>(now, m). write (start + connectionTimeout) now m) deltas"
    "ended \<longleftrightarrow> \<not> list_all (\<lambda>(now, m). write (start + connectionTimeout) now m) deltas"
    using assms(2) by (auto simp: serveWebsocket_def write_deltas_eq Let_def split: option.splits if_splits)
  have "now < start + connectionTimeout" if "(now, m) \<in> set ms" for now m
  proof -
    have "write (start + connectionTimeout) now m" using that unfolding r(1) by (auto dest: set_takeWhileD)
    then show ?thesis using assms(1) not_le by blast
  qed
  moreover have "ended" if "list_ex (\<lambda>(now, m). start + connectionTimeout \<le> now) deltas"
    using that assms(1) unfolding r(2) by (fastforce simp: list_all_iff list_ex_iff)
  ultimately show ?thesis using r(1) by blast
qed

definition minute_delta :: mapped where
  "minute_delta = \<lparr>m_Context = ''x'', m_Origin = ''x'', m_Updates = []\<rparr>"

theorem stream_lasts_a_minute_witness:
  "serveWebsocket (\<lambda>d now h. True) (\<lambda>d now m. now < d) ''1'' ''x'' None 0 1
     [(5, minute_delta), (60 * 1000000000, minute_delta)] = Served [(5, minute_delta)] True"
proof -
  obtain ms ended where r: "serveWebsocket (\<lambda>d now h. True) (\<lambda>d now m. now < d) ''1'' ''x'' None 0 1
      [(5, minute_delta), (60 * 1000000000, minute_delta)] = Served ms ended"
    by (simp add: serveWebsocket_def Let_def write_deltas_eq)
  from stream_lasts_a_minute [OF _ r] have "ms = [(5, minute_delta)]" "ended"
    by (simp_all add: connectionTimeout_def)
  with r show ?thesis by simp
qed

end
