(* ===== verification/LineBuffer.thy ===== *)
theory LineBuffer
  imports LineStream
begin

text \<open>
  The publishing half of \<open>connector/line.go\<close> with its memory: \<open>Publish\<close>, \<open>receive\<close> and \<open>scan\<close>. The scanner of the
  standard library returns its lines as slices of a buffer that it goes on using, and \<open>scan\<close> puts these slices on
  the stream. The step relation has the buffers as lists of bytes, so a slice is what its buffer holds when
  it is read.
\<close>

section \<open>The connection\<close>

text \<open>The connection of a UDP listener: packets can be read, nothing can be written. Reading cuts a packet that is too long.\<close>

definition UdpListenerConnection_Read :: "nat \<Rightarrow> string + byte list \<Rightarrow> string + byte list" where
  "UdpListenerConnection_Read n packet = (case packet of Inl err \<Rightarrow> Inl err | Inr p \<Rightarrow> Inr (take n p))"

definition UdpListenerConnection_Write :: "byte list \<Rightarrow> string + nat" where
  "UdpListenerConnection_Write p = Inl ''Could not write to UDP''"

section \<open>The scanner and the stream\<close>

text \<open>
  A slice is a part of a buffer: the number of the buffer, the offset and the length. The channel of the
  stream has one place; \<open>lr_held\<close> is the slice that \<open>process\<close> has taken and not yet marshalled. \<open>lr_sent\<close>
  are the lines as they were when they were put on the stream, each with the number of times the scanner
  had moved its data by then; \<open>lr_published\<close> is what \<open>process\<close> read of them, with that number when it
  read. \<open>lr_input\<close> are the bytes read from the connection since the scanner was created, and \<open>lr_first\<close> the
  number of lines sent before.
\<close>

record go_slice =
  sl_buffer :: nat
  sl_offset :: nat
  sl_length :: nat

record line_run =
  lr_heap :: "byte list list"
  lr_start :: nat
  lr_end :: nat
  lr_err :: "string option option"
  lr_channel :: "go_slice list"
  lr_held :: "go_slice option"
  lr_moves :: nat
  lr_sent :: "(nat \<times> byte list) list"
  lr_published :: "(nat \<times> byte list) list"
  lr_input :: "byte list"
  lr_first :: nat

definition startBufSize :: nat where
  "startBufSize = 4096"

definition MaxScanTokenSize :: nat where
  "MaxScanTokenSize = 65536"

definition line_start :: line_run where
  "line_start =
     \<lparr>lr_heap = [[]], lr_start = 0, lr_end = 0, lr_err = None, lr_channel = [], lr_held = None, lr_moves = 0,
      lr_sent = [], lr_published = [], lr_input = [], lr_first = 0\<rparr>"

definition buffer :: "line_run \<Rightarrow> byte list" where
  "buffer s = last (lr_heap s)"

text \<open>The data the scanner has not used yet.\<close>

definition window :: "line_run \<Rightarrow> byte list" where
  "window s = take (lr_end s - lr_start s) (drop (lr_start s) (buffer s))"

definition slice_bytes :: "byte list list \<Rightarrow> go_slice \<Rightarrow> byte list" where
  "slice_bytes heap x = take (sl_length x) (drop (sl_offset x) (heap ! sl_buffer x))"

text \<open>A carriage return at the end of the line is cut off.\<close>

definition dropCR :: "byte list \<Rightarrow> byte list" where
  "dropCR l = (if l \<noteq> [] \<and> last l = 13 then butlast l else l)"

definition put_line :: "nat \<Rightarrow> byte list \<Rightarrow> line_run \<Rightarrow> line_run" where
  "put_line advance l s =
     s\<lparr>lr_channel := lr_channel s @ [\<lparr>sl_buffer = length (lr_heap s) - 1, sl_offset = lr_start s, sl_length = length l\<rparr>],
       lr_sent := lr_sent s @ [(lr_moves s, l)], lr_start := lr_start s + advance\<rparr>"

text \<open>Data is moved to the beginning of the buffer when the buffer is full or more than half of it has been used.\<close>

definition must_move :: "line_run \<Rightarrow> bool" where
  "must_move s \<longleftrightarrow> 0 < lr_start s \<and> (lr_end s = length (buffer s) \<or> lr_start s > length (buffer s) div 2)"

definition move_data :: "line_run \<Rightarrow> line_run" where
  "move_data s =
     s\<lparr>lr_heap := butlast (lr_heap s) @ [window s @ drop (length (window s)) (buffer s)], lr_start := 0,
       lr_end := lr_end s - lr_start s, lr_moves := lr_moves s + 1\<rparr>"

text \<open>A full buffer is replaced by one of twice its size.\<close>

definition grow :: "line_run \<Rightarrow> line_run" where
  "grow s =
     (let n = (if buffer s = [] then startBufSize else min (2 * length (buffer s)) MaxScanTokenSize)
      in s\<lparr>lr_heap := lr_heap s @ [buffer s @ replicate (n - length (buffer s)) 0]\<rparr>)"

definition read_data :: "byte list \<Rightarrow> line_run \<Rightarrow> line_run" where
  "read_data bs s =
     s\<lparr>lr_heap := butlast (lr_heap s) @ [take (lr_end s) (buffer s) @ bs @ drop (lr_end s + length bs) (buffer s)],
       lr_end := lr_end s + length bs, lr_input := lr_input s @ bs\<rparr>"

text \<open>\<open>receive\<close> has returned and is called again: a new scanner on the same connection.\<close>

definition new_scanner :: "line_run \<Rightarrow> line_run" where
  "new_scanner s =
     s\<lparr>lr_heap := lr_heap s @ [[]], lr_start := 0, lr_end := 0, lr_err := None, lr_input := [],
       lr_first := length (lr_sent s)\<rparr>"

text \<open>The scanner needs more data: it has no whole line and has not seen the end.\<close>

definition hungry :: "line_run \<Rightarrow> bool" where
  "hungry s \<longleftrightarrow> 10 \<notin> set (window s) \<and> lr_err s = None"

inductive line_step :: "line_run \<Rightarrow> line_run \<Rightarrow> bool" where
  line: "window s = l @ 10 # rest \<Longrightarrow> 10 \<notin> set l \<Longrightarrow> lr_channel s = [] \<Longrightarrow>
     line_step s (put_line (length l + 1) (dropCR l) s)"
| last_line: "lr_err s = Some err \<Longrightarrow> window s \<noteq> [] \<Longrightarrow> 10 \<notin> set (window s) \<Longrightarrow> lr_channel s = [] \<Longrightarrow>
     line_step s (put_line (length (window s)) (dropCR (window s)) s)"
| returns: "lr_err s = Some err \<Longrightarrow> window s = [] \<Longrightarrow> line_step s (new_scanner s)"
| moves: "hungry s \<Longrightarrow> must_move s \<Longrightarrow> line_step s (move_data s)"
| too_long: "hungry s \<Longrightarrow> lr_start s = 0 \<Longrightarrow> lr_end s = length (buffer s) \<Longrightarrow> MaxScanTokenSize \<le> length (buffer s) \<Longrightarrow>
     line_step s (new_scanner s)"
| grows: "hungry s \<Longrightarrow> lr_start s = 0 \<Longrightarrow> lr_end s = length (buffer s) \<Longrightarrow> length (buffer s) < MaxScanTokenSize \<Longrightarrow>
     line_step s (grow s)"
| reads: "hungry s \<Longrightarrow> \<not> must_move s \<Longrightarrow> lr_end s + length bs \<le> length (buffer s) \<Longrightarrow> bs \<noteq> [] \<Longrightarrow>
     line_step s (read_data bs s)"
| ends: "hungry s \<Longrightarrow> \<not> must_move s \<Longrightarrow> lr_end s < length (buffer s) \<Longrightarrow> line_step s (s\<lparr>lr_err := Some err\<rparr>)"
| takes: "lr_channel s = x # xs \<Longrightarrow> lr_held s = None \<Longrightarrow> line_step s (s\<lparr>lr_channel := xs, lr_held := Some x\<rparr>)"
| publishes: "lr_held s = Some x \<Longrightarrow>
     line_step s (s\<lparr>lr_held := None, lr_published := lr_published s @ [(lr_moves s, slice_bytes (lr_heap s) x)]\<rparr>)"


section \<open>Lemmas: the buffers\<close>

definition buffer_inv :: "line_run \<Rightarrow> bool" where
  "buffer_inv s \<longleftrightarrow>
     lr_heap s \<noteq> [] \<and> lr_start s \<le> lr_end s \<and> lr_end s \<le> length (buffer s) \<and> length (buffer s) \<le> MaxScanTokenSize"

lemma length_window: "buffer_inv s \<Longrightarrow> length (window s) = lr_end s - lr_start s"
  by (simp add: buffer_inv_def window_def min_absorb2 diff_le_mono)

lemma length_dropCR: "length (dropCR l) \<le> length l"
  by (simp add: dropCR_def)

lemma dropCR_take: "dropCR l = take (length (dropCR l)) l"
  by (simp add: dropCR_def butlast_conv_take)

lemma heap_last: "lr_heap s \<noteq> [] \<Longrightarrow> lr_heap s ! (length (lr_heap s) - 1) = buffer s"
  by (simp add: buffer_def last_conv_nth)

lemma window_put: "window (put_line advance l s) = drop advance (window s)"
  by (simp add: window_def put_line_def buffer_def drop_take add.commute)

lemma buffer_put [simp]: "buffer (put_line advance l s) = buffer s"
  by (simp add: put_line_def buffer_def)

lemma buffer_inv_put:
  "buffer_inv s \<Longrightarrow> advance \<le> length (window s) \<Longrightarrow> buffer_inv (put_line advance l s)"
  using length_window [of s] by (auto simp: buffer_inv_def) (simp_all add: put_line_def)

lemma buffer_move [simp]: "buffer (move_data s) = window s @ drop (length (window s)) (buffer s)"
  by (simp add: move_data_def buffer_def window_def)

lemma move_data_inv: "buffer_inv s \<Longrightarrow> buffer_inv (move_data s) \<and> window (move_data s) = window s"
proof -
  assume inv: "buffer_inv s"
  then have n: "length (window s) = lr_end s - lr_start s" by (rule length_window)
  have "window (move_data s) = take (lr_end s - lr_start s) (buffer (move_data s))"
    by (simp add: window_def move_data_def)
  also have "\<dots> = window s" using n by simp
  finally have "window (move_data s) = window s" .
  moreover have "length (buffer (move_data s)) = length (buffer s)" using n inv by (simp add: buffer_inv_def)
  ultimately show ?thesis using inv n by (auto simp: buffer_inv_def move_data_def)
qed

lemma buffer_grow: "buffer (grow s) = buffer s @ replicate
    ((if buffer s = [] then startBufSize else min (2 * length (buffer s)) MaxScanTokenSize) - length (buffer s)) 0"
  by (simp add: grow_def buffer_def Let_def)

lemma grow_inv: "buffer_inv s \<Longrightarrow> buffer_inv (grow s) \<and> window (grow s) = window s"
proof -
  assume inv: "buffer_inv s"
  then have "window (grow s) = window s"
    unfolding window_def buffer_grow by (simp add: grow_def buffer_inv_def Let_def)
  moreover have "length (buffer (grow s)) \<le> MaxScanTokenSize"
    using inv by (auto simp: buffer_grow buffer_inv_def startBufSize_def MaxScanTokenSize_def)
  ultimately show ?thesis using inv
    by (auto simp: buffer_inv_def buffer_grow) (simp_all add: grow_def Let_def)
qed

lemma buffer_read [simp]:
  "buffer (read_data bs s) = take (lr_end s) (buffer s) @ bs @ drop (lr_end s + length bs) (buffer s)"
  by (simp add: read_data_def buffer_def)

lemma read_data_inv:
  "buffer_inv s \<Longrightarrow> lr_end s + length bs \<le> length (buffer s) \<Longrightarrow>
     buffer_inv (read_data bs s) \<and> window (read_data bs s) = window s @ bs"
proof -
  assume inv: "buffer_inv s" and room: "lr_end s + length bs \<le> length (buffer s)"
  then have "window (read_data bs s) = window s @ bs"
    unfolding window_def buffer_read by (simp add: read_data_def buffer_inv_def take_drop)
  moreover have "length (buffer (read_data bs s)) = length (buffer s)" using inv room by (simp add: buffer_inv_def)
  ultimately show ?thesis using inv room by (auto simp: buffer_inv_def) (simp_all add: read_data_def buffer_inv_def)
qed

lemma new_scanner_inv: "buffer_inv (new_scanner s) \<and> window (new_scanner s) = []"
  by (simp add: buffer_inv_def new_scanner_def window_def buffer_def)

lemma buffer_inv_start: "buffer_inv line_start"
  by (simp add: buffer_inv_def line_start_def buffer_def)

lemma buffer_inv_step: "line_step s s' \<Longrightarrow> buffer_inv s \<Longrightarrow> buffer_inv s'"
proof (induction rule: line_step.induct)
  case (line s l rest)
  then show ?case by (simp add: buffer_inv_put)
next
  case (last_line s err)
  then show ?case by (simp add: buffer_inv_put)
next
  case (ends s err)
  then show ?case by (simp add: buffer_inv_def buffer_def)
next
  case (takes s x xs)
  then show ?case by (simp add: buffer_inv_def buffer_def)
next
  case (publishes s x)
  then show ?case by (simp add: buffer_inv_def buffer_def)
qed (simp_all add: move_data_inv grow_inv read_data_inv new_scanner_inv)


section \<open>Lemmas: the slices on the stream\<close>

definition pending :: "line_run \<Rightarrow> go_slice list" where
  "pending s = (case lr_held s of None \<Rightarrow> [] | Some x \<Rightarrow> [x]) @ lr_channel s"

definition slice_ok :: "line_run \<Rightarrow> go_slice \<Rightarrow> nat \<times> byte list \<Rightarrow> bool" where
  "slice_ok s x put \<longleftrightarrow>
     fst put \<le> lr_moves s \<and>
     (fst put = lr_moves s \<longrightarrow>
        slice_bytes (lr_heap s) x = snd put \<and> sl_buffer x < length (lr_heap s) \<and>
        (Suc (sl_buffer x) = length (lr_heap s) \<longrightarrow> sl_offset x + sl_length x \<le> lr_start s))"

definition unmoved :: "nat \<times> byte list \<Rightarrow> nat \<times> byte list \<Rightarrow> bool" where
  "unmoved pub put \<longleftrightarrow> fst pub = fst put \<longrightarrow> snd pub = snd put"

definition stream_ok :: "line_run \<Rightarrow> bool" where
  "stream_ok s \<longleftrightarrow>
     length (lr_channel s) \<le> 1 \<and>
     list_all2 (slice_ok s) (pending s) (drop (length (lr_published s)) (lr_sent s)) \<and>
     list_all2 unmoved (lr_published s) (take (length (lr_published s)) (lr_sent s))"

lemma slice_prefix:
  "off + n \<le> m \<Longrightarrow> take m b = take m b' \<Longrightarrow> take n (drop off b) = take n (drop off b')"
proof -
  assume m: "off + n \<le> m" "take m b = take m b'"
  then have "take (n + off) b = take (n + off) b'" by (metis add.commute min_absorb1 take_take)
  then show ?thesis by (simp add: take_drop)
qed

lemma slice_ok_old_heap:
  assumes "slice_ok s x p" "lr_heap s' = lr_heap s @ [b]" "lr_moves s' = lr_moves s"
  shows "slice_ok s' x p"
  using assms by (auto simp: slice_ok_def slice_bytes_def nth_append)

lemma slice_ok_read:
  assumes "slice_ok s x p" "buffer_inv s"
  shows "slice_ok (read_data bs s) x p"
proof -
  have heap: "lr_heap (read_data bs s) =
      butlast (lr_heap s) @ [take (lr_end s) (buffer s) @ bs @ drop (lr_end s + length bs) (buffer s)]"
    by (simp add: read_data_def)
  have inv: "lr_heap s \<noteq> []" "lr_start s \<le> lr_end s" "lr_end s \<le> length (buffer s)"
    using assms(2) by (simp_all add: buffer_inv_def)
  have "slice_bytes (lr_heap (read_data bs s)) x = slice_bytes (lr_heap s) x"
    if x: "sl_buffer x < length (lr_heap s)" "Suc (sl_buffer x) = length (lr_heap s) \<longrightarrow> sl_offset x + sl_length x \<le> lr_start s"
  proof (cases "Suc (sl_buffer x) = length (lr_heap s)")
    case True
    then have i: "sl_buffer x = length (lr_heap s) - 1" by simp
    have "lr_heap s ! sl_buffer x = buffer s" "lr_heap (read_data bs s) ! sl_buffer x = buffer (read_data bs s)"
      unfolding i using heap_last [OF inv(1)] by (simp_all add: heap nth_append)
    moreover have "take (lr_end s) (buffer (read_data bs s)) = take (lr_end s) (buffer s)" using inv by simp
    ultimately show ?thesis
      using slice_prefix [of "sl_offset x" "sl_length x" "lr_end s" "buffer (read_data bs s)" "buffer s"] x(2) True inv(2)
      by (simp add: slice_bytes_def)
  next
    case False
    then show ?thesis using x(1) by (simp add: slice_bytes_def heap nth_append nth_butlast)
  qed
  then show ?thesis using assms(1) inv by (auto simp: slice_ok_def) (simp_all add: read_data_def)
qed

lemma slice_ok_put:
  assumes "slice_ok s x p"
  shows "slice_ok (put_line advance l s) x p"
  using assms by (auto simp: slice_ok_def put_line_def)

lemma slice_ok_new:
  assumes "buffer_inv s" "length l \<le> advance" "l = take (length l) (window s)" "advance \<le> length (window s)"
  shows "slice_ok (put_line advance l s)
    \<lparr>sl_buffer = length (lr_heap s) - 1, sl_offset = lr_start s, sl_length = length l\<rparr> (lr_moves s, l)"
proof -
  have "take (length l) (drop (lr_start s) (buffer s)) = l"
    using assms(2-4) length_window [OF assms(1)] unfolding window_def by (metis min_absorb1 order_trans take_take)
  then show ?thesis
    using assms(1,2) heap_last [of s] by (simp add: slice_ok_def slice_bytes_def put_line_def buffer_inv_def)
qed

lemma pending_put:
  "pending (put_line advance l s) =
     pending s @ [\<lparr>sl_buffer = length (lr_heap s) - 1, sl_offset = lr_start s, sl_length = length l\<rparr>]"
  by (simp add: pending_def put_line_def)

lemma stream_ok_put:
  assumes "stream_ok s" "buffer_inv s" "lr_channel s = []"
    and "length l \<le> advance" "l = take (length l) (window s)" "advance \<le> length (window s)"
  shows "stream_ok (put_line advance l s)"
proof -
  have len: "length (lr_published s) \<le> length (lr_sent s)"
  proof -
    have "list_all2 unmoved (lr_published s) (take (length (lr_published s)) (lr_sent s))"
      using assms(1) by (simp add: stream_ok_def)
    from list_all2_lengthD [OF this] show ?thesis by simp
  qed
  have "list_all2 (slice_ok (put_line advance l s)) (pending s) (drop (length (lr_published s)) (lr_sent s))"
    using assms(1) slice_ok_put by (auto simp: stream_ok_def intro: list_all2_mono)
  then have "list_all2 (slice_ok (put_line advance l s)) (pending (put_line advance l s))
      (drop (length (lr_published s)) (lr_sent s) @ [(lr_moves s, l)])"
    using slice_ok_new [OF assms(2,4-6)]
    by (simp add: pending_put list_all2_appendI del: One_nat_def)
  then show ?thesis using assms(1,3) len by (simp add: stream_ok_def) (simp add: put_line_def)
qed

lemma stream_ok_step:
  assumes "line_step s s'" "stream_ok s" "buffer_inv s"
  shows "stream_ok s'"
  using assms
proof (induction rule: line_step.induct)
  case (line s l rest)
  have "dropCR l = take (length (dropCR l)) (window s)"
    using dropCR_take [of l] length_dropCR [of l] by (simp add: line.hyps(1))
  then show ?case
    using stream_ok_put [OF line.prems line.hyps(3), of "dropCR l" "length l + 1"] length_dropCR [of l]
    by (simp add: line.hyps(1))
next
  case (last_line s err)
  then show ?case
    using stream_ok_put [of s "dropCR (window s)" "length (window s)"] length_dropCR dropCR_take by simp
next
  case (returns s err)
  have "slice_ok s x p \<Longrightarrow> slice_ok (new_scanner s) x p" for x p
    by (erule slice_ok_old_heap) (simp_all add: new_scanner_def)
  with returns show ?case by (auto simp: stream_ok_def pending_def new_scanner_def intro: list_all2_mono)
next
  case (too_long s)
  have "slice_ok s x p \<Longrightarrow> slice_ok (new_scanner s) x p" for x p
    by (erule slice_ok_old_heap) (simp_all add: new_scanner_def)
  with too_long show ?case by (auto simp: stream_ok_def pending_def new_scanner_def intro: list_all2_mono)
next
  case (moves s)
  have "slice_ok s x p \<Longrightarrow> slice_ok (move_data s) x p" for x p
    by (simp add: slice_ok_def) (simp add: move_data_def)
  with moves show ?case by (auto simp: stream_ok_def pending_def move_data_def intro: list_all2_mono)
next
  case (grows s)
  have "slice_ok s x p \<Longrightarrow> slice_ok (grow s) x p" for x p
    by (erule slice_ok_old_heap) (simp_all add: grow_def Let_def)
  with grows show ?case by (auto simp: stream_ok_def pending_def grow_def Let_def intro: list_all2_mono)
next
  case (reads s bs)
  have "slice_ok s x p \<Longrightarrow> slice_ok (read_data bs s) x p" for x p
    by (rule slice_ok_read [OF _ reads.prems(2)])
  with reads show ?case by (auto simp: stream_ok_def pending_def read_data_def intro: list_all2_mono)
next
  case (ends s err)
  have "slice_ok s x p \<Longrightarrow> slice_ok (s\<lparr>lr_err := Some err\<rparr>) x p" for x p by (simp add: slice_ok_def)
  with ends show ?case by (auto simp: stream_ok_def pending_def intro: list_all2_mono)
next
  case (takes s x xs)
  have "slice_ok s y p \<Longrightarrow> slice_ok (s\<lparr>lr_channel := xs, lr_held := Some x\<rparr>) y p" for y p by (simp add: slice_ok_def)
  with takes show ?case by (auto simp: stream_ok_def pending_def intro: list_all2_mono)
next
  case (publishes s x)
  let ?s' = "s\<lparr>lr_held := None, lr_published := lr_published s @ [(lr_moves s, slice_bytes (lr_heap s) x)]\<rparr>"
  have ok: "slice_ok s y p \<Longrightarrow> slice_ok ?s' y p" for y p by (simp add: slice_ok_def)
  from publishes obtain p ps where d: "drop (length (lr_published s)) (lr_sent s) = p # ps"
    and p: "slice_ok s x p" "list_all2 (slice_ok s) (lr_channel s) ps"
    by (auto simp: stream_ok_def pending_def list_all2_Cons1)
  have n: "length (lr_published s) < length (lr_sent s)" using d by (metis drop_eq_Nil list.distinct(1) not_le)
  then have t: "take (Suc (length (lr_published s))) (lr_sent s) = take (length (lr_published s)) (lr_sent s) @ [p]"
    "drop (Suc (length (lr_published s))) (lr_sent s) = ps"
    using d Cons_nth_drop_Suc [OF n] by (simp_all add: take_Suc_conv_app_nth)
  have "unmoved (lr_moves s, slice_bytes (lr_heap s) x) p" using p(1) by (simp add: unmoved_def slice_ok_def)
  with publishes.prems p(2) t ok show ?case
    by (auto simp: stream_ok_def pending_def intro: list_all2_mono list_all2_appendI)
qed


section \<open>Lemmas: the lines\<close>

definition lines_ok :: "line_run \<Rightarrow> byte list list \<Rightarrow> byte list \<Rightarrow> bool" where
  "lines_ok s ls f \<longleftrightarrow>
     lr_input s = concat (map (\<lambda>l. l @ [10]) ls) @ f @ window s \<and>
     (\<forall>l\<in>set (f # ls). 10 \<notin> set l \<and> length l < MaxScanTokenSize) \<and>
     (f \<noteq> [] \<longrightarrow> lr_err s \<noteq> None \<and> window s = []) \<and>
     (lr_err s \<noteq> None \<longrightarrow> length (window s) < MaxScanTokenSize) \<and>
     lr_first s \<le> length (lr_sent s) \<and>
     map snd (drop (lr_first s) (lr_sent s)) = map dropCR (ls @ (if f = [] then [] else [f]))"

lemma put_line_fields [simp]:
  "lr_input (put_line advance l s) = lr_input s" "lr_err (put_line advance l s) = lr_err s"
  "lr_first (put_line advance l s) = lr_first s" "lr_sent (put_line advance l s) = lr_sent s @ [(lr_moves s, l)]"
  by (simp_all add: put_line_def)

lemma move_data_fields [simp]:
  "lr_input (move_data s) = lr_input s" "lr_err (move_data s) = lr_err s" "lr_first (move_data s) = lr_first s"
  "lr_sent (move_data s) = lr_sent s" "lr_start (move_data s) = 0" "lr_end (move_data s) = lr_end s - lr_start s"
  by (simp_all add: move_data_def)

lemma grow_fields [simp]:
  "lr_input (grow s) = lr_input s" "lr_err (grow s) = lr_err s" "lr_first (grow s) = lr_first s"
  "lr_sent (grow s) = lr_sent s"
  by (simp_all add: grow_def Let_def)

lemma read_data_fields [simp]:
  "lr_input (read_data bs s) = lr_input s @ bs" "lr_err (read_data bs s) = lr_err s"
  "lr_first (read_data bs s) = lr_first s" "lr_sent (read_data bs s) = lr_sent s"
  by (simp_all add: read_data_def)

lemma lines_ok_new: "lines_ok (new_scanner s) [] []"
  using new_scanner_inv [of s] by (simp add: lines_ok_def MaxScanTokenSize_def) (simp add: new_scanner_def)

lemma lines_ok_line:
  assumes "lines_ok s ls f" "buffer_inv s" "window s = l @ 10 # rest" "10 \<notin> set l"
  shows "lines_ok (put_line (length l + 1) (dropCR l) s) (ls @ [l]) []"
proof -
  have "length (window s) \<le> length (buffer s)"
    using length_window [OF assms(2)] assms(2) by (auto simp: buffer_inv_def)
  then have "length (l @ 10 # rest) \<le> length (buffer s)" by (simp only: assms(3))
  then have l: "length l < MaxScanTokenSize" using assms(2) by (simp add: buffer_inv_def)
  have f: "f = []" using assms(1,3) by (auto simp: lines_ok_def)
  have w: "window (put_line (length l + 1) (dropCR l) s) = rest" by (simp add: window_put assms(3))
  show ?thesis
    using assms(1,3,4) l f unfolding lines_ok_def w by auto
qed

lemma lines_ok_last:
  assumes "lines_ok s ls f" "lr_err s = Some err" "window s \<noteq> []" "10 \<notin> set (window s)"
  shows "lines_ok (put_line (length (window s)) (dropCR (window s)) s) ls (window s)"
proof -
  have f: "f = []" using assms(1,3) by (auto simp: lines_ok_def)
  have w: "window (put_line (length (window s)) (dropCR (window s)) s) = []" by (simp add: window_put)
  show ?thesis
    using assms f unfolding lines_ok_def w by auto
qed

lemma lines_ok_step:
  assumes "line_step s s'" "lines_ok s ls f" "buffer_inv s"
  shows "\<exists>ls f. lines_ok s' ls f"
  using assms
proof (induction rule: line_step.induct)
  case (line s l rest)
  then show ?case using lines_ok_line by blast
next
  case (last_line s err)
  then show ?case using lines_ok_last by blast
next
  case (moves s)
  then show ?case using move_data_inv [of s] by (auto simp: lines_ok_def)
next
  case (grows s)
  then show ?case using grow_inv [of s] by (auto simp: lines_ok_def)
next
  case (reads s bs)
  then have "f = []" by (auto simp: lines_ok_def hungry_def)
  with reads show ?case using read_data_inv [of s bs] by (auto simp: lines_ok_def hungry_def)
next
  case (ends s err)
  have w: "window (s\<lparr>lr_err := Some err\<rparr>) = window s" by (simp add: window_def buffer_def)
  have "length (window s) < MaxScanTokenSize"
    using ends length_window [of s] by (auto simp: buffer_inv_def)
  with ends show ?case by (auto simp: lines_ok_def hungry_def w)
next
  case (takes s x xs)
  have "window (s\<lparr>lr_channel := xs, lr_held := Some x\<rparr>) = window s" by (simp add: window_def buffer_def)
  with takes show ?case by (auto simp: lines_ok_def)
next
  case (publishes s x)
  have "window (s\<lparr>lr_held := None, lr_published := lr_published s @ [(lr_moves s, slice_bytes (lr_heap s) x)]\<rparr>) = window s"
    by (simp add: window_def buffer_def)
  with publishes show ?case by (auto simp: lines_ok_def)
qed (use lines_ok_new in blast)+

lemma line_run_inv:
  "line_step\<^sup>*\<^sup>* line_start s \<Longrightarrow> buffer_inv s \<and> stream_ok s \<and> (\<exists>ls f. lines_ok s ls f)"
proof (induction rule: rtranclp_induct)
  case base
  have "lines_ok line_start [] []"
    by (simp add: lines_ok_def line_start_def window_def buffer_def MaxScanTokenSize_def)
  moreover have "stream_ok line_start" by (simp add: stream_ok_def line_start_def pending_def)
  ultimately show ?case using buffer_inv_start by blast
next
  case (step s s')
  then show ?case using buffer_inv_step stream_ok_step lines_ok_step by meson
qed

text \<open>The lines are those of the scanner of \<open>LineStream\<close>.\<close>

lemma split_lines_tail:
  "\<forall>l\<in>set ls. CHR 0x0A \<notin> set l \<Longrightarrow>
     split_lines [] (concat (map (\<lambda>l. l @ [CHR 0x0A]) ls) @ t) = ls @ split_lines [] t"
  by (induction ls) (simp_all add: split_lines_run)

lemma split_lines_no_newline:
  "CHR 0x0A \<notin> set t \<Longrightarrow> split_lines cur t = (if cur = [] \<and> t = [] then [] else [rev cur @ t])"
  by (induction t arbitrary: cur) auto

lemma string_of_newlines:
  "string_of_bytes (concat (map (\<lambda>l. l @ [10]) ls)) =
     concat (map (\<lambda>l. l @ [CHR 0x0A]) (map string_of_bytes ls))"
  by (induction ls) (simp_all add: string_of_bytes_def control_chars)

lemma drop_cr_bytes: "bytes_of_string (drop_cr (string_of_bytes l)) = dropCR l"
proof (cases l rule: rev_cases)
  case (snoc ys y)
  have "char_of (unat y) = CHR 0x0D \<longleftrightarrow> y = 13"
  proof
    assume "char_of (unat y) = CHR 0x0D"
    then have "y = of_char (CHR 0x0D)" by (metis of_char_byte)
    then show "y = 13" by simp
  qed (simp add: control_chars)
  then have "drop_cr (string_of_bytes (ys @ [y])) = string_of_bytes (if y = 13 then ys else ys @ [y])"
    by (simp add: drop_cr_def string_of_bytes_def)
  then show ?thesis by (simp add: snoc dropCR_def)
qed (simp add: drop_cr_def dropCR_def bytes_of_string_def)

lemma scan_of_lines:
  assumes "\<forall>l\<in>set (f # ls). 10 \<notin> set l \<and> length l < MaxScanTokenSize"
  shows "fst (scan (concat (map (\<lambda>l. l @ [10]) ls) @ f) err) = map dropCR (ls @ (if f = [] then [] else [f]))"
proof -
  let ?ls = "ls @ (if f = [] then [] else [f])"
  have "CHR 0x0A \<notin> set (string_of_bytes f)" using assms by (simp add: newline_byte)
  from split_lines_no_newline [OF this, of "[]"]
  have "split_lines [] (string_of_bytes f) = map string_of_bytes (if f = [] then [] else [f])"
    by (simp add: string_of_bytes_def)
  then have split: "split_lines [] (string_of_bytes (concat (map (\<lambda>l. l @ [10]) ls) @ f)) = map string_of_bytes ?ls"
    using assms unfolding string_of_bytes_simps string_of_newlines
    by (subst split_lines_tail) (auto simp: newline_byte)
  have "takeWhile (\<lambda>l. length l < 65536) (map string_of_bytes ?ls) = map string_of_bytes ?ls"
    using assms by (auto simp: takeWhile_eq_all_conv MaxScanTokenSize_def)
  then have "fst (scan (concat (map (\<lambda>l. l @ [10]) ls) @ f) err) =
      map bytes_of_string (map drop_cr (map string_of_bytes ?ls))"
    by (simp only: scan_def scan_lines_def split fst_conv)
  then show ?thesis by (simp only: map_map o_def drop_cr_bytes)
qed


section \<open>Properties\<close>

text \<open>C14: What a line connector puts on its stream, and what arrives. In every interleaving of the scanner and \<open>process\<close>
  the lines put on the stream are taken in order and at most two of them are under way; what \<open>process\<close>
  reads is the line that was put there, unless the scanner has moved the data of its buffer in between;
  and when the scanner has come to the end of the connection, the lines it has put on the stream are those of \<open>scan\<close>.\<close>

theorem lines_published:
  assumes "line_step\<^sup>*\<^sup>* line_start s"
  shows "length (lr_published s) \<le> length (lr_sent s) \<and> length (lr_sent s) \<le> length (lr_published s) + 2 \<and>
    (\<forall>i < length (lr_published s). fst (lr_published s ! i) = fst (lr_sent s ! i) \<longrightarrow>
      snd (lr_published s ! i) = snd (lr_sent s ! i)) \<and>
    (\<forall>err. lr_err s = Some err \<longrightarrow> window s = [] \<longrightarrow>
      map snd (drop (lr_first s) (lr_sent s)) = fst (scan (lr_input s) err))"
proof -
  from line_run_inv [OF assms] obtain ls f where inv: "stream_ok s" "lines_ok s ls f" by blast
  have p: "length (pending s) = length (lr_sent s) - length (lr_published s)" "length (pending s) \<le> 2"
    using inv(1) list_all2_lengthD [of "slice_ok s" "pending s"]
    by (fastforce simp: stream_ok_def, simp add: stream_ok_def pending_def split: option.split)
  have u: "list_all2 unmoved (lr_published s) (take (length (lr_published s)) (lr_sent s))"
    using inv(1) by (simp add: stream_ok_def)
  have le: "length (lr_published s) \<le> length (lr_sent s)" using list_all2_lengthD [OF u] by simp
  moreover have "length (lr_sent s) \<le> length (lr_published s) + 2" using p le by linarith
  moreover have "snd (lr_published s ! i) = snd (lr_sent s ! i)"
    if "i < length (lr_published s)" "fst (lr_published s ! i) = fst (lr_sent s ! i)" for i
    using list_all2_nthD [OF u that(1)] that by (simp add: unmoved_def)
  moreover have "map snd (drop (lr_first s) (lr_sent s)) = fst (scan (lr_input s) err)"
    if "lr_err s = Some err" "window s = []" for err
    using inv(2) scan_of_lines [of f ls err] that by (simp add: lines_ok_def)
  ultimately show ?thesis by blast
qed

text \<open>A line of 3000 bytes is read and taken from the stream; then a short line arrives.\<close>

definition long_line :: "byte list" where
  "long_line = replicate 3000 65"

lemma length_long_line [simp]: "length long_line = 3000"
  by (simp add: long_line_def)

definition long_run :: "line_run \<times> line_run" where
  "long_run =
     (let s = put_line 3001 long_line (read_data (long_line @ [10]) (grow line_start));
          taken = s\<lparr>lr_channel := [], lr_held := Some \<lparr>sl_buffer = 1, sl_offset = 0, sl_length = 3000\<rparr>\<rparr>
      in (taken, read_data [66, 10] (move_data taken)))"

lemma long_run_reachable:
  "line_step\<^sup>*\<^sup>* line_start (fst long_run) \<and> line_step\<^sup>*\<^sup>* (fst long_run) (snd long_run)"
proof -
  let ?s1 = "grow line_start"
  let ?s2 = "read_data (long_line @ [10]) ?s1"
  let ?s3 = "put_line 3001 long_line ?s2"
  let ?s4 = "?s3\<lparr>lr_channel := [], lr_held := Some \<lparr>sl_buffer = 1, sl_offset = 0, sl_length = 3000\<rparr>\<rparr>"
  have w0: "window line_start = []" "buffer line_start = []" by (simp_all add: window_def buffer_def line_start_def)
  have f0: "lr_start line_start = 0" "lr_end line_start = 0" "lr_err line_start = None" by (simp_all add: line_start_def)
  have b1: "buffer ?s1 = replicate 4096 0" by (simp add: buffer_grow w0 startBufSize_def)
  have f1: "lr_start ?s1 = 0" "lr_end ?s1 = 0" "lr_err ?s1 = None" "lr_channel ?s1 = []" "lr_held ?s1 = None"
    "length (lr_heap ?s1) = 2"
    by (simp_all add: grow_def line_start_def Let_def)
  have w1: "window ?s1 = []" by (simp add: window_def f1)
  have inv1: "buffer_inv ?s1" using grow_inv [OF buffer_inv_start] by blast
  have w2: "window ?s2 = long_line @ [10]" using read_data_inv [OF inv1, of "long_line @ [10]"] by (simp add: w1 b1 f1)
  have inv2: "buffer_inv ?s2" using read_data_inv [OF inv1, of "long_line @ [10]"] by (simp add: b1 f1)
  have f2: "lr_start ?s2 = 0" "lr_end ?s2 = 3001" "lr_channel ?s2 = []" "lr_held ?s2 = None" "length (lr_heap ?s2) = 2"
    using f1 by (simp_all add: read_data_def)
  have no10: "10 \<notin> set long_line" "dropCR long_line = long_line" by (simp_all add: long_line_def dropCR_def)
  have 1: "line_step line_start ?s1"
    by (rule line_step.grows) (simp_all add: hungry_def w0 f0 MaxScanTokenSize_def)
  have 2: "line_step ?s1 ?s2"
    by (rule line_step.reads) (simp_all add: hungry_def must_move_def w1 b1 f1 f0)
  have 3: "line_step ?s2 ?s3"
    using line_step.line [of ?s2 long_line "[]"] by (simp add: w2 f2 no10)
  have 4: "line_step ?s3 ?s4"
    using line_step.takes [of ?s3 "\<lparr>sl_buffer = 1, sl_offset = 0, sl_length = 3000\<rparr>" "[]"]
    by (simp add: put_line_def f2)
  have b4: "buffer ?s4 = buffer ?s2" by (simp add: buffer_def put_line_def)
  have len2: "length (buffer ?s2) = 4096" by (simp add: b1 f1)
  have w4: "window ?s4 = []" by (simp add: window_def put_line_def f2)
  have f4: "lr_start ?s4 = 3001" "lr_end ?s4 = 3001" "lr_err ?s4 = None" by (simp_all add: put_line_def f2 f1 f0)
  have 5: "line_step ?s4 (move_data ?s4)"
    by (rule line_step.moves) (simp_all only: hungry_def must_move_def w4 f4 b4 len2, simp_all)
  have f5: "lr_start (move_data ?s4) = 0" "lr_end (move_data ?s4) = 0" "lr_err (move_data ?s4) = None"
    by (simp_all only: move_data_fields f4 diff_self_eq_0)
  have w5: "window (move_data ?s4) = []" by (simp only: window_def f5) simp
  have b5: "buffer (move_data ?s4) = buffer ?s2" by (simp only: buffer_move w4 b4) simp
  have 6: "line_step (move_data ?s4) (read_data [66, 10] (move_data ?s4))"
    by (rule line_step.reads) (simp_all only: hungry_def must_move_def f5 w5 b5 len2, simp_all)
  show ?thesis
    unfolding long_run_def Let_def fst_conv snd_conv
    using 1 2 3 4 5 6 by (meson converse_rtranclp_into_rtranclp r_into_rtranclp)
qed


theorem lines_published_witness:
  "length (lr_published (snd long_run)) \<le> 2 \<and> length (lr_sent (snd long_run)) \<le> length (lr_published (snd long_run)) + 2"
proof -
  have "line_step\<^sup>*\<^sup>* line_start (snd long_run)" using long_run_reachable by (meson rtranclp_trans)
  from lines_published [OF this] have
    "length (lr_published (snd long_run)) \<le> length (lr_sent (snd long_run)) \<and>
     length (lr_sent (snd long_run)) \<le> length (lr_published (snd long_run)) + 2" by blast
  moreover have "length (lr_sent (snd long_run)) = 1"
    by (simp add: long_run_def Let_def) (simp add: grow_def line_start_def Let_def)
  ultimately show ?thesis by linarith
qed

text \<open>A line is overwritten before it is published. A line of 3000 bytes is put on the stream and taken from
  it; the scanner moves its data and reads a short line into the same buffer; what is then published as
  the first line begins with the second, and is none of the lines that were put on the stream.\<close>

theorem line_overwritten:
  "\<exists>s v. line_step\<^sup>*\<^sup>* line_start s \<and> v \<in> snd ` set (lr_published s) \<and> v \<notin> snd ` set (lr_sent s) \<and> take 2 v = [66, 10]"
proof -
  let ?s = "snd long_run"
  let ?x = "\<lparr>sl_buffer = 1, sl_offset = 0, sl_length = 3000\<rparr>"
  let ?v = "slice_bytes (lr_heap ?s) ?x"
  have held: "lr_held ?s = Some ?x" by (simp add: long_run_def Let_def) (simp add: move_data_def read_data_def)
  have sent: "snd ` set (lr_sent ?s) = {long_line}"
    by (simp add: long_run_def Let_def) (simp add: grow_def line_start_def Let_def)
  have "lr_heap ?s ! 1 = buffer ?s"
    by (simp add: long_run_def Let_def) (simp add: read_data_def move_data_def put_line_def grow_def line_start_def window_def
        buffer_def startBufSize_def Let_def)
  moreover have "lr_end (move_data (fst long_run)) = 0"
    by (simp add: long_run_def move_data_def put_line_def read_data_def grow_def line_start_def Let_def)
  then have "take 2 (buffer (read_data [66, 10] (move_data (fst long_run)))) = [66, 10]" by (simp del: buffer_move)
  then have "take 2 (buffer ?s) = [66, 10]" by (simp only: long_run_def Let_def fst_conv snd_conv)
  ultimately have v: "take 2 ?v = [66, 10]" by (simp add: slice_bytes_def min_def)
  have "take 2 long_line = [65, 65]" by (simp add: long_line_def numeral_2_eq_2 min_def)
  with v have "?v \<noteq> long_line" by auto
  moreover have "line_step\<^sup>*\<^sup>* line_start (?s\<lparr>lr_held := None, lr_published := lr_published ?s @ [(lr_moves ?s, ?v)]\<rparr>)"
    using long_run_reachable line_step.publishes [OF held] by (meson rtranclp.rtrancl_into_rtrancl rtranclp_trans)
  ultimately show ?thesis using sent v
    by (intro exI [of _ "?s\<lparr>lr_held := None, lr_published := lr_published ?s @ [(lr_moves ?s, ?v)]\<rparr>"] exI [of _ ?v]) simp
qed

end
