(* ===== verification/ConnectorStreams.thy ===== *)
theory ConnectorStreams
  imports Commands
begin

text \<open>
  The publishing halves of \<open>connector/canbus.go\<close> and \<open>connector/http.go\<close>: a goroutine that calls \<open>receive\<close>
  again and again, the channel of the stream, which has one place, and \<open>process\<close>. What \<open>receive\<close> does is a
  relation on the state of the receiver, labelled with the goroutine that acts and the value it has for the
  stream. To have a value and to put it there are two steps: while the channel is full the goroutine blocks
  in \<open>stream <- bytes\<close>, holding the value. Every value is a slice of its own. The CAN and HTTP libraries are
  parameters; the CAN bus calls the handler in its own goroutine, for one frame after the other.
\<close>

section \<open>A receiver and its stream\<close>

text \<open>
  \<open>pu_sending\<close> holds the goroutines that are in \<open>stream <- bytes\<close> with their values. The values of the channel
  and those that \<open>process\<close> has taken carry the number of the goroutine that put them there.
\<close>

record 'r publishing =
  pu_receiver :: 'r
  pu_sending :: "(nat \<times> byte list) list"
  pu_stream :: "(nat \<times> byte list) list"
  pu_processed :: "(nat \<times> byte list) list"

definition publishing_start :: "'r \<Rightarrow> 'r publishing" where
  "publishing_start r = \<lparr>pu_receiver = r, pu_sending = [], pu_stream = [], pu_processed = []\<rparr>"

definition streamCapacity :: nat where
  "streamCapacity = 1"

definition blocked :: "'r publishing \<Rightarrow> nat \<Rightarrow> bool" where
  "blocked s i \<longleftrightarrow> i \<in> fst ` set (pu_sending s)"

inductive publish_step :: "('r \<Rightarrow> nat \<Rightarrow> byte list option \<Rightarrow> 'r \<Rightarrow> bool) \<Rightarrow> 'r publishing \<Rightarrow> 'r publishing \<Rightarrow> bool" for recv where
  receives: "\<not> blocked s i \<Longrightarrow> recv (pu_receiver s) i None r \<Longrightarrow> publish_step recv s (s\<lparr>pu_receiver := r\<rparr>)"
| accepts: "\<not> blocked s i \<Longrightarrow> recv (pu_receiver s) i (Some v) r \<Longrightarrow>
     publish_step recv s (s\<lparr>pu_receiver := r, pu_sending := pu_sending s @ [(i, v)]\<rparr>)"
| puts: "pu_sending s = ps @ (i, v) # qs \<Longrightarrow> length (pu_stream s) < streamCapacity \<Longrightarrow>
     publish_step recv s (s\<lparr>pu_sending := ps @ qs, pu_stream := pu_stream s @ [(i, v)]\<rparr>)"
| processes: "pu_stream s = p # vs \<Longrightarrow>
     publish_step recv s (s\<lparr>pu_stream := vs, pu_processed := pu_processed s @ [p]\<rparr>)"

definition by_goroutine :: "nat \<Rightarrow> (nat \<times> 'a) list \<Rightarrow> 'a list" where
  "by_goroutine i ps = map snd (filter (\<lambda>p. fst p = i) ps)"

lemma by_goroutine_simps [simp]:
  "by_goroutine i [] = []"
  "by_goroutine i (p # ps) = (if fst p = i then snd p # by_goroutine i ps else by_goroutine i ps)"
  "by_goroutine i (ps @ qs) = by_goroutine i ps @ by_goroutine i qs"
  by (simp_all add: by_goroutine_def)

lemma by_goroutine_none [simp]: "i \<notin> fst ` set ps \<Longrightarrow> by_goroutine i ps = []"
  by (auto simp: by_goroutine_def filter_empty_conv)

lemma by_goroutine_all: "(\<And>p. p \<in> set ps \<Longrightarrow> fst p = i) \<Longrightarrow> by_goroutine i ps = map snd ps"
  by (induction ps) auto

lemma by_goroutine_distinct: "distinct (map fst ps) \<Longrightarrow> length (by_goroutine i ps) \<le> 1"
proof (induction ps)
  case (Cons p ps)
  then show ?case by (cases "fst p = i") auto
qed simp

text \<open>
  What a connector promises of its receiver: the values its goroutines had for the stream can be told from its
  state. Then those of each goroutine pass in order: taken by \<open>process\<close>, in the channel, or still in its hands.
\<close>

locale receiver =
  fixes recv :: "'r \<Rightarrow> nat \<Rightarrow> byte list option \<Rightarrow> 'r \<Rightarrow> bool" and emitted :: "'r \<Rightarrow> (nat \<times> byte list) list"
  assumes silent: "recv r i None r' \<Longrightarrow> emitted r' = emitted r"
    and emits: "recv r i (Some v) r' \<Longrightarrow> emitted r' = emitted r @ [(i, v)]"
begin

definition in_order :: "'r publishing \<Rightarrow> bool" where
  "in_order s \<longleftrightarrow> (\<forall>i. by_goroutine i (emitted (pu_receiver s)) =
      by_goroutine i (pu_processed s) @ by_goroutine i (pu_stream s) @ by_goroutine i (pu_sending s)) \<and>
    distinct (map fst (pu_sending s)) \<and> length (pu_stream s) \<le> streamCapacity"

lemma in_order_step: "publish_step recv s s' \<Longrightarrow> in_order s \<Longrightarrow> in_order s'"
proof (induction rule: publish_step.induct)
  case (receives s i r)
  then show ?case by (simp add: in_order_def silent)
next
  case (accepts s i v r)
  then show ?case by (auto simp: in_order_def emits blocked_def)
next
  case (puts s ps i v qs)
  then have "i \<notin> fst ` set ps" by (auto simp: in_order_def)
  with puts show ?case by (auto simp: in_order_def)
next
  case (processes s p vs)
  then show ?case by (auto simp: in_order_def)
qed

lemma in_order_reachable:
  assumes "emitted r0 = []" "(publish_step recv)\<^sup>*\<^sup>* (publishing_start r0) s"
  shows "in_order s"
  using assms(2)
proof (induction rule: rtranclp_induct)
  case base
  then show ?case using assms(1) by (simp add: publishing_start_def in_order_def)
next
  case (step s s')
  then show ?case using in_order_step by blast
qed

lemma processed_prefix:
  assumes "emitted r0 = []" "(publish_step recv)\<^sup>*\<^sup>* (publishing_start r0) s"
  shows "by_goroutine i (pu_processed s) = take (length (by_goroutine i (pu_processed s))) (by_goroutine i (emitted (pu_receiver s))) \<and>
    length (by_goroutine i (emitted (pu_receiver s))) \<le> length (by_goroutine i (pu_processed s)) + streamCapacity + 1"
proof -
  have inv: "in_order s" using in_order_reachable [OF assms] .
  then have "length (by_goroutine i (pu_sending s)) \<le> 1" by (intro by_goroutine_distinct) (simp add: in_order_def)
  moreover have "length (by_goroutine i (pu_stream s)) \<le> length (pu_stream s)" by (simp add: by_goroutine_def)
  ultimately show ?thesis using inv by (auto simp: in_order_def)
qed

lemma emitted_step: "publish_step recv s s' \<Longrightarrow>
    set (pu_processed s) \<union> set (pu_stream s) \<union> set (pu_sending s) \<subseteq> set (emitted (pu_receiver s)) \<Longrightarrow>
    set (pu_processed s') \<union> set (pu_stream s') \<union> set (pu_sending s') \<subseteq> set (emitted (pu_receiver s'))"
  by (induction rule: publish_step.induct) (auto simp: silent emits)

lemma processed_emitted:
  assumes "(publish_step recv)\<^sup>*\<^sup>* (publishing_start r0) s"
  shows "set (pu_processed s) \<union> set (pu_stream s) \<union> set (pu_sending s) \<subseteq> set (emitted (pu_receiver s))"
  using assms
proof (induction rule: rtranclp_induct)
  case base
  then show ?case by (simp add: publishing_start_def)
next
  case (step s s')
  then show ?case by (blast dest: emitted_step)
qed

end

section \<open>The CAN bus\<close>

definition NewCanBusConnector :: "connector_config \<Rightarrow> ('c, 'dev) any_connector" where
  "NewCanBusConnector c = CanBusConnector c"

text \<open>
  \<open>receive\<close> opens the interface and hands every frame to the handler until the bus is left. A failure is
  logged, and \<open>receive\<close> is called again. Without an address it panics.
\<close>

record can_receiver =
  cn_connected :: bool
  cn_panicked :: bool
  cn_warnings :: "string list"
  cn_frames :: "can_frame list"

definition can_start :: can_receiver where
  "can_start = \<lparr>cn_connected = False, cn_panicked = False, cn_warnings = [], cn_frames = []\<rparr>"

definition handleCanFrameStream :: "can_frame \<Rightarrow> byte list" where
  "handleCanFrameStream frm = FrameToBytes frm"

inductive can_receive ::
    "(string \<Rightarrow> string option \<Rightarrow> bool) \<Rightarrow> connector_config \<Rightarrow> can_receiver \<Rightarrow> nat \<Rightarrow> byte list option \<Rightarrow> can_receiver \<Rightarrow> bool"
  for NewBus c where
  no_address: "\<not> cn_panicked r \<Longrightarrow> cc_URL c = None \<Longrightarrow> can_receive NewBus c r 0 None (r\<lparr>cn_panicked := True\<rparr>)"
| fails: "\<not> cn_panicked r \<Longrightarrow> \<not> cn_connected r \<Longrightarrow> cc_URL c = Some u \<Longrightarrow> NewBus (url_Host u) (Some err) \<Longrightarrow>
     can_receive NewBus c r 0 None (r\<lparr>cn_warnings := cn_warnings r @ [err]\<rparr>)"
| connects: "\<not> cn_panicked r \<Longrightarrow> \<not> cn_connected r \<Longrightarrow> cc_URL c = Some u \<Longrightarrow> NewBus (url_Host u) None \<Longrightarrow>
     can_receive NewBus c r 0 None (r\<lparr>cn_connected := True\<rparr>)"
| handles: "\<not> cn_panicked r \<Longrightarrow> cn_connected r \<Longrightarrow> length (fr_Data frm) = 8 \<Longrightarrow>
     can_receive NewBus c r 0 (Some (handleCanFrameStream frm)) (r\<lparr>cn_frames := cn_frames r @ [frm]\<rparr>)"
| leaves: "\<not> cn_panicked r \<Longrightarrow> cn_connected r \<Longrightarrow> can_receive NewBus c r 0 None (r\<lparr>cn_connected := False\<rparr>)"

interpretation can_stream: receiver "can_receive NewBus c" "\<lambda>r. map (\<lambda>frm. (0, FrameToBytes frm)) (cn_frames r)" for NewBus c
  by unfold_locales (auto elim!: can_receive.cases simp: handleCanFrameStream_def)

lemma can_frames_data:
  "can_receive NewBus c r i out r' \<Longrightarrow> \<forall>frm\<in>set (cn_frames r). length (fr_Data frm) = 8 \<Longrightarrow>
     \<forall>frm\<in>set (cn_frames r'). length (fr_Data frm) = 8"
  by (induction rule: can_receive.induct) auto

lemma can_frames_reachable:
  "(publish_step (can_receive NewBus c))\<^sup>*\<^sup>* (publishing_start can_start) s \<Longrightarrow>
     \<forall>frm\<in>set (cn_frames (pu_receiver s)). length (fr_Data frm) = 8"
proof (induction rule: rtranclp_induct)
  case base
  then show ?case by (simp add: publishing_start_def can_start_def)
next
  case (step s s')
  from step.hyps(2) step.IH show ?case
    by (cases rule: publish_step.cases) (auto dest: can_frames_data)
qed

section \<open>HTTP\<close>

definition NewHttpConnector :: "connector_config \<Rightarrow> url_group_config list \<Rightarrow> ('c, 'dev) any_connector" where
  "NewHttpConnector c ugcs = HttpConnector c ugcs"

text \<open>
  One goroutine per URL, which polls until a request or the reading of its body fails. \<open>hc_bodies\<close> are the
  bodies it had for the stream, with the number of the URL. The ticker of a goroutine that blocks drops its
  ticks; when a poll starts is left open.
\<close>

record http_receiver =
  hc_polls :: "bool list"
  hc_bodies :: "(nat \<times> byte list) list"

definition http_receiver_start :: "url_group_config list \<Rightarrow> http_receiver" where
  "http_receiver_start ugcs = \<lparr>hc_polls = map (\<lambda>_. True) ugcs, hc_bodies = []\<rparr>"

inductive http_receive :: "(nat \<Rightarrow> string + (string + byte list) \<Rightarrow> bool) \<Rightarrow> http_receiver \<Rightarrow> nat \<Rightarrow> byte list option \<Rightarrow> http_receiver \<Rightarrow> bool"
  for Get where
  request_fails: "i < length (hc_polls r) \<Longrightarrow> hc_polls r ! i \<Longrightarrow> Get i (Inl err) \<Longrightarrow>
     http_receive Get r i None (r\<lparr>hc_polls := (hc_polls r)[i := False]\<rparr>)"
| body_fails: "i < length (hc_polls r) \<Longrightarrow> hc_polls r ! i \<Longrightarrow> Get i (Inr (Inl err)) \<Longrightarrow>
     http_receive Get r i None (r\<lparr>hc_polls := (hc_polls r)[i := False]\<rparr>)"
| body: "i < length (hc_polls r) \<Longrightarrow> hc_polls r ! i \<Longrightarrow> Get i (Inr (Inr bytes)) \<Longrightarrow>
     http_receive Get r i (Some bytes) (r\<lparr>hc_bodies := hc_bodies r @ [(i, bytes)]\<rparr>)"

interpretation http_stream: receiver "http_receive Get" hc_bodies for Get
  by unfold_locales (auto elim!: http_receive.cases)

text \<open>Every body was a response to a poll of its URL, and a URL that failed once is not polled again.\<close>

lemma http_receive_polled:
  "http_receive Get r i out r' \<Longrightarrow> \<forall>(i, bytes)\<in>set (hc_bodies r). Get i (Inr (Inr bytes)) \<Longrightarrow>
     \<forall>(i, bytes)\<in>set (hc_bodies r'). Get i (Inr (Inr bytes))"
  by (induction rule: http_receive.induct) auto

lemma http_polled:
  "(publish_step (http_receive Get))\<^sup>*\<^sup>* (publishing_start (http_receiver_start ugcs)) s \<Longrightarrow>
     \<forall>(i, bytes)\<in>set (hc_bodies (pu_receiver s)). Get i (Inr (Inr bytes))"
proof (induction rule: rtranclp_induct)
  case base
  then show ?case by (simp add: publishing_start_def http_receiver_start_def)
next
  case (step s s')
  from step.hyps(2) step.IH show ?case
    by (cases rule: publish_step.cases) (auto dest: http_receive_polled)
qed

section \<open>Properties\<close>

lemma can_only_goroutine:
  assumes "(publish_step (can_receive NewBus c))\<^sup>*\<^sup>* (publishing_start can_start) s"
  shows "by_goroutine 0 (pu_processed s) = map snd (pu_processed s)"
  using can_stream.processed_emitted [OF assms] by (intro by_goroutine_all) auto

text \<open>C34: Frames from the bus to the mapper. In every interleaving, through lost connections and failed attempts, what
  \<open>process\<close> has taken from the stream of the CAN connector are the frames with which the bus called the handler,
  each once and in order, and the mapper decodes each to exactly the frame it was. At most two frames are behind:
  one in the channel and one with which the handler blocks.\<close>

theorem can_frames_delivered:
  assumes "(publish_step (can_receive NewBus c))\<^sup>*\<^sup>* (publishing_start can_start) s"
  shows "map (\<lambda>(_, v). createFrame (WithRawValue v (NewRaw u t))) (pu_processed s) =
      map Inr (take (length (pu_processed s)) (cn_frames (pu_receiver s))) \<and>
    length (cn_frames (pu_receiver s)) \<le> length (pu_processed s) + 2"
proof -
  let ?frames = "cn_frames (pu_receiver s)" and ?n = "length (pu_processed s)"
  have "by_goroutine 0 (map (\<lambda>frm. (0, FrameToBytes frm)) ?frames) = map FrameToBytes ?frames"
    by (simp add: by_goroutine_def filter_map comp_def)
  then have p: "map snd (pu_processed s) = take ?n (map FrameToBytes ?frames)" "length ?frames \<le> ?n + 2"
    using can_stream.processed_prefix [OF _ assms, of 0] can_only_goroutine [OF assms]
    by (simp_all add: can_start_def streamCapacity_def)
  have "createFrame (WithRawValue (FrameToBytes frm) (NewRaw u t)) = Inr frm" if "frm \<in> set ?frames" for frm
    using that can_frames_reachable [OF assms] by (intro createFrame_FrameToBytes) (auto simp: builder_defs)
  then have "map (\<lambda>v. createFrame (WithRawValue v (NewRaw u t))) (take ?n (map FrameToBytes ?frames)) =
      map Inr (take ?n ?frames)"
    by (auto simp: take_map dest: in_set_takeD)
  with p have "map (\<lambda>v. createFrame (WithRawValue v (NewRaw u t))) (map snd (pu_processed s)) = map Inr (take ?n ?frames)"
    by simp
  moreover have "(\<lambda>(_ :: nat, v). createFrame (WithRawValue v (NewRaw u t))) = (\<lambda>v. createFrame (WithRawValue v (NewRaw u t))) \<circ> snd"
    by (auto simp: fun_eq_iff)
  ultimately show ?thesis using p(2) by simp
qed

theorem can_frames_delivered_witness:
  "\<exists>s. (publish_step (can_receive (\<lambda>_ err. err = None) (default_connector_config\<lparr>cc_URL := Some (sample_url ''can'')\<rparr>)))\<^sup>*\<^sup>*
       (publishing_start can_start) s \<and>
     map (\<lambda>(_, v). createFrame (WithRawValue v (NewRaw 0 0))) (pu_processed s) = [Inr sample_frame]"
proof -
  let ?recv = "can_receive (\<lambda>_ err. err = None) (default_connector_config\<lparr>cc_URL := Some (sample_url ''can'')\<rparr>)"
  let ?v = "handleCanFrameStream sample_frame"
  let ?s1 = "publishing_start (can_start\<lparr>cn_connected := True\<rparr>)"
  let ?r2 = "can_start\<lparr>cn_connected := True, cn_frames := [sample_frame]\<rparr>"
  let ?s2 = "\<lparr>pu_receiver = ?r2, pu_sending = [(0, ?v)], pu_stream = [], pu_processed = []\<rparr>"
  let ?s3 = "\<lparr>pu_receiver = ?r2, pu_sending = [], pu_stream = [(0, ?v)], pu_processed = []\<rparr>"
  let ?s4 = "\<lparr>pu_receiver = ?r2, pu_sending = [], pu_stream = [], pu_processed = [(0, ?v)]\<rparr>"
  have "?recv can_start 0 None (can_start\<lparr>cn_connected := True\<rparr>)"
    by (rule can_receive.connects [of _ _ "sample_url ''can''"]) (simp_all add: can_start_def)
  then have 1: "publish_step ?recv (publishing_start can_start) ?s1"
    using publish_step.receives [of "publishing_start can_start" 0 ?recv] by (simp add: publishing_start_def blocked_def)
  have "?recv (can_start\<lparr>cn_connected := True\<rparr>) 0 (Some ?v) ?r2"
    using can_receive.handles [of "can_start\<lparr>cn_connected := True\<rparr>" sample_frame]
    by (simp add: can_start_def sample_frame_def)
  then have 2: "publish_step ?recv ?s1 ?s2"
    using publish_step.accepts [of ?s1 0 ?recv] by (simp add: publishing_start_def blocked_def)
  have 3: "publish_step ?recv ?s2 ?s3"
    using publish_step.puts [of ?s2 "[]" 0 ?v "[]" ?recv] by (simp add: streamCapacity_def)
  have 4: "publish_step ?recv ?s3 ?s4" using publish_step.processes [of ?s3 _ "[]" ?recv] by simp
  have run: "(publish_step ?recv)\<^sup>*\<^sup>* (publishing_start can_start) ?s4"
    using 1 2 3 4 by (meson converse_rtranclp_into_rtranclp r_into_rtranclp)
  from can_frames_delivered [OF run, of 0 0] run show ?thesis
    by (intro exI [of _ ?s4] conjI) (simp_all add: can_start_def)
qed

text \<open>The bodies that \<open>process\<close> has taken from the stream of the HTTP connector are, for each URL, the bodies of the
  responses to its polls, each once and in order, at most two of them behind. Between URLs the order is that in
  which the goroutines put them there.\<close>

theorem http_bodies_delivered:
  assumes "(publish_step (http_receive Get))\<^sup>*\<^sup>* (publishing_start (http_receiver_start ugcs)) s"
  shows "by_goroutine i (pu_processed s) = take (length (by_goroutine i (pu_processed s))) (by_goroutine i (hc_bodies (pu_receiver s)))"
    and "length (by_goroutine i (hc_bodies (pu_receiver s))) \<le> length (by_goroutine i (pu_processed s)) + 2"
    and "(i, v) \<in> set (pu_processed s) \<Longrightarrow> Get i (Inr (Inr v))"
proof -
  show "by_goroutine i (pu_processed s) = take (length (by_goroutine i (pu_processed s))) (by_goroutine i (hc_bodies (pu_receiver s)))"
    "length (by_goroutine i (hc_bodies (pu_receiver s))) \<le> length (by_goroutine i (pu_processed s)) + 2"
    using http_stream.processed_prefix [OF _ assms, of i] by (simp_all add: http_receiver_start_def streamCapacity_def)
  show "Get i (Inr (Inr v))" if "(i, v) \<in> set (pu_processed s)"
    using that http_stream.processed_emitted [OF assms] http_polled [OF assms] by fastforce
qed

text \<open>Without an address the CAN connector panics at its first attempt.\<close>

theorem can_needs_address:
  assumes "cc_URL c = None" "can_receive NewBus c can_start i out r"
  shows "cn_panicked r \<and> out = None"
  using assms(2) by (cases rule: can_receive.cases) (use assms(1) in \<open>auto simp: can_start_def\<close>)

end
