(* ===== verification/LweRun.thy ===== *)
theory LweRun
  imports Lwe "HOL-Library.Multiset"
begin

text \<open>
  The loop and the goroutines of \<open>writer/lwe.go\<close>: \<open>WriteRaw\<close> starts a goroutine with \<open>multicast\<close> for every message
  it receives, and these share the line counter, which a lock protects.
\<close>

section \<open>The goroutines\<close>

text \<open>
  A goroutine has been started, has dialled the group of its message, or has made the datagram and not yet
  written it. Dialling can succeed or fail, each time anew. \<open>lw_ignored\<close> are the messages that have no group,
  \<open>lw_refused\<close> those whose group could not be dialled, \<open>lw_tagged\<close> the others in the order in which their
  goroutines made the tag block; \<open>lw_lost\<close> the datagrams whose writing failed, which nobody looks at.
\<close>

datatype lwe_task = Started raw | Dialled raw udp_addr | Tagged udp_addr "byte list"

record lwe_run =
  lw_writer :: lwe_writer
  lw_received :: "raw list"
  lw_tasks :: "lwe_task list"
  lw_ignored :: "raw list"
  lw_refused :: "raw list"
  lw_tagged :: "raw list"
  lw_sent :: "(udp_addr \<times> byte list) list"
  lw_lost :: "(udp_addr \<times> byte list) list"

definition lwe_start :: "lwe_writer \<Rightarrow> lwe_run" where
  "lwe_start w =
     \<lparr>lw_writer = w, lw_received = [], lw_tasks = [], lw_ignored = [], lw_refused = [], lw_tagged = [], lw_sent = [], lw_lost = []\<rparr>"

definition lwe_receive :: "(byte list \<Rightarrow> string + raw) \<Rightarrow> received \<Rightarrow> raw option" where
  "lwe_receive unmarshal r =
     (case r of
        RecvError err \<Rightarrow> None
      | Received data \<Rightarrow> (case unmarshal data of Inl err \<Rightarrow> None | Inr raw \<Rightarrow> Some raw))"

text \<open>The group that a message is sent to, if it is sent.\<close>

definition lwe_group :: "raw \<Rightarrow> udp_addr option" where
  "lwe_group raw =
     (if raw_Type raw \<noteq> NMEA0183Type \<or> length (raw_Value raw) < 3 then None
      else map_of talkerMulticastMap (take 2 (drop 1 (string_of_bytes (raw_Value raw)))))"

definition lwe_datagram :: "byte list \<Rightarrow> raw \<Rightarrow> byte list" where
  "lwe_datagram tag raw = (((bytes_of_string ''UdPbC'' @ [0]) @ tag) @ raw_Value raw) @ [13, 10]"

inductive lwe_step ::
    "(byte list \<Rightarrow> string + raw) \<Rightarrow> lwe_run \<Rightarrow> lwe_run \<Rightarrow> bool" for unmarshal where
  receives: "lwe_receive unmarshal r = Some raw \<Longrightarrow>
     lwe_step unmarshal s (s\<lparr>lw_received := lw_received s @ [raw], lw_tasks := lw_tasks s @ [Started raw]\<rparr>)"
| ignores: "lw_tasks s = xs @ Started raw # ys \<Longrightarrow> lwe_group raw = None \<Longrightarrow>
     lwe_step unmarshal s (s\<lparr>lw_tasks := xs @ ys, lw_ignored := lw_ignored s @ [raw]\<rparr>)"
| dial_fails: "lw_tasks s = xs @ Started raw # ys \<Longrightarrow> lwe_group raw = Some addr \<Longrightarrow>
     lwe_step unmarshal s (s\<lparr>lw_tasks := xs @ ys, lw_refused := lw_refused s @ [raw]\<rparr>)"
| dials: "lw_tasks s = xs @ Started raw # ys \<Longrightarrow> lwe_group raw = Some addr \<Longrightarrow>
     lwe_step unmarshal s (s\<lparr>lw_tasks := xs @ Dialled raw addr # ys\<rparr>)"
| tags: "lw_tasks s = xs @ Dialled raw addr # ys \<Longrightarrow> createTagBlock (lw_writer s) raw = (w, tag) \<Longrightarrow>
     lwe_step unmarshal s
       (s\<lparr>lw_writer := w, lw_tasks := xs @ Tagged addr (lwe_datagram tag raw) # ys, lw_tagged := lw_tagged s @ [raw]\<rparr>)"
| sends: "lw_tasks s = xs @ Tagged addr datagram # ys \<Longrightarrow>
     lwe_step unmarshal s (s\<lparr>lw_tasks := xs @ ys, lw_sent := lw_sent s @ [(addr, datagram)]\<rparr>)"
| loses: "lw_tasks s = xs @ Tagged addr datagram # ys \<Longrightarrow>
     lwe_step unmarshal s (s\<lparr>lw_tasks := xs @ ys, lw_lost := lw_lost s @ [(addr, datagram)]\<rparr>)"

section \<open>Lemmas\<close>

fun waiting_message :: "lwe_task \<Rightarrow> raw list" where
  "waiting_message (Started raw) = [raw]"
| "waiting_message (Dialled raw addr) = [raw]"
| "waiting_message (Tagged addr datagram) = []"

fun waiting_datagram :: "lwe_task \<Rightarrow> (udp_addr \<times> byte list) list" where
  "waiting_datagram (Tagged addr datagram) = [(addr, datagram)]"
| "waiting_datagram t = []"

fun task_ok :: "lwe_task \<Rightarrow> bool" where
  "task_ok (Dialled raw addr) \<longleftrightarrow> lwe_group raw = Some addr"
| "task_ok t \<longleftrightarrow> True"

text \<open>An attempt to send a message: whether its group could be dialled, and the message.\<close>

definition multicast_attempt :: "lwe_writer \<Rightarrow> bool \<times> raw \<Rightarrow> lwe_writer \<times> (udp_addr \<times> byte list) option" where
  "multicast_attempt w a = multicast (\<lambda>_. fst a) w (snd a)"

definition dialled :: "raw \<Rightarrow> bool \<times> raw" where
  "dialled raw = (True, raw)"

text \<open>The steps of a goroutine together are \<open>multicast\<close>.\<close>

lemma multicast_group:
  "lwe_group raw = Some addr \<Longrightarrow> createTagBlock w raw = (w', tag) \<Longrightarrow>
     multicast_attempt w (dialled raw) = (w', Some (addr, lwe_datagram tag raw))"
  by (simp add: multicast_attempt_def dialled_def multicast_def lwe_group_def lwe_datagram_def Let_def split: if_splits)

lemma multicast_ignored: "lwe_group raw = None \<Longrightarrow> multicast_attempt w (b, raw) = (w, None)"
  by (auto simp: multicast_attempt_def multicast_def lwe_group_def Let_def split: if_splits option.splits)

lemma multicast_refused: "multicast_attempt w (False, raw) = (w, None)"
  by (auto simp: multicast_attempt_def multicast_def Let_def split: option.splits)

definition lwe_inv :: "lwe_writer \<Rightarrow> lwe_run \<Rightarrow> bool" where
  "lwe_inv w0 s \<longleftrightarrow>
     lw_writer s = machine_state multicast_attempt w0 (map dialled (lw_tagged s)) \<and>
     mset (map Some (lw_sent s @ lw_lost s @ concat (map waiting_datagram (lw_tasks s)))) =
       mset (machine_outputs multicast_attempt w0 (map dialled (lw_tagged s))) \<and>
     mset (lw_ignored s @ lw_refused s @ lw_tagged s @ concat (map waiting_message (lw_tasks s))) = mset (lw_received s) \<and>
     list_all task_ok (lw_tasks s) \<and>
     (\<forall>raw\<in>set (lw_ignored s). lwe_group raw = None)"

lemma lwe_inv_step: "lwe_step unmarshal s s' \<Longrightarrow> lwe_inv w0 s \<Longrightarrow> lwe_inv w0 s'"
proof (induction rule: lwe_step.induct)
  case (tags s xs raw addr ys w tag)
  then have "lwe_group raw = Some addr" by (simp add: lwe_inv_def)
  with multicast_group [where raw = raw and addr = addr, OF _ tags.hyps(2)] tags show ?case
    by (simp add: lwe_inv_def machine_outputs_append)
qed (auto simp: lwe_inv_def)

lemma lwe_inv_reachable: "(lwe_step unmarshal)\<^sup>*\<^sup>* (lwe_start w0) s \<Longrightarrow> lwe_inv w0 s"
proof (induction rule: rtranclp_induct)
  case base
  then show ?case by (simp add: lwe_inv_def lwe_start_def)
next
  case (step s s')
  then show ?case using lwe_inv_step by blast
qed

text \<open>A run is not changed by attempts that send nothing.\<close>

lemma multicast_run_ignored:
  assumes "\<forall>a\<in>set as. \<forall>w. multicast_attempt w a = (w, None)"
  shows "machine_state multicast_attempt w (as @ bs) = machine_state multicast_attempt w bs \<and>
    machine_outputs multicast_attempt w (as @ bs) =
      replicate (length as) None @ machine_outputs multicast_attempt w bs"
  using assms by (induction as) auto

lemma mset_map_filter: "mset (List.map_filter id xs) = image_mset the (filter_mset (\<lambda>x. x \<noteq> None) (mset xs))"
proof (induction xs)
  case (Cons x xs)
  then show ?case by (cases x) (simp_all add: List.map_filter_simps del: not_None_eq)
qed (simp add: List.map_filter_simps)

lemma map_filter_nones: "List.map_filter id (replicate n None @ ys) = List.map_filter id ys"
  by (induction n) (simp_all add: List.map_filter_simps)

lemma mset_somes: "image_mset the (filter_mset (\<lambda>x. x \<noteq> None) (mset (map Some xs))) = mset xs"
  by (induction xs) simp_all

section \<open>Properties\<close>

text \<open>C38: The goroutines of the LWE writer behave like one after another. In every interleaving, and whichever
  attempts to dial fail, once no goroutine is left there is an order of the messages received, each with whether its
  group could be dialled, such that the datagrams sent or lost are, each as often, those
  that \<open>multicast\<close> makes of the messages in this order, and the writer is in the state it has then. The only
  messages not dialled are those whose attempt failed. So no
  message is sent twice, and the line counts of all datagrams are the consecutive numbers of a run
  without concurrency.\<close>

theorem lwe_linearizable:
  assumes "(lwe_step unmarshal)\<^sup>*\<^sup>* (lwe_start w0) s" "lw_tasks s = []"
  shows "\<exists>order. mset (map snd order) = mset (lw_received s) \<and>
    mset (map snd (filter (\<lambda>a. \<not> fst a) order)) = mset (lw_refused s) \<and>
    lw_writer s = machine_state multicast_attempt w0 order \<and>
    mset (lw_sent s @ lw_lost s) = mset (List.map_filter id (machine_outputs multicast_attempt w0 order))"
proof -
  have inv: "lwe_inv w0 s" using assms(1) by (rule lwe_inv_reachable)
  let ?unsent = "map dialled (lw_ignored s) @ map (Pair False) (lw_refused s)"
  let ?order = "?unsent @ map dialled (lw_tagged s)"
  have "\<forall>a\<in>set ?unsent. \<forall>w. multicast_attempt w a = (w, None)"
    using inv by (auto simp: lwe_inv_def dialled_def multicast_ignored multicast_refused)
  from multicast_run_ignored [OF this] inv
  have run: "machine_state multicast_attempt w0 ?order = lw_writer s"
    "machine_outputs multicast_attempt w0 ?order =
      replicate (length ?unsent) None @ machine_outputs multicast_attempt w0 (map dialled (lw_tagged s))"
    by (simp_all only: lwe_inv_def)
  have m: "mset (map Some (lw_sent s @ lw_lost s)) = mset (machine_outputs multicast_attempt w0 (map dialled (lw_tagged s)))"
    using inv assms(2) by (simp add: lwe_inv_def)
  have "mset (lw_sent s @ lw_lost s) =
      image_mset the (filter_mset (\<lambda>x. x \<noteq> None) (mset (map Some (lw_sent s @ lw_lost s))))"
    by (rule mset_somes [symmetric])
  also have "\<dots> = mset (List.map_filter id (machine_outputs multicast_attempt w0 ?order))"
    unfolding m run(2) map_filter_nones mset_map_filter ..
  finally have sent: "mset (lw_sent s @ lw_lost s) = mset (List.map_filter id (machine_outputs multicast_attempt w0 ?order))" .
  have "map snd ?order = lw_ignored s @ lw_refused s @ lw_tagged s"
    "map snd (filter (\<lambda>a. \<not> fst a) ?order) = lw_refused s"
    by (simp_all add: dialled_def comp_def filter_map)
  moreover have "mset (lw_ignored s @ lw_refused s @ lw_tagged s) = mset (lw_received s)"
    using inv assms(2) unfolding lwe_inv_def by (simp del: mset_map)
  ultimately show ?thesis using run(1) sent by (intro exI [of _ ?order]) (simp only: simp_thms)
qed

theorem lwe_linearizable_witness:
  "\<exists>s order. (lwe_step (\<lambda>_. Inr sample_sentence))\<^sup>*\<^sup>* (lwe_start (NewLWEWriter [] [] False True)) s \<and>
     lw_received s = [sample_sentence] \<and> mset (map snd order) = {#sample_sentence#} \<and>
     mset (lw_sent s @ lw_lost s) =
       mset (List.map_filter id (machine_outputs multicast_attempt (NewLWEWriter [] [] False True) order))"
proof -
  let ?u = "\<lambda>_ :: byte list. Inr sample_sentence :: string + raw"
  let ?step = "lwe_step ?u"
  let ?w = "NewLWEWriter [] [] False True"
  obtain w tag where t: "createTagBlock ?w sample_sentence = (w, tag)" by (metis prod.exhaust)
  have "talker sample_sentence = ''GP''" by code_simp
  then have g: "lwe_group sample_sentence = Some NAVDGroup"
    by (simp add: lwe_group_def talker_def talkerMulticastMap_def)
      (simp add: sample_sentence_def NMEA0183Type_def bytes_of_string_def)
  let ?s1 = "(lwe_start ?w)\<lparr>lw_received := [sample_sentence], lw_tasks := [Started sample_sentence]\<rparr>"
  let ?s2 = "?s1\<lparr>lw_tasks := [Dialled sample_sentence NAVDGroup]\<rparr>"
  let ?s3 = "?s2\<lparr>lw_writer := w, lw_tasks := [Tagged NAVDGroup (lwe_datagram tag sample_sentence)], lw_tagged := [sample_sentence]\<rparr>"
  let ?s4 = "?s3\<lparr>lw_tasks := [], lw_sent := [(NAVDGroup, lwe_datagram tag sample_sentence)]\<rparr>"
  have 1: "?step (lwe_start ?w) ?s1"
    using lwe_step.receives [of ?u "Received []" sample_sentence "lwe_start ?w"]
    by (simp add: lwe_receive_def lwe_start_def)
  have 2: "?step ?s1 ?s2"
    using lwe_step.dials [of ?s1 "[]" sample_sentence "[]" NAVDGroup ?u] g by simp
  have 3: "?step ?s2 ?s3"
    using lwe_step.tags [of ?s2 "[]" sample_sentence NAVDGroup "[]" w tag ?u] t by (simp add: lwe_start_def)
  have 4: "?step ?s3 ?s4"
    using lwe_step.sends [of ?s3 "[]" NAVDGroup "lwe_datagram tag sample_sentence" "[]" ?u]
    by (simp add: lwe_start_def)
  have run: "?step\<^sup>*\<^sup>* (lwe_start ?w) ?s4"
    by (rule converse_rtranclp_into_rtranclp [where r = ?step, OF 1 converse_rtranclp_into_rtranclp [where r = ?step,
      OF 2 converse_rtranclp_into_rtranclp [where r = ?step, OF 3 r_into_rtranclp [where r = ?step, OF 4]]]])
  from lwe_linearizable [OF run] obtain order where "mset (map snd order) = mset (lw_received ?s4)"
    "mset (lw_sent ?s4 @ lw_lost ?s4) = mset (List.map_filter id (machine_outputs multicast_attempt ?w order))"
    by auto
  with run show ?thesis by (intro exI [of _ ?s4] exI [of _ order]) simp
qed

end
