(* ===== verification/IncompletePeriods.thy ===== *)
theory IncompletePeriods
  imports DataTransfer
begin

text \<open>
  Which periods the requester asks the data of: the view \<open>transfer_data\<close> of the migrations over the local and
  the remote counts, the query of \<open>SelectIncompletePeriods\<close> on it, and what \<open>sendDataRequests\<close> takes of the answer.
\<close>

section \<open>The view and the query\<close>

text \<open>\<open>transfer_local_data\<close>: the number of rows of an origin in a period, when there are any.\<close>

type_synonym local_table = "((time \<times> string) \<times> int) list"

text \<open>
  The view joins the remote with the local counts of the same period and origin, and adds those without a
  local count with zero; the period is between the first and the last one with a local count, of
  whatever origin.
\<close>

definition in_local_range :: "local_table \<Rightarrow> time \<Rightarrow> bool" where
  "in_local_range locals p \<longleftrightarrow>
     list_ex (\<lambda>((start, origin), n). start \<le> p) locals \<and> list_ex (\<lambda>((start, origin), n). p \<le> start) locals"

definition sql_transfer_data :: "local_table \<Rightarrow> remote_table \<Rightarrow> (string \<times> time \<times> int \<times> int) list" where
  "sql_transfer_data locals remotes =
     List.map_filter (\<lambda>((start, origin), n).
       if in_local_range locals start
       then Some (origin, start, case map_of locals (start, origin) of None \<Rightarrow> 0 | Some k \<Rightarrow> k, n) else None) remotes"

text \<open>\<open>SELECT "origin", "start" FROM "transfer_data" WHERE "local_count" < "remote_count" ORDER BY "start" DESC\<close>.\<close>

definition sql_incomplete_periods :: "local_table \<Rightarrow> remote_table \<Rightarrow> (string \<times> time) list" where
  "sql_incomplete_periods locals remotes =
     sort_key (\<lambda>(origin, start). - start)
       (map (\<lambda>(origin, start, lcount, rcount). (origin, start))
         (filter (\<lambda>(origin, start, lcount, rcount). lcount < rcount) (sql_transfer_data locals remotes)))"

text \<open>The specification: fewer local rows than the remote side has counted.\<close>

definition incomplete :: "local_table \<Rightarrow> remote_table \<Rightarrow> string \<Rightarrow> time \<Rightarrow> bool" where
  "incomplete locals remotes origin p \<longleftrightarrow>
     in_local_range locals p \<and>
     (case map_of remotes (p, origin) of
        None \<Rightarrow> False
      | Some n \<Rightarrow> (case map_of locals (p, origin) of None \<Rightarrow> 0 | Some k \<Rightarrow> k) < n)"

section \<open>Lemmas\<close>

lemma transfer_data_keys:
  "map (\<lambda>(origin, start, lcount, rcount). (start, origin)) (sql_transfer_data locals remotes) =
     filter (\<lambda>(start, origin). in_local_range locals start) (map fst remotes)"
  by (induction remotes) (auto simp: sql_transfer_data_def List.map_filter_simps split: prod.splits)

lemma transfer_data_set:
  "distinct (map fst remotes) \<Longrightarrow>
     (origin, p, k, n) \<in> set (sql_transfer_data locals remotes) \<longleftrightarrow>
       in_local_range locals p \<and> map_of remotes (p, origin) = Some n \<and>
       k = (case map_of locals (p, origin) of None \<Rightarrow> 0 | Some k \<Rightarrow> k)"
  by (auto simp: sql_transfer_data_def List.map_filter_def split: if_splits intro!: rev_image_eqI)

lemma incomplete_periods_set:
  "distinct (map fst remotes) \<Longrightarrow>
     (origin, p) \<in> set (sql_incomplete_periods locals remotes) \<longleftrightarrow> incomplete locals remotes origin p"
proof -
  assume d: "distinct (map fst remotes)"
  have "(origin, p) \<in> set (sql_incomplete_periods locals remotes) \<longleftrightarrow>
      (\<exists>k n. (origin, p, k, n) \<in> set (sql_transfer_data locals remotes) \<and> k < n)"
    by (force simp: sql_incomplete_periods_def)
  then show ?thesis using transfer_data_set [OF d] by (auto simp: incomplete_def split: option.splits)
qed

lemma incomplete_periods_distinct:
  "distinct (map fst remotes) \<Longrightarrow> distinct (sql_incomplete_periods locals remotes)"
proof -
  assume "distinct (map fst remotes)"
  then have "distinct (map (\<lambda>(origin, start, lcount, rcount). (start, origin)) (sql_transfer_data locals remotes))"
    unfolding transfer_data_keys by (rule distinct_filter)
  then have "distinct (map prod.swap (map (\<lambda>(origin, start, lcount, rcount). (start, origin)) (sql_transfer_data locals remotes)))"
    unfolding distinct_map [of prod.swap] by (auto intro: inj_onI dest: arg_cong [of _ _ prod.swap])
  then have "distinct (map (\<lambda>(origin, start, lcount, rcount). (origin, start)) (sql_transfer_data locals remotes))"
    by (simp add: comp_def case_prod_unfold)
  then show ?thesis by (simp add: sql_incomplete_periods_def distinct_map_filter)
qed

lemma distinct_sorted_wrt: "distinct xs \<Longrightarrow> sorted_wrt (\<noteq>) xs"
  by (induction xs) auto

lemma descending_distinct: "sorted_wrt (>) (xs :: time list) \<Longrightarrow> distinct xs"
  by (induction xs) auto

text \<open>The periods of one origin, latest first.\<close>

definition incomplete_of :: "local_table \<Rightarrow> remote_table \<Rightarrow> string \<Rightarrow> time list" where
  "incomplete_of locals remotes origin = map snd (filter (\<lambda>r. fst r = origin) (sql_incomplete_periods locals remotes))"

lemma incomplete_of_spec:
  assumes "distinct (map fst remotes)"
  shows "set (incomplete_of locals remotes origin) = {p. incomplete locals remotes origin p}"
    and "sorted_wrt (>) (incomplete_of locals remotes origin)"
proof -
  let ?rows = "filter (\<lambda>r. fst r = origin) (sql_incomplete_periods locals remotes)"
  show "set (incomplete_of locals remotes origin) = {p. incomplete locals remotes origin p}"
    using incomplete_periods_set [OF assms] by (force simp: incomplete_of_def)
  have "sorted (map (\<lambda>(origin, start). - start) (sql_incomplete_periods locals remotes))"
    by (simp add: sql_incomplete_periods_def)
  then have "sorted_wrt (\<lambda>r r'. snd r \<ge> snd r') (sql_incomplete_periods locals remotes)"
    by (simp add: sorted_map case_prod_unfold)
  then have "sorted_wrt (\<lambda>r r'. snd r \<ge> snd r') ?rows" by (rule sorted_wrt_filter)
  moreover have "sorted_wrt (\<noteq>) ?rows"
    using incomplete_periods_distinct [OF assms, of locals] by (intro distinct_sorted_wrt distinct_filter)
  moreover have "sorted_wrt (\<lambda>r r'. snd r > snd r') rows"
    if "sorted_wrt (\<lambda>r r'. snd r \<ge> snd r') rows" "sorted_wrt (\<noteq>) rows" "\<forall>r\<in>set rows. fst r = origin"
    for rows :: "(string \<times> time) list"
    using that by (induction rows) (auto simp: order_less_le prod_eq_iff)
  ultimately show "sorted_wrt (>) (incomplete_of locals remotes origin)"
    by (simp add: incomplete_of_def sorted_wrt_map)
qed

lemma take_descending:
  assumes "sorted_wrt (>) xs" "p \<in> set xs" "p \<notin> set (take n xs)" "q \<in> set (take n xs)"
  shows "p < (q :: time)"
proof -
  have "p \<in> set (drop n xs)" using assms(2,3) by (metis Un_iff append_take_drop_id set_append)
  moreover have "sorted_wrt (>) (take n xs @ drop n xs)" using assms(1) by simp
  ultimately show ?thesis using assms(4) unfolding sorted_wrt_append by blast
qed

section \<open>Properties\<close>

text \<open>C28: The latest gaps are repaired first. When the server answers with its tables, the data of an origin is requested
  for as many incomplete periods as the maximum allows (one more than configured), each once, latest
  first, and every incomplete period that is not requested is earlier than all that are: older gaps wait
  until the later ones are filled.\<close>

theorem latest_gaps_first:
  assumes "distinct (map fst remotes)"
    and "snd (sendDataRequests maxPeriods (QueryRows (map Inr (sql_incomplete_periods locals remotes)) None) db) = Some reqs"
    and "ps = map snd (filter (\<lambda>r. fst r = origin) reqs)"
  shows "set ps \<subseteq> {p. incomplete locals remotes origin p} \<and> sorted_wrt (>) ps \<and>
    length ps = min (nat (maxPeriods + 1)) (card {p. incomplete locals remotes origin p}) \<and>
    (\<forall>p q. incomplete locals remotes origin p \<longrightarrow> p \<notin> set ps \<longrightarrow> q \<in> set ps \<longrightarrow> p < q)"
proof -
  let ?all = "incomplete_of locals remotes origin"
  have ps: "ps = take (nat (maxPeriods + 1)) ?all"
    using data_requests_bound [where maxPeriods = maxPeriods and rows = "sql_incomplete_periods locals remotes"
        and db = db and origin = origin] assms(2,3)
    by (simp add: incomplete_of_def)
  note spec = incomplete_of_spec [OF assms(1), of locals origin]
  have "distinct ?all" using spec(2) by (rule descending_distinct)
  then have "length ?all = card {p. incomplete locals remotes origin p}" using distinct_card spec(1) by metis
  moreover have "sorted_wrt (>) ps" using spec(2) unfolding ps by (rule sorted_wrt_take)
  moreover have "p < q" if "incomplete locals remotes origin p" "p \<notin> set ps" "q \<in> set ps" for p q
    using take_descending [OF spec(2)] that spec(1) unfolding ps by blast
  ultimately show ?thesis using spec(1) set_take_subset [of _ ?all] by (auto simp: ps min.commute)
qed

theorem latest_gaps_first_witness:
  "\<exists>reqs. snd (sendDataRequests 0 (QueryRows (map Inr (sql_incomplete_periods
       [((1, ''o''), 5), ((3, ''o''), 5)] [((1, ''o''), 7), ((2, ''o''), 4), ((3, ''o''), 5)])) None)
       (NewPostgresqlDatabase 1 0)) = Some reqs \<and>
     set (map snd (filter (\<lambda>r. fst r = ''o'') reqs)) \<subseteq>
       {p. incomplete [((1, ''o''), 5), ((3, ''o''), 5)] [((1, ''o''), 7), ((2, ''o''), 4), ((3, ''o''), 5)] ''o'' p} \<and>
     map snd (filter (\<lambda>r. fst r = ''o'') reqs) = [2]"
proof -
  let ?l = "[((1, ''o''), 5), ((3, ''o''), 5)] :: local_table"
  let ?r = "[((1, ''o''), 7), ((2, ''o''), 4), ((3, ''o''), 5)] :: remote_table"
  have rows: "sql_incomplete_periods ?l ?r = [(''o'', 2), (''o'', 1)]"
    by (simp add: sql_incomplete_periods_def sql_transfer_data_def in_local_range_def List.map_filter_simps)
  have reqs: "snd (sendDataRequests 0 (QueryRows (map Inr (sql_incomplete_periods ?l ?r)) None)
      (NewPostgresqlDatabase 1 0)) = Some [(''o'', 2)]"
    unfolding rows sendDataRequests_def SelectIncompletePeriods_rows by (simp add: group_row_def)
  have "distinct (map fst ?r)" by simp
  from latest_gaps_first [OF this reqs refl, of "''o''"] show ?thesis
    by (intro exI [of _ "[(''o'', 2)]"]) (simp add: reqs)
qed

end
