(* ===== verification/Topics.thy ===== *)
theory Topics
  imports TransferRun
begin

text \<open>
  The topics of the MQTT clients: of \<open>writer/mqtt.go\<close> and \<open>reader/mqtt.go\<close>, and of the requester and the responder
  of \<open>transfer/\<close>. Which messages a subscription gets is decided by the broker: \<open>matches f t\<close> is whether the
  filter \<open>f\<close> of a subscription matches the topic \<open>t\<close>.
\<close>

section \<open>The reader's subscription\<close>

definition mqttTopic :: string where
  "mqttTopic = ''vessels/#''"

definition MqttReader_ReadMapped ::
    "client_options \<Rightarrow> (client_options \<Rightarrow> string option) \<Rightarrow> mqtt_config \<Rightarrow> string + mqtt_client" where
  "MqttReader_ReadMapped defaults connect c = New defaults connect c mqttTopic"

section \<open>Filters\<close>

definition wildcard_free :: "string \<Rightarrow> bool" where
  "wildcard_free t \<longleftrightarrow> CHR ''+'' \<notin> set t \<and> CHR ''#'' \<notin> set t"

text \<open>
  What the protocol says of filters without wildcards, and of those whose only wildcard is the last level:
  these match the levels before it and everything below.
\<close>

definition broker_matches :: "(string \<Rightarrow> string \<Rightarrow> bool) \<Rightarrow> bool" where
  "broker_matches matches \<longleftrightarrow>
     (\<forall>f t. wildcard_free f \<longrightarrow> matches f t = (f = t)) \<and>
     (\<forall>p t. wildcard_free p \<longrightarrow> matches (p @ ''/#'') t = (t = p \<or> prefix (p @ ''/'') t))"

lemma matches_exact: "broker_matches matches \<Longrightarrow> wildcard_free f \<Longrightarrow> matches f t \<longleftrightarrow> f = t"
  by (simp add: broker_matches_def)

lemma matches_below:
  "broker_matches matches \<Longrightarrow> wildcard_free p \<Longrightarrow> matches (p @ ''/#'') t \<longleftrightarrow> t = p \<or> prefix (p @ ''/'') t"
  by (simp add: broker_matches_def)

lemma New_topic: "New defaults connect c topic = Inr client \<Longrightarrow> mc_topic client = topic"
  by (auto simp: New_def Let_def split: option.splits)

section \<open>Properties\<close>

text \<open>Messages find their way. A responder gets exactly the requests for its own origin; the requester
  gets the responses of every origin, takes the origin they came from out of their topics, and gets no
  requests; and a reader gets the batches of every writer, whatever its user name, and nothing of the transfer.\<close>

theorem topics_route:
  assumes "broker_matches matches" "wildcard_free (trc_Origin c)"
    and "TransferResponder_Run defaults connect c = Inr responder"
    and "TransferRequester_Run defaults connect t = Inr requester"
    and "MqttReader_ReadMapped defaults connect rc = Inr reader"
  shows "(matches (mc_topic responder) (requestTopic origin) \<longleftrightarrow> origin = trc_Origin c) \<and>
    \<not> matches (mc_topic responder) (respondTopic origin) \<and>
    matches (mc_topic requester) (respondTopic origin) \<and>
    trim_prefix (respondTopic origin) (respondTopic []) = origin \<and>
    \<not> matches (mc_topic requester) (requestTopic origin) \<and>
    matches (mc_topic reader) (write_topic wc) \<and>
    \<not> matches (mc_topic reader) (requestTopic origin) \<and> \<not> matches (mc_topic reader) (respondTopic origin)"
proof -
  have responder: "mc_topic responder = ''request/'' @ trc_Origin c"
    using New_topic [OF assms(3) [unfolded TransferResponder_Run_def]] by (simp add: requestTopic_def)
  have requester: "mc_topic requester = ''respond'' @ ''/#''"
    using New_topic [OF assms(4) [unfolded TransferRequester_Run_def]] by (simp add: respondTopic_def)
  have reader: "mc_topic reader = ''vessels'' @ ''/#''"
    using New_topic [OF assms(5) [unfolded MqttReader_ReadMapped_def]] by (simp add: mqttTopic_def)
  have free: "wildcard_free (''request/'' @ trc_Origin c)" "wildcard_free ''respond''" "wildcard_free ''vessels''"
    using assms(2) by (simp_all add: wildcard_free_def)
  note m = matches_exact [OF assms(1) free(1)] matches_below [OF assms(1) free(2)] matches_below [OF assms(1) free(3)]
  show ?thesis
    unfolding responder requester reader m
    by (intro conjI) (simp_all add: respond_origin, auto simp: requestTopic_def respondTopic_def write_topic_def)
qed

definition sample_matches :: "string \<Rightarrow> string \<Rightarrow> bool" where
  "sample_matches f t =
     (if length f \<ge> 2 \<and> drop (length f - 2) f = ''/#''
      then t = take (length f - 2) f \<or> prefix (take (length f - 2) f @ ''/'') t else f = t)"

lemma sample_broker: "broker_matches sample_matches"
proof -
  have "drop (length f - 2) f \<noteq> ''/#''" if "wildcard_free f" for f
    using that set_drop_subset [of "length f - 2" f] by (auto simp: wildcard_free_def)
  then show ?thesis by (simp add: broker_matches_def sample_matches_def)
qed

theorem topics_route_witness:
  "sample_matches (requestTopic ''ship'') (requestTopic ''ship'') \<and> \<not> sample_matches (requestTopic ''ship'') (requestTopic ''shore'') \<and>
   sample_matches (respondTopic ''#'') (respondTopic ''ship'') \<and> sample_matches mqttTopic (write_topic default_mqtt_config)"
proof -
  let ?c = "default_transfer_config\<lparr>trc_Origin := ''ship''\<rparr>"
  let ?t = "the (NewTransferRequester ?c)"
  obtain d :: client_options where True by blast
  obtain r1 where r1: "TransferResponder_Run d (\<lambda>_. None) ?c = Inr r1" "mc_topic r1 = requestTopic ''ship''"
    by (simp add: TransferResponder_Run_def New_def Let_def)
  obtain r2 where r2: "TransferRequester_Run d (\<lambda>_. None) ?t = Inr r2" "mc_topic r2 = respondTopic ''#''"
    by (simp add: TransferRequester_Run_def New_def Let_def)
  obtain r3 where r3: "MqttReader_ReadMapped d (\<lambda>_. None) default_mqtt_config = Inr r3" "mc_topic r3 = mqttTopic"
    by (simp add: MqttReader_ReadMapped_def New_def Let_def)
  have free: "wildcard_free (trc_Origin ?c)" by (simp add: wildcard_free_def)
  note route = topics_route [OF sample_broker free r1(1) r2(1) r3(1)]
  show ?thesis
    using route [of "''ship''" default_mqtt_config] route [of "''shore''" default_mqtt_config] r1(2) r2(2) r3(2) by simp
qed

end
