(* ===== verification/CacheRace.thy ===== *)
theory CacheRace
  imports SignalK
begin

text \<open>
  The goroutines that fill the cache of the SignalK server: \<open>readFromDatabase\<close> and one
  \<open>updateFullDataModel\<close> for every delta received (\<open>writer/signalk.go\<close>), each running
  \<open>BigCache.WriteMapped\<close> (\<open>database/bigcache.go\<close>). The store locks each \<open>Get\<close> and each \<open>Set\<close>, not the
  comparison between them.
\<close>

section \<open>The goroutines\<close>

text \<open>
  A goroutine is about to \<open>Get\<close> the entry of the first of the values it has left, or to \<open>Set\<close> the
  entry of a value it has found to be a change. The flag is true for the goroutine of
  \<open>readFromDatabase\<close>; \<open>cr_answer\<close> is the answer of the database as long as it has not come.
\<close>

datatype update_task = Comparing "svm list" | Storing svm json "svm list"

record cache_run =
  cr_writer :: signalk_writer
  cr_answer :: "(query_error + mapped list) option"
  cr_tasks :: "(bool \<times> update_task) list"
  cr_received :: "svm list"

definition cache_start :: "signalk_writer \<Rightarrow> query_error + mapped list \<Rightarrow> cache_run" where
  "cache_start w answer =
     \<lparr>cr_writer = start_writing w, cr_answer = Some answer, cr_tasks = [], cr_received = []\<rparr>"

definition values_of :: "mapped list \<Rightarrow> svm list" where
  "values_of deltas = concat (map ToSingleValueMapped deltas)"

definition start_update :: "bool \<Rightarrow> mapped list \<Rightarrow> cache_run \<Rightarrow> cache_run" where
  "start_update d deltas s =
     s\<lparr>cr_tasks := cr_tasks s @ [(d, Comparing (values_of deltas))], cr_received := cr_received s @ values_of deltas\<rparr>"

definition compare_value ::
    "text_codecs \<Rightarrow> mapstructure \<Rightarrow> (string, json) gomap \<Rightarrow> svm \<Rightarrow> svm list \<Rightarrow> update_task" where
  "compare_value tc ms cache m svms =
     (case changed_value tc ms (map_of cache (cache_key m)) m of
        None \<Rightarrow> Comparing svms
      | Some m \<Rightarrow>
         (case Svm_Marshal tc m of
            Inl err \<Rightarrow> Comparing svms
          | Inr bytes \<Rightarrow> Storing m bytes svms))"

definition store_value :: "svm \<Rightarrow> json \<Rightarrow> signalk_writer \<Rightarrow> signalk_writer" where
  "store_value m bytes w =
     w\<lparr>sk_cache := (sk_cache w)\<lparr>bc_mappedCache := AList.update (cache_key m) bytes (bc_mappedCache (sk_cache w))\<rparr>\<rparr>"

inductive cache_step :: "text_codecs \<Rightarrow> mapstructure \<Rightarrow> cache_run \<Rightarrow> cache_run \<Rightarrow> bool" for tc ms where
  receives: "cache_step tc ms s (start_update False [m] s)"
| answers: "cr_answer s = Some (Inr deltas) \<Longrightarrow>
     cache_step tc ms s (start_update True deltas (s\<lparr>cr_answer := None\<rparr>))"
| fails: "cr_answer s = Some (Inl err) \<Longrightarrow> cache_step tc ms s (s\<lparr>cr_answer := None\<rparr>)"
| compares: "cr_tasks s = ts @ (d, Comparing (m # svms)) # us \<Longrightarrow>
     cache_step tc ms s
       (s\<lparr>cr_tasks := ts @ (d, compare_value tc ms (bc_mappedCache (sk_cache (cr_writer s))) m svms) # us\<rparr>)"
| stores: "cr_tasks s = ts @ (d, Storing m bytes svms) # us \<Longrightarrow>
     cache_step tc ms s
       (s\<lparr>cr_writer := store_value m bytes (cr_writer s), cr_tasks := ts @ (d, Comparing svms) # us\<rparr>)"
| ends: "cr_tasks s = ts @ (d, Comparing []) # us \<Longrightarrow>
     cache_step tc ms s
       (s\<lparr>cr_writer := (cr_writer s)\<lparr>sk_wg := sk_wg (cr_writer s) - (if d then 1 else 0)\<rparr>, cr_tasks := ts @ us\<rparr>)"
| evicts: "cache_step tc ms s
     (s\<lparr>cr_writer := (cr_writer s)\<lparr>sk_cache := Evict key (sk_cache (cr_writer s))\<rparr>\<rparr>)"

section \<open>One key\<close>

text \<open>What is known of one key is all that the specification looks at for its values.\<close>

definition is_news :: "svm option \<Rightarrow> svm \<Rightarrow> bool" where
  "is_news v m =
     (case v of
        None \<Rightarrow> True
      | Some original \<Rightarrow> \<not> (Svm_Equals original m \<or> svm_Timestamp m < svm_Timestamp original))"

fun latest_value :: "string \<Rightarrow> svm list \<Rightarrow> svm option \<Rightarrow> svm option" where
  "latest_value k [] v = v"
| "latest_value k (m # svms) v = latest_value k svms (if cache_key m = k \<and> is_news v m then Some m else v)"

lemma latest_value_append [simp]: "latest_value k (svms @ svms') v = latest_value k svms' (latest_value k svms v)"
  by (induction svms arbitrary: v) simp_all

lemma latest_value_other [simp]: "k \<notin> cache_key ` set svms \<Longrightarrow> latest_value k svms v = v"
  by (induction svms) auto

lemma fresh_news: "fresh l m = is_news (l (cache_key m)) m"
  by (simp add: fresh_def is_news_def)

lemma spec_write_latest: "fst (spec_write svms l) k = latest_value k svms (l k)"
  by (induction svms arbitrary: l) (auto simp: split_beta fresh_news)

fun task_values :: "update_task \<Rightarrow> svm list" where
  "task_values (Comparing svms) = svms"
| "task_values (Storing m bytes svms) = m # svms"

definition concerns :: "string \<Rightarrow> bool \<times> update_task \<Rightarrow> bool" where
  "concerns k t \<longleftrightarrow> k \<in> cache_key ` set (task_values (snd t))"

text \<open>At most one goroutine has values of the key left, and the key is not evicted.\<close>

definition apart :: "string \<Rightarrow> cache_run \<Rightarrow> bool" where
  "apart k s \<longleftrightarrow> length (filter (concerns k) (cr_tasks s)) \<le> 1"

definition cached :: "string \<Rightarrow> cache_run \<Rightarrow> bool" where
  "cached k s \<longleftrightarrow> map_of (bc_mappedCache (sk_cache (cr_writer s))) k \<noteq> None"

definition apart_step :: "text_codecs \<Rightarrow> mapstructure \<Rightarrow> string \<Rightarrow> cache_run \<Rightarrow> cache_run \<Rightarrow> bool" where
  "apart_step tc ms k s s' \<longleftrightarrow> cache_step tc ms s s' \<and> apart k s' \<and> (cached k s \<longrightarrow> cached k s')"

abbreviation cr_known :: "text_codecs \<Rightarrow> mapstructure \<Rightarrow> cache_run \<Rightarrow> string \<Rightarrow> svm option" where
  "cr_known tc ms s \<equiv> known tc ms (sk_cache (cr_writer s))"

lemma values_left: "k \<notin> cache_key ` set (concat (map (task_values \<circ> snd) ts)) \<longleftrightarrow> filter (concerns k) ts = []"
  by (induction ts) (auto simp: concerns_def)

lemma apart_alone:
  "apart k s \<Longrightarrow> cr_tasks s = ts @ t # us \<Longrightarrow> concerns k t \<Longrightarrow>
     filter (concerns k) ts = [] \<and> filter (concerns k) us = []"
  by (auto simp: apart_def)


definition race_inv :: "text_codecs \<Rightarrow> mapstructure \<Rightarrow> string \<Rightarrow> svm option \<Rightarrow> cache_run \<Rightarrow> bool" where
  "race_inv tc ms k v0 s \<longleftrightarrow>
     apart k s \<and>
     set (concat (map (task_values \<circ> snd) (cr_tasks s))) \<subseteq> set (cr_received s) \<and>
     (\<forall>d m bytes svms. (d, Storing m bytes svms) \<in> set (cr_tasks s) \<longrightarrow>
        Svm_UnmarshalJSON tc ms bytes = Inr m \<and> (cache_key m = k \<longrightarrow> is_news (cr_known tc ms s k) m)) \<and>
     latest_value k (concat (map (task_values \<circ> snd) (cr_tasks s))) (cr_known tc ms s k) =
       latest_value k (cr_received s) v0"

lemma known_stored:
  "Svm_UnmarshalJSON tc ms bytes = Inr m \<Longrightarrow>
     known tc ms (sk_cache (store_value m bytes w)) k = (if k = cache_key m then Some m else known tc ms (sk_cache w) k)"
  by (simp add: known_def latest_of_def store_value_def update_conv')

lemma known_evicted: "key \<noteq> k \<Longrightarrow> known tc ms (Evict key c) k = known tc ms c k"
  by (simp add: known_def latest_of_def Evict_def delete_conv')

lemma known_uncached: "map_of (bc_mappedCache c) k = None \<Longrightarrow> known tc ms (Evict k c) k = known tc ms c k"
  by (simp add: known_def latest_of_def Evict_def delete_conv')

text \<open>What the comparison does with a number or a string.\<close>

lemma compare_scalar:
  assumes "faithful_codecs tc" "scalar m"
  shows "if is_news (known tc ms c (cache_key m)) m
    then \<exists>bytes. Svm_UnmarshalJSON tc ms bytes = Inr m \<and>
      compare_value tc ms (bc_mappedCache c) m svms = Storing m bytes svms
    else compare_value tc ms (bc_mappedCache c) m svms = Comparing svms"
proof -
  obtain j where j: "Svm_Marshal tc m = Inr j" "Svm_UnmarshalJSON tc ms j = Inr m"
    by (rule scalar_wire [OF assms])
  have "changed_value tc ms (map_of (bc_mappedCache c) (cache_key m)) m =
      (if is_news (known tc ms c (cache_key m)) m then Some m else None)"
    using assms(2) by (auto simp: changed_value_def is_news_def known_def latest_of_def split: option.splits sum.splits)
  then show ?thesis using j by (simp add: compare_value_def)
qed

lemma race_inv_start:
  assumes "race_inv tc ms k v0 s" "apart k (start_update d deltas s)"
  shows "race_inv tc ms k v0 (start_update d deltas s)"
  using assms by (auto simp: race_inv_def start_update_def)

lemma race_inv_step:
  assumes "faithful_codecs tc" "apart_step tc ms k s s'" "race_inv tc ms k v0 s" "\<forall>m\<in>set (cr_received s). scalar m"
  shows "race_inv tc ms k v0 s'"
proof -
  have step: "cache_step tc ms s s'" and ap: "apart k s'" and kept: "cached k s \<longrightarrow> cached k s'"
    using assms(2) by (simp_all add: apart_step_def)
  show ?thesis
    using step
  proof cases
    case (receives m)
    then show ?thesis using race_inv_start [OF assms(3)] ap by simp
  next
    case (answers deltas)
    have "race_inv tc ms k v0 (s\<lparr>cr_answer := None\<rparr>)" using assms(3) by (simp add: race_inv_def apart_def)
    then show ?thesis using race_inv_start ap answers by simp
  next
    case (fails err)
    then show ?thesis using assms(3) by (simp add: race_inv_def apart_def)
  next
    case (compares ts d m svms us)
    let ?c = "sk_cache (cr_writer s)"
    let ?t = "compare_value tc ms (bc_mappedCache ?c) m svms"
    have m: "m \<in> set (cr_received s)" using assms(3) compares by (auto simp: race_inv_def)
    have t: "if is_news (known tc ms ?c (cache_key m)) m
      then \<exists>bytes. Svm_UnmarshalJSON tc ms bytes = Inr m \<and> ?t = Storing m bytes svms
      else ?t = Comparing svms"
      using compare_scalar [OF assms(1), of m ms ?c svms] assms(4) m by blast
    show ?thesis
    proof (cases "is_news (known tc ms ?c (cache_key m)) m")
      case True
      then obtain bytes where "Svm_UnmarshalJSON tc ms bytes = Inr m" "?t = Storing m bytes svms"
        using t by auto
      with True compares assms(3) ap show ?thesis by (fastforce simp: race_inv_def)
    next
      case False
      then have c: "?t = Comparing svms" using t by simp
      have alone: "filter (concerns k) ts = []" if "cache_key m = k"
        using apart_alone [of k s ts "(d, Comparing (m # svms))" us] assms(3) compares that
        by (simp add: race_inv_def concerns_def)
      then have "latest_value k (concat (map (task_values \<circ> snd) ts)) v = v" if "cache_key m = k" for v
        using that values_left [of k ts] by simp
      then have "latest_value k (concat (map (task_values \<circ> snd) ts) @ svms) (cr_known tc ms s k) =
        latest_value k (concat (map (task_values \<circ> snd) ts) @ m # svms) (cr_known tc ms s k)"
        using False by auto
      with c compares assms(3) ap show ?thesis by (auto simp: race_inv_def)
    qed
  next
    case (stores ts d m bytes svms us)
    have um: "Svm_UnmarshalJSON tc ms bytes = Inr m"
      and news: "cache_key m = k \<Longrightarrow> is_news (cr_known tc ms s k) m"
      using assms(3) stores by (auto simp: race_inv_def)
    have alone: "filter (concerns k) ts = [] \<and> filter (concerns k) us = []" if "cache_key m = k"
      using apart_alone [of k s ts "(d, Storing m bytes svms)" us] assms(3) stores that
      by (simp add: race_inv_def concerns_def)
    have others: "cache_key m' \<noteq> k" if "cache_key m = k" "(d', Storing m' b' ss') \<in> set ts \<union> set us" for d' m' b' ss'
      using alone [OF that(1)] that(2) by (force simp: filter_empty_conv concerns_def)
    have known: "cr_known tc ms s' k = (if k = cache_key m then Some m else cr_known tc ms s k)"
      using known_stored [OF um] stores by simp
    have "latest_value k (concat (map (task_values \<circ> snd) ts)) v = v" if "cache_key m = k" for v
      using alone that values_left [of k ts] by simp
    then have "latest_value k (concat (map (task_values \<circ> snd) ts) @ svms) (cr_known tc ms s' k) =
      latest_value k (concat (map (task_values \<circ> snd) ts) @ m # svms) (cr_known tc ms s k)"
      using known news by auto
    then have lv: "latest_value k (concat (map (task_values \<circ> snd) (cr_tasks s'))) (cr_known tc ms s' k) =
      latest_value k (concat (map (task_values \<circ> snd) (cr_tasks s))) (cr_known tc ms s k)"
      using stores by simp
    have "Svm_UnmarshalJSON tc ms b' = Inr m' \<and> (cache_key m' = k \<longrightarrow> is_news (cr_known tc ms s' k) m')"
      if "(d', Storing m' b' ss') \<in> set (cr_tasks s')" for d' m' b' ss'
    proof -
      have t: "(d', Storing m' b' ss') \<in> set ts \<union> set us" using that stores by auto
      then have "Svm_UnmarshalJSON tc ms b' = Inr m' \<and> (cache_key m' = k \<longrightarrow> is_news (cr_known tc ms s k) m')"
        using assms(3) stores by (auto simp: race_inv_def)
      with others [OF _ t] known show ?thesis by auto
    qed
    moreover have "set (concat (map (task_values \<circ> snd) (cr_tasks s'))) \<subseteq> set (cr_received s')"
      using assms(3) stores by (auto simp: race_inv_def)
    moreover have "cr_received s' = cr_received s" using stores by simp
    ultimately show ?thesis using assms(3) ap lv by (simp add: race_inv_def)
  next
    case (ends ts d us)
    then show ?thesis using assms(3) ap by (auto simp: race_inv_def)
  next
    case (evicts key)
    have "cr_known tc ms s' k = cr_known tc ms s k"
    proof (cases "key = k")
      case True
      then have "\<not> cached k s" using kept evicts by (auto simp: cached_def Evict_def delete_conv')
      then show ?thesis using True evicts known_uncached by (auto simp: cached_def)
    qed (simp add: evicts known_evicted)
    then show ?thesis using evicts assms(3) ap by (simp add: race_inv_def)
  qed
qed

lemma received_grows: "cache_step tc ms s s' \<Longrightarrow> set (cr_received s) \<subseteq> set (cr_received s')"
  by (induction rule: cache_step.induct) (auto simp: start_update_def)

lemma race_inv_reachable:
  assumes "faithful_codecs tc" "(apart_step tc ms k)\<^sup>*\<^sup>* (cache_start w answer) s" "\<forall>m\<in>set (cr_received s). scalar m"
  shows "race_inv tc ms k (known tc ms (sk_cache w) k) s"
  using assms(2,3)
proof (induction rule: rtranclp_induct)
  case base
  then show ?case by (simp add: race_inv_def cache_start_def apart_def start_writing_def)
next
  case (step s s')
  have "\<forall>m\<in>set (cr_received s). scalar m"
    using step.hyps(2) step.prems received_grows [of tc ms s s'] by (auto simp: apart_step_def)
  with step race_inv_step [OF assms(1) step.hyps(2)] show ?case by simp
qed

section \<open>A goroutine on its own\<close>

text \<open>The steps of one goroutine, when no other takes a step in between, are \<open>WriteMapped\<close>.\<close>

definition with_cache :: "(string, json) gomap \<Rightarrow> cache_run \<Rightarrow> cache_run" where
  "with_cache cache s =
     s\<lparr>cr_writer := (cr_writer s)\<lparr>sk_cache := (sk_cache (cr_writer s))\<lparr>bc_mappedCache := cache\<rparr>\<rparr>\<rparr>"

lemma changed_key: "changed_value tc ms c m = Some m' \<Longrightarrow> cache_key m' = cache_key m"
  by (auto simp: changed_value_def cache_key_def split: option.splits sum.splits if_splits)

lemma update_alone:
  "cr_tasks s = ts @ (d, Comparing svms) # us \<Longrightarrow>
     (cache_step tc ms)\<^sup>*\<^sup>* s
       (with_cache (fst (write_values tc ms svms (bc_mappedCache (sk_cache (cr_writer s))) changes))
         (s\<lparr>cr_tasks := ts @ (d, Comparing []) # us\<rparr>))"
proof (induction svms arbitrary: s changes)
  case Nil
  show ?case by (simp add: with_cache_def Nil [symmetric])
next
  case (Cons m svms)
  let ?cache = "bc_mappedCache (sk_cache (cr_writer s))"
  let ?s1 = "s\<lparr>cr_tasks := ts @ (d, compare_value tc ms ?cache m svms) # us\<rparr>"
  have step: "cache_step tc ms s ?s1" by (rule cache_step.compares [OF Cons.prems])
  have unchanged: ?case
    if "compare_value tc ms ?cache m svms = Comparing svms"
      "\<exists>chs. fst (write_values tc ms (m # svms) ?cache changes) = fst (write_values tc ms svms ?cache chs)"
  proof -
    from that(2) obtain chs where
      chs: "fst (write_values tc ms (m # svms) ?cache changes) = fst (write_values tc ms svms ?cache chs)"
      by blast
    have "(cache_step tc ms)\<^sup>*\<^sup>* ?s1 (with_cache (fst (write_values tc ms svms ?cache chs)) (s\<lparr>cr_tasks := ts @ (d, Comparing []) # us\<rparr>))"
      using Cons.IH [of ?s1 chs] that(1) by (simp add: with_cache_def)
    with step show ?thesis unfolding chs by (rule converse_rtranclp_into_rtranclp)
  qed
  show ?case
  proof (cases "changed_value tc ms (map_of ?cache (cache_key m)) m")
    case None
    then show ?thesis by (intro unchanged exI [of _ changes]) (simp_all add: compare_value_def)
  next
    case (Some m')
    show ?thesis
    proof (cases "Svm_Marshal tc m'")
      case (Inl err)
      with Some show ?thesis
        by (intro unchanged exI [of _ "changes @ [m']"]) (simp_all add: compare_value_def)
    next
      case (Inr bytes)
      let ?s2 = "?s1\<lparr>cr_writer := store_value m' bytes (cr_writer s), cr_tasks := ts @ (d, Comparing svms) # us\<rparr>"
      have "cr_tasks ?s1 = ts @ (d, Storing m' bytes svms) # us"
        using Some Inr by (simp add: compare_value_def)
      from cache_step.stores [OF this, of tc ms] have "cache_step tc ms ?s1 ?s2" by simp
      moreover have "(cache_step tc ms)\<^sup>*\<^sup>* ?s2
          (with_cache (fst (write_values tc ms (m # svms) ?cache changes)) (s\<lparr>cr_tasks := ts @ (d, Comparing []) # us\<rparr>))"
        using Cons.IH [of ?s2 "changes @ [m']"] Some Inr changed_key [OF Some]
        by (simp add: with_cache_def store_value_def Let_def)
      ultimately show ?thesis using step by (meson converse_rtranclp_into_rtranclp)
    qed
  qed
qed

lemma updateFullDataModel_alone:
  assumes "cr_tasks s = []"
  shows "(cache_step tc ms)\<^sup>*\<^sup>* s
    (s\<lparr>cr_writer := updateFullDataModel tc ms m (cr_writer s), cr_tasks := [],
       cr_received := cr_received s @ values_of [m]\<rparr>)"
proof -
  let ?s1 = "start_update False [m] s"
  let ?cache = "fst (write_values tc ms (values_of [m]) (bc_mappedCache (sk_cache (cr_writer ?s1))) [])"
  let ?s2 = "with_cache ?cache (?s1\<lparr>cr_tasks := [(False, Comparing [])]\<rparr>)"
  have 1: "cache_step tc ms s ?s1" by (rule cache_step.receives)
  have "cr_tasks ?s1 = [] @ (False, Comparing (values_of [m])) # []" using assms by (simp add: start_update_def)
  from update_alone [OF this, of tc ms "[]"] have 2: "(cache_step tc ms)\<^sup>*\<^sup>* ?s1 ?s2" by simp
  have "cr_tasks ?s2 = [] @ (False, Comparing []) # []" by (simp add: with_cache_def)
  let ?s3 = "s\<lparr>cr_writer := updateFullDataModel tc ms m (cr_writer s), cr_tasks := [],
       cr_received := cr_received s @ values_of [m]\<rparr>"
  have "?s2\<lparr>cr_writer := (cr_writer ?s2)\<lparr>sk_wg := sk_wg (cr_writer ?s2) - 0\<rparr>, cr_tasks := []\<rparr> = ?s3"
    by (rule cache_run.equality)
      (simp_all add: with_cache_def start_update_def updateFullDataModel_def WriteMapped_def values_of_def split_beta)
  then have 3: "cache_step tc ms ?s2 ?s3"
    using cache_step.ends [OF \<open>cr_tasks ?s2 = [] @ (False, Comparing []) # []\<close>, of tc ms] by simp
  show ?thesis
    by (rule converse_rtranclp_into_rtranclp [where r = "cache_step tc ms", OF 1 rtranclp.rtrancl_into_rtrancl
      [where r = "cache_step tc ms", OF 2 3]])
qed

section \<open>Properties\<close>

text \<open>C11: The cache is right about a key whose updates do not overlap, for scalar values. Consider runs of the goroutines of
  the SignalK server in which every value received, of any key, is a finite number or a string with an instant in RFC 3339's
  range, at most one goroutine at a time has values of the key left, and the key is not
  evicted. Once no goroutine has values of the key, what is known of it is what the specification of the
  latest value knows of it after all values received in the order of their goroutines, whatever the interleaving
  and whatever happens to other keys meanwhile. Nothing is claimed of merged structures such as positions, of booleans, or
  of keys that were evicted or updated by two goroutines at once.\<close>

theorem updates_apart_exact:
  assumes "faithful_codecs tc" "(apart_step tc ms k)\<^sup>*\<^sup>* (cache_start w answer) s"
    and "\<forall>m\<in>set (cr_received s). scalar m" "\<not> list_ex (concerns k) (cr_tasks s)"
  shows "known tc ms (sk_cache (cr_writer s)) k = fst (spec_write (cr_received s) (known tc ms (sk_cache w))) k"
proof -
  have "race_inv tc ms k (known tc ms (sk_cache w) k) s" by (rule race_inv_reachable [OF assms(1-3)])
  moreover have "filter (concerns k) (cr_tasks s) = []"
    using assms(4) by (simp add: filter_empty_conv list_ex_iff)
  ultimately show ?thesis
    using values_left [of k "cr_tasks s"] by (simp add: race_inv_def spec_write_latest)
qed

text \<open>Two updates of one key: the value that is older in one goroutine, the newer one in the other.\<close>

definition numbered :: "time \<Rightarrow> rat \<Rightarrow> svm" where
  "numbered t q = sample_svm (GFloat (Fin q)) \<lparr>svm_Timestamp := t\<rparr>"

definition numbered_key :: string where
  "numbered_key = cache_key (sample_svm GNil)"

lemma numbered_simps [simp]:
  "cache_key (numbered t q) = numbered_key"
  "svm_Timestamp (numbered t q) = t"
  by (simp_all add: numbered_def numbered_key_def cache_key_def sample_svm_def)

lemma numbered_scalar: "rfc3339_time t \<Longrightarrow> scalar (numbered t q)"
  by (simp add: scalar_def numbered_def sample_svm_def)

lemma values_of_number [simp]: "values_of [number_delta t q] = [numbered t q]"
  by (simp add: values_of_def numbered_def)

lemma store_numbered:
  assumes "rfc3339_time t" "known tally_codecs no_structs c (numbered_key) = None"
  obtains bytes where "Svm_UnmarshalJSON tally_codecs no_structs bytes = Inr (numbered t q)"
    "compare_value tally_codecs no_structs (bc_mappedCache c) (numbered t q) [] = Storing (numbered t q) bytes []"
  using compare_scalar [OF tally_faithful numbered_scalar, OF assms(1), of no_structs c q "[]"] assms(2)
  by (auto simp: is_news_def)

lemma update_number_latest:
  assumes "rfc3339_time t"
  shows "known tally_codecs no_structs (sk_cache (updateFullDataModel tally_codecs no_structs (number_delta t q) w)) k =
    latest_value k [numbered t q] (known tally_codecs no_structs (sk_cache w) k)"
  using cache_refines(1) [OF tally_faithful, of "[number_delta t q]" no_structs "sk_cache w"] numbered_scalar [OF assms, of q]
  by (simp add: updateFullDataModel_def spec_write_latest numbered_def del: spec_write.simps latest_value.simps)

lemma numbered_different: "q \<noteq> q' \<Longrightarrow> \<not> Svm_Equals (numbered t q) (numbered t' q')"
  by (simp add: Svm_Equals_def numbered_def sample_svm_def feq_def fle_finite)

theorem updates_apart_exact_witness:
  "\<exists>s. (apart_step tally_codecs no_structs numbered_key)\<^sup>*\<^sup>* (cache_start (NewSignalKWriter ''1'' ''x'') (Inr [])) s \<and>
     cr_received s = [numbered 5 1] \<and>
     known tally_codecs no_structs (sk_cache (cr_writer s)) numbered_key = Some (numbered 5 1)"
proof -
  let ?step = "apart_step tally_codecs no_structs numbered_key"
  let ?w = "NewSignalKWriter ''1'' ''x''"
  have time: "rfc3339_time 5" by (simp add: rfc3339_time_def)
  have empty: "known tally_codecs no_structs (sk_cache ?w) numbered_key = None"
    by (simp add: known_def latest_of_def NewSignalKWriter_def NewBigCache_def)
  obtain b where b: "compare_value tally_codecs no_structs (bc_mappedCache (sk_cache ?w)) (numbered 5 1) [] =
      Storing (numbered 5 1) b []"
    using store_numbered [OF time empty] by metis
  let ?s0 = "cache_start ?w (Inr [])"
  let ?s1 = "start_update False [number_delta 5 1] ?s0"
  let ?s2 = "?s1\<lparr>cr_tasks := [(False, Storing (numbered 5 1) b [])]\<rparr>"
  let ?s3 = "?s2\<lparr>cr_writer := store_value (numbered 5 1) b (start_writing ?w), cr_tasks := [(False, Comparing [])]\<rparr>"
  have 1: "?step ?s0 ?s1"
    using cache_step.receives [of tally_codecs no_structs ?s0 "number_delta 5 1"]
    by (simp add: apart_step_def apart_def cached_def start_update_def cache_start_def)
  have 2: "?step ?s1 ?s2"
    using cache_step.compares [of ?s1 "[]" False "numbered 5 1" "[]" "[]" tally_codecs no_structs] b
    by (simp add: apart_step_def apart_def cached_def start_update_def cache_start_def start_writing_def)
  have 3: "?step ?s2 ?s3"
    using cache_step.stores [of ?s2 "[]" False "numbered 5 1" b "[]" "[]" tally_codecs no_structs]
    by (simp add: apart_step_def apart_def cached_def start_update_def cache_start_def store_value_def start_writing_def
        update_conv')
  have run: "?step\<^sup>*\<^sup>* ?s0 ?s3"
    by (rule rtranclp.rtrancl_into_rtrancl [where r = ?step, OF _ 3] rtranclp.rtrancl_into_rtrancl [where r = ?step, OF _ 2]
      r_into_rtranclp [where r = ?step, OF 1])+
  have received: "cr_received ?s3 = [numbered 5 1]" by (simp add: start_update_def cache_start_def)
  have "\<forall>m\<in>set (cr_received ?s3). scalar m" "\<not> list_ex (concerns numbered_key) (cr_tasks ?s3)"
    unfolding received using numbered_scalar [OF time] by (simp_all add: concerns_def)
  from updates_apart_exact [OF tally_faithful run this]
  have "known tally_codecs no_structs (sk_cache (cr_writer ?s3)) numbered_key = Some (numbered 5 1)"
    unfolding received spec_write_latest empty by (simp add: is_news_def)
  with run received show ?thesis by (intro exI [of _ ?s3] conjI)
qed

text \<open>
  Without the condition the cache can keep the older value: both goroutines find nothing in the cache, and
  the one with the older value stores it last. One after another, in either order, the newer value stays.
\<close>

theorem racing_update_loses:
  fixes t\<^sub>1 t\<^sub>2 :: time and q\<^sub>1 q\<^sub>2 :: rat and v self :: string
  assumes "rfc3339_time t\<^sub>1" "rfc3339_time t\<^sub>2" "t\<^sub>1 < t\<^sub>2" "q\<^sub>1 \<noteq> q\<^sub>2"
  defines "k \<equiv> numbered_key" and "w \<equiv> NewSignalKWriter v self"
    and "upd \<equiv> updateFullDataModel tally_codecs no_structs"
  shows "(\<exists>s. (cache_step tally_codecs no_structs)\<^sup>*\<^sup>* (cache_start w answer) s \<and> cr_tasks s = [] \<and>
      cr_received s = [numbered t\<^sub>2 q\<^sub>2, numbered t\<^sub>1 q\<^sub>1] \<and>
      known tally_codecs no_structs (sk_cache (cr_writer s)) k = Some (numbered t\<^sub>1 q\<^sub>1)) \<and>
    known tally_codecs no_structs (sk_cache (upd (number_delta t\<^sub>1 q\<^sub>1) (upd (number_delta t\<^sub>2 q\<^sub>2) w))) k =
      Some (numbered t\<^sub>2 q\<^sub>2) \<and>
    known tally_codecs no_structs (sk_cache (upd (number_delta t\<^sub>2 q\<^sub>2) (upd (number_delta t\<^sub>1 q\<^sub>1) w))) k =
      Some (numbered t\<^sub>2 q\<^sub>2)"
proof (intro conjI)
  let ?step = "cache_step tally_codecs no_structs"
  let ?new = "numbered t\<^sub>2 q\<^sub>2" and ?old = "numbered t\<^sub>1 q\<^sub>1"
  let ?w = "start_writing w"
  have empty: "known tally_codecs no_structs (sk_cache w) k = None" "sk_cache ?w = sk_cache w"
    by (simp_all add: known_def latest_of_def w_def NewSignalKWriter_def NewBigCache_def start_writing_def)
  obtain b2 where b2: "Svm_UnmarshalJSON tally_codecs no_structs b2 = Inr ?new"
    "compare_value tally_codecs no_structs (bc_mappedCache (sk_cache w)) ?new [] = Storing ?new b2 []"
    using store_numbered [OF assms(2)] empty unfolding k_def by metis
  obtain b1 where b1: "Svm_UnmarshalJSON tally_codecs no_structs b1 = Inr ?old"
    "compare_value tally_codecs no_structs (bc_mappedCache (sk_cache w)) ?old [] = Storing ?old b1 []"
    using store_numbered [OF assms(1)] empty unfolding k_def by metis
  let ?s0 = "cache_start w answer"
  let ?s1 = "start_update False [number_delta t\<^sub>2 q\<^sub>2] ?s0"
  let ?s2 = "start_update False [number_delta t\<^sub>1 q\<^sub>1] ?s1"
  let ?s3 = "?s2\<lparr>cr_tasks := [(False, Storing ?new b2 []), (False, Comparing [?old])]\<rparr>"
  let ?s4 = "?s3\<lparr>cr_tasks := [(False, Storing ?new b2 []), (False, Storing ?old b1 [])]\<rparr>"
  let ?s5 = "?s4\<lparr>cr_writer := store_value ?new b2 ?w, cr_tasks := [(False, Comparing []), (False, Storing ?old b1 [])]\<rparr>"
  let ?s6 = "?s5\<lparr>cr_writer := store_value ?old b1 (store_value ?new b2 ?w),
    cr_tasks := [(False, Comparing []), (False, Comparing [])]\<rparr>"
  let ?s7 = "?s6\<lparr>cr_tasks := [(False, Comparing [])]\<rparr>"
  let ?s8 = "?s7\<lparr>cr_tasks := []\<rparr>"
  have 1: "?step ?s0 ?s1" and 2: "?step ?s1 ?s2" by (rule cache_step.receives)+
  have 3: "?step ?s2 ?s3"
    using cache_step.compares [of ?s2 "[]" False ?new "[]" "[(False, Comparing [?old])]" tally_codecs no_structs] b2 empty
    by (simp add: start_update_def cache_start_def)
  have 4: "?step ?s3 ?s4"
    using cache_step.compares [of ?s3 "[(False, Storing ?new b2 [])]" False ?old "[]" "[]" tally_codecs no_structs] b1 empty
    by (simp add: start_update_def cache_start_def)
  have 5: "?step ?s4 ?s5"
    using cache_step.stores [of ?s4 "[]" False ?new b2 "[]" "[(False, Storing ?old b1 [])]" tally_codecs no_structs]
    by (simp add: start_update_def cache_start_def)
  have 6: "?step ?s5 ?s6"
    using cache_step.stores [of ?s5 "[(False, Comparing [])]" False ?old b1 "[]" "[]" tally_codecs no_structs]
    by (simp add: start_update_def cache_start_def)
  have 7: "?step ?s6 ?s7"
    using cache_step.ends [of ?s6 "[]" False "[(False, Comparing [])]" tally_codecs no_structs]
    by simp
  have 8: "?step ?s7 ?s8"
    using cache_step.ends [of ?s7 "[]" False "[]" tally_codecs no_structs]
    by simp
  have "?step\<^sup>*\<^sup>* ?s0 ?s8"
    by (rule rtranclp.rtrancl_into_rtrancl [where r = ?step, OF _ 8] rtranclp.rtrancl_into_rtrancl [where r = ?step, OF _ 7]
      rtranclp.rtrancl_into_rtrancl [where r = ?step, OF _ 6] rtranclp.rtrancl_into_rtrancl [where r = ?step, OF _ 5]
      rtranclp.rtrancl_into_rtrancl [where r = ?step, OF _ 4] rtranclp.rtrancl_into_rtrancl [where r = ?step, OF _ 3]
      rtranclp.rtrancl_into_rtrancl [where r = ?step, OF _ 2] r_into_rtranclp [where r = ?step, OF 1])+
  moreover have "known tally_codecs no_structs (sk_cache (cr_writer ?s8)) k = Some ?old"
    using known_stored [OF b1(1)] by (simp add: k_def)
  ultimately show "\<exists>s. ?step\<^sup>*\<^sup>* ?s0 s \<and> cr_tasks s = [] \<and> cr_received s = [?new, ?old] \<and>
      known tally_codecs no_structs (sk_cache (cr_writer s)) k = Some ?old"
    by (intro exI [of _ ?s8] conjI) (simp_all add: start_update_def cache_start_def)
  show "known tally_codecs no_structs (sk_cache (upd (number_delta t\<^sub>1 q\<^sub>1) (upd (number_delta t\<^sub>2 q\<^sub>2) w))) k = Some ?new"
    using empty assms(1-4) by (simp add: upd_def update_number_latest k_def is_news_def numbered_different)
  show "known tally_codecs no_structs (sk_cache (upd (number_delta t\<^sub>2 q\<^sub>2) (upd (number_delta t\<^sub>1 q\<^sub>1) w))) k = Some ?new"
    using empty assms(1-4) by (simp add: upd_def update_number_latest k_def is_news_def numbered_different)
qed

end
