(* ===== verification/Spec2Isabelle.thy ===== *)
theory Spec2Isabelle
  imports ModbusClient ModbusMapper TextMappers CanBus Nmea Lwe RateLimit DeltaMappers BigCache FloatFinite
    Websocket Mqtt TransferRound Commands SignalK Sockets WriterPool LineStream StreamConnection CommandLine
    SignalKStream MqttLink ShipToShore TransferRun LineBuffer ConnectorStreams LweRun IncompletePeriods
    Topics CacheRace PollStream PollGroups Runes
begin

text \<open>
  gosk collects data from sensors on board of a ship, maps it to Signal K deltas, stores it and passes
  it on. This development models its Go code and proves what makes its parts correct.

  \<^bold>\<open>The program.\<close> Every part is a process of its own; they are connected by NanoMSG sockets that carry
  JSON documents. A connector (\<open>connector/\<close>) reads a device and publishes every frame or line as a
  raw message; the subscribing half of a connector writes raw messages to its device. A mapper of raw
  messages (\<open>mapper/modbus.go\<close>, \<open>csv.go\<close>, \<open>json.go\<close>, \<open>canbus.go\<close>, \<open>nmea0183.go\<close>) turns them into
  deltas; a mapper of deltas (\<open>aggregate.go\<close>, \<open>expression_filter.go\<close>, \<open>ratelimit_filter.go\<close>) turns deltas
  into deltas. Both kinds are driven by the two loops of \<open>mapper/main.go\<close>. Writers (\<open>writer/\<close>) take the
  messages to PostgreSQL, to MQTT, to light-weight Ethernet, to WebSocket clients or serve them as a
  Signal K server; a reader (\<open>reader/mqtt.go\<close>) brings deltas back from MQTT. The transfer
  (\<open>transfer/\<close>) repairs gaps between the databases on ship and shore over MQTT.

  \<^bold>\<open>Theories and code.\<close>
  \<^item> \<open>Prelude\<close>: words, instants (nanoseconds as \<open>int\<close>), Go maps as association lists, errors as values,
    Mealy machines (\<open>machine_state\<close>, \<open>machine_outputs\<close>) for loops over received messages, and the
    interfaces of the components as locales.
  \<^item> \<open>Float64\<close>, \<open>FloatFinite\<close>: Go's \<open>float64\<close> with its rounding, as far as the program computes with it. \<open>Runes\<close>: the
    UTF-8 decoding behind \<open>range\<close> loops and \<open>strings.FieldsFunc\<close>.
  \<^item> \<open>Values\<close>, \<open>Message\<close>, \<open>Wire\<close>: \<open>message/\<close>. The dynamic values of deltas with their merging and
    decoding, the records and builders, and their JSON forms.
  \<^item> \<open>Expressions\<close>: \<open>mapper/expressions.go\<close>. \<open>Mapper\<close>: the loops of \<open>mapper/main.go\<close>, with the locales
    \<open>real_mapper\<close> and \<open>delta_mapper\<close> that every mapper interprets.
  \<^item> \<open>ModbusProtocol\<close>, \<open>ModbusClient\<close>: \<open>protocol/modbus.go\<close> and the register group limits of
    \<open>connector/modbus.go\<close>. \<open>PollStream\<close>: the buffer that polling and publishing share.
    \<open>PollGroups\<close>: the goroutines of \<open>connector/modbus.go\<close> and \<open>connector/http.go\<close>.
  \<^item> \<open>ModbusMapper\<close>, \<open>TextMappers\<close>, \<open>CanBus\<close>, \<open>Nmea\<close>: the mappers of raw messages.
    \<open>DeltaMappers\<close>, \<open>RateLimit\<close>: the mappers of deltas.
  \<^item> \<open>Connector\<close>, \<open>LineStream\<close>: \<open>connector/main.go\<close>, the connections and lines of \<open>connector/line.go\<close> and the
    subscribing halves. \<open>LineBuffer\<close>: the publishing half of \<open>connector/line.go\<close> with the scanner's buffers.
    \<open>ConnectorStreams\<close>: the publishing halves of \<open>connector/canbus.go\<close> and \<open>connector/http.go\<close>.
    \<open>Config\<close>: \<open>config/\<close>. \<open>Sockets\<close>: \<open>nanomsg/proxy.go\<close>, \<open>writer/stdout.go\<close> and the options of \<open>mqtt/main.go\<close>.
  \<^item> \<open>BigCache\<close>: \<open>database/bigcache.go\<close>. \<open>Postgres\<close>, \<open>Database\<close>: \<open>database/postgresql.go\<close> and
    \<open>writer/postgresql.go\<close>. \<open>Mqtt\<close>: \<open>writer/mqtt.go\<close> and \<open>reader/mqtt.go\<close>, one message after another. \<open>MqttLink\<close>: the rest of
    \<open>mqtt/main.go\<close>, with the goroutines of \<open>sendMQTT\<close> and of the reader's handlers and the broker between them. \<open>Lwe\<close>,
    \<open>LweRun\<close>: \<open>writer/lwe.go\<close>, one message after another and with its goroutines. \<open>Websocket\<close>,
    \<open>StreamConnection\<close>: \<open>writer/websocket.go\<close>, the hub, and the connections with their pumps. \<open>SignalK\<close>,
    \<open>SignalKStream\<close>: \<open>writer/signalk*.go\<close>. \<open>CacheRace\<close>: the goroutines that fill its cache. \<open>WriterPool\<close>: the receiver and workers of \<open>writer/postgresql.go\<close>.
  \<^item> \<open>ShipToShore\<close>: the way of a delta over MQTT and through the workers of the writer on shore to the batches of
    the database, with their races.
  \<^item> \<open>DataTransfer\<close>, \<open>TransferRound\<close>: \<open>transfer/request.go\<close> and \<open>transfer/respond.go\<close>, and a round of them
    between two tables. \<open>TransferRun\<close>: the goroutines and workers of the data requests. \<open>IncompletePeriods\<close>: the
    view and the query that select the periods. \<open>Topics\<close>: which subscription gets what.
  \<^item> \<open>Commands\<close>: \<open>cmd/map.go\<close>, \<open>connect.go\<close>, \<open>filter.go\<close>, \<open>ratelimit.go\<close> and \<open>test.go\<close>, which put the components
    together. \<open>CommandLine\<close>: the commands and flags of \<open>cmd/\<close>, what each of them starts, and \<open>main.go\<close>.

  \<^bold>\<open>How code is modelled.\<close> A struct is a record with the fields' names and a short prefix, a function has
  the function's name (with a prefix such as \<open>Db_\<close> or \<open>Svm_\<close> where two types have a method of one
  name). A method that changes its receiver returns it. Errors are the left side of a sum. Panics are
  values as well: an index out of range, a failed type assertion and a send on a closed channel each
  have a constructor or end the run. A loop over received messages is a step function on the state of
  its receiver, run by \<open>machine_state\<close> and \<open>machine_outputs\<close>; the receive, unmarshal, marshal and
  send of a step are parameters or arguments with their failures. Goroutines that share state are
  \<open>inductive\<close> step relations, in which every interleaving is a path: a step is an access to what is shared or an operation
  that can block, with what the goroutine does on its own before the next one. Accepting a value and putting it on
  a channel, starting a goroutine and its work, reading into a shared buffer byte by byte and copying from it, writing a message and counting it
  are separate steps. Appending to one slice or map is one step; the memory races below that are not modelled. Integers that
  can overflow are words; Go's maps are association lists of which no property uses the order except
  where the code depends on it, and then the order is arbitrary in the statement.

  \<^bold>\<open>What is shown.\<close>
  \<^item> Messages: the JSON forms round trip (\<open>svm_json_roundtrip\<close>), provenance is kept by all mapper loops
    and from the connector to the delta (\<open>mappers_keep_provenance\<close>, \<open>pipeline_provenance\<close>) and filters only select (\<open>filters_select\<close>).
  \<^item> Devices: the frame format is a bijection, polling stays inside its buffer, writes are exact, what
    was read from a device is what the mapper computes with (\<open>device_to_mapper\<close>), and
    what is published is what the other side writes (\<open>relay_exact\<close>, \<open>line_repeater\<close>); in every interleaving the
    bytes of published frames are at most two reads late (\<open>poll_published_late\<close>), and a frame can be a mixture of two reads
    (\<open>poll_frame_torn\<close>); lines are published as they are
    unless the scanner moves its buffer (\<open>lines_published\<close>, \<open>line_overwritten\<close>), and CAN frames arrive
    through lost connections (\<open>can_frames_delivered\<close>).
  \<^item> Mappers: each one's result as a function of the configured mappings and the message, on the error
    paths too, for NMEA against the SignalK paths and values of the readings (\<open>sk_value\<close>); the rate limit refines the greedy filter of a stream.
  \<^item> Stores: the cache refines the map of latest values; batches are sent once and in order, and in
    every interleaving none is sent twice and no message is written twice
    (\<open>writer_writes_once\<close>); over MQTT the order of deltas is kept within a batch, while batches can overtake each other, be lost or be
    handled again (\<open>mqtt_delivery\<close>); what reaches the database comes from the ship, no more often than it was received there, and
    when nothing is lost on the way every statement is put on a batch once (\<open>ship_to_shore\<close>), where a
    race can still lose it (\<open>db_write_lost\<close>); the goroutines of the LWE writer are
    linearizable (\<open>lwe_linearizable\<close>); those that fill the cache of the Signal K server are right about every
    key that is not evicted and whose updates do not overlap, as long as values are numbers and strings (\<open>updates_apart_exact\<close>), and not otherwise (\<open>racing_update_loses\<close>).
  \<^item> Clients: pattern matching is equivalent to the language of the pattern, subscriptions refine sets of
    pairs of patterns, the hub never sends on a closed channel and broadcasts exactly, and
    what is written to a connection is what is due to it (\<open>stream_delivers\<close>).
  \<^item> Transfer: a round brings the requester the rows it lacks when its own are among the responder's (\<open>transfer_round_completes\<close>; not otherwise,
    \<open>equal_counts_hide_rows\<close>), the loop over periods ends, answered
    periods are not asked for again, the latest gaps come first (\<open>latest_gaps_first\<close>), and no selected period is
    lost but by a failed query (\<open>data_requests_accounted\<close>).
  \<^item> Commands: what a command starts depends on its own flags and the configuration only, and which flags may be left out
    (\<open>flags_suffice\<close>).
  \<^item> Where the code does not do what it means to, a theorem says what it does: for instance
    \<open>unit_id_mixup\<close>, \<open>second_failure_panics\<close>, \<open>hub_blocked_forever\<close>, \<open>boolean_hides_data_model\<close>,
    \<open>line_overwritten\<close>, \<open>poll_frame_torn\<close>, \<open>modbus_test_one_value\<close>, \<open>stream_lasts_a_minute\<close>, \<open>gauge_not_requested\<close>,
    \<open>racing_update_loses\<close>.

  \<^bold>\<open>Loops that may not end.\<close> \<open>createConnection\<close>, the loop over the periods of an origin and the
  retried subscription of \<open>connect\<close> may run for ever; they are \<open>partial_function (option)\<close>, and
  \<open>connection_first_success\<close>, \<open>period_loop_returns\<close> and \<open>subscription_first_success\<close> show when they return and what. All other recursion is total. There is no fuel.

  \<^bold>\<open>Parameters.\<close> Libraries are arguments: the expression language, the decoding of structures
  (mapstructure), the JSON text, the textual forms of instants, uuids and floats, the NMEA, DBC and
  regular expression parsers, the Unicode tables, zstd, the Modbus client, the broker, the answers of the database
  server, viper and gabs. The properties' hypotheses on them are documented behaviour, mostly that a
  decoder inverts its encoder, and every witness gives them a concrete function.

  \<^bold>\<open>Not modelled.\<close> Logging, and the pages of profiling and metrics; the parsing of a command line, which is
  the library's; HTTP headers; \<open>fmt\<close>'s formatting; the SQL of the statements beyond the keys and conditions the transfer depends on; time-outs,
  except where they decide a branch.
\<close>

section \<open>Properties that span components\<close>

text \<open>Provenance through the mapper loops. Whatever messages arrive and whatever goes wrong, the
  loop of each of the five mappers of raw messages publishes at most one message per message
  received, and that is the encoding of a delta all of whose updates carry the connector, the uuid and the
  timestamp of the raw message that was received, and the protocol of the mapper.\<close>

theorem mappers_keep_provenance:
  "list_all2 (published ModbusType unmarshal marshal) inputs
     (machine_outputs (process_step unmarshal marshal (Modbus_DoMap lib ms)) (Some (raw, NewModbusMapper ctx mmc)) inputs) \<and>
   list_all2 (published CSVType unmarshal marshal) inputs
     (machine_outputs (process_step unmarshal marshal (CSV_DoMap lib ms tx)) (Some (raw, NewCSVMapper ctx sep sl cmc)) inputs) \<and>
   list_all2 (published JSONType unmarshal marshal) inputs
     (machine_outputs (process_step unmarshal marshal (JSON_DoMap lib ms parse)) (Some (raw, NewJSONMapper ctx jmc)) inputs) \<and>
   list_all2 (published CanBusType unmarshal marshal) inputs
     (machine_outputs (process_step unmarshal marshal (CanBus_DoMap lib ms)) (Some (raw, NewCanBusMapper ctx dbc cbc)) inputs) \<and>
   list_all2 (published NMEA0183Type unmarshal marshal) inputs
     (machine_outputs (process_step unmarshal marshal (Nmea_DoMap uc sentences)) (Some (raw, NewNmea0183Mapper ctx options)) inputs)"
  by (intro conjI modbus.process_publishes csv.process_publishes json.process_publishes
      canbus.process_publishes nmea.process_publishes)

text \<open>Filters only select. The loops of the rate limit filter and of the expression filter publish
  only non-empty results that are selections of the delta received; and over a whole run of a filter
  the values let through are, in order and each at most once, among the values it was given.\<close>

theorem filters_select:
  "list_all2 (published_delta filters unmarshal marshal) inputs
     (machine_outputs (processMapped_step unmarshal marshal RateLimit_DoMap) (Some (held, NewRateLimitFilter di rls)) inputs) \<and>
   list_all2 (published_delta filters unmarshal marshal) inputs
     (machine_outputs (processMapped_step unmarshal marshal (ExpressionFilter_DoMap lib ms)) (Some (held, NewExpressionFilter emc)) inputs) \<and>
   subseq (concat (map (\<lambda>out. case out of Inl _ \<Rightarrow> [] | Inr m \<Rightarrow> ToSingleValueMapped m)
       (machine_outputs RateLimit_DoMap (NewRateLimitFilter di rls) deltas)))
     (concat (map ToSingleValueMapped deltas)) \<and>
   subseq (concat (map (\<lambda>out. case out of Inl _ \<Rightarrow> [] | Inr m \<Rightarrow> ToSingleValueMapped m)
       (machine_outputs (ExpressionFilter_DoMap lib ms) (NewExpressionFilter emc) deltas)))
     (concat (map ToSingleValueMapped deltas))"
  by (intro conjI ratelimit.processMapped_publishes exprfilter.processMapped_publishes
      ratelimit.run_subseq exprfilter.run_subseq)

text \<open>Registers from the device to the mapper. When the connector publishes a register frame it read,
  then, whatever the Modbus mapper received before, after this message the registers in its
  environment are exactly the values the device returned, at their addresses.\<close>

theorem device_to_mapper:
  assumes "faithful_codecs tc" "\<And>r. parse (print (Raw_MarshalJSON tc r)) = Some (Raw_MarshalJSON tc r)" "rfc3339_time t"
    and "is_register_read (mh_FunctionCode h)"
    and "dev_ReadRegisters dev (mh_Slave h) (mh_Address h) (mh_NumberOfCoilsOrRegisters h)
      (if mh_FunctionCode h = READ_HOLDING_REGISTERS then HOLDING_REGISTER else INPUT_REGISTER) = Inr rs" "rs \<noteq> []"
    and "read_frame dev h = Inr frame"
    and "process (json_marshal tc print) send connector protocol [(u, t, frame)] = [bytes]"
    and "machine_state (process_step (unmarshal_into tc parse) marshal (Modbus_DoMap lib ms))
      (Some (raw, NewModbusMapper ctx mmc)) earlier = Some (held, m)"
  shows "\<exists>held' m' regs.
    fst (process_step (unmarshal_into tc parse) marshal (Modbus_DoMap lib ms) (Some (held, m)) (Received bytes)) =
      Some (held', m') \<and>
    map_of (mb_env m') ''registers'' = Some (GRegisters regs) \<and>
    (\<forall>k. map_of regs k =
       (if int (unat (mh_Address h)) \<le> k \<and> k < int (unat (mh_Address h)) + int (length rs)
        then Some (rs ! nat (k - int (unat (mh_Address h)))) else None))"
proof -
  let ?r = "\<lparr>raw_Connector = connector, raw_Timestamp = t, raw_Type = protocol, raw_Uuid = u, raw_Value = frame\<rparr>"
  have frame: "frame = InjectModbusHeader h (RegistersToBytes rs)"
    using assms(4,5,7) read_codes_distinct by (auto simp: is_register_read_def read_frame_def Let_def split: if_splits)
  have "bytes = print (Raw_MarshalJSON tc ?r)"
    using assms(8) by (simp add: process_def List.map_filter_simps process_value_def json_marshal_def Let_def
        NewRaw_def WithConnector_def WithRawValue_def WithRawType_def split: if_splits)
  then have un: "unmarshal_into tc parse bytes held = (?r, True)"
    using Raw_Unmarshal_Marshal [OF assms(1), of ?r held] assms(2,3) by (simp add: unmarshal_into_def)
  have "modbus_inv ctx mmc m"
    using modbus.process_invariant [where unmarshal = "unmarshal_into tc parse" and marshal = marshal
        and lib = lib and ms = ms and raw = raw and ctx = ctx and mmc = mmc and inputs = earlier]
    unfolding assms(9) by simp
  then show ?thesis
  proof (cases rule: DoMap_cases [of ctx mmc m ?r lib ms])
    case short
    then show ?thesis using assms(6) by (simp add: frame)
  next
    case (mapped h' bs env x)
    have h: "h' = h" "bs = RegistersToBytes rs"
      using mapped(1) frame frame.enc_inject [of "(h', bs)" "(h, RegistersToBytes rs)"] by simp_all
    have "update_registers t (int (unat (mh_Address h))) rs (mb_env m) = Some env"
      using mapped(4) assms(4) by (simp add: h frame)
    then have "map_of env ''registers'' = Some (GRegisters (store_from (int (unat (mh_Address h))) (\<lambda>_ r. r) rs []))"
      by (auto simp: update_registers_def Let_def update_conv' split: option.splits gval.splits)
    then show ?thesis
      using mapped(6) un by (auto simp: map_of_store_from split: sum.split)
  qed
qed

theorem device_to_mapper_witness:
  "\<exists>bytes held' m' regs.
    process (json_marshal tally_codecs sample_print) (\<lambda>_. True) ''c'' ''modbus''
      [(1, 0, InjectModbusHeader sample_header (RegistersToBytes [51440, 51440]))] = [bytes] \<and>
    fst (process_step (unmarshal_into tally_codecs sample_parse) (\<lambda>m. Inr [1]) (Modbus_DoMap variables no_structs)
      (Some (NewRaw 0 0, NewModbusMapper ''x'' [])) (Received bytes)) = Some (held', m') \<and>
    map_of (mb_env m') ''registers'' = Some (GRegisters regs) \<and> map_of regs 51441 = Some 51440"
proof -
  let ?f = "InjectModbusHeader sample_header (RegistersToBytes [51440, 51440])"
  let ?in = "process (json_marshal tally_codecs sample_print) (\<lambda>_. True) ''c'' ''modbus'' [(1, 0, ?f)]"
  obtain bytes where b: "?in = [bytes]"
    by (simp add: process_def List.map_filter_simps process_value_def json_marshal_def Let_def)
  have h: "unat (mh_Address sample_header) = 51440" "is_register_read (mh_FunctionCode sample_header)"
    by (simp_all add: sample_header_def is_register_read_def)
  have two: "replicate 2 (51440 :: u16) = [51440, 51440]" by (simp add: numeral_2_eq_2)
  have d: "dev_ReadRegisters sample_device (mh_Slave sample_header) (mh_Address sample_header)
      (mh_NumberOfCoilsOrRegisters sample_header) k = Inr [51440, 51440]" for k
    by (simp add: sample_device_def sample_header_def two)
  have f: "read_frame sample_device sample_header = Inr ?f" by code_simp
  from device_to_mapper [OF tally_faithful sample_parse_print _ h(2) d _ f b, of "\<lambda>m. Inr [1]" variables no_structs
      "NewRaw 0 0" "''x''" "[]" "[]" "NewRaw 0 0" "NewModbusMapper ''x'' []"]
  obtain held' m' regs where
    "fst (process_step (unmarshal_into tally_codecs sample_parse) (\<lambda>m. Inr [1]) (Modbus_DoMap variables no_structs)
      (Some (NewRaw 0 0, NewModbusMapper ''x'' [])) (Received bytes)) = Some (held', m')"
    "map_of (mb_env m') ''registers'' = Some (GRegisters regs)" "map_of regs 51441 = Some 51440"
    by (auto simp: rfc3339_time_def h(1))
  with b show ?thesis by blast
qed

end
